(* ===== verification/Prelude.thy ===== *)
theory Prelude
  imports "HOL-Library.Word"
begin

text \<open>
  Vocabulary shared by every component: the C integer types as words, byte buffers as
  lists, the copying primitives (\<open>memcpy\<close> at an offset, a slice of a buffer), the two
  byte orders, checked reads, and the generic facts on lists, words and modular distance
  the components use.
\<close>

unbundle bit_operations_syntax

type_synonym u8 = "8 word"
type_synonym u16 = "16 word"
type_synonym u32 = "32 word"
type_synonym u64 = "64 word"
type_synonym bytes = "8 word list"

named_theorems mem_simps "lengths and elements of slices and copies"

section \<open>Buffers\<close>

text \<open>\<open>slice off n xs\<close> is the \<open>n\<close> bytes at offset \<open>off\<close>; \<open>memcpy_at dst off src\<close> is
  \<open>memcpy(dst + off, src, |src|)\<close> on a destination that is long enough.\<close>

definition slice :: "nat \<Rightarrow> nat \<Rightarrow> 'a list \<Rightarrow> 'a list" where
  "slice off n xs = take n (drop off xs)"

definition memcpy_at :: "'a list \<Rightarrow> nat \<Rightarrow> 'a list \<Rightarrow> 'a list" where
  "memcpy_at dst off src = take off dst @ src @ drop (off + length src) dst"

text \<open>A checked read: \<open>None\<close> is an access outside the object.\<close>

definition rd :: "'a list \<Rightarrow> nat \<Rightarrow> 'a option" where
  "rd xs i = (if i < length xs then Some (xs ! i) else None)"

definition le16 :: "u8 \<Rightarrow> u8 \<Rightarrow> u16" where
  "le16 b0 b1 = ucast b0 OR push_bit 8 (ucast b1)"

definition be16 :: "u8 \<Rightarrow> u8 \<Rightarrow> u16" where
  "be16 b0 b1 = push_bit 8 (ucast b0) OR ucast b1"

definition lo8 :: "u16 \<Rightarrow> u8" where
  "lo8 w = ucast w"

definition hi8 :: "u16 \<Rightarrow> u8" where
  "hi8 w = ucast (drop_bit 8 w)"

text \<open>A checked block read.\<close>

definition rds :: "'a list \<Rightarrow> nat \<Rightarrow> nat \<Rightarrow> 'a list option" where
  "rds mem off n = (if off + n \<le> length mem then Some (slice off n mem) else None)"

text \<open>A checked copy into an array.\<close>

definition wr :: "'a list \<Rightarrow> nat \<Rightarrow> 'a list \<Rightarrow> 'a list option" where
  "wr dst off src = (if off + length src \<le> length dst then Some (memcpy_at dst off src) else None)"

lemma length_slice [simp, mem_simps]:
  "off + n \<le> length xs \<Longrightarrow> length (slice off n xs) = n"
  by (simp add: slice_def)

lemma length_slice_le: "length (slice off n xs) \<le> n"
  by (simp add: slice_def)

lemma nth_slice [simp, mem_simps]:
  "off + n \<le> length xs \<Longrightarrow> i < n \<Longrightarrow> slice off n xs ! i = xs ! (off + i)"
  by (simp add: slice_def)

lemma length_memcpy_at [simp, mem_simps]:
  "off + length src \<le> length dst \<Longrightarrow> length (memcpy_at dst off src) = length dst"
  by (simp add: memcpy_at_def)

lemma nth_memcpy_at:
  assumes "off + length src \<le> length dst" "i < length dst"
  shows "memcpy_at dst off src ! i =
    (if off \<le> i \<and> i < off + length src then src ! (i - off) else dst ! i)"
  using assms by (auto simp: memcpy_at_def nth_append min_def)

lemma slice_memcpy_at [simp, mem_simps]:
  "off \<le> length dst \<Longrightarrow> n = length src \<Longrightarrow> slice off n (memcpy_at dst off src) = src"
  by (simp add: slice_def memcpy_at_def)

lemma slice_0 [simp]: "slice 0 n xs = take n xs"
  by (simp add: slice_def)

lemma rd_Some [simp]: "i < length xs \<Longrightarrow> rd xs i = Some (xs ! i)"
  by (simp add: rd_def)

lemma rd_eq_None [simp]: "rd xs i = None \<longleftrightarrow> length xs \<le> i"
  by (simp add: rd_def)

lemma wr_Some: "off + length src \<le> length dst \<Longrightarrow> wr dst off src = Some (memcpy_at dst off src)"
  by (simp add: wr_def)

lemma nth_append_off: "(p @ s) ! (length p + i) = s ! i"
  by (simp add: nth_append)

lemma slice_append_off: "slice (length p + off) n (p @ s) = slice off n s"
  by (simp add: slice_def)

lemma slice_take: "off + n \<le> length s \<Longrightarrow> slice off n (s @ r) = slice off n s"
  by (simp add: slice_def)

lemma rds_Some: "off + n \<le> length f \<Longrightarrow> rds f off n = Some (slice off n f)"
  by (simp add: rds_def)

section \<open>Byte order\<close>

lemma bit_le16: "bit (le16 b0 b1) n \<longleftrightarrow> (if n < 8 then bit b0 n else n < 16 \<and> bit b1 (n - 8))"
  by (auto simp: le16_def bit_or_iff bit_push_bit_iff bit_ucast_iff dest: bit_imp_le_length)

lemma be16_eq_le16: "be16 b0 b1 = le16 b1 b0"
  by (simp add: be16_def le16_def or.commute)

lemma lo8_le16 [simp]: "lo8 (le16 b0 b1) = b0"
  by (rule bit_word_eqI) (simp add: lo8_def bit_ucast_iff bit_le16)

lemma hi8_le16 [simp]: "hi8 (le16 b0 b1) = b1"
  by (rule bit_word_eqI) (simp add: hi8_def bit_ucast_iff bit_drop_bit_eq bit_le16)

lemma le16_lo8_hi8 [simp]: "le16 (lo8 w) (hi8 w) = w"
  by (rule bit_word_eqI) (auto simp: lo8_def hi8_def bit_ucast_iff bit_drop_bit_eq bit_le16)

lemma be16_hi8_lo8 [simp]: "be16 (hi8 w) (lo8 w) = w"
  by (simp add: be16_eq_le16)

section \<open>Words\<close>

lemma mod_shift_inj:
  fixes i j h n :: nat
  assumes "(j + h) mod n = (i + h) mod n" "i < n" "j < n"
  shows "j = i"
proof -
  have *: "a = b" if "(a + h) mod n = (b + h) mod n" "b \<le> a" "a < n" for a b
  proof -
    have "n dvd a - b" using that mod_eq_dvd_iff_nat[of "b + h" "a + h" n] by simp
    with that show ?thesis by (auto dest: dvd_imp_le)
  qed
  show ?thesis
  proof (cases "i \<le> j")
    case True then show ?thesis using *[of j i] assms by simp
  next
    case False then show ?thesis using *[of i j] assms by simp
  qed
qed

lemma xor_cancel_right [simp]: "((a :: 'a::len word) XOR b) XOR b = a"
  by (simp add: xor.assoc)

lemma xor_cancel_left [simp]: "(b :: 'a::len word) XOR (b XOR a) = a"
  by (simp flip: xor.assoc)

lemma all_words_8:
  "(\<forall>x :: u8. P x) \<longleftrightarrow> list_all P (map word_of_nat [0..<256])"
proof
  assume *: "list_all P (map (word_of_nat :: nat \<Rightarrow> u8) [0..<256])"
  show "\<forall>x :: u8. P x"
  proof
    fix x :: u8
    have "unat x < 256" using unsigned_less [of x] by simp
    moreover have "x = word_of_nat (unat x)" by simp
    ultimately have "x \<in> set (map (word_of_nat :: nat \<Rightarrow> u8) [0..<256])"
      by (metis atLeastLessThan_iff image_eqI list.set_map set_upt zero_le)
    with * show "P x" by (simp only: list_all_iff)
  qed
qed (simp add: list_all_iff)

lemma uint_and_mask: "uint (w AND mask n :: 'a::len word) = uint w mod 2 ^ n"
  by (simp only: unsigned_take_bit_eq take_bit_eq_mod[of n "uint w"] flip: take_bit_eq_mask)

lemma uint_and_0xFFF: "uint (w AND 0xFFF :: u16) = uint w mod 4096"
  using uint_and_mask[of w 12] by (simp add: mask_eq_exp_minus_1)

lemma unat_and_mask: "unat (w AND mask n :: 'a::len word) = unat w mod 2 ^ n"
  by (simp only: unsigned_take_bit_eq take_bit_eq_mod[of n "unat w"] flip: take_bit_eq_mask)

lemma unat_and_0xFFF: "unat (w AND 0xFFF :: u16) = unat w mod 4096"
  using unat_and_mask[of w 12] by (simp add: mask_eq_exp_minus_1)

text \<open>Distances between 12-bit sequence numbers, computed in 16 bits.\<close>

lemma sn_dist: "uint ((a - h) AND 0xFFF :: u16) = (uint a - uint h) mod 4096"
  by (simp add: uint_and_0xFFF uint_word_ariths mod_mod_cancel)

lemma sn_succ: "uint ((h + 1) AND 0xFFF :: u16) = (uint h + 1) mod 4096"
  by (simp add: uint_and_0xFFF uint_word_ariths mod_mod_cancel)

lemma sn_succ_unat: "unat ((h + 1) AND 0xFFF :: u16) = (unat h + 1) mod 4096"
proof -
  have "int (unat ((h + 1) AND 0xFFF)) = int ((unat h + 1) mod 4096)"
    using sn_succ[of h] by (simp add: zmod_int add.commute)
  then show ?thesis by (simp only: of_nat_eq_iff)
qed

lemma sn_dist_unat: "int (unat ((a - h) AND 0xFFF :: u16)) = (int (unat a) - int (unat h)) mod 4096"
  using sn_dist[of a h] by simp

lemma mod_pred: "(x :: int) mod m \<noteq> 0 \<Longrightarrow> 0 < m \<Longrightarrow> (x - 1) mod m = x mod m - 1"
  by (smt (verit) mod_diff_left_eq mod_pos_pos_trivial pos_mod_bound pos_mod_sign)

lemma sn_dist_succ:
  fixes a h :: u16
  assumes "(a - h) AND 0xFFF \<noteq> 0"
  shows "uint ((a - ((h + 1) AND 0xFFF)) AND 0xFFF) = uint ((a - h) AND 0xFFF) - 1"
proof -
  have nz: "(uint a - uint h) mod 4096 \<noteq> 0"
    using assms by (simp flip: sn_dist add: uint_0_iff)
  have "(uint a - (uint h + 1) mod 4096) mod 4096 = (uint a - uint h - 1) mod 4096"
    by (simp add: mod_diff_right_eq diff_diff_eq)
  with mod_pred[OF nz] show ?thesis
    unfolding sn_dist sn_succ by simp
qed

lemma sn_dist_succ_unat:
  fixes a h :: u16
  assumes "(a - h) AND 0xFFF \<noteq> 0"
  shows "unat ((a - ((h + 1) AND 0xFFF)) AND 0xFFF) = unat ((a - h) AND 0xFFF) - 1"
  using sn_dist_succ[OF assms] by (simp only: unat_eq_nat_uint nat_diff_distrib nat_1 flip: nat_one_as_int)

lemma sn_dist_less:
  fixes a h :: u16
  assumes "(a - h) AND 0xFFF \<noteq> 0"
  shows "unat ((a - ((h + 1) AND 0xFFF)) AND 0xFFF) < unat ((a - h) AND 0xFFF)"
proof -
  have "unat ((a - h) AND 0xFFF) \<noteq> 0" using assms by (simp only: unat_eq_0 simp_thms)
  then show ?thesis unfolding sn_dist_succ_unat[OF assms] by simp
qed

text \<open>Shifts and ranges of words, read as natural numbers.\<close>

lemma unat_drop_bit_div: "unat (drop_bit n w) = unat w div 2 ^ n"
  by (simp only: unat_drop_bit_eq drop_bit_eq_div[of n "unat w"])

lemma unat_push_bit_mult:
  "unat (push_bit n (w :: 'a::len word)) = unat w * 2 ^ n mod 2 ^ LENGTH('a)"
  by (simp only: unsigned_push_bit_eq push_bit_eq_mult[of n "unat w"]
      take_bit_eq_mod[of "LENGTH('a)" "unat w * 2 ^ n"])

lemma unat_u8_less: "unat (w :: u8) < 256"
  using unsigned_less[of w] by simp

lemma unat_u16_less: "unat (w :: u16) < 65536"
  using unsigned_less[of w] by simp

lemma unat_u32_less: "unat (w :: u32) < 4294967296"
  using unsigned_less[of w] by simp

lemma unat_word_of_nat_small: "n < 2 ^ 32 \<Longrightarrow> unat (word_of_nat n :: u32) = n"
  by (simp only: unsigned_of_nat take_bit_eq_mod[of _ n]) simp

lemma unat_u16_small: "n < 65536 \<Longrightarrow> unat (word_of_nat n :: u16) = n"
  by (simp only: unsigned_of_nat take_bit_eq_mod[of _ n]) simp

lemma unat_ucast_mod:
  "unat (ucast (w :: 'a::len word) :: 'b::len word) = unat w mod 2 ^ LENGTH('b)"
  by (simp only: unsigned_ucast_eq take_bit_eq_mod[of "LENGTH('b)" "unat w"])

text \<open>A loop whose steps undo the steps of another, run backwards.\<close>

lemma fold_undo:
  assumes "\<And>x s. x \<in> set xs \<Longrightarrow> I s \<Longrightarrow> I (f x s) \<and> g x (f x s) = s" "I s"
  shows "I (fold f xs s) \<and> fold g (rev xs) (fold f xs s) = s"
  using assms
proof (induction xs rule: rev_induct)
  case (snoc x xs)
  then have "I (fold f xs s) \<and> fold g (rev xs) (fold f xs s) = s" by simp
  moreover from this snoc.prems(1)[of x "fold f xs s"] have "I (f x (fold f xs s)) \<and> g x (f x (fold f xs s)) = fold f xs s"
    by simp
  ultimately show ?case by simp
qed simp

end
