(* ===== verification/Bitops.thy ===== *)
theory Bitops
  imports Prelude
begin

text \<open>
  The bit-level shims of \<open>src/compat/linux\<close>: \<open>bitops.h\<close> (bitmaps and their searches,
  rotations, masks), \<open>bitfield.h\<close> (\<open>FIELD_PREP\<close> and its typed variants), \<open>bcd.h\<close>,
  \<open>asm/unaligned.h\<close>, the \<open>jiffies.h\<close> comparisons and the \<open>fls\<close> / \<open>sign_extend32\<close>
  helpers of \<open>rtw88_compat.c\<close>.  \<open>unsigned long\<close> is a 64-bit word and a bitmap is a list of
  them.
\<close>

section \<open>Bit scans\<close>

text \<open>\<open>__builtin_ctzl\<close> and \<open>__builtin_clzl\<close> (their value at 0 is unspecified in C;
  here it is 64, and every caller below tests for 0 first).\<close>

definition builtin_ctzl :: "u64 \<Rightarrow> nat" where
  "builtin_ctzl x = length (takeWhile (\<lambda>i. \<not> bit x i) [0..<64])"

definition builtin_clzl :: "u64 \<Rightarrow> nat" where
  "builtin_clzl x = length (takeWhile (\<lambda>i. \<not> bit x (63 - i)) [0..<64])"

definition ffs_long :: "u64 \<Rightarrow> nat" where
  "ffs_long x = builtin_ctzl x"

definition fls_long :: "u64 \<Rightarrow> nat" where
  "fls_long x = (64 - 1) - builtin_clzl x"

definition fls64 :: "u64 \<Rightarrow> nat" where
  "fls64 x = (if x \<noteq> 0 then 64 - builtin_clzl x else 0)"

definition fls32 :: "u32 \<Rightarrow> nat" where
  "fls32 x = (if x \<noteq> 0 then 32 - length (takeWhile (\<lambda>i. \<not> bit x (31 - i)) [0..<32]) else 0)"

definition hweight32 :: "u32 \<Rightarrow> nat" where
  "hweight32 x = length (filter (bit x) [0..<32])"

definition hweight_long :: "u64 \<Rightarrow> nat" where
  "hweight_long x = length (filter (bit x) [0..<64])"

definition hweight8 :: "u32 \<Rightarrow> nat" where
  "hweight8 w = hweight32 (w AND 0xff)"

text \<open>\<open>sign_extend32(value, bit)\<close> of \<open>rtw88_compat.c\<close>: shift left and arithmetic shift right
  on 32 bits, then widened to \<open>long\<close>.\<close>

definition sign_extend32 :: "u64 \<Rightarrow> u32 \<Rightarrow> u64" where
  "sign_extend32 value nbits =
    (if nbits = 0 \<or> nbits \<ge> 32 then value
     else (let v = (ucast value :: u32); shift = 32 - unat nbits
           in scast (signed_drop_bit shift (push_bit shift v))))"

section \<open>Bitmaps\<close>

definition set_bit_map :: "nat \<Rightarrow> u64 list \<Rightarrow> u64 list" where
  "set_bit_map nr addr = addr[nr div 64 := addr ! (nr div 64) OR push_bit (nr mod 64) 1]"

definition clear_bit :: "nat \<Rightarrow> u64 list \<Rightarrow> u64 list" where
  "clear_bit nr addr = addr[nr div 64 := addr ! (nr div 64) AND NOT (push_bit (nr mod 64) 1)]"

definition test_bit :: "nat \<Rightarrow> u64 list \<Rightarrow> bool" where
  "test_bit nr addr \<longleftrightarrow> addr ! (nr div 64) AND push_bit (nr mod 64) 1 \<noteq> 0"

definition test_and_set_bit :: "nat \<Rightarrow> u64 list \<Rightarrow> bool \<times> u64 list" where
  "test_and_set_bit nr addr =
    (let old = addr ! (nr div 64)
     in (old AND push_bit (nr mod 64) 1 \<noteq> 0,
         addr[nr div 64 := old OR push_bit (nr mod 64) 1]))"

definition test_and_clear_bit :: "nat \<Rightarrow> u64 list \<Rightarrow> bool \<times> u64 list" where
  "test_and_clear_bit nr addr =
    (let old = addr ! (nr div 64)
     in (old AND push_bit (nr mod 64) 1 \<noteq> 0,
         addr[nr div 64 := old AND NOT (push_bit (nr mod 64) 1)]))"

definition bitmap_words :: "nat \<Rightarrow> nat" where
  "bitmap_words nbits = (nbits + 64 - 1) div 64"

definition bitmap_zero :: "u64 list \<Rightarrow> nat \<Rightarrow> u64 list" where
  "bitmap_zero dst nbits =
    foldl (\<lambda>d i. d[i := 0]) dst [0..<bitmap_words nbits]"

text \<open>The word loop every search ends in: the first non-zero word from \<open>idx\<close> on, and in it
  the lowest bit, clamped to \<open>size\<close>.  \<open>v\<close> is \<open>addr[i]\<close> or its complement.\<close>

function find_word :: "(nat \<Rightarrow> u64) \<Rightarrow> nat \<Rightarrow> nat \<Rightarrow> nat \<Rightarrow> nat" where
  "find_word v sz words idx =
    (if idx < words then
       (if v idx \<noteq> 0 then
          (let b = idx * 64 + ffs_long (v idx) in if b < sz then b else sz)
        else find_word v sz words (idx + 1))
     else sz)"
  by pat_completeness auto
termination by (relation "measure (\<lambda>(v, sz, words, idx). words - idx)") auto

declare find_word.simps [simp del]

definition find_first_bit :: "u64 list \<Rightarrow> nat \<Rightarrow> nat" where
  "find_first_bit addr sz = find_word (\<lambda>i. addr ! i) sz (bitmap_words sz) 0"

definition find_first_zero_bit :: "u64 list \<Rightarrow> nat \<Rightarrow> nat" where
  "find_first_zero_bit addr sz = find_word (\<lambda>i. NOT (addr ! i)) sz (bitmap_words sz) 0"

definition find_next_bit :: "u64 list \<Rightarrow> nat \<Rightarrow> nat \<Rightarrow> nat" where
  "find_next_bit addr sz offset =
    (if offset \<ge> sz then sz
     else
       (let idx = offset div 64; start = offset mod 64;
            msk = addr ! idx AND push_bit start (NOT 0)
        in if msk \<noteq> 0 then
             (let b = idx * 64 + ffs_long msk in if b < sz then b else sz)
           else find_word (\<lambda>i. addr ! i) sz (bitmap_words sz) (idx + 1)))"

definition find_next_zero_bit :: "u64 list \<Rightarrow> nat \<Rightarrow> nat \<Rightarrow> nat" where
  "find_next_zero_bit addr sz offset =
    (if offset \<ge> sz then sz
     else
       (let idx = offset div 64; start = offset mod 64;
            msk = NOT (addr ! idx) AND push_bit start (NOT 0)
        in if msk \<noteq> 0 then
             (let b = idx * 64 + ffs_long msk in if b < sz then b else sz)
           else find_word (\<lambda>i. NOT (addr ! i)) sz (bitmap_words sz) (idx + 1)))"

section \<open>Rotations and register masks\<close>

definition rol32 :: "u32 \<Rightarrow> nat \<Rightarrow> u32" where
  "rol32 val shift = push_bit shift val OR drop_bit (32 - shift) val"

definition ror32 :: "u32 \<Rightarrow> nat \<Rightarrow> u32" where
  "ror32 val shift = drop_bit shift val OR push_bit (32 - shift) val"

definition rtw_read32_mask_helper :: "u32 \<Rightarrow> u32 \<Rightarrow> u32" where
  "rtw_read32_mask_helper val msk = drop_bit (ffs_long (ucast msk)) (val AND msk)"

definition rtw_set32_mask_helper :: "u32 \<Rightarrow> u32 \<Rightarrow> u32 \<Rightarrow> u32" where
  "rtw_set32_mask_helper val msk data =
    (val AND NOT msk) OR (push_bit (ffs_long (ucast msk)) data AND msk)"

section \<open>Bit fields (\<open>bitfield.h\<close>)\<close>

definition FIELD_PREP :: "u64 \<Rightarrow> u64 \<Rightarrow> u64" where
  "FIELD_PREP msk val = push_bit (ffs_long msk) val AND msk"

definition FIELD_GET :: "u64 \<Rightarrow> u64 \<Rightarrow> u64" where
  "FIELD_GET msk val = drop_bit (ffs_long msk) (val AND msk)"

definition FIELD_FIT :: "u64 \<Rightarrow> u64 \<Rightarrow> bool" where
  "FIELD_FIT msk val \<longleftrightarrow> push_bit (ffs_long msk) val AND NOT msk = 0"

definition u8_encode_bits :: "u8 \<Rightarrow> u8 \<Rightarrow> u8" where
  "u8_encode_bits v msk = ucast (FIELD_PREP (ucast msk) (ucast v))"

definition u8_get_bits :: "u8 \<Rightarrow> u8 \<Rightarrow> u8" where
  "u8_get_bits v msk = ucast (FIELD_GET (ucast msk) (ucast v))"

definition u8p_replace_bits :: "u8 \<Rightarrow> u8 \<Rightarrow> u8 \<Rightarrow> u8" where
  "u8p_replace_bits p val msk = (p AND NOT msk) OR u8_encode_bits val msk"

definition u16_encode_bits :: "u16 \<Rightarrow> u16 \<Rightarrow> u16" where
  "u16_encode_bits v msk = ucast (FIELD_PREP (ucast msk) (ucast v))"

definition u16_get_bits :: "u16 \<Rightarrow> u16 \<Rightarrow> u16" where
  "u16_get_bits v msk = ucast (FIELD_GET (ucast msk) (ucast v))"

definition u32_encode_bits :: "u32 \<Rightarrow> u32 \<Rightarrow> u32" where
  "u32_encode_bits v msk = ucast (FIELD_PREP (ucast msk) (ucast v))"

definition u32_get_bits :: "u32 \<Rightarrow> u32 \<Rightarrow> u32" where
  "u32_get_bits v msk = ucast (FIELD_GET (ucast msk) (ucast v))"

definition u32p_replace_bits :: "u32 \<Rightarrow> u32 \<Rightarrow> u32 \<Rightarrow> u32" where
  "u32p_replace_bits p val msk = (p AND NOT msk) OR u32_encode_bits val msk"

definition u64_encode_bits :: "u64 \<Rightarrow> u64 \<Rightarrow> u64" where
  "u64_encode_bits v msk = FIELD_PREP msk v"

text \<open>The little-endian variants: the conversions are the identity on this target.\<close>

definition le16_get_bits :: "u16 \<Rightarrow> u16 \<Rightarrow> u16" where
  "le16_get_bits v msk = u16_get_bits v msk"

definition le32_get_bits :: "u32 \<Rightarrow> u32 \<Rightarrow> u32" where
  "le32_get_bits v msk = u32_get_bits v msk"

definition le32_encode_bits :: "u32 \<Rightarrow> u32 \<Rightarrow> u32" where
  "le32_encode_bits v msk = u32_encode_bits v msk"

definition le32p_replace_bits :: "u32 \<Rightarrow> u32 \<Rightarrow> u32 \<Rightarrow> u32" where
  "le32p_replace_bits p val msk = u32p_replace_bits p val msk"

definition le64_get_bits :: "u64 \<Rightarrow> u64 \<Rightarrow> u64" where
  "le64_get_bits v msk = u64_encode_bits (v AND msk) msk"

section \<open>BCD, unaligned access, jiffies\<close>

definition bcd2bin :: "u8 \<Rightarrow> u8" where
  "bcd2bin val = (val AND 0x0f) + drop_bit 4 val * 10"

definition bin2bcd :: "u8 \<Rightarrow> u8" where
  "bin2bcd val = push_bit 4 (val div 10) OR (val mod 10)"

definition get_unaligned_le16 :: "bytes \<Rightarrow> u16" where
  "get_unaligned_le16 p = le16 (p ! 0) (p ! 1)"

definition get_unaligned_le32 :: "bytes \<Rightarrow> u32" where
  "get_unaligned_le32 p =
    ucast (p ! 0) OR push_bit 8 (ucast (p ! 1)) OR push_bit 16 (ucast (p ! 2)) OR
    push_bit 24 (ucast (p ! 3))"

definition get_unaligned_be16 :: "bytes \<Rightarrow> u16" where
  "get_unaligned_be16 p = be16 (p ! 0) (p ! 1)"

definition get_unaligned_be32 :: "bytes \<Rightarrow> u32" where
  "get_unaligned_be32 p =
    push_bit 24 (ucast (p ! 0)) OR push_bit 16 (ucast (p ! 1)) OR push_bit 8 (ucast (p ! 2)) OR
    ucast (p ! 3)"

definition put_unaligned_le16 :: "u16 \<Rightarrow> bytes \<Rightarrow> bytes" where
  "put_unaligned_le16 val p = memcpy_at p 0 [lo8 val, hi8 val]"

definition put_unaligned_le32 :: "u32 \<Rightarrow> bytes \<Rightarrow> bytes" where
  "put_unaligned_le32 val p =
    memcpy_at p 0 [ucast val, ucast (drop_bit 8 val), ucast (drop_bit 16 val), ucast (drop_bit 24 val)]"

definition put_unaligned_be16 :: "u16 \<Rightarrow> bytes \<Rightarrow> bytes" where
  "put_unaligned_be16 val p = memcpy_at p 0 [hi8 val, lo8 val]"

definition put_unaligned_be32 :: "u32 \<Rightarrow> bytes \<Rightarrow> bytes" where
  "put_unaligned_be32 val p =
    memcpy_at p 0 [ucast (drop_bit 24 val), ucast (drop_bit 16 val), ucast (drop_bit 8 val), ucast val]"

text \<open>One jiffy is one millisecond.\<close>

definition msecs_to_jiffies :: "u32 \<Rightarrow> u64" where
  "msecs_to_jiffies msecs = ucast msecs"

definition usecs_to_jiffies :: "u32 \<Rightarrow> u64" where
  "usecs_to_jiffies usecs = ucast ((usecs + 999) div 1000)"

definition jiffies_to_msecs :: "u64 \<Rightarrow> u32" where
  "jiffies_to_msecs j = ucast j"

definition jiffies_to_usecs :: "u64 \<Rightarrow> u32" where
  "jiffies_to_usecs j = ucast (j * 1000)"

definition time_after :: "u64 \<Rightarrow> u64 \<Rightarrow> bool" where
  "time_after a b \<longleftrightarrow> sint (b - a) < 0"

definition time_before :: "u64 \<Rightarrow> u64 \<Rightarrow> bool" where
  "time_before a b \<longleftrightarrow> time_after b a"

definition time_after_eq :: "u64 \<Rightarrow> u64 \<Rightarrow> bool" where
  "time_after_eq a b \<longleftrightarrow> 0 \<le> sint (a - b)"

section \<open>Facts\<close>

lemma ctz_props:
  assumes "x \<noteq> 0"
  shows bit_ctz: "bit x (ffs_long x)" and ctz_less: "ffs_long x < 64"
    and not_bit_below_ctz: "j < ffs_long x \<Longrightarrow> \<not> bit x j"
proof -
  let ?t = "takeWhile (\<lambda>i. \<not> bit x i) [0..<64]"
  have "\<exists>i < 64. bit x i"
  proof (rule ccontr)
    assume "\<not> (\<exists>i < 64. bit x i)"
    then have "x = 0" by (intro bit_word_eqI) auto
    with assms show False by simp
  qed
  then have ne: "?t \<noteq> [0..<64]" by (auto simp: takeWhile_eq_all_conv)
  have len: "length ?t < 64"
  proof (rule ccontr)
    assume "\<not> length ?t < 64"
    then have "take (length ?t) [0..<64] = [0..<64]" by simp
    with ne show False by (metis takeWhile_eq_take)
  qed
  with nth_length_takeWhile[of "\<lambda>i. \<not> bit x i" "[0..<64]"]
  show "bit x (ffs_long x)" by (simp add: ffs_long_def builtin_ctzl_def)
  from len show "ffs_long x < 64" by (simp add: ffs_long_def builtin_ctzl_def)
  assume "j < ffs_long x"
  then have j: "j < length ?t" by (simp add: ffs_long_def builtin_ctzl_def)
  then have "?t ! j \<in> set ?t" by simp
  moreover have "?t ! j = j" using len j takeWhile_nth[OF j] by simp
  ultimately have "j \<in> set ?t" by simp
  then show "\<not> bit x j" by (auto dest: set_takeWhileD)
qed

text \<open>The reference search: scan the positions of \<open>[lo, hi)\<close> one by one.\<close>

function first_hit :: "(nat \<Rightarrow> bool) \<Rightarrow> nat \<Rightarrow> nat \<Rightarrow> nat" where
  "first_hit P lo hi = (if lo < hi \<and> \<not> P lo then first_hit P (Suc lo) hi else lo)"
  by pat_completeness auto
termination by (relation "measure (\<lambda>(P, lo, hi). hi - lo)") auto

declare first_hit.simps [simp del]

lemma first_hit_self [simp]: "first_hit P n n = n"
  by (subst first_hit.simps) simp

lemma first_hit_props:
  assumes "lo \<le> hi"
  shows "first_hit P lo hi \<le> hi \<and> lo \<le> first_hit P lo hi \<and>
    (first_hit P lo hi < hi \<longrightarrow> P (first_hit P lo hi)) \<and>
    (\<forall>i. lo \<le> i \<longrightarrow> i < first_hit P lo hi \<longrightarrow> \<not> P i)"
  using assms
proof (induction P lo hi rule: first_hit.induct)
  case (1 P lo hi)
  show ?case
  proof (cases "lo < hi \<and> \<not> P lo")
    case True
    with "1.IH" have IH: "first_hit P (Suc lo) hi \<le> hi \<and> Suc lo \<le> first_hit P (Suc lo) hi \<and>
      (first_hit P (Suc lo) hi < hi \<longrightarrow> P (first_hit P (Suc lo) hi)) \<and>
      (\<forall>i. Suc lo \<le> i \<longrightarrow> i < first_hit P (Suc lo) hi \<longrightarrow> \<not> P i)" by simp
    have "\<not> P i" if "lo \<le> i" "i < first_hit P (Suc lo) hi" for i
      using that True IH by (cases "i = lo") auto
    with IH True show ?thesis by (simp add: first_hit.simps[of P lo hi])
  next
    case False
    with "1.prems" show ?thesis by (auto simp: first_hit.simps[of P lo hi])
  qed
qed

lemma first_hitI:
  assumes "lo \<le> r" "r \<le> hi" "\<And>i. lo \<le> i \<Longrightarrow> i < r \<Longrightarrow> \<not> P i" "r < hi \<Longrightarrow> P r"
  shows "first_hit P lo hi = r"
proof -
  from assms(1,2) have "lo \<le> hi" by simp
  from first_hit_props[OF this, of P] assms show ?thesis
    by (metis le_antisym not_le order_less_le_trans)
qed

lemma bitmap_words_bound: "nbits \<le> bitmap_words nbits * 64"
  by (simp add: bitmap_words_def)

lemma bitmap_words_less: "i < nbits \<Longrightarrow> i div 64 < bitmap_words nbits"
  by (simp add: bitmap_words_def)

text \<open>One word of a search: the lowest set bit of a masked word is the first hit of the word's
  range, if the mask removed only positions below the start.\<close>

lemma find_word_first_hit:
  assumes "words = bitmap_words sz" "idx * 64 \<le> sz"
  shows "find_word v sz words idx = first_hit (\<lambda>i. bit (v (i div 64)) (i mod 64)) (idx * 64) sz"
  using assms
proof (induction v sz words idx rule: find_word.induct)
  case (1 v sz words idx)
  let ?P = "\<lambda>i. bit (v (i div 64)) (i mod 64)"
  show ?case
  proof (cases "idx < words")
    case False
    then have "idx * 64 = sz" using "1.prems" bitmap_words_bound[of sz] by auto
    with False show ?thesis by (simp add: find_word.simps[of v sz words idx])
  next
    case lt: True
    show ?thesis
    proof (cases "v idx = 0")
      case True
      have le: "(idx + 1) * 64 \<le> sz \<or> sz < (idx + 1) * 64" by linarith
      have none: "\<not> ?P i" if "idx * 64 \<le> i" "i < (idx + 1) * 64" for i
      proof -
        from that have "i div 64 = idx" by auto
        with True show ?thesis by simp
      qed
      show ?thesis
      proof (cases "(idx + 1) * 64 \<le> sz")
        case True
        from lt \<open>v idx = 0\<close> have "find_word v sz words idx = find_word v sz words (idx + 1)"
          by (subst find_word.simps) simp
        also have "\<dots> = first_hit ?P ((idx + 1) * 64) sz"
          using "1.IH"[OF lt _ "1.prems"(1) True] \<open>v idx = 0\<close> by simp
        finally have eq: "find_word v sz words idx = first_hit ?P ((idx + 1) * 64) sz" .
        note fh = first_hit_props[OF True, of ?P]
        have "first_hit ?P (idx * 64) sz = first_hit ?P ((idx + 1) * 64) sz"
        proof (rule first_hitI)
          fix i assume "idx * 64 \<le> i" "i < first_hit ?P ((idx + 1) * 64) sz"
          then show "\<not> ?P i" using fh none[of i] by (cases "i < (idx + 1) * 64") auto
        qed (use fh in auto)
        with eq show ?thesis by simp
      next
        case False
        then have "words \<le> idx + 1" using "1.prems" by (simp add: bitmap_words_def)
        then have "find_word v sz words idx = sz"
          using lt True by (simp add: find_word.simps[of v sz words idx] find_word.simps[of v sz words "Suc idx"])
        moreover have "first_hit ?P (idx * 64) sz = sz"
          by (rule first_hitI) (use none False "1.prems" in auto)
        ultimately show ?thesis by simp
      qed
    next
      case False
      let ?b = "idx * 64 + ffs_long (v idx)"
      have split: "(idx * 64 + k) div 64 = idx" "(idx * 64 + k) mod 64 = k" if "k < 64" for k
        using that by auto
      have P: "?P ?b" using bit_ctz[OF False] ctz_less[OF False] by (simp add: split)
      have below: "\<not> ?P i" if "idx * 64 \<le> i" "i < ?b" for i
      proof -
        from that obtain k where k: "i = idx * 64 + k" "k < ffs_long (v idx)"
          by (metis add_less_cancel_left le_Suc_ex)
        with ctz_less[OF False] not_bit_below_ctz[OF False] show ?thesis by (simp add: split)
      qed
      have "find_word v sz words idx = (if ?b < sz then ?b else sz)"
        using lt False by (simp add: find_word.simps[of v sz words idx] Let_def)
      also have "\<dots> = first_hit ?P (idx * 64) sz"
        by (rule first_hitI[symmetric]) (use P below "1.prems" in \<open>auto split: if_splits\<close>)
      finally show ?thesis .
    qed
  qed
qed


lemma bit_high_mask: "bit (w AND push_bit s (NOT (0 :: u64))) n \<longleftrightarrow> s \<le> n \<and> bit w n"
  by (auto simp: bit_and_iff bit_push_bit_iff bit_not_iff bit_mask_iff dest: bit_imp_le_length)

text \<open>A search that starts inside a word agrees with the linear scan from its start.\<close>

lemma find_next_first_hit:
  assumes "off < sz"
  shows "(let idx = off div 64; start = off mod 64; msk = v idx AND push_bit start (NOT 0)
          in if msk \<noteq> 0 then (let b = idx * 64 + ffs_long msk in if b < sz then b else sz)
             else find_word v sz (bitmap_words sz) (idx + 1)) =
         first_hit (\<lambda>i. bit (v (i div 64)) (i mod 64)) off sz"
proof -
  let ?P = "\<lambda>i. bit (v (i div 64)) (i mod 64)"
  define idx where "idx = off div 64"
  define start where "start = off mod 64"
  define m where "m = v idx AND push_bit start (NOT 0)"
  have off: "off = idx * 64 + start" "start < 64" by (simp_all add: idx_def start_def)
  have split: "(idx * 64 + k) div 64 = idx" "(idx * 64 + k) mod 64 = k" if "k < 64" for k
    using that by auto
  show ?thesis
  proof (cases "m = 0")
    case False
    let ?b = "idx * 64 + ffs_long m"
    have b: "ffs_long m < 64" "start \<le> ffs_long m" "bit (v idx) (ffs_long m)"
      using bit_ctz[OF False] ctz_less[OF False] bit_high_mask[of "v idx" start "ffs_long m"] by (simp_all add: m_def)
    have below: "\<not> ?P i" if "off \<le> i" "i < ?b" for i
    proof -
      define k where "k = i - idx * 64"
      from that off have k: "i = idx * 64 + k" "k < ffs_long m" "start \<le> k"
        by (auto simp: k_def)
      with not_bit_below_ctz[OF False k(2)] bit_high_mask[of "v idx" start k] b(1)
      show ?thesis by (simp add: split m_def)
    qed
    have "first_hit ?P off sz = (if ?b < sz then ?b else sz)"
      by (rule first_hitI) (use b below off assms in \<open>auto simp: split split: if_splits\<close>)
    with False show ?thesis by (simp add: Let_def m_def idx_def start_def)
  next
    case True
    have none: "\<not> ?P i" if "off \<le> i" "i < (idx + 1) * 64" for i
    proof -
      define k where "k = i - idx * 64"
      from that off have k: "i = idx * 64 + k" "k < 64" "start \<le> k"
        by (auto simp: k_def)
      with True bit_high_mask[of "v idx" start k] show ?thesis by (simp add: split m_def)
    qed
    have "find_word v sz (bitmap_words sz) (idx + 1) = first_hit ?P off sz"
    proof (cases "(idx + 1) * 64 \<le> sz")
      case le: True
      note fh = first_hit_props[OF le, of ?P]
      have "first_hit ?P off sz = first_hit ?P ((idx + 1) * 64) sz"
      proof (rule first_hitI)
        fix i assume "off \<le> i" "i < first_hit ?P ((idx + 1) * 64) sz"
        then show "\<not> ?P i" using fh none[of i] by (cases "i < (idx + 1) * 64") auto
      qed (use fh off in auto)
      with find_word_first_hit[OF refl le] show ?thesis by simp
    next
      case False
      then have "bitmap_words sz \<le> idx + 1" by (simp add: bitmap_words_def)
      then have "find_word v sz (bitmap_words sz) (idx + 1) = sz"
        by (subst find_word.simps) simp
      moreover have "first_hit ?P off sz = sz"
        by (rule first_hitI) (use none False assms in auto)
      ultimately show ?thesis by simp
    qed
    with True show ?thesis by (simp add: Let_def m_def idx_def start_def)
  qed
qed

lemma test_bit_iff: "test_bit nr addr \<longleftrightarrow> bit (addr ! (nr div 64)) (nr mod 64)"
  by (simp add: test_bit_def and_exp_eq_0_iff_not_bit push_bit_eq_mult)


lemma bit_not_64 [simp]: "bit (NOT (w :: u64)) (i mod 64) \<longleftrightarrow> \<not> bit w (i mod 64)"
  by (simp add: bit_not_iff)

text \<open>The four bitmap searches refine the linear scan: each returns the first position from the
  offset on whose bit is set (or clear), and \<open>size\<close> when there is none.\<close>

theorem bitmap_search_refines_scan:
  "find_next_bit addr sz off =
     (if sz \<le> off then sz else first_hit (\<lambda>i. test_bit i addr) off sz) \<and>
   find_next_zero_bit addr sz off =
     (if sz \<le> off then sz else first_hit (\<lambda>i. \<not> test_bit i addr) off sz) \<and>
   find_first_bit addr sz = first_hit (\<lambda>i. test_bit i addr) 0 sz \<and>
   find_first_zero_bit addr sz = first_hit (\<lambda>i. \<not> test_bit i addr) 0 sz"
proof (intro conjI)
  show "find_next_bit addr sz off =
      (if sz \<le> off then sz else first_hit (\<lambda>i. test_bit i addr) off sz)"
    using find_next_first_hit[of off sz "\<lambda>i. addr ! i"]
    by (simp add: find_next_bit_def test_bit_iff not_le)
  show "find_next_zero_bit addr sz off =
      (if sz \<le> off then sz else first_hit (\<lambda>i. \<not> test_bit i addr) off sz)"
    using find_next_first_hit[of off sz "\<lambda>i. NOT (addr ! i)"]
    by (simp add: find_next_zero_bit_def test_bit_iff not_le)
  show "find_first_bit addr sz = first_hit (\<lambda>i. test_bit i addr) 0 sz"
    using find_word_first_hit[of _ sz 0 "\<lambda>i. addr ! i"]
    by (simp add: find_first_bit_def test_bit_iff)
  show "find_first_zero_bit addr sz = first_hit (\<lambda>i. \<not> test_bit i addr) 0 sz"
    using find_word_first_hit[of _ sz 0 "\<lambda>i. NOT (addr ! i)"]
    by (simp add: find_first_zero_bit_def test_bit_iff)
qed

section \<open>Single-bit updates\<close>

lemma nth_set_bit_map:
  assumes "i div 64 < length addr"
  shows "test_bit j (set_bit_map i addr) \<longleftrightarrow> test_bit j addr \<or> j = i"
proof (cases "j div 64 = i div 64")
  case True
  then have "j = i \<longleftrightarrow> j mod 64 = i mod 64" by (metis mod_div_mult_eq)
  with True assms show ?thesis
    by (auto simp: test_bit_iff set_bit_map_def bit_or_iff bit_push_bit_iff bit_1_iff bit_exp_iff)
qed (use assms in \<open>auto simp: test_bit_iff set_bit_map_def\<close>)

lemma nth_clear_bit:
  assumes "i div 64 < length addr"
  shows "test_bit j (clear_bit i addr) \<longleftrightarrow> test_bit j addr \<and> j \<noteq> i"
proof (cases "j div 64 = i div 64")
  case True
  then have "j = i \<longleftrightarrow> j mod 64 = i mod 64" by (metis mod_div_mult_eq)
  with True assms show ?thesis
    by (auto simp: test_bit_iff clear_bit_def bit_and_iff bit_not_iff bit_push_bit_iff bit_1_iff bit_exp_iff)
qed (use assms in \<open>auto simp: test_bit_iff clear_bit_def\<close>)

lemma test_and_set_bit_eq:
  "test_and_set_bit i addr = (test_bit i addr, set_bit_map i addr)"
  by (simp add: test_and_set_bit_def test_bit_def set_bit_map_def Let_def)

lemma test_and_clear_bit_eq:
  "test_and_clear_bit i addr = (test_bit i addr, clear_bit i addr)"
  by (simp add: test_and_clear_bit_def test_bit_def clear_bit_def Let_def)

section \<open>Fields\<close>

lemma FIELD_GET_PREP:
  assumes "FIELD_FIT msk v" "drop_bit (64 - ffs_long msk) v = 0"
  shows "FIELD_GET msk (FIELD_PREP msk v) = v"
proof (rule bit_word_eqI)
  fix n assume n: "n < LENGTH(64)"
  let ?k = "ffs_long msk"
  have hi: "\<not> bit v n" if "64 - ?k \<le> n"
  proof -
    have "bit (drop_bit (64 - ?k) v) (n - (64 - ?k)) = False" using assms(2) by simp
    with that show ?thesis by (simp add: bit_drop_bit_eq)
  qed
  have fit: "bit msk (?k + n)" if "bit v n"
  proof -
    have "\<not> bit (push_bit ?k v AND NOT msk) (?k + n)" using assms(1) by (simp add: FIELD_FIT_def)
    moreover have "?k + n < 64" using that hi by fastforce
    ultimately show ?thesis using that by (simp add: bit_and_iff bit_push_bit_iff bit_not_iff)
  qed
  show "bit (FIELD_GET msk (FIELD_PREP msk v)) n = bit v n"
    using n hi fit bit_imp_le_length[of msk "ffs_long msk + n"]
    by (auto simp: FIELD_GET_def FIELD_PREP_def bit_drop_bit_eq bit_and_iff bit_push_bit_iff)
qed


lemma ffs_long_ucast32:
  assumes "msk \<noteq> (0 :: u32)"
  shows "ffs_long (ucast msk :: u64) < 32" "bit msk (ffs_long (ucast msk :: u64))"
proof -
  from assms obtain n where n: "bit msk n" by (auto simp: bit_eq_iff)
  then have "bit (ucast msk :: u64) n" by (auto simp: bit_unsigned_iff dest: bit_imp_le_length)
  then have nz: "(ucast msk :: u64) \<noteq> 0" by auto
  from bit_ctz[OF nz] show *: "bit msk (ffs_long (ucast msk :: u64))" by (simp add: bit_unsigned_iff)
  then show "ffs_long (ucast msk :: u64) < 32" by (auto dest: bit_imp_le_length)
qed

lemma bit_u32_encode_bits:
  "bit (u32_encode_bits v msk) n \<longleftrightarrow>
    ffs_long (ucast msk) \<le> n \<and> bit msk n \<and> bit v (n - ffs_long (ucast msk))"
  by (auto simp: u32_encode_bits_def FIELD_PREP_def bit_unsigned_iff bit_and_iff bit_push_bit_iff
      dest: bit_imp_le_length)

lemma FIELD_FIT_u32:
  assumes "FIELD_FIT (ucast msk) (ucast (v :: u32))" "msk \<noteq> (0 :: u32)" "bit v n"
  shows "bit msk (ffs_long (ucast msk) + n)"
proof -
  let ?k = "ffs_long (ucast msk :: u64)"
  have k: "?k < 32" using ffs_long_ucast32[OF assms(2)] by simp
  have n: "n < 32" using assms(3) by (auto dest: bit_imp_le_length)
  have "\<not> bit (push_bit ?k (ucast v :: u64) AND NOT (ucast msk)) (?k + n)"
    using assms(1) by (simp add: FIELD_FIT_def)
  with k n assms(3) show ?thesis
    by (simp add: bit_and_iff bit_push_bit_iff bit_not_iff bit_unsigned_iff)
qed

text \<open>A 32-bit register field reads back the value that was written into it, and the write
  leaves every bit outside the mask alone.\<close>

theorem u32_field_roundtrip:
  assumes "msk \<noteq> 0" "FIELD_FIT (ucast msk) (ucast (v :: u32))"
  shows "u32_get_bits (u32p_replace_bits p v msk) msk = v \<and>
    u32p_replace_bits p v msk AND NOT msk = p AND NOT msk"
proof
  let ?k = "ffs_long (ucast msk :: u64)"
  have k: "?k < 32" using ffs_long_ucast32[OF assms(1)] by simp
  show "u32_get_bits (u32p_replace_bits p v msk) msk = v"
  proof (rule bit_word_eqI)
    fix n assume "n < LENGTH(32)"
    with k FIELD_FIT_u32[OF assms(2,1), of n]
    show "bit (u32_get_bits (u32p_replace_bits p v msk) msk) n = bit v n"
      by (auto simp: u32_get_bits_def FIELD_GET_def u32p_replace_bits_def bit_unsigned_iff
          bit_drop_bit_eq bit_and_iff bit_or_iff bit_not_iff bit_u32_encode_bits
          dest: bit_imp_le_length)
  qed
  show "u32p_replace_bits p v msk AND NOT msk = p AND NOT msk"
    by (rule bit_word_eqI)
      (auto simp: u32p_replace_bits_def bit_and_iff bit_or_iff bit_not_iff bit_u32_encode_bits)
qed

theorem u32_field_roundtrip_witness:
  "u32_get_bits (u32p_replace_bits 0xDEADBEEF 0x12 0xFF00) 0xFF00 = 0x12 \<and>
   u32p_replace_bits 0xDEADBEEF 0x12 0xFF00 AND NOT 0xFF00 = 0xDEADBEEF AND NOT 0xFF00"
  by (rule u32_field_roundtrip) (code_simp, code_simp)

text \<open>\<open>le64_get_bits\<close> calls the encoder: it agrees with the extraction \<open>FIELD_GET\<close> only
  while the mask starts at bit 0, and at mask \<open>0xFF00\<close> it returns 0 for a field holding
  \<open>0x12\<close>.\<close>

theorem le64_get_bits_shifts_left:
  "le64_get_bits v msk = push_bit (ffs_long msk) (v AND msk) AND msk \<and>
   (bit msk 0 \<longrightarrow> le64_get_bits v msk = FIELD_GET msk v) \<and>
   le64_get_bits 0x1200 0xFF00 = 0 \<and> FIELD_GET 0xFF00 0x1200 = 0x12"
proof (intro conjI impI)
  show "le64_get_bits v msk = push_bit (ffs_long msk) (v AND msk) AND msk"
    by (simp add: le64_get_bits_def u64_encode_bits_def FIELD_PREP_def)
  assume "bit msk 0"
  then have nz: "msk \<noteq> 0" by auto
  have "ffs_long msk = 0"
    using not_bit_below_ctz[OF nz, of 0] \<open>bit msk 0\<close> by (cases "ffs_long msk") auto
  then show "le64_get_bits v msk = FIELD_GET msk v"
    by (simp add: le64_get_bits_def u64_encode_bits_def FIELD_PREP_def FIELD_GET_def and.assoc)
qed code_simp+

theorem le64_get_bits_shifts_left_witness:
  "bit (0xFF :: u64) 0 \<and> le64_get_bits 0x1234 0xFF = FIELD_GET 0xFF 0x1234"
proof -
  have b: "bit (0xFF :: u64) 0" by code_simp
  then show ?thesis using le64_get_bits_shifts_left[of "0x1234" "0xFF"] by blast
qed

section \<open>Byte order and time\<close>

lemma unaligned_le16_roundtrip:
  "2 \<le> length p \<Longrightarrow> get_unaligned_le16 (put_unaligned_le16 v p) = v"
  by (simp add: get_unaligned_le16_def put_unaligned_le16_def memcpy_at_def)

lemma unaligned_be16_roundtrip:
  "2 \<le> length p \<Longrightarrow> get_unaligned_be16 (put_unaligned_be16 v p) = v"
  by (simp add: get_unaligned_be16_def put_unaligned_be16_def memcpy_at_def)

lemma bytes32_join:
  "(ucast (ucast (w :: u32) :: u8) :: u32) OR push_bit 8 (ucast (ucast (drop_bit 8 w) :: u8)) OR
   push_bit 16 (ucast (ucast (drop_bit 16 w) :: u8)) OR
   push_bit 24 (ucast (ucast (drop_bit 24 w) :: u8)) = w" (is "?l = w")
proof (rule bit_word_eqI)
  fix n assume "n < LENGTH(32)"
  then consider "n < 8" | "8 \<le> n" "n < 16" | "16 \<le> n" "n < 24" | "24 \<le> n" "n < 32"
    by fastforce
  then show "bit ?l n = bit w n"
    by cases (auto simp: bit_or_iff bit_push_bit_iff bit_unsigned_iff bit_drop_bit_eq)
qed

lemma unaligned_le32_roundtrip:
  "4 \<le> length p \<Longrightarrow> get_unaligned_le32 (put_unaligned_le32 v p) = v"
  using bytes32_join[of v] by (simp add: get_unaligned_le32_def put_unaligned_le32_def memcpy_at_def)

lemma unaligned_be32_roundtrip:
  "4 \<le> length p \<Longrightarrow> get_unaligned_be32 (put_unaligned_be32 v p) = v"
  using bytes32_join[of v]
  by (simp add: get_unaligned_be32_def put_unaligned_be32_def memcpy_at_def or.assoc or.commute
      or.left_commute)

lemma bcd_roundtrip: "n < 100 \<Longrightarrow> bcd2bin (bin2bcd n) = n"
proof -
  have "\<forall>n :: u8. n < 100 \<longrightarrow> bcd2bin (bin2bcd n) = n"
    unfolding all_words_8 by code_simp
  then show "n < 100 \<Longrightarrow> bcd2bin (bin2bcd n) = n" by blast
qed

lemma rol32_ror32: "0 < k \<Longrightarrow> k < 32 \<Longrightarrow> ror32 (rol32 w k) k = w"
proof (rule bit_word_eqI)
  fix n assume k: "0 < k" "k < 32" and n: "n < LENGTH(32)"
  show "bit (ror32 (rol32 w k) k) n = bit w n"
  proof (cases "n + k < 32")
    case True
    with k n show ?thesis
      by (auto simp: ror32_def rol32_def bit_or_iff bit_push_bit_iff bit_drop_bit_eq)
  next
    case False
    then have "32 - k + (n - (32 - k)) = n" using k by simp
    with False k n show ?thesis
      by (auto simp: ror32_def rol32_def bit_or_iff bit_push_bit_iff bit_drop_bit_eq)
  qed
qed

text \<open>The jiffies comparison is a signed distance, so it stays right across the wrap of the
  counter for deadlines less than \<open>2 ^ 63\<close> ticks away.\<close>

lemma time_after_wraps:
  assumes "0 < d" "d < 2 ^ 63"
  shows "time_after (b + word_of_nat d) b" "\<not> time_after b (b + word_of_nat d)"
proof -
  have fits: "sint (word_of_int k :: u64) = k" if "- (2 ^ 63) \<le> k" "k < 2 ^ 63" for k
    using that by (simp add: signed_of_int signed_take_bit_int_eq_self)
  have s: "sint (word_of_nat d :: u64) = int d" "sint (- word_of_nat d :: u64) = - int d"
    using fits[of "int d"] fits[of "- int d"] assms by simp_all
  show "\<not> time_after b (b + word_of_nat d)"
    using s by (simp add: time_after_def)
  show "time_after (b + word_of_nat d) b"
    using s assms by (simp add: time_after_def)
qed

end
