(* ===== verification/Reorder.thy ===== *)
theory Reorder
  imports Prelude "HOL-Library.Multiset"
begin

text \<open>
  The RX A-MPDU reorder buffer of \<open>src/kext/RTW88IEEE80211.cpp\<close> (\<open>rxBaSetup\<close>,
  \<open>rxBaTeardown\<close>, \<open>rxReorderInput\<close>, \<open>rxReorderFlushStale\<close>).  One \<open>RxReorder\<close> record
  per TID holds a ring of 64 slots indexed by the sequence number modulo 64.  A buffered
  \<open>sk_buff\<close> is an element of the type variable; the functions return what they deliver
  (\<open>deliverDataFrame\<close>), what they free (\<open>kfree_skb\<close>) and whether they arm the flush timer.
  The abstract specification is a window, a list of optional frames that starts at the next
  expected sequence number; the lemmas show that the ring refines it.
\<close>

section \<open>State and operations\<close>

abbreviation kRxBaMaxBuf :: nat where "kRxBaMaxBuf \<equiv> 64"
abbreviation kRxBaNumTid :: nat where "kRxBaNumTid \<equiv> 8"
abbreviation kReorderTimeoutMs :: nat where "kReorderTimeoutMs \<equiv> 60"

record 'f rx_reorder =
  ba_active :: bool
  headSn :: u16
  bufSize :: u16
  ba_stored :: u32
  ba_buf :: "'f option list"

definition rx_reorder_zero :: "'f rx_reorder" where
  "rx_reorder_zero = \<lparr>ba_active = False, headSn = 0, bufSize = 0, ba_stored = 0,
     ba_buf = replicate kRxBaMaxBuf None\<rparr>"

text \<open>The frames in a list of slots, in slot order.\<close>

definition somes :: "'f option list \<Rightarrow> 'f list" where
  "somes xs = map the (filter (\<lambda>x. x \<noteq> None) xs)"

text \<open>\<open>rxBaSetup\<close>: \<open>alloc_ok\<close> is the result of \<open>IOMallocZero\<close>; the second component is what
  it frees.\<close>

definition rxBaSetup :: "bool \<Rightarrow> nat \<Rightarrow> u16 \<Rightarrow> u16 \<Rightarrow> 'f rx_reorder option list \<Rightarrow>
    'f rx_reorder option list \<times> 'f list" where
  "rxBaSetup alloc_ok tid ssn bs ba =
    (if tid \<ge> kRxBaNumTid then (ba, [])
     else
       let bs = (if bs = 0 \<or> bs > of_nat kRxBaMaxBuf then of_nat kRxBaMaxBuf else bs);
           (r, freed) = (case ba ! tid of
              None \<Rightarrow> (if alloc_ok then Some rx_reorder_zero else None, [])
            | Some r \<Rightarrow> (Some (r\<lparr>ba_buf := replicate kRxBaMaxBuf None\<rparr>), somes (ba_buf r)))
       in (ba[tid := map_option (\<lambda>r. r\<lparr>ba_active := True, headSn := ssn AND 0xFFF,
             bufSize := bs, ba_stored := 0\<rparr>) r], freed))"

definition rxBaTeardown :: "nat \<Rightarrow> 'f rx_reorder option list \<Rightarrow>
    'f rx_reorder option list \<times> 'f list" where
  "rxBaTeardown tid ba =
    (if tid \<ge> kRxBaNumTid then (ba, [])
     else case ba ! tid of None \<Rightarrow> (ba, []) | Some r \<Rightarrow> (ba[tid := None], somes (ba_buf r)))"

definition rxBaTeardownAll :: "'f rx_reorder option list \<Rightarrow>
    'f rx_reorder option list \<times> 'f list" where
  "rxBaTeardownAll ba =
    fold (\<lambda>tid (ba, freed). let (ba', fr) = rxBaTeardown tid ba in (ba', freed @ fr))
      [0..<kRxBaNumTid] (ba, [])"

text \<open>The head slot, the step that empties it, and the step that moves the head.\<close>

definition head_slot :: "'f rx_reorder \<Rightarrow> nat" where
  "head_slot r = unat (headSn r) mod kRxBaMaxBuf"

definition pop_head :: "'f rx_reorder \<Rightarrow> 'f rx_reorder" where
  "pop_head r = r\<lparr>ba_buf := (ba_buf r)[head_slot r := None], ba_stored := ba_stored r - 1\<rparr>"

definition move_head :: "'f rx_reorder \<Rightarrow> 'f rx_reorder" where
  "move_head r = r\<lparr>headSn := (headSn r + 1) AND 0xFFF\<rparr>"

lemma headSn_move_head [simp]:
  "headSn (move_head r) = (headSn r + 1) AND 0xFFF"
  "headSn (pop_head r) = headSn r"
  by (simp_all add: move_head_def pop_head_def)

text \<open>The loop of \<open>rxReorderInput\<close> that slides the window up to \<open>newHead\<close>.\<close>

function slide_window :: "u16 \<Rightarrow> 'f rx_reorder \<Rightarrow> 'f list \<Rightarrow> 'f rx_reorder \<times> 'f list" where
  "slide_window newHead r out =
    (if (newHead - headSn r) AND 0xFFF \<noteq> 0 \<and> (newHead - headSn r) AND 0xFFF < 2048 \<and>
        length out < kRxBaMaxBuf
     then case ba_buf r ! head_slot r of
            Some f \<Rightarrow> slide_window newHead (move_head (pop_head r)) (out @ [f])
          | None \<Rightarrow> slide_window newHead (move_head r) out
     else (r, out))"
  by pat_completeness auto
termination
  by (relation "measure (\<lambda>(nh, r, _). unat ((nh - headSn r) AND 0xFFF))")
    (simp_all only: in_measure wf_measure split_conv headSn_move_head sn_dist_less simp_thms)

text \<open>The loop that releases the in-order run starting at the head.\<close>

function release_run :: "'f rx_reorder \<Rightarrow> 'f list \<Rightarrow> 'f rx_reorder \<times> 'f list" where
  "release_run r out =
    (if ba_stored r > 0 \<and> length out < kRxBaMaxBuf
     then case ba_buf r ! head_slot r of
            None \<Rightarrow> (r, out)
          | Some f \<Rightarrow> release_run (move_head (pop_head r)) (out @ [f])
     else (r, out))"
  by pat_completeness auto
termination
  by (relation "measure (\<lambda>(_, out). kRxBaMaxBuf - length out)") auto

text \<open>The loop of \<open>rxReorderFlushStale\<close> that skips the leading holes.\<close>

function skip_holes :: "'f rx_reorder \<Rightarrow> nat \<Rightarrow> 'f rx_reorder" where
  "skip_holes r guard =
    (if ba_stored r > 0 \<and> guard < 4096
     then case ba_buf r ! head_slot r of
            Some _ \<Rightarrow> r
          | None \<Rightarrow> skip_holes (move_head r) (guard + 1)
     else r)"
  by pat_completeness auto
termination
  by (relation "measure (\<lambda>(_, g). 4096 - g)") auto

declare slide_window.simps [simp del] release_run.simps [simp del] skip_holes.simps [simp del]

record 'f reorder_out =
  ro_delivered :: "'f list"
  ro_freed :: "'f list"
  ro_timer :: bool

text \<open>The body of \<open>rxReorderInput\<close> on an active agreement.\<close>

definition reorder_frame :: "'f rx_reorder \<Rightarrow> 'f \<Rightarrow> u16 \<Rightarrow> 'f rx_reorder \<times> 'f reorder_out" where
  "reorder_frame r skb sn =
    (let rel = (sn - headSn r) AND 0xFFF in
     if rel \<ge> 2048 then (r, \<lparr>ro_delivered = [], ro_freed = [skb], ro_timer = False\<rparr>)
     else
       let (r, out) = (if rel \<ge> bufSize r
              then slide_window ((sn + 1 - bufSize r) AND 0xFFF) r [] else (r, []));
           idx = unat sn mod kRxBaMaxBuf;
           (r, freed) = (case ba_buf r ! idx of
              Some _ \<Rightarrow> (r, [skb])
            | None \<Rightarrow> (r\<lparr>ba_buf := (ba_buf r)[idx := Some skb], ba_stored := ba_stored r + 1\<rparr>, []));
           (r, out) = release_run r out
       in (r, \<lparr>ro_delivered = out, ro_freed = freed, ro_timer = ba_stored r > 0\<rparr>))"

definition rxReorderInput :: "nat \<Rightarrow> 'f \<Rightarrow> u16 \<Rightarrow> 'f rx_reorder option list \<Rightarrow>
    'f rx_reorder option list \<times> 'f reorder_out" where
  "rxReorderInput tid skb sn ba =
    (case ba ! tid of
       None \<Rightarrow> (ba, \<lparr>ro_delivered = [skb], ro_freed = [], ro_timer = False\<rparr>)
     | Some r \<Rightarrow>
         if \<not> ba_active r then (ba, \<lparr>ro_delivered = [skb], ro_freed = [], ro_timer = False\<rparr>)
         else let (r', res) = reorder_frame r skb sn in (ba[tid := Some r'], res))"

text \<open>One TID of the flush timer, and the whole handler; \<open>nout\<close> and \<open>out\<close> are shared by the
  TIDs.\<close>

definition flush_tid :: "'f rx_reorder \<Rightarrow> 'f list \<Rightarrow> 'f rx_reorder \<times> 'f list" where
  "flush_tid r out = release_run (skip_holes r 0) out"

definition flush_step :: "nat \<Rightarrow> 'f rx_reorder option list \<times> 'f list \<times> bool \<Rightarrow>
    'f rx_reorder option list \<times> 'f list \<times> bool" where
  "flush_step tid st =
    (case st of (ba, out, again) \<Rightarrow>
     case ba ! tid of
       None \<Rightarrow> (ba, out, again)
     | Some r \<Rightarrow>
         if \<not> ba_active r \<or> ba_stored r = 0 then (ba, out, again)
         else let (r', out') = flush_tid r out
              in (ba[tid := Some r'], out', again \<or> ba_stored r' > 0))"

definition rxReorderFlushStale :: "'f rx_reorder option list \<Rightarrow>
    'f rx_reorder option list \<times> 'f reorder_out" where
  "rxReorderFlushStale ba =
    (case fold flush_step [0..<kRxBaNumTid] (ba, [], False) of
       (ba', out, again) \<Rightarrow> (ba', \<lparr>ro_delivered = out, ro_freed = [], ro_timer = again\<rparr>))"

section \<open>Slots, rotations and the abstract window\<close>

lemma somes_simps [simp]:
  "somes [] = []" "somes (None # xs) = somes xs" "somes (Some f # xs) = f # somes xs"
  by (simp_all add: somes_def)

lemma somes_append [simp]: "somes (xs @ ys) = somes xs @ somes ys"
  by (simp add: somes_def)

lemma somes_replicate [simp]: "somes (replicate n None) = []"
  by (induction n) simp_all

lemma somes_rotate: "mset (somes (rotate n xs)) = mset (somes xs)"
proof (induction n)
  case (Suc n)
  have "mset (somes (rotate1 ys)) = mset (somes ys)" for ys :: "'a option list"
    by (cases ys rule: list.exhaust; cases "hd ys") auto
  with Suc show ?case by simp
qed simp

lemma length_somes_rotate: "length (somes (rotate n xs)) = length (somes xs)"
  using somes_rotate[of n xs] by (metis size_mset)

lemma rotate_update:
  assumes "i < length xs"
  shows "rotate h (xs[(i + h) mod length xs := v]) = (rotate h xs)[i := v]"
proof (rule nth_equalityI)
  fix j assume "j < length (rotate h (xs[(i + h) mod length xs := v]))"
  then have j: "j < length xs" by simp
  have "(j + h) mod length xs = (i + h) mod length xs \<longleftrightarrow> j = i"
    using mod_shift_inj[OF _ assms j] by blast
  moreover have "(j + h) mod length xs < length xs" using j by (intro mod_less_divisor) auto
  ultimately show "rotate h (xs[(i + h) mod length xs := v]) ! j = (rotate h xs)[i := v] ! j"
    using j assms by (auto simp: nth_rotate nth_list_update add.commute)
qed simp

text \<open>The specification: a window holds the frame of sequence number head + i at index i.\<close>

definition w_slide :: "nat \<Rightarrow> 'f option list \<Rightarrow> 'f option list \<times> 'f list" where
  "w_slide d w = (drop d w @ replicate (min d (length w)) None, somes (take d w))"

definition w_run :: "'f option list \<Rightarrow> nat" where
  "w_run w = length (takeWhile (\<lambda>x. x \<noteq> None) w)"

definition w_input :: "nat \<Rightarrow> 'f \<Rightarrow> 'f option list \<Rightarrow> 'f option list \<times> 'f list \<times> 'f list" where
  "w_input rel f w =
    (let d = (if rel < length w then 0 else rel + 1 - length w);
         (w1, o1) = w_slide d w;
         i = rel - d;
         (w2, freed) = (case w1 ! i of Some _ \<Rightarrow> (w1, [f]) | None \<Rightarrow> (w1[i := Some f], []));
         (w3, o2) = w_slide (w_run w2) w2
     in (w3, o1 @ o2, freed))"

section \<open>The ring implements the window\<close>

definition ring :: "'f rx_reorder \<Rightarrow> 'f option list" where
  "ring r = rotate (unat (headSn r)) (ba_buf r)"

definition window :: "'f rx_reorder \<Rightarrow> 'f option list" where
  "window r = take (unat (bufSize r)) (ring r)"

text \<open>The structural invariant, and with it that at least one slot is free, which holds
  between operations.\<close>

definition rx_ok :: "'f rx_reorder \<Rightarrow> bool" where
  "rx_ok r \<longleftrightarrow> length (ba_buf r) = 64 \<and> unat (headSn r) < 4096 \<and>
     0 < unat (bufSize r) \<and> unat (bufSize r) \<le> 64 \<and>
     unat (ba_stored r) = length (somes (ba_buf r)) \<and>
     drop (unat (bufSize r)) (ring r) = replicate (64 - unat (bufSize r)) None"

definition rx_inv :: "'f rx_reorder \<Rightarrow> bool" where
  "rx_inv r \<longleftrightarrow> rx_ok r \<and> unat (ba_stored r) < 64"

text \<open>One step of the head: out with the head slot.\<close>

definition step_head :: "'f rx_reorder \<Rightarrow> 'f rx_reorder" where
  "step_head r = (case ba_buf r ! head_slot r of
     None \<Rightarrow> move_head r | Some _ \<Rightarrow> move_head (pop_head r))"

lemma ring_hd: "rx_ok r \<Longrightarrow> ba_buf r ! head_slot r = hd (ring r)"
proof -
  assume r: "rx_ok r"
  then have "ba_buf r \<noteq> []" by (auto simp: rx_ok_def)
  with r show ?thesis by (simp add: rx_ok_def ring_def head_slot_def hd_rotate_conv_nth)
qed

lemma ring_cons: "rx_ok r \<Longrightarrow> ring r = (ba_buf r ! head_slot r) # tl (ring r)"
proof -
  assume r: "rx_ok r"
  then have "ring r \<noteq> []" by (auto simp: rx_ok_def ring_def)
  with ring_hd[OF r] show ?thesis by simp
qed

lemma ring_move_head:
  assumes "rx_ok r"
  shows "ring (move_head r) = rotate1 (ring r)"
proof -
  have len: "length (ba_buf r) = 64" using assms by (simp add: rx_ok_def)
  have h: "unat (headSn (move_head r)) mod 64 = (unat (headSn r) + 1) mod 64"
    by (simp add: move_head_def sn_succ_unat mod_mod_cancel)
  have "ring (move_head r) = rotate (unat (headSn (move_head r)) mod 64) (ba_buf r)"
    using rotate_conv_mod[of "unat (headSn (move_head r))" "ba_buf r"] len
    by (simp add: ring_def move_head_def)
  also have "\<dots> = rotate (Suc (unat (headSn r))) (ba_buf r)"
    unfolding h using rotate_conv_mod[of "Suc (unat (headSn r))" "ba_buf r"] len by simp
  finally show ?thesis by (simp add: ring_def)
qed

lemma ring_pop_head:
  "rx_ok r \<Longrightarrow> ring (pop_head r) = None # tl (ring r)"
proof -
  assume r: "rx_ok r"
  then have "ring (pop_head r) = (ring r)[0 := None]"
    using rotate_update[of 0 "ba_buf r" "unat (headSn r)" None]
    by (simp add: rx_ok_def ring_def pop_head_def head_slot_def)
  with ring_cons[OF r] show ?thesis by (metis list_update_code(2))
qed

lemma ring_step_head: "rx_ok r \<Longrightarrow> ring (step_head r) = tl (ring r) @ [None]"
proof -
  assume r: "rx_ok r"
  have m: "ring (move_head q) = rotate1 (ring q)" if "length (ba_buf q) = 64" for q :: "'a rx_reorder"
  proof -
    have "rotate (unat (headSn (move_head q)) mod 64) (ba_buf q) = rotate (Suc (unat (headSn q))) (ba_buf q)"
      using rotate_conv_mod[of "Suc (unat (headSn q))" "ba_buf q"] that
      by (simp add: sn_succ_unat mod_mod_cancel)
    then show ?thesis
      using rotate_conv_mod[of "unat (headSn (move_head q))" "ba_buf q"] that
      by (simp add: ring_def move_head_def)
  qed
  have len: "length (ba_buf r) = 64" "length (ba_buf (pop_head r)) = 64"
    using r by (simp_all add: rx_ok_def pop_head_def)
  show ?thesis
  proof (cases "ba_buf r ! head_slot r")
    case None
    with ring_cons[OF r] have "ring r = None # tl (ring r)" by simp
    then have "rotate1 (ring r) = tl (ring r) @ [None]" by (metis rotate1.simps(2))
    with None m[OF len(1)] show ?thesis by (simp add: step_head_def)
  next
    case (Some f)
    with m[OF len(2)] ring_pop_head[OF r] show ?thesis by (simp add: step_head_def)
  qed
qed

lemma ring_split:
  assumes "rx_ok r"
  shows "ring r = window r @ replicate (64 - unat (bufSize r)) None"
    and "length (window r) = unat (bufSize r)" and "length (ring r) = 64"
  using assms append_take_drop_id[of "unat (bufSize r)" "ring r"]
  by (auto simp: rx_ok_def window_def ring_def)

lemma window_nonempty: "rx_ok r \<Longrightarrow> window r \<noteq> []"
  using ring_split(2)[of r] by (auto simp: rx_ok_def)

lemma mset_somes_window: "rx_ok r \<Longrightarrow> mset (somes (ba_buf r)) = mset (somes (window r))"
  using ring_split(1)[of r] somes_rotate[of "unat (headSn r)" "ba_buf r"] by (simp add: ring_def)

lemma stored_window: "rx_ok r \<Longrightarrow> unat (ba_stored r) = length (somes (window r))"
  using mset_somes_window[of r] by (metis rx_ok_def size_mset)

lemma head_slot_window: "rx_ok r \<Longrightarrow> ba_buf r ! head_slot r = hd (window r)"
  using ring_cons[of r] ring_split(1)[of r] window_nonempty[of r] by (cases "window r") auto

lemma step_head_fields [simp]:
  "headSn (step_head r) = (headSn r + 1) AND 0xFFF" "bufSize (step_head r) = bufSize r"
  "ba_active (step_head r) = ba_active r" "length (ba_buf (step_head r)) = length (ba_buf r)"
  by (simp_all add: step_head_def move_head_def pop_head_def split: option.split)

lemma rx_okI:
  assumes "length (ba_buf r) = 64" "unat (headSn r) < 4096" "0 < unat (bufSize r)"
    "unat (bufSize r) \<le> 64" "ring r = w @ replicate (64 - unat (bufSize r)) None"
    "length w = unat (bufSize r)" "unat (ba_stored r) = length (somes w)"
  shows "rx_ok r \<and> window r = w"
proof -
  have "length (somes (ba_buf r)) = length (somes w)"
    using length_somes_rotate[of "unat (headSn r)" "ba_buf r"] assms(5) by (simp add: ring_def)
  with assms show ?thesis by (simp add: rx_ok_def window_def)
qed

lemma step_head:
  assumes r: "rx_ok r"
  shows "rx_ok (step_head r) \<and> window (step_head r) = tl (window r) @ [None]"
proof (rule rx_okI)
  obtain x xs where w: "window r = x # xs" using window_nonempty[OF r] by (cases "window r") auto
  note sp = ring_split[OF r]
  show "ring (step_head r) = (tl (window r) @ [None]) @ replicate (64 - unat (bufSize (step_head r))) None"
    using ring_step_head[OF r] sp w by (simp add: replicate_append_same)
  show "length (tl (window r) @ [None]) = unat (bufSize (step_head r))"
    using sp(2) w by simp
  have x: "ba_buf r ! head_slot r = x" using head_slot_window[OF r] w by simp
  have st: "unat (ba_stored r) = length (somes (x # xs))" using stored_window[OF r] w by simp
  show "unat (ba_stored (step_head r)) = length (somes (tl (window r) @ [None]))"
  proof (cases x)
    case None with x st w show ?thesis by (simp add: step_head_def move_head_def)
  next
    case (Some f)
    with st have "ba_stored r \<noteq> 0" by auto
    then have "unat (ba_stored r - 1) = unat (ba_stored r) - 1" by (rule unat_minus_one)
    with x st w Some show ?thesis by (simp add: step_head_def move_head_def pop_head_def)
  qed
qed (use r in \<open>auto simp: rx_ok_def sn_succ_unat\<close>)

lemma ring_pop_move: "move_head (if ba_buf r ! head_slot r = None then r else pop_head r) = step_head r"
  by (auto simp: step_head_def split: option.splits)

section \<open>The loops\<close>

lemma slide_window_step:
  "slide_window nh r out =
    (if (nh - headSn r) AND 0xFFF \<noteq> 0 \<and> (nh - headSn r) AND 0xFFF < 2048 \<and> length out < 64
     then slide_window nh (step_head r) (out @ somes [ba_buf r ! head_slot r]) else (r, out))"
  by (subst slide_window.simps) (auto simp: step_head_def split: option.split)

lemma release_run_step:
  "release_run r out =
    (if ba_stored r > 0 \<and> length out < 64 \<and> ba_buf r ! head_slot r \<noteq> None
     then release_run (step_head r) (out @ somes [ba_buf r ! head_slot r]) else (r, out))"
  by (subst release_run.simps) (auto simp: step_head_def split: option.split)

lemma skip_holes_step:
  "skip_holes r g =
    (if ba_stored r > 0 \<and> g < 4096 \<and> ba_buf r ! head_slot r = None
     then skip_holes (step_head r) (g + 1) else r)"
  by (subst skip_holes.simps) (auto simp: step_head_def split: option.split)

lemma w_slide_Suc:
  assumes "w \<noteq> []"
  shows "tl (fst (w_slide d w)) @ [None] = fst (w_slide (Suc d) w)"
proof (cases "d < length w")
  case True
  then have "drop d w = w ! d # drop (Suc d) w" by (rule Cons_nth_drop_Suc[symmetric])
  then have "tl (drop d w @ xs) = drop (Suc d) w @ xs" for xs by simp
  with True show ?thesis by (simp add: w_slide_def replicate_append_same)
next
  case False
  with assms show ?thesis
    by (cases w) (auto simp: w_slide_def min_def replicate_append_same)
qed

lemma somes_take_shift:
  assumes "w \<noteq> []"
  shows "somes [hd w] @ somes (take d (tl w @ [None])) = somes (take (Suc d) w)"
proof -
  obtain x xs where w: "w = x # xs" using assms by (cases w) auto
  have "somes (take d (xs @ [None])) = somes (take d xs)"
    by (cases "d \<le> length xs") auto
  then show ?thesis by (cases x) (simp_all add: w)
qed

text \<open>Any of the loops is a number of head steps; each step is one shift of the window.\<close>

lemma step_head_n:
  assumes "rx_ok r"
  shows "rx_ok ((step_head ^^ d) r) \<and> window ((step_head ^^ d) r) = fst (w_slide d (window r)) \<and>
    unat (headSn ((step_head ^^ d) r)) = (unat (headSn r) + d) mod 4096 \<and>
    bufSize ((step_head ^^ d) r) = bufSize r \<and> ba_active ((step_head ^^ d) r) = ba_active r"
proof (induction d)
  case 0
  with assms show ?case by (simp add: w_slide_def rx_ok_def)
next
  case (Suc d)
  let ?q = "(step_head ^^ d) r"
  have n: "window r \<noteq> []" by (rule window_nonempty[OF assms])
  from Suc step_head[of ?q]
  have "rx_ok (step_head ?q)" "window (step_head ?q) = tl (fst (w_slide d (window r))) @ [None]"
    by simp_all
  moreover note w_slide_Suc[OF n, of d]
  moreover have "unat (headSn (step_head ?q)) = (unat (headSn r) + Suc d) mod 4096"
    using Suc by (simp add: sn_succ_unat mod_Suc_eq)
  ultimately show ?case using Suc by simp
qed

lemma step_head_stored:
  assumes "rx_ok r"
  shows "length (somes [ba_buf r ! head_slot r]) + unat (ba_stored (step_head r)) = unat (ba_stored r)"
proof -
  obtain x xs where w: "window r = x # xs" using window_nonempty[OF assms] by (cases "window r") auto
  have "unat (ba_stored (step_head r)) = length (somes xs)"
    using step_head[OF assms] stored_window[of "step_head r"] w by simp
  then show ?thesis
    using stored_window[OF assms] head_slot_window[OF assms] w by (cases x) auto
qed

lemma slide_window_eq:
  assumes "rx_ok r" "unat ((nh - headSn r) AND 0xFFF) = d" "d < 2048"
    "length out + unat (ba_stored r) < 64"
  shows "slide_window nh r out = ((step_head ^^ d) r, out @ somes (take d (window r)))"
  using assms
proof (induction d arbitrary: r out)
  case 0
  then have "(nh - headSn r) AND 0xFFF = 0" by (simp only: unat_eq_0)
  then show ?case by (subst slide_window_step) simp
next
  case (Suc d)
  note ok = Suc.prems(1)
  let ?out = "out @ somes [ba_buf r ! head_slot r]"
  have nz: "(nh - headSn r) AND 0xFFF \<noteq> 0" using Suc.prems(2) by (metis nat.distinct(1) unat_0)
  have lt: "(nh - headSn r) AND 0xFFF < 2048" using Suc.prems(2,3) by (simp add: word_less_nat_alt)
  have d: "unat ((nh - headSn (step_head r)) AND 0xFFF) = d"
    using sn_dist_succ_unat[OF nz] Suc.prems(2) by simp
  have "slide_window nh r out = slide_window nh (step_head r) ?out"
    using nz lt Suc.prems(4) by (subst slide_window_step) simp
  also have "\<dots> = ((step_head ^^ d) (step_head r), ?out @ somes (take d (window (step_head r))))"
    using Suc.IH[OF _ d] step_head[OF ok] step_head_stored[OF ok] Suc.prems(3,4) by simp
  also have "?out @ somes (take d (window (step_head r))) = out @ somes (take (Suc d) (window r))"
    using step_head[OF ok] somes_take_shift[OF window_nonempty[OF ok], of d] head_slot_window[OF ok]
    by simp
  finally show ?case by (simp add: funpow_swap1)
qed

lemma w_run_Suc: "w \<noteq> [] \<Longrightarrow> hd w \<noteq> None \<Longrightarrow> w_run w = Suc (w_run (tl w @ [None]))"
  by (cases w) (auto simp: w_run_def takeWhile_tail)

lemma w_run_0: "hd w = None \<Longrightarrow> w_run w = 0" if "w \<noteq> []"
  using that by (cases w) (auto simp: w_run_def)

text \<open>The run stops early only when the output array is full.\<close>

lemma release_run_gen:
  assumes "rx_ok r" "length out \<le> 64" "k = min (w_run (window r)) (64 - length out)"
  shows "release_run r out = ((step_head ^^ k) r, out @ somes (take k (window r)))"
  using assms
proof (induction k arbitrary: r out)
  case 0
  then consider "length out = 64" | "w_run (window r) = 0" by linarith
  then show ?case
  proof cases
    case 1 then show ?thesis by (subst release_run_step) simp
  next
    case 2
    then have "ba_buf r ! head_slot r = None"
      using w_run_Suc[OF window_nonempty[OF 0(1)]] head_slot_window[OF 0(1)]
      by (cases "hd (window r) = None") simp_all
    then show ?thesis by (subst release_run_step) simp
  qed
next
  case (Suc k)
  note ok = Suc.prems(1) and ne = window_nonempty[OF Suc.prems(1)]
  let ?out = "out @ somes [ba_buf r ! head_slot r]"
  have hd: "ba_buf r ! head_slot r \<noteq> None"
  proof
    assume "ba_buf r ! head_slot r = None"
    then have "w_run (window r) = 0" using w_run_0[OF ne] head_slot_window[OF ok] by simp
    with Suc.prems(3) show False by simp
  qed
  then have lout: "length ?out = Suc (length out)" by auto
  have "0 < unat (ba_stored r)" using step_head_stored[OF ok] hd by auto
  then have st: "ba_stored r > 0" by (simp add: word_less_nat_alt)
  have k: "k = min (w_run (window (step_head r))) (64 - length ?out)"
    using Suc.prems(2,3) w_run_Suc[OF ne] hd head_slot_window[OF ok] step_head[OF ok] lout by simp
  have "length out < 64" using Suc.prems(3) by (cases "64 - length out") simp_all
  then have "release_run r out = release_run (step_head r) ?out"
    using hd st by (subst release_run_step) simp
  also have "\<dots> = ((step_head ^^ k) (step_head r), ?out @ somes (take k (window (step_head r))))"
    using Suc.IH[OF _ _ k] step_head[OF ok] lout Suc.prems(2,3) by simp
  also have "?out @ somes (take k (window (step_head r))) = out @ somes (take (Suc k) (window r))"
    using step_head[OF ok] somes_take_shift[OF ne, of k] head_slot_window[OF ok] by simp
  finally show ?case by (simp add: funpow_swap1)
qed

lemma w_run_le_somes: "w_run w \<le> length (somes w)"
  unfolding w_run_def by (induction w rule: list.induct) (auto split: option.split)

lemma release_run_eq:
  assumes "rx_ok r" "length out + unat (ba_stored r) \<le> 64"
  shows "release_run r out =
    ((step_head ^^ w_run (window r)) r, out @ somes (take (w_run (window r)) (window r)))"
  using release_run_gen[OF assms(1), of out "w_run (window r)"] assms(2)
    w_run_le_somes[of "window r"] stored_window[OF assms(1)] by simp

definition w_holes :: "'f option list \<Rightarrow> nat" where
  "w_holes w = length (takeWhile (\<lambda>x. x = None) w)"

lemma somes_nil: "somes w = [] \<longleftrightarrow> (\<forall>x \<in> set w. x = None)"
  by (auto simp: somes_def filter_empty_conv)

lemma skip_holes_eq:
  assumes "rx_ok r" "0 < unat (ba_stored r)" "g + w_holes (window r) < 4096"
  shows "skip_holes r g = (step_head ^^ w_holes (window r)) r"
  using assms
proof (induction "w_holes (window r)" arbitrary: r g)
  case 0
  then have "ba_buf r ! head_slot r \<noteq> None"
    using window_nonempty[OF 0(2)] head_slot_window[OF 0(2)]
    by (cases "window r") (auto simp: w_holes_def split: if_splits)
  then show ?case using 0 by (subst skip_holes_step) auto
next
  case (Suc k)
  note ok = Suc.prems(1)
  obtain x xs where w: "window r = x # xs" using window_nonempty[OF ok] by (cases "window r") auto
  with Suc.hyps(2) have x: "x = None" by (auto simp: w_holes_def split: if_splits)
  have hd: "ba_buf r ! head_slot r = None" using head_slot_window[OF ok] w x by simp
  have st: "0 < unat (ba_stored (step_head r))"
    using step_head_stored[OF ok] hd Suc.prems(2) by simp
  have "somes xs \<noteq> []" using stored_window[OF ok] Suc.prems(2) w x by auto
  then obtain y where "y \<in> set xs" "y \<noteq> None" unfolding somes_nil by blast
  then have "takeWhile (\<lambda>x. x = None) (xs @ [None]) = takeWhile (\<lambda>x. x = None) xs"
    by (rule takeWhile_append1)
  then have k: "k = w_holes (window (step_head r))"
    using Suc.hyps(2) step_head[OF ok] w x by (simp add: w_holes_def)
  have "skip_holes r g = skip_holes (step_head r) (g + 1)"
    using hd Suc.prems by (subst skip_holes_step) (simp add: word_less_nat_alt)
  also have "\<dots> = (step_head ^^ k) (step_head r)"
    using Suc.hyps(1)[OF k] step_head[OF ok] st k Suc.prems(3) Suc.hyps(2) by simp
  finally show ?case by (simp add: funpow_swap1 flip: Suc.hyps(2))
qed

section \<open>Inserting a frame\<close>

lemma slot_window:
  assumes "rx_ok r" "i < unat (bufSize r)" "idx = (i + unat (headSn r)) mod 64"
  shows "ba_buf r ! idx = window r ! i"
proof -
  have "window r ! i = ring r ! i" using assms by (simp add: window_def)
  with assms show ?thesis by (simp add: ring_def nth_rotate rx_ok_def add.commute)
qed

lemma length_somes_update:
  "i < length w \<Longrightarrow> w ! i = None \<Longrightarrow> length (somes (w[i := Some f])) = Suc (length (somes w))"
proof (induction w arbitrary: i)
  case (Cons x w)
  then show ?case by (cases i; cases x) auto
qed simp

lemma length_somes_le: "length (somes w) \<le> length w"
  by (simp add: somes_def length_filter_le)

definition put_slot :: "'f rx_reorder \<Rightarrow> nat \<Rightarrow> 'f \<Rightarrow> 'f rx_reorder" where
  "put_slot r idx f = r\<lparr>ba_buf := (ba_buf r)[idx := Some f], ba_stored := ba_stored r + 1\<rparr>"

lemma put_slot:
  assumes r: "rx_ok r" and i: "i < unat (bufSize r)" and idx: "idx = (i + unat (headSn r)) mod 64"
    and free: "window r ! i = None"
  shows "rx_ok (put_slot r idx f) \<and> window (put_slot r idx f) = (window r)[i := Some f]"
proof (rule rx_okI)
  note sp = ring_split[OF r]
  have len: "length (ba_buf r) = 64" "unat (bufSize r) \<le> 64" using r by (simp_all add: rx_ok_def)
  have "ring (put_slot r idx f) = (ring r)[i := Some f]"
    using rotate_update[of i "ba_buf r" "unat (headSn r)" "Some f"] i len idx
    by (simp add: ring_def put_slot_def)
  then show "ring (put_slot r idx f) = (window r)[i := Some f] @
      replicate (64 - unat (bufSize (put_slot r idx f))) None"
    using sp i by (simp add: list_update_append put_slot_def)
  have lt: "length (somes (window r)) \<le> 64"
    using sp(2) len length_somes_le[of "window r"] by simp
  show "unat (ba_stored (put_slot r idx f)) = length (somes ((window r)[i := Some f]))"
    using length_somes_update[of i "window r" f] free i sp(2) stored_window[OF r] lt
    by (simp add: put_slot_def unat_word_ariths)
qed (use r i ring_split(2)[OF r] in \<open>simp_all add: rx_ok_def put_slot_def\<close>)

lemma length_somes_less: "None \<in> set w \<Longrightarrow> length (somes w) < length w"
  unfolding somes_def by (induction w) (auto simp: less_Suc_eq_le)

lemma w_run_None:
  assumes "w \<noteq> []"
  shows "None \<in> set (fst (w_slide (w_run w) w))"
proof (cases "w_run w = 0")
  case True
  then have "hd w = None" using assms by (cases w) (auto simp: w_run_def split: if_splits)
  with True assms show ?thesis by (auto simp: w_slide_def dest: hd_in_set)
next
  case False
  with assms show ?thesis by (auto simp: w_slide_def)
qed

lemma w_slide_length [simp]: "length (fst (w_slide d w)) = length w"
  by (simp add: w_slide_def)

text \<open>The whole of \<open>rxReorderInput\<close> as head steps: \<open>d\<close> of them, the insertion, and the run.\<close>

lemma new_head_dist:
  fixes sn h n :: u16
  assumes "unat ((sn - h) AND 0xFFF) = rel" "unat n \<le> rel + 1" "rel < 2048"
  shows "unat ((((sn + 1 - n) AND 0xFFF) - h) AND 0xFFF) = rel + 1 - unat n"
proof -
  let ?nh = "(sn + 1 - n) AND 0xFFF"
  have rel: "(uint sn - uint h) mod 4096 = int rel"
    using sn_dist_unat[of sn h] assms(1) by simp
  have "uint (sn + 1 - n) = ((uint sn + 1) mod 65536 - uint n) mod 65536"
    by (simp add: uint_word_ariths)
  also have "\<dots> = (uint sn + 1 - uint n) mod 65536" by (rule mod_diff_left_eq)
  finally have "uint ?nh = (uint sn + 1 - uint n) mod 65536 mod 4096"
    by (simp only: uint_and_0xFFF)
  also have "\<dots> = (uint sn + 1 - uint n) mod 4096" by (rule mod_mod_cancel) simp
  finally have "uint ((?nh - h) AND 0xFFF) = ((uint sn + 1 - uint n) mod 4096 - uint h) mod 4096"
    by (simp only: sn_dist)
  also have "\<dots> = (uint sn + 1 - uint n - uint h) mod 4096" by (rule mod_diff_left_eq)
  also have "\<dots> = ((uint sn - uint h) + (1 - uint n)) mod 4096"
    by (simp add: algebra_simps)
  also have "\<dots> = ((uint sn - uint h) mod 4096 + (1 - uint n)) mod 4096"
    by (rule mod_add_left_eq[symmetric])
  also have "\<dots> = int rel + 1 - int (unat n)"
  proof -
    have "int (unat n) \<le> int (rel + 1)" using assms(2) by (simp only: of_nat_le_iff)
    then have "uint n \<le> int rel + 1" by simp
    moreover have "0 \<le> uint n" by simp
    moreover have "int rel < 2048" using assms(3) by simp
    ultimately have "0 \<le> int rel + (1 - uint n)" "int rel + (1 - uint n) < 4096"
      by linarith+
    then show ?thesis unfolding rel by simp
  qed
  finally have "int (unat ((?nh - h) AND 0xFFF)) = int rel + 1 - int (unat n)" by simp
  then show ?thesis using assms(2) by linarith
qed

lemma reorder_frame_unfold:
  assumes "rx_inv r" "unat sn < 4096" "unat ((sn - headSn r) AND 0xFFF) = rel" "rel < 2048"
    and d: "d = (if rel < unat (bufSize r) then 0 else rel + 1 - unat (bufSize r))"
    and r1: "r1 = (step_head ^^ d) r"
    and r2: "r2 = (if window r1 ! (rel - d) = None
              then put_slot r1 (unat sn mod 64) skb else r1)"
    and r3: "r3 = (step_head ^^ w_run (window r2)) r2"
  shows "reorder_frame r skb sn =
      (r3, \<lparr>ro_delivered = somes (take d (window r)) @ somes (take (w_run (window r2)) (window r2)),
            ro_freed = (if window r1 ! (rel - d) = None then [] else [skb]),
            ro_timer = ba_stored r3 > 0\<rparr>)"
    and "rx_ok r1" "rx_ok r2" "rx_inv r3" "window r1 = fst (w_slide d (window r))"
    "window r2 = (if window r1 ! (rel - d) = None then (window r1)[rel - d := Some skb] else window r1)"
    "window r3 = fst (w_slide (w_run (window r2)) (window r2))"
    "rel - d < unat (bufSize r)" "bufSize r3 = bufSize r" "ba_active r3 = ba_active r"
    "unat (headSn r3) = (unat (headSn r) + d + w_run (window r2)) mod 4096"
    "(unat (headSn r) + rel) mod 4096 = unat sn"
proof -
  have ok: "rx_ok r" and st: "unat (ba_stored r) < 64" using assms(1) by (simp_all add: rx_inv_def)
  have n: "0 < unat (bufSize r)" "unat (bufSize r) \<le> 64" "unat (headSn r) < 4096"
    using ok by (simp_all add: rx_ok_def)
  have i: "rel - d < unat (bufSize r)" and dr: "d \<le> rel" using n d by (auto split: if_splits)
  note s1 = step_head_n[OF ok, of d, folded r1]
  then have ok1: "rx_ok r1" and bs1: "bufSize r1 = bufSize r" by simp_all
  have "int (unat sn) < int 4096" using assms(2) by (simp only: of_nat_less_iff)
  then have "int (unat sn) mod 4096 = int (unat sn)" by simp
  then have "int ((unat (headSn r) + rel) mod 4096) = int (unat sn)"
    using sn_dist_unat[of sn "headSn r"] assms(3) by (simp add: zmod_int mod_add_right_eq)
  then show sn: "(unat (headSn r) + rel) mod 4096 = unat sn" by (simp only: of_nat_eq_iff)
  have idx: "unat sn mod 64 = (rel - d + unat (headSn r1)) mod 64"
  proof -
    have "(rel - d + unat (headSn r1)) mod 64 = (rel - d + (unat (headSn r) + d)) mod 64"
      using s1 by (simp add: mod_add_right_eq mod_mod_cancel
          mod_add_right_eq[of "rel - d" "(unat (headSn r) + d) mod 4096" 64, symmetric])
    also have "\<dots> = unat sn mod 64" using dr by (simp add: add.commute mod_mod_cancel flip: sn)
    finally show ?thesis by simp
  qed
  have slot: "ba_buf r1 ! (unat sn mod 64) = window r1 ! (rel - d)"
    using slot_window[OF ok1 _ idx] i bs1 by simp
  have r2': "rx_ok r2 \<and> window r2 =
      (if window r1 ! (rel - d) = None then (window r1)[rel - d := Some skb] else window r1)"
    using put_slot[OF ok1 _ idx] i bs1 ok1 by (simp add: r2)
  have f2: "bufSize r2 = bufSize r" "ba_active r2 = ba_active r" "headSn r2 = headSn r1"
    using s1 by (simp_all add: r2 put_slot_def)
  have ok2: "rx_ok r2" using r2' by simp
  note s3 = step_head_n[OF ok2, of "w_run (window r2)", folded r3]
  have out1: "length (somes (take d (window r))) + unat (ba_stored r1) = unat (ba_stored r)"
  proof -
    have "somes (window r) = somes (take d (window r)) @ somes (drop d (window r))"
      by (simp flip: somes_append)
    moreover have "unat (ba_stored r1) = length (somes (drop d (window r)))"
      using stored_window[OF ok1] s1 by (simp add: w_slide_def)
    ultimately show ?thesis using stored_window[OF ok] by simp
  qed
  have st2: "unat (ba_stored r2) \<le> Suc (unat (ba_stored r1))"
    using stored_window[OF ok2] stored_window[OF ok1] r2' ring_split(2)[OF ok1] i bs1
    by (auto simp: length_somes_update)
  have slide: "(if bufSize r \<le> (sn - headSn r) AND 0xFFF
      then slide_window ((sn + 1 - bufSize r) AND 0xFFF) r [] else (r, [])) =
      (r1, somes (take d (window r)))"
  proof (cases "rel < unat (bufSize r)")
    case True
    then show ?thesis using assms(3) by (simp add: word_le_nat_alt d r1)
  next
    case False
    then have "unat ((((sn + 1 - bufSize r) AND 0xFFF) - headSn r) AND 0xFFF) = d"
      using new_head_dist[OF assms(3)] assms(4) d by simp
    moreover have "d < 2048" using False assms(4) d n by simp
    ultimately show ?thesis
      using slide_window_eq[OF ok, of "(sn + 1 - bufSize r) AND 0xFFF" d "[]"] st False assms(3)
      by (simp add: word_le_nat_alt r1)
  qed
  have run: "release_run r2 (somes (take d (window r))) =
      (r3, somes (take d (window r)) @ somes (take (w_run (window r2)) (window r2)))"
    using release_run_eq[OF ok2, of "somes (take d (window r))"] out1 st st2 by (simp add: r3)
  have rel: "\<not> (2048 \<le> (sn - headSn r) AND 0xFFF)"
    using assms(3,4) by (simp add: word_le_nat_alt)
  show "reorder_frame r skb sn =
      (r3, \<lparr>ro_delivered = somes (take d (window r)) @ somes (take (w_run (window r2)) (window r2)),
            ro_freed = (if window r1 ! (rel - d) = None then [] else [skb]),
            ro_timer = ba_stored r3 > 0\<rparr>)"
    using rel slide slot run unfolding reorder_frame_def Let_def
    by (cases "window r1 ! (rel - d)") (simp_all add: r2 put_slot_def)
  show "rx_inv r3"
    using s3 stored_window[of r3] length_somes_less[OF w_run_None[OF window_nonempty[OF ok2]]]
      ring_split(2)[OF ok2] f2 n by (simp add: rx_inv_def)
  show "unat (headSn r3) = (unat (headSn r) + d + w_run (window r2)) mod 4096"
    using s3 s1 f2 by (simp add: mod_add_left_eq)
  show "rx_ok r1" "rx_ok r2" "window r1 = fst (w_slide d (window r))"
    "window r2 = (if window r1 ! (rel - d) = None then (window r1)[rel - d := Some skb] else window r1)"
    "window r3 = fst (w_slide (w_run (window r2)) (window r2))"
    "rel - d < unat (bufSize r)" "bufSize r3 = bufSize r" "ba_active r3 = ba_active r"
    using s1 ok1 r2' s3 i f2 by simp_all
qed

section \<open>Delivery order\<close>

text \<open>\<open>in_order sq h k fs\<close>: the sequence numbers of \<open>fs\<close> are head + n for strictly increasing
  n below k, modulo 4096.\<close>

definition in_order :: "('f \<Rightarrow> u16) \<Rightarrow> nat \<Rightarrow> nat \<Rightarrow> 'f list \<Rightarrow> bool" where
  "in_order sq h k fs \<longleftrightarrow> (\<exists>ns. sorted_wrt (<) ns \<and> (\<forall>n \<in> set ns. n < k) \<and>
     map (\<lambda>f. unat (sq f)) fs = map (\<lambda>n. (h + n) mod 4096) ns)"

lemma in_order_Nil [simp]: "in_order sq h k []"
  unfolding in_order_def by (rule exI[of _ "[]"]) simp

lemma in_order_mod [simp]: "in_order sq (h mod 4096) k fs = in_order sq h k fs"
  by (simp add: in_order_def mod_add_left_eq)

lemma in_order_append:
  assumes "in_order sq h k fs" "in_order sq (h + k) m gs"
  shows "in_order sq h (k + m) (fs @ gs)"
proof -
  from assms obtain ns ms where
    "sorted_wrt (<) ns" "\<forall>n \<in> set ns. n < k" "map (\<lambda>f. unat (sq f)) fs = map (\<lambda>n. (h + n) mod 4096) ns"
    "sorted_wrt (<) ms" "\<forall>n \<in> set ms. n < m" "map (\<lambda>f. unat (sq f)) gs = map (\<lambda>n. (h + k + n) mod 4096) ms"
    unfolding in_order_def by blast
  then have "sorted_wrt (<) (ns @ map ((+) k) ms) \<and> (\<forall>n \<in> set (ns @ map ((+) k) ms). n < k + m) \<and>
      map (\<lambda>f. unat (sq f)) (fs @ gs) = map (\<lambda>n. (h + n) mod 4096) (ns @ map ((+) k) ms)"
    by (auto simp: sorted_wrt_append sorted_wrt_map add.assoc intro: trans_less_add1)
  then show ?thesis unfolding in_order_def by blast
qed

definition w_tagged :: "('f \<Rightarrow> u16) \<Rightarrow> nat \<Rightarrow> 'f option list \<Rightarrow> bool" where
  "w_tagged sq h w \<longleftrightarrow> (\<forall>i < length w. \<forall>f. w ! i = Some f \<longrightarrow> unat (sq f) = (h + i) mod 4096)"

lemma w_tagged_code [code]:
  "w_tagged sq h w \<longleftrightarrow> (\<forall>i \<in> set [0..<length w].
     case w ! i of None \<Rightarrow> True | Some f \<Rightarrow> unat (sq f) = (h + i) mod 4096)"
  by (auto simp: w_tagged_def split: option.splits)

lemma w_tagged_mod [simp]: "w_tagged sq (h mod 4096) w = w_tagged sq h w"
  by (simp add: w_tagged_def mod_add_left_eq)

lemma w_tagged_slide: "w_tagged sq h w \<Longrightarrow> w_tagged sq (h + d) (fst (w_slide d w))"
  unfolding w_tagged_def
proof (intro allI impI)
  fix i f
  assume w: "\<forall>i<length w. \<forall>f. w ! i = Some f \<longrightarrow> unat (sq f) = (h + i) mod 4096"
    and i: "i < length (fst (w_slide d w))" and f: "fst (w_slide d w) ! i = Some f"
  have "i + d < length w"
  proof (rule ccontr)
    assume "\<not> i + d < length w"
    with i have "\<not> i < length w - d" "i - (length w - d) < min d (length w)"
      by (auto simp: w_slide_def)
    then have "fst (w_slide d w) ! i = None"
      by (simp add: w_slide_def nth_append)
    with f show False by simp
  qed
  moreover from this f have "w ! (i + d) = Some f"
    by (simp add: w_slide_def nth_append less_diff_conv add.commute)
  ultimately show "unat (sq f) = (h + d + i) mod 4096"
    using w by (simp add: ac_simps)
qed

lemma w_tagged_update:
  "w_tagged sq h w \<Longrightarrow> unat (sq f) = (h + i) mod 4096 \<Longrightarrow> w_tagged sq h (w[i := Some f])"
  by (cases "i < length w") (auto simp: w_tagged_def nth_list_update split: if_splits)

lemma in_order_take:
  assumes "w_tagged sq h w"
  shows "in_order sq h k (somes (take k w))"
proof (induction k)
  case (Suc k)
  show ?case
  proof (cases "k < length w")
    case True
    have "in_order sq (h + k) 1 (somes [w ! k])"
    proof (cases "w ! k")
      case (Some f)
      with assms True have "unat (sq f) = (h + k) mod 4096" by (auto simp: w_tagged_def)
      then have "sorted_wrt (<) [0] \<and> (\<forall>n \<in> set [0]. n < (1::nat)) \<and>
        map (\<lambda>f. unat (sq f)) [f] = map (\<lambda>n. (h + k + n) mod 4096) [0]" by simp
      then show ?thesis unfolding in_order_def Some by (metis somes_simps)
    qed simp
    from in_order_append[OF Suc this] True show ?thesis
      by (simp add: take_Suc_conv_app_nth)
  next
    case False
    with in_order_append[OF Suc, of 1 "[]"] show ?thesis by simp
  qed
qed simp

definition rx_tagged :: "('f \<Rightarrow> u16) \<Rightarrow> 'f rx_reorder \<Rightarrow> bool" where
  "rx_tagged sq r \<longleftrightarrow> w_tagged sq (unat (headSn r)) (window r)"

definition delivers :: "('f \<Rightarrow> u16) \<Rightarrow> 'f rx_reorder \<Rightarrow> 'f rx_reorder \<Rightarrow> 'f list \<Rightarrow> bool" where
  "delivers sq r r' fs \<longleftrightarrow> rx_inv r' \<and> rx_tagged sq r' \<and>
     (\<exists>k. in_order sq (unat (headSn r)) k fs \<and> unat (headSn r') = (unat (headSn r) + k) mod 4096)"

lemma delivers_refl: "rx_inv r \<Longrightarrow> rx_tagged sq r \<Longrightarrow> delivers sq r r []"
  unfolding delivers_def by (auto intro!: exI[of _ 0] simp: rx_inv_def rx_ok_def)

lemma delivers_trans:
  assumes "delivers sq r r1 fs" "delivers sq r1 r2 gs"
  shows "delivers sq r r2 (fs @ gs)"
proof -
  from assms obtain k m where
    "in_order sq (unat (headSn r)) k fs" "unat (headSn r1) = (unat (headSn r) + k) mod 4096"
    "in_order sq (unat (headSn r1)) m gs" "unat (headSn r2) = (unat (headSn r1) + m) mod 4096"
    unfolding delivers_def by blast
  then have "in_order sq (unat (headSn r)) (k + m) (fs @ gs)"
    "unat (headSn r2) = (unat (headSn r) + (k + m)) mod 4096"
    using in_order_append by (fastforce, simp add: mod_add_left_eq add.assoc)
  with assms show ?thesis unfolding delivers_def by blast
qed

lemma delivers_step_head_n:
  assumes "rx_ok r" "unat (ba_stored ((step_head ^^ k) r)) < 64" "rx_tagged sq r"
  shows "delivers sq r ((step_head ^^ k) r) (somes (take k (window r)))"
  using step_head_n[OF assms(1), of k] assms(2,3) w_tagged_slide[of sq _ "window r" k]
    in_order_take[of sq _ "window r" k]
  unfolding delivers_def rx_inv_def rx_tagged_def by auto

section \<open>Every operation against the window\<close>

lemma steps_mset:
  assumes "rx_ok r"
  shows "mset (somes (take k (window r))) + mset (somes (ba_buf ((step_head ^^ k) r))) =
    mset (somes (ba_buf r))"
    and "length (somes (take k (window r))) + unat (ba_stored ((step_head ^^ k) r)) = unat (ba_stored r)"
proof -
  have w: "window ((step_head ^^ k) r) = drop k (window r) @ replicate (min k (length (window r))) None"
    and ok: "rx_ok ((step_head ^^ k) r)"
    using step_head_n[OF assms, of k] by (simp_all add: w_slide_def)
  have "somes (window r) = somes (take k (window r)) @ somes (drop k (window r))"
    by (simp flip: somes_append)
  then show "mset (somes (take k (window r))) + mset (somes (ba_buf ((step_head ^^ k) r))) =
      mset (somes (ba_buf r))"
    and "length (somes (take k (window r))) + unat (ba_stored ((step_head ^^ k) r)) = unat (ba_stored r)"
    using mset_somes_window[OF assms] mset_somes_window[OF ok] stored_window[OF assms]
      stored_window[OF ok] w by simp_all
qed

lemma mset_chain:
  assumes "A + B1 = R0" "C + B3 = B2" "B2 + F = add_mset f B1"
  shows "A + C + F + B3 = add_mset f (R0 :: 'a multiset)"
proof -
  have "A + C + F + B3 = A + ((C + B3) + F)" by (simp add: ac_simps)
  also have "\<dots> = A + add_mset f B1" using assms(2,3) by simp
  finally show ?thesis using assms(1) by simp
qed

text \<open>One frame: the state is again a window state, and the frames are conserved.\<close>

lemma reorder_frame_delivers:
  assumes "rx_inv r" "rx_tagged sq r" "unat (sq f) < 4096" "reorder_frame r f (sq f) = (r', res)"
  shows "delivers sq r r' (ro_delivered res)"
proof (cases "unat ((sq f - headSn r) AND 0xFFF) < 2048")
  case False
  with assms(4) have "r' = r" "ro_delivered res = []"
    by (auto simp: reorder_frame_def word_le_nat_alt)
  with delivers_refl[OF assms(1,2)] show ?thesis by simp
next
  case True
  define rel where "rel = unat ((sq f - headSn r) AND 0xFFF)"
  define d where "d = (if rel < unat (bufSize r) then 0 else rel + 1 - unat (bufSize r))"
  define r1 where "r1 = (step_head ^^ d) r"
  define r2 where "r2 = (if window r1 ! (rel - d) = None then put_slot r1 (unat (sq f) mod 64) f else r1)"
  define r3 where "r3 = (step_head ^^ w_run (window r2)) r2"
  note u = reorder_frame_unfold[OF assms(1,3) rel_def[symmetric] True[folded rel_def] d_def r1_def r2_def r3_def]
  have ok: "rx_ok r" using assms(1) by (simp add: rx_inv_def)
  have st1: "unat (ba_stored r1) < 64"
    using steps_mset(2)[OF ok, of d] assms(1) by (simp add: r1_def rx_inv_def)
  have d1: "delivers sq r r1 (somes (take d (window r)))"
    using delivers_step_head_n[OF ok _ assms(2), of d] st1 by (simp add: r1_def)
  have h1: "headSn r2 = headSn r1" by (simp add: r2_def put_slot_def)
  have tag1: "w_tagged sq (unat (headSn r1)) (window r1)"
    using d1 by (simp add: delivers_def rx_tagged_def)
  have "0 < unat (bufSize r)" using ok by (simp add: rx_ok_def)
  then have "d \<le> rel" unfolding d_def by arith
  then have "unat (headSn r) + d + (rel - d) = unat (headSn r) + rel" by simp
  moreover have "unat (headSn r1) = (unat (headSn r) + d) mod 4096"
    using step_head_n[OF ok, of d] by (simp add: r1_def)
  ultimately have "unat (sq f) = (unat (headSn r1) + (rel - d)) mod 4096"
    using u(12) by (simp only: mod_add_left_eq)
  with tag1 have tag2: "rx_tagged sq r2"
    unfolding rx_tagged_def h1 u(6) by (auto intro: w_tagged_update)
  have d2: "delivers sq r1 r3 (somes (take (w_run (window r2)) (window r2)))"
    using delivers_step_head_n[OF u(3) _ tag2, of "w_run (window r2)"] u(4) h1
    by (simp add: r3_def rx_inv_def delivers_def)
  from delivers_trans[OF d1 d2] u(1) assms(4) show ?thesis by simp
qed

lemma reorder_frame_mset:
  assumes "rx_inv r" "unat sn < 4096" "reorder_frame r f sn = (r', res)"
  shows "rx_inv r' \<and> ba_active r' = ba_active r \<and>
    mset (ro_delivered res) + mset (ro_freed res) + mset (somes (ba_buf r')) =
    add_mset f (mset (somes (ba_buf r)))"
proof (cases "unat ((sn - headSn r) AND 0xFFF) < 2048")
  case False
  with assms show ?thesis by (auto simp: reorder_frame_def word_le_nat_alt)
next
  case True
  define rel where "rel = unat ((sn - headSn r) AND 0xFFF)"
  define d where "d = (if rel < unat (bufSize r) then 0 else rel + 1 - unat (bufSize r))"
  define r1 where "r1 = (step_head ^^ d) r"
  define r2 where "r2 = (if window r1 ! (rel - d) = None then put_slot r1 (unat sn mod 64) f else r1)"
  define r3 where "r3 = (step_head ^^ w_run (window r2)) r2"
  note u = reorder_frame_unfold[OF assms(1,2) rel_def[symmetric] True[folded rel_def] d_def r1_def r2_def r3_def]
  have ok: "rx_ok r" using assms(1) by (simp add: rx_inv_def)
  have upd: "mset (somes (w[i := Some f])) = add_mset f (mset (somes w))"
    if "i < length w" "w ! i = None" for i and w :: "'a option list"
    using that
  proof (induction w arbitrary: i)
    case (Cons x w)
    then show ?case by (cases i; cases x) auto
  qed simp
  have "rel - d < length (window r1)"
    using u(8) ring_split(2)[OF u(2)] step_head_n[OF ok, of d] by (simp add: r1_def)
  then have m2: "mset (somes (ba_buf r2)) + mset (if window r1 ! (rel - d) = None then [] else [f]) =
      add_mset f (mset (somes (ba_buf r1)))"
    using mset_somes_window[OF u(2)] mset_somes_window[OF u(3)] u(6) upd by auto
  have "mset (somes (take d (window r))) + mset (somes (ba_buf r1)) = mset (somes (ba_buf r))"
    using steps_mset(1)[OF ok, of d] by (simp add: r1_def)
  moreover have "mset (somes (take (w_run (window r2)) (window r2))) + mset (somes (ba_buf r3)) =
      mset (somes (ba_buf r2))"
    using steps_mset(1)[OF u(3), of "w_run (window r2)"] by (simp add: r3_def)
  ultimately have "mset (somes (take d (window r)) @ somes (take (w_run (window r2)) (window r2))) +
      mset (if window r1 ! (rel - d) = None then [] else [f]) + mset (somes (ba_buf r3)) =
      add_mset f (mset (somes (ba_buf r)))"
    using mset_chain[OF _ _ m2] by simp
  with u(1,4,10) assms(3) show ?thesis by auto
qed

text \<open>One TID of the flush timer.\<close>

lemma flush_tid_steps:
  assumes "rx_ok r" "0 < unat (ba_stored r)" "length out \<le> 64"
  obtains q k where "q = (step_head ^^ w_holes (window r)) r" "rx_ok q"
    "somes (take (w_holes (window r)) (window r)) = []" "ba_stored q = ba_stored r"
    "k = min (w_run (window q)) (64 - length out)" "0 < w_run (window q)"
    "flush_tid r out = ((step_head ^^ k) q, out @ somes (take k (window q)))"
proof -
  define j where "j = w_holes (window r)"
  define q where "q = (step_head ^^ j) r"
  define k where "k = min (w_run (window q)) (64 - length out)"
  have ok: "rx_ok q" using step_head_n[OF assms(1)] by (simp add: q_def)
  have jl: "j \<le> length (window r)" by (simp add: j_def w_holes_def length_takeWhile_le)
  then have j: "j < 4096" using ring_split(2)[OF assms(1)] assms(1) by (simp add: rx_ok_def)
  have "take j (window r) = takeWhile (\<lambda>x. x = None) (window r)"
    by (simp add: j_def w_holes_def takeWhile_eq_take[symmetric])
  then have nil: "somes (take j (window r)) = []"
    unfolding somes_nil by (auto dest: set_takeWhileD)
  have st: "ba_stored q = ba_stored r"
    using steps_mset(2)[OF assms(1), of j] nil by (simp add: q_def word_unat_eq_iff)
  have "somes (window r) \<noteq> []" using stored_window[OF assms(1)] assms(2) by auto
  then obtain y where y: "y \<in> set (window r)" "y \<noteq> None" unfolding somes_nil by blast
  then have "hd (dropWhile (\<lambda>x. x = None) (window r)) \<noteq> None" "dropWhile (\<lambda>x. x = None) (window r) \<noteq> []"
    using hd_dropWhile[of "\<lambda>x. x = None" "window r"] by auto
  moreover have "drop j (window r) = dropWhile (\<lambda>x. x = None) (window r)"
    by (simp add: j_def w_holes_def dropWhile_eq_drop)
  ultimately have "hd (drop j (window r)) \<noteq> None" "drop j (window r) \<noteq> []" by simp_all
  moreover have "window q = drop j (window r) @ replicate (min j (length (window r))) None"
    using step_head_n[OF assms(1), of j] by (simp add: q_def w_slide_def)
  ultimately have "hd (window q) \<noteq> None" by (simp only: hd_append2 simp_thms)
  then have run: "0 < w_run (window q)" using w_run_Suc[OF window_nonempty[OF ok]] by simp
  have "flush_tid r out = release_run q out"
    using skip_holes_eq[OF assms(1,2), of 0] j by (simp add: flush_tid_def q_def j_def)
  then have "flush_tid r out = ((step_head ^^ k) q, out @ somes (take k (window q)))"
    using release_run_gen[OF ok assms(3) k_def] by simp
  then show thesis using that[of q k] ok nil st k_def run by (simp add: q_def j_def)
qed

lemma flush_tid_delivers:
  assumes "rx_inv r" "rx_tagged sq r" "0 < unat (ba_stored r)" "length out \<le> 64"
    "flush_tid r out = (r', out')"
  shows "delivers sq r r' (drop (length out) out')"
proof -
  have ok: "rx_ok r" using assms(1) by (simp add: rx_inv_def)
  from flush_tid_steps[OF ok assms(3,4)] obtain q k where q:
    "q = (step_head ^^ w_holes (window r)) r" "rx_ok q"
    "somes (take (w_holes (window r)) (window r)) = []" "ba_stored q = ba_stored r"
    "flush_tid r out = ((step_head ^^ k) q, out @ somes (take k (window q)))" by metis
  have d1: "delivers sq r q []"
    using delivers_step_head_n[OF ok _ assms(2), of "w_holes (window r)"] q(1,3,4) assms(1)
    by (simp add: rx_inv_def)
  have "unat (ba_stored ((step_head ^^ k) q)) < 64"
    using steps_mset(2)[OF q(2), of k] q(4) assms(1) by (simp add: rx_inv_def)
  from delivers_step_head_n[OF q(2) this]
  have "delivers sq q ((step_head ^^ k) q) (somes (take k (window q)))"
    using d1 unfolding delivers_def by blast
  from delivers_trans[OF d1 this] q(5) assms(5) show ?thesis by simp
qed

lemma somes_take_run: "k \<le> w_run w \<Longrightarrow> length (somes (take k w)) = k"
  unfolding w_run_def
proof (induction k arbitrary: w)
  case (Suc k)
  then obtain f w' where "w = Some f # w'" by (cases w; cases "hd w") auto
  with Suc show ?case by simp
qed simp

lemma flush_tid_mset:
  assumes "rx_inv r" "0 < unat (ba_stored r)" "length out \<le> 64" "flush_tid r out = (r', out')"
  shows "rx_inv r' \<and> ba_active r' = ba_active r \<and> length out' \<le> 64 \<and>
    mset out' + mset (somes (ba_buf r')) = mset out + mset (somes (ba_buf r)) \<and>
    length out \<le> length out' \<and> (length out < 64 \<longrightarrow> length out < length out')"
proof -
  have ok: "rx_ok r" using assms(1) by (simp add: rx_inv_def)
  from flush_tid_steps[OF ok assms(2,3)] obtain q k where q:
    "q = (step_head ^^ w_holes (window r)) r" "rx_ok q"
    "somes (take (w_holes (window r)) (window r)) = []" "ba_stored q = ba_stored r"
    "k = min (w_run (window q)) (64 - length out)" "0 < w_run (window q)"
    "flush_tid r out = ((step_head ^^ k) q, out @ somes (take k (window q)))" by metis
  have r': "r' = (step_head ^^ k) q" "out' = out @ somes (take k (window q))"
    using q(7) assms(4) by simp_all
  have len: "length (somes (take k (window q))) = k" using q(5) by (simp add: somes_take_run)
  have "mset (somes (ba_buf q)) = mset (somes (ba_buf r))"
    using steps_mset(1)[OF ok, of "w_holes (window r)"] q(1,3) by simp
  then have "mset out' + mset (somes (ba_buf r')) = mset out + mset (somes (ba_buf r))"
    using steps_mset(1)[OF q(2), of k] r' by (simp add: ac_simps)
  moreover have "rx_inv r'"
    using steps_mset(2)[OF q(2), of k] q(4) assms(1) step_head_n[OF q(2), of k] r'
    by (simp add: rx_inv_def)
  ultimately show ?thesis
    using r' len q step_head_n[OF q(2), of k] step_head_n[OF ok] assms(3) by simp
qed

section \<open>Properties\<close>

text \<open>C2. On an agreement that satisfies the ring invariant, \<open>rxReorderInput\<close> drops a frame
  from before the window and otherwise does exactly what the window specification does: same
  window, same delivered frames in the same order, same freed duplicate; the invariant is kept
  and the timer is armed just when frames remain buffered.\<close>

theorem reorder_frame_refines_window:
  assumes "rx_inv r" "unat sn < 4096" "reorder_frame r skb sn = (r', res)"
    "unat ((sn - headSn r) AND 0xFFF) = rel"
  shows "rx_inv r' \<and>
    (2048 \<le> rel \<longrightarrow> r' = r \<and> ro_delivered res = [] \<and> ro_freed res = [skb]) \<and>
    (rel < 2048 \<longrightarrow> (window r', ro_delivered res, ro_freed res) = w_input rel skb (window r) \<and>
       ro_timer res = (somes (window r') \<noteq> []))"
proof (cases "rel < 2048")
  case False
  then have "2048 \<le> (sn - headSn r) AND 0xFFF" using assms(4) by (simp add: word_le_nat_alt)
  with False assms(1,3) show ?thesis by (auto simp: reorder_frame_def)
next
  case True
  define d where "d = (if rel < unat (bufSize r) then 0 else rel + 1 - unat (bufSize r))"
  define r1 where "r1 = (step_head ^^ d) r"
  define r2 where "r2 = (if window r1 ! (rel - d) = None then put_slot r1 (unat sn mod 64) skb else r1)"
  define r3 where "r3 = (step_head ^^ w_run (window r2)) r2"
  note u = reorder_frame_unfold[OF assms(1,2,4) True d_def r1_def r2_def r3_def]
  have ok: "rx_ok r" and ok3: "rx_ok r3" using assms(1) u(4) by (simp_all add: rx_inv_def)
  have dw: "d = (if rel < length (window r) then 0 else rel + 1 - length (window r))"
    using ring_split(2)[OF ok] by (simp add: d_def)
  have "(window r3, somes (take d (window r)) @ somes (take (w_run (window r2)) (window r2)),
      if window r1 ! (rel - d) = None then [] else [skb]) = w_input rel skb (window r)"
    unfolding w_input_def Let_def dw[symmetric] u(7)
    using u(5,6) by (cases "window r1 ! (rel - d)") (auto simp: w_slide_def)
  moreover have "(ba_stored r3 > 0) = (somes (window r3) \<noteq> [])"
    using stored_window[OF ok3] by (simp add: word_less_nat_alt)
  ultimately show ?thesis using True u(1,4) assms(3) by auto
qed

definition rx_demo :: "nat rx_reorder" where
  "rx_demo = \<lparr>ba_active = True, headSn = 2, bufSize = 4, ba_stored = 1,
     ba_buf = (replicate 64 None)[3 := Some 7]\<rparr>"

lemma rx_demo_inv: "rx_inv rx_demo" by code_simp

theorem reorder_frame_refines_window_witness:
  "(case reorder_frame rx_demo 9 2 of (r', res) \<Rightarrow>
     (window r', ro_delivered res, ro_freed res) = w_input 0 9 (window rx_demo)) \<and>
   ro_delivered (snd (reorder_frame rx_demo 9 2)) = [9, 7]"
proof -
  obtain r' res where e: "reorder_frame rx_demo 9 2 = (r', res)" by fastforce
  have "(window r', ro_delivered res, ro_freed res) = w_input 0 9 (window rx_demo)"
    using reorder_frame_refines_window[OF rx_demo_inv _ e, of 0] by (simp add: rx_demo_def)
  moreover have "fst (snd (w_input 0 9 (window rx_demo))) = [9, 7]" by code_simp
  ultimately show ?thesis unfolding e by (simp add: prod_eq_iff)
qed

text \<open>Traces of one agreement: frames arrive, and the flush timer fires with the output of the
  lower TIDs already collected.\<close>

datatype 'f rx_event = Frame 'f | Flush "'f list"

fun rx_event_step :: "('f \<Rightarrow> u16) \<Rightarrow> 'f rx_event \<Rightarrow> 'f rx_reorder \<Rightarrow> 'f rx_reorder \<times> 'f list" where
  "rx_event_step sq (Frame f) r =
     (let (r', res) = reorder_frame r f (sq f) in (r', ro_delivered res))"
| "rx_event_step sq (Flush out) r =
     (if ba_stored r = 0 then (r, [])
      else let (r', out') = flush_tid r out in (r', drop (length out) out'))"

fun rx_run :: "('f \<Rightarrow> u16) \<Rightarrow> 'f rx_event list \<Rightarrow> 'f rx_reorder \<Rightarrow> 'f rx_reorder \<times> 'f list" where
  "rx_run sq [] r = (r, [])"
| "rx_run sq (ev # evs) r =
     (let (r1, fs) = rx_event_step sq ev r; (r2, gs) = rx_run sq evs r1 in (r2, fs @ gs))"

fun event_ok :: "('f \<Rightarrow> u16) \<Rightarrow> 'f rx_event \<Rightarrow> bool" where
  "event_ok sq (Frame f) = (unat (sq f) < 4096)"
| "event_ok sq (Flush out) = (length out \<le> 64)"

lemma rx_event_delivers:
  assumes "rx_inv r" "rx_tagged sq r" "event_ok sq ev" "rx_event_step sq ev r = (r', fs)"
  shows "delivers sq r r' fs"
proof (cases ev)
  case (Frame f)
  obtain r1 res where e: "reorder_frame r f (sq f) = (r1, res)" by fastforce
  with reorder_frame_delivers[OF assms(1,2) _ e] assms(3,4) Frame show ?thesis by auto
next
  case (Flush out)
  show ?thesis
  proof (cases "ba_stored r = 0")
    case True
    with assms(4) Flush delivers_refl[OF assms(1,2)] show ?thesis by auto
  next
    case False
    obtain r1 out' where e: "flush_tid r out = (r1, out')" by fastforce
    have "0 < unat (ba_stored r)" using False by (simp add: unat_eq_0 neq0_conv[symmetric])
    from flush_tid_delivers[OF assms(1,2) this _ e] assms(3,4) Flush False e show ?thesis by auto
  qed
qed



section \<open>The eight agreements\<close>

definition slot_frames :: "'f rx_reorder option \<Rightarrow> 'f list" where
  "slot_frames x = (case x of None \<Rightarrow> [] | Some r \<Rightarrow> somes (ba_buf r))"

definition held :: "'f rx_reorder option list \<Rightarrow> 'f list" where
  "held ba = concat (map slot_frames ba)"

definition ba_inv :: "'f rx_reorder option list \<Rightarrow> bool" where
  "ba_inv ba \<longleftrightarrow> length ba = kRxBaNumTid \<and> list_all (\<lambda>x. case x of None \<Rightarrow> True | Some r \<Rightarrow> rx_inv r) ba"

text \<open>An agreement that still has frames to release.\<close>

definition pending :: "'f rx_reorder option \<Rightarrow> bool" where
  "pending x = (case x of None \<Rightarrow> False | Some r \<Rightarrow> ba_active r \<and> ba_stored r \<noteq> 0)"

lemma ba_inv_nth: "ba_inv ba \<Longrightarrow> tid < 8 \<Longrightarrow> ba ! tid = Some r \<Longrightarrow> rx_inv r"
  by (force simp: ba_inv_def list_all_length)

lemma ba_inv_update:
  "ba_inv ba \<Longrightarrow> (\<And>r. x = Some r \<Longrightarrow> rx_inv r) \<Longrightarrow> ba_inv (ba[tid := x])"
  by (cases "tid < length ba")
    (auto simp: ba_inv_def list_all_length nth_list_update split: option.split)

lemma held_update:
  "tid < length ba \<Longrightarrow> mset (held (ba[tid := x])) + mset (slot_frames (ba ! tid)) =
    mset (held ba) + mset (slot_frames x)"
proof (induction ba arbitrary: tid)
  case (Cons y ba)
  then show ?case by (cases tid) (auto simp: held_def ac_simps)
qed simp

lemma somes_replicate_None [simp]: "slot_frames (Some (r\<lparr>ba_buf := replicate 64 None\<rparr>)) = []"
  by (simp add: slot_frames_def)

lemma rx_inv_fresh:
  assumes "0 < unat bs" "unat bs \<le> 64"
  shows "rx_inv (r\<lparr>ba_buf := replicate 64 None, ba_active := True, headSn := ssn AND 0xFFF,
    bufSize := bs, ba_stored := 0\<rparr>)"
proof -
  have "rotate n (replicate m (None :: 'a option)) = replicate m None" for n m
    by (rule replicate_eqI) auto
  with assms show ?thesis by (simp add: rx_inv_def rx_ok_def ring_def unat_and_0xFFF)
qed

lemma rxBaSetup_ok:
  assumes "ba_inv ba" "rxBaSetup alloc_ok tid ssn bs ba = (ba', freed)"
  shows "ba_inv ba' \<and> mset freed + mset (held ba') = mset (held ba)"
proof (cases "tid < 8")
  case False
  with assms show ?thesis by (auto simp: rxBaSetup_def)
next
  case True
  define b where "b = (if bs = 0 \<or> 64 < bs then 64 else bs)"
  have b: "0 < unat b" "unat b \<le> 64"
    by (auto simp: b_def word_less_nat_alt unat_gt_0 unat_eq_0 not_less)
  have len: "tid < length ba" using True assms(1) by (simp add: ba_inv_def)
  show ?thesis
  proof (cases "ba ! tid")
    case None
    define x :: "'a rx_reorder option" where "x = (if alloc_ok then Some (rx_reorder_zero\<lparr>ba_active := True,
      headSn := ssn AND 0xFFF, bufSize := b, ba_stored := 0\<rparr>) else None)"
    have e: "ba' = ba[tid := x]" "freed = []"
      using None assms(2) True by (auto simp: rxBaSetup_def b_def x_def Let_def)
    have "rx_inv r" if "x = Some r" for r
      using rx_inv_fresh[OF b, where r = rx_reorder_zero and ssn = ssn] that
      by (auto simp: x_def rx_reorder_zero_def split: if_splits)
    moreover have "slot_frames x = []" by (simp add: x_def slot_frames_def rx_reorder_zero_def)
    ultimately show ?thesis
      using held_update[OF len, of x] ba_inv_update[OF assms(1), of x tid] None e
      by (simp add: slot_frames_def)
  next
    case (Some r)
    define x where "x = r\<lparr>ba_buf := replicate 64 None, ba_active := True,
      headSn := ssn AND 0xFFF, bufSize := b, ba_stored := 0\<rparr>"
    have e: "ba' = ba[tid := Some x]" "freed = slot_frames (ba ! tid)"
      using Some assms(2) True by (auto simp: rxBaSetup_def b_def x_def Let_def slot_frames_def)
    have "slot_frames (Some x) = []" by (simp add: x_def slot_frames_def)
    then show ?thesis
      using held_update[OF len, of "Some x"] ba_inv_update[OF assms(1), of "Some x" tid]
        rx_inv_fresh[OF b, where r = r and ssn = ssn] e by (simp add: x_def ac_simps)
  qed
qed

lemma rxBaTeardown_ok:
  assumes "ba_inv ba" "rxBaTeardown tid ba = (ba', freed)"
  shows "ba_inv ba' \<and> mset freed + mset (held ba') = mset (held ba) \<and>
    (tid < 8 \<longrightarrow> ba' = ba[tid := None])"
proof (cases "tid < 8")
  case False
  with assms show ?thesis by (auto simp: rxBaTeardown_def)
next
  case True
  then have len: "tid < length ba" using assms(1) by (simp add: ba_inv_def)
  have "ba ! tid = None \<Longrightarrow> ba[tid := None] = ba" by (metis list_update_id)
  then have e: "ba' = ba[tid := None]" "freed = slot_frames (ba ! tid)"
    using assms(2) True
    by (auto simp: rxBaTeardown_def slot_frames_def split: option.splits)
  have "slot_frames (None :: 'a rx_reorder option) = []" by (simp add: slot_frames_def)
  then show ?thesis
    using held_update[OF len, of None] ba_inv_update[OF assms(1), of None tid] e
    by (simp add: ac_simps)
qed

lemma mset_swap:
  assumes "H' + S = H + S1" "A + F + S1 = add_mset f S"
  shows "A + F + H' = add_mset f (H :: 'a multiset)"
proof -
  have "(A + F + H') + S = (A + F + S1) + H" using assms(1) by (simp add: ac_simps)
  then have "(A + F + H') + S = add_mset f H + S" using assms(2) by (simp add: ac_simps)
  then show ?thesis by (simp only: add_right_cancel)
qed

lemma rxReorderInput_ok:
  assumes "ba_inv ba" "tid < 8" "unat sn < 4096" "rxReorderInput tid f sn ba = (ba', res)"
  shows "ba_inv ba' \<and> mset (ro_delivered res) + mset (ro_freed res) + mset (held ba') =
    add_mset f (mset (held ba))"
proof (cases "\<exists>r. ba ! tid = Some r \<and> ba_active r")
  case False
  with assms show ?thesis by (auto simp: rxReorderInput_def split: option.splits)
next
  case True
  then obtain r where r: "ba ! tid = Some r" "ba_active r" by blast
  obtain r1 res1 where e: "reorder_frame r f sn = (r1, res1)" by fastforce
  have len: "tid < length ba" using assms by (simp add: ba_inv_def)
  have e': "ba' = ba[tid := Some r1]" "res = res1"
    using assms(4) r e by (simp_all add: rxReorderInput_def)
  note m = reorder_frame_mset[OF ba_inv_nth[OF assms(1,2) r(1)] assms(3) e]
  have "mset (ro_delivered res) + mset (ro_freed res) + mset (held ba') = add_mset f (mset (held ba))"
    using mset_swap[OF held_update[OF len, of "Some r1"], of "mset (ro_delivered res)" "mset (ro_freed res)" f]
      m r(1) e' by (simp add: slot_frames_def)
  with m ba_inv_update[OF assms(1), of "Some r1" tid] e' show ?thesis by simp
qed

lemma rxBaTeardownAll_step:
  assumes "ba_inv ba" "m \<le> 8"
    "fold (\<lambda>tid (ba, freed). let (ba', fr) = rxBaTeardown tid ba in (ba', freed @ fr)) [0..<m] (ba, [])
      = (ba', freed)"
  shows "ba_inv ba' \<and> mset freed + mset (held ba') = mset (held ba) \<and> (\<forall>i < m. ba' ! i = None)"
  using assms(2,3)
proof (induction m arbitrary: ba' freed)
  case (Suc m)
  obtain b1 f1 where e1: "fold (\<lambda>tid (ba, freed). let (ba', fr) = rxBaTeardown tid ba in (ba', freed @ fr))
      [0..<m] (ba, []) = (b1, f1)" by fastforce
  obtain b2 f2 where e2: "rxBaTeardown m b1 = (b2, f2)" by fastforce
  have I: "ba_inv b1" "mset f1 + mset (held b1) = mset (held ba)" "\<forall>i < m. b1 ! i = None"
    using Suc.IH[OF _ e1] Suc.prems(1) by simp_all
  have "ba' = b2" "freed = f1 @ f2" using Suc.prems(2) e1 e2 by simp_all
  moreover have "m < length b1" using I(1) Suc.prems(1) by (simp add: ba_inv_def)
  ultimately show ?case
    using rxBaTeardown_ok[OF I(1) e2] I(2,3) Suc.prems(1)
    by (auto simp: less_Suc_eq nth_list_update) (metis add.assoc)
qed (use assms(1) in \<open>simp add: held_def\<close>)

lemma rxBaTeardownAll_ok:
  assumes "ba_inv ba" "rxBaTeardownAll ba = (ba', freed)"
  shows "ba' = replicate 8 None \<and> held ba' = [] \<and> mset freed = mset (held ba)"
proof -
  have I: "ba_inv ba'" "mset freed + mset (held ba') = mset (held ba)" "\<forall>i < 8. ba' ! i = None"
    using rxBaTeardownAll_step[OF assms(1), of 8 ba' freed] assms(2)
    unfolding rxBaTeardownAll_def by simp_all
  then have "ba' = replicate 8 None" by (intro nth_equalityI) (auto simp: ba_inv_def)
  moreover from this have "held ba' = []" by (simp add: held_def slot_frames_def)
  ultimately show ?thesis using I(2) by simp
qed

lemma flush_steps:
  assumes "ba_inv ba" "m \<le> 8" "fold flush_step [0..<m] (ba, [], False) = (ba', out, again)"
  shows "ba_inv ba' \<and> length out \<le> 64 \<and> mset out + mset (held ba') = mset (held ba) \<and>
    ((\<exists>i < m. pending (ba ! i)) \<longrightarrow> out \<noteq> []) \<and> (again \<longleftrightarrow> (\<exists>i < m. pending (ba' ! i))) \<and>
    (\<forall>i \<ge> m. ba' ! i = ba ! i)"
  using assms(2,3)
proof (induction m arbitrary: ba' out again)
  case (Suc m)
  obtain b1 o1 a1 where e1: "fold flush_step [0..<m] (ba, [], False) = (b1, o1, a1)"
    by (metis surj_pair)
  note I = Suc.IH[OF _ e1]
  have fin: "flush_step m (b1, o1, a1) = (ba', out, again)" using Suc.prems(2) e1 by simp
  have inv1: "ba_inv b1" using I Suc.prems(1) by simp
  have len: "m < length b1" using inv1 Suc.prems(1) by (simp add: ba_inv_def)
  have same: "b1 ! m = ba ! m" using I Suc.prems(1) by simp
  show ?case
  proof (cases "pending (b1 ! m)")
    case False
    then have "ba' = b1" "out = o1" "again = a1"
      using fin by (auto simp: flush_step_def pending_def split: option.splits if_splits)
    with False I same Suc.prems(1) show ?thesis by (auto simp: less_Suc_eq)
  next
    case True
    then obtain r where r: "b1 ! m = Some r" "ba_active r" "ba_stored r \<noteq> 0"
      by (auto simp: pending_def split: option.splits)
    obtain r' out' where f: "flush_tid r o1 = (r', out')" by fastforce
    have e: "ba' = b1[m := Some r']" "out = out'" "again = (a1 \<or> ba_stored r' > 0)"
      using fin r f by (auto simp: flush_step_def)
    have st: "0 < unat (ba_stored r)" using r(3) by (simp add: unat_eq_0 neq0_conv[symmetric])
    have "length o1 \<le> 64" using I Suc.prems(1) by simp
    note F = flush_tid_mset[OF ba_inv_nth[OF inv1 _ r(1)] st this f]
    then have F: "rx_inv r'" "ba_active r' = ba_active r" "length out' \<le> 64"
      "mset out' + mset (somes (ba_buf r')) = mset o1 + mset (somes (ba_buf r))"
      "length o1 \<le> length out'" "length o1 < 64 \<longrightarrow> length o1 < length out'"
      using Suc.prems(1) by simp_all
    have "mset out + mset (held ba') + mset (slot_frames (b1 ! m)) =
        mset o1 + mset (held b1) + mset (slot_frames (b1 ! m))"
    proof -
      have "mset out + (mset (held ba') + mset (slot_frames (b1 ! m))) =
          (mset out' + mset (somes (ba_buf r'))) + mset (held b1)"
        using held_update[OF len, of "Some r'"] e by (simp add: slot_frames_def ac_simps)
      then show ?thesis using F(4) r(1) by (simp add: slot_frames_def ac_simps)
    qed
    then have M: "mset out + mset (held ba') = mset o1 + mset (held b1)" by simp
    have ne: "out \<noteq> []"
    proof -
      have "0 < length out'" using F(5,6) by (cases "length o1 < 64") linarith+
      then show ?thesis using e(2) by simp
    qed
    have p: "pending (Some r') = (ba_stored r' > 0)"
      using F(2) r(2) by (simp add: pending_def word_gt_0)
    show ?thesis
      using I Suc.prems(1) e F(1,3) M ne p len ba_inv_update[OF inv1, of "Some r'" m]
      by (auto simp: less_Suc_eq nth_list_update)
  qed
qed (use assms(1) in simp)

text \<open>C3. No \<open>sk_buff\<close> is lost, delivered twice or leaked: in every operation of the eight
  agreements the frame that came in and the frames that were buffered are together exactly
  those delivered, freed or still buffered, and the invariant of every ring is kept.  After
  \<open>rxBaTeardownAll\<close> nothing is buffered.\<close>

theorem reorder_owns_every_frame:
  assumes "ba_inv ba" "tid < 8" "unat sn < 4096"
  shows "(case rxReorderInput tid f sn ba of (ba', res) \<Rightarrow> ba_inv ba' \<and>
       mset (ro_delivered res) + mset (ro_freed res) + mset (held ba') = add_mset f (mset (held ba))) \<and>
    (case rxReorderFlushStale ba of (ba', res) \<Rightarrow> ba_inv ba' \<and>
       mset (ro_delivered res) + mset (ro_freed res) + mset (held ba') = mset (held ba)) \<and>
    (case rxBaSetup alloc_ok tid ssn bs ba of (ba', freed) \<Rightarrow> ba_inv ba' \<and>
       mset freed + mset (held ba') = mset (held ba)) \<and>
    (case rxBaTeardown tid ba of (ba', freed) \<Rightarrow> ba_inv ba' \<and>
       mset freed + mset (held ba') = mset (held ba)) \<and>
    (case rxBaTeardownAll ba of (ba', freed) \<Rightarrow> held ba' = [] \<and> mset freed = mset (held ba))"
proof -
  obtain ba' out again where f: "fold flush_step [0..<8] (ba, [], False) = (ba', out, again)"
    by (metis surj_pair)
  then have "case rxReorderFlushStale ba of (ba', res) \<Rightarrow> ba_inv ba' \<and>
       mset (ro_delivered res) + mset (ro_freed res) + mset (held ba') = mset (held ba)"
    using flush_steps[OF assms(1) _ f] by (simp add: rxReorderFlushStale_def)
  then show ?thesis
    using rxReorderInput_ok[OF assms] rxBaSetup_ok[OF assms(1)] rxBaTeardown_ok[OF assms(1)]
      rxBaTeardownAll_ok[OF assms(1)]
    by (auto split: prod.split)
qed

definition ba_demo :: "nat rx_reorder option list" where
  "ba_demo = [Some rx_demo, None, None, None, None, None, None, None]"

lemma ba_demo_inv: "ba_inv ba_demo" by code_simp

theorem reorder_owns_every_frame_witness:
  "(case rxReorderInput 0 9 2 ba_demo of (ba', res) \<Rightarrow> ba_inv ba' \<and>
     mset (ro_delivered res) + mset (ro_freed res) + mset (held ba') = {#9, 7#})"
proof -
  have "held ba_demo = [7]" by code_simp
  with reorder_owns_every_frame[OF ba_demo_inv, of 0 2 9] show ?thesis by simp
qed

text \<open>The flush timer makes progress: while an active agreement holds frames it delivers at
  least one, it re-arms itself exactly while some agreement still holds frames, and as many
  firings as there are buffered frames empty every active agreement.\<close>

theorem reorder_flush_drains:
  assumes "ba_inv ba"
  shows "(case rxReorderFlushStale ba of (ba', res) \<Rightarrow>
      (list_ex pending ba \<longrightarrow> ro_delivered res \<noteq> [] \<and> length (held ba') < length (held ba)) \<and>
      ro_timer res = list_ex pending ba') \<and>
    \<not> list_ex pending (((\<lambda>b. fst (rxReorderFlushStale b)) ^^ length (held ba)) ba)"
proof -
  have step: "(case rxReorderFlushStale b of (b', res) \<Rightarrow> ba_inv b' \<and>
      (list_ex pending b \<longrightarrow> ro_delivered res \<noteq> [] \<and> length (held b') < length (held b)) \<and>
      length (held b') \<le> length (held b) \<and>
      ro_timer res = list_ex pending b')" if "ba_inv b" for b :: "'a rx_reorder option list"
  proof -
    obtain b' out again where f: "fold flush_step [0..<8] (b, [], False) = (b', out, again)"
      by (metis surj_pair)
    note F = flush_steps[OF that _ f, simplified]
    have len: "length b = 8" "length b' = 8" using that F by (simp_all add: ba_inv_def)
    have "size (mset out + mset (held b')) = size (mset (held b))" using F by simp
    then have "length out + length (held b') = length (held b)" by simp
    then have "out \<noteq> [] \<longrightarrow> length (held b') < length (held b)" "length (held b') \<le> length (held b)"
      by (cases out; simp)+
    moreover have "list_ex pending b \<longrightarrow> out \<noteq> []" "again = list_ex pending b'"
      using F len by (auto simp: list_ex_length)
    ultimately show ?thesis using F f by (auto simp: rxReorderFlushStale_def)
  qed
  have none: "\<not> list_ex pending b" if "held b = []" "ba_inv b" for b :: "'a rx_reorder option list"
    using step[OF that(2)] that(1) by (auto split: prod.splits)
  have "\<not> list_ex pending (((\<lambda>b. fst (rxReorderFlushStale b)) ^^ n) b)"
    if "ba_inv b" "length (held b) \<le> n" for n and b :: "'a rx_reorder option list"
    using that
  proof (induction n arbitrary: b)
    case 0
    then show ?case using none by simp
  next
    case (Suc n)
    obtain b' res where e: "rxReorderFlushStale b = (b', res)" by fastforce
    show ?case
    proof (cases "list_ex pending b")
      case True
      then have "ba_inv b'" "length (held b') \<le> n" using step[OF Suc.prems(1)] e Suc.prems(2) by auto
      then show ?thesis using Suc.IH[of b'] e by (simp add: funpow_Suc_right del: funpow.simps(2))
    next
      case False
      have same: "fold flush_step xs (b, [], False) = (b, [], False)" if "set xs \<subseteq> {..<8}" for xs
        using that False Suc.prems(1)
        by (induction xs) (auto simp: flush_step_def list_ex_length ba_inv_def pending_def
            split: option.split)
      have "set [0..<8] \<subseteq> {..<8::nat}" by auto
      from same[OF this]
      have "rxReorderFlushStale b = (b, \<lparr>ro_delivered = [], ro_freed = [], ro_timer = False\<rparr>)"
        by (simp only: rxReorderFlushStale_def split_conv)
      then have "((\<lambda>b. fst (rxReorderFlushStale b)) ^^ k) b = b" for k by (induction k) simp_all
      with False show ?thesis by metis
    qed
  qed
  from this[OF assms order_refl] step[OF assms] show ?thesis by (auto split: prod.splits)
qed

theorem reorder_flush_drains_witness:
  "\<not> list_ex pending (((\<lambda>b. fst (rxReorderFlushStale b)) ^^ length (held ba_demo)) ba_demo) \<and>
   ro_delivered (snd (rxReorderFlushStale ba_demo)) \<noteq> []"
proof -
  have "list_ex pending ba_demo" by code_simp
  with reorder_flush_drains[OF ba_demo_inv] show ?thesis by (auto split: prod.splits)
qed

end
