(* ===== verification/Sha1.thy ===== *)
theory Sha1
  imports Prelude
begin

text \<open>
  SHA-1 as \<open>src/kext/RTW88IEEE80211.cpp\<close> computes it (\<open>kern_sha1_transform\<close>,
  \<open>kern_sha1_init\<close>, \<open>kern_sha1_update\<close>, \<open>kern_sha1_final\<close>), next to the definition of FIPS
  180-4 it implements.  The code keeps the message schedule in 16 words and rotates the roles of
  five registers; the specification has 80 schedule words and a shift of the registers.  Lengths
  and indices are natural numbers (the callers pass far less than \<open>2 ^ 32 - 64\<close> bytes at a
  time, so the 32-bit index of the loop does not wrap); the bit counter is the code's pair of
  32-bit words with its carry.
\<close>

section \<open>The code\<close>

record sha1_ctx =
  sha_state :: "u32 list"
  sha_count :: "u32 list"
  sha_buffer :: bytes

definition rol :: "u32 \<Rightarrow> nat \<Rightarrow> u32" where
  "rol v n = push_bit n v OR drop_bit (32 - n) v"

text \<open>The union of the transform read as little-endian 32-bit words.\<close>

definition le32_at :: "bytes \<Rightarrow> nat \<Rightarrow> u32" where
  "le32_at b i = ucast (b ! i) OR push_bit 8 (ucast (b ! (i + 1))) OR
     push_bit 16 (ucast (b ! (i + 2))) OR push_bit 24 (ucast (b ! (i + 3)))"

definition sha_blk0 :: "u32 list \<Rightarrow> nat \<Rightarrow> u32 list" where
  "sha_blk0 l i = l[i := (rol (l ! i) 24 AND 0xFF00FF00) OR (rol (l ! i) 8 AND 0x00FF00FF)]"

definition sha_blk :: "u32 list \<Rightarrow> nat \<Rightarrow> u32 list" where
  "sha_blk l i = l[i mod 16 := rol (l ! ((i + 13) mod 16) XOR l ! ((i + 8) mod 16) XOR
     l ! ((i + 2) mod 16) XOR l ! (i mod 16)) 1]"

text \<open>The five round macros: the mixing function and constant of round \<open>i\<close>.\<close>

definition sha_mix :: "nat \<Rightarrow> u32 \<Rightarrow> u32 \<Rightarrow> u32 \<Rightarrow> u32" where
  "sha_mix i w x y =
    (if i < 20 then ((w AND (x XOR y)) XOR y)
     else if i < 40 then w XOR x XOR y
     else if i < 60 then ((w OR x) AND y) OR (w AND x)
     else w XOR x XOR y)"

definition sha_const :: "nat \<Rightarrow> u32" where
  "sha_const i = (if i < 20 then 0x5A827999 else if i < 40 then 0x6ED9EBA1
     else if i < 60 then 0x8F1BBCDC else 0xCA62C1D6)"

text \<open>Round \<open>i\<close> is called with the registers \<open>(a,b,c,d,e)\<close> rotated right \<open>i\<close> times:
  \<open>r0(a,b,c,d,e,0)\<close>, \<open>r0(e,a,b,c,d,1)\<close>, \<open>r0(d,e,a,b,c,2)\<close> and so on; register \<open>j\<close> of the
  list is the \<open>j\<close>-th letter.\<close>

definition sha_reg :: "nat \<Rightarrow> nat \<Rightarrow> nat" where
  "sha_reg i j = (4 * i + j) mod 5"

definition sha_round :: "nat \<Rightarrow> u32 list \<times> u32 list \<Rightarrow> u32 list \<times> u32 list" where
  "sha_round i st =
    (case st of (r, l) \<Rightarrow>
      let v = sha_reg i 0; w = sha_reg i 1; x = sha_reg i 2; y = sha_reg i 3; z = sha_reg i 4;
          l = (if i < 16 then sha_blk0 l i else sha_blk l i);
          r = r[z := r ! z + (sha_mix i (r ! w) (r ! x) (r ! y) + l ! (i mod 16) + sha_const i + rol (r ! v) 5)];
          r = r[w := rol (r ! w) 30]
      in (r, l))"

definition kern_sha1_transform :: "u32 list \<Rightarrow> bytes \<Rightarrow> u32 list" where
  "kern_sha1_transform state buffer =
    (let block = map (\<lambda>i. le32_at buffer (4 * i)) [0..<16];
         (r, _) = fold sha_round [0..<80] (take 5 state, block)
     in map (\<lambda>i. state ! i + r ! i) [0..<5])"

definition kern_sha1_init :: "sha1_ctx \<Rightarrow> sha1_ctx" where
  "kern_sha1_init context = context\<lparr>
     sha_state := [0x67452301, 0xEFCDAB89, 0x98BADCFE, 0x10325476, 0xC3D2E1F0],
     sha_count := [0, 0]\<rparr>"

text \<open>The block loop of \<open>kern_sha1_update\<close>: \<open>for (; i + 63 < len; i += 64)\<close>.\<close>

function update_loop :: "bytes \<Rightarrow> nat \<Rightarrow> u32 list \<Rightarrow> u32 list \<times> nat" where
  "update_loop data i state =
    (if i + 63 < length data
     then update_loop data (i + 64) (kern_sha1_transform state (slice i 64 data))
     else (state, i))"
  by pat_completeness auto
termination
  by (relation "measure (\<lambda>(d, i, _). length d - i)") auto

declare update_loop.simps [simp del]

definition kern_sha1_update :: "bytes \<Rightarrow> sha1_ctx \<Rightarrow> sha1_ctx" where
  "kern_sha1_update data context =
    (let len = (word_of_nat (length data) :: u32);
         j0 = sha_count context ! 0;
         c0 = j0 + push_bit 3 len;
         c1 = sha_count context ! 1 + (if c0 < j0 then 1 else 0) + drop_bit 29 len;
         j = unat (drop_bit 3 j0 AND 63);
         context = context\<lparr>sha_count := [c0, c1]\<rparr>
     in if j + length data > 63
        then let buf = memcpy_at (sha_buffer context) j (take (64 - j) data);
                 (state, i) = update_loop data (64 - j) (kern_sha1_transform (sha_state context) buf)
             in context\<lparr>sha_state := state, sha_buffer := memcpy_at buf 0 (drop i data)\<rparr>
        else context\<lparr>sha_buffer := memcpy_at (sha_buffer context) j data\<rparr>)"

definition finalcount :: "sha1_ctx \<Rightarrow> bytes" where
  "finalcount context = map (\<lambda>i. ucast (drop_bit ((3 - i mod 4) * 8)
      (sha_count context ! (if i \<ge> 4 then 0 else 1)) AND 255)) [0..<8]"

lemma update_count1:
  "sha_count (kern_sha1_update [x] c) ! 0 = sha_count c ! 0 + 8"
  by (simp add: kern_sha1_update_def Let_def split: prod.split)

lemma pad_measure:
  assumes "c AND 504 \<noteq> (448 :: u32)"
  shows "(120 - unat (c + 8) div 8 mod 64) mod 64 < (120 - unat c div 8 mod 64) mod 64"
proof -
  have "unat (c AND 504) = 8 * (unat c div 8 mod 64)"
  proof -
    have m: "(504 :: u32) = push_bit 3 (mask 6)" by (simp add: mask_eq_exp_minus_1)
    have "c AND push_bit 3 (mask 6) = push_bit 3 (take_bit 6 (drop_bit 3 c))"
      by (intro bit_word_eqI) (auto simp: bit_and_iff bit_push_bit_iff bit_take_bit_iff
          bit_drop_bit_eq bit_mask_iff)
    then have "c AND 504 = push_bit 3 (take_bit 6 (drop_bit 3 c))" unfolding m .
    also have "unat \<dots> = 8 * (unat c div 8 mod 64)"
    proof -
      have "8 * (unat c div 8 mod 64) < 4294967296" by simp
      then show ?thesis
        by (simp only: unat_push_bit_mult unsigned_take_bit_eq unat_drop_bit_div
            take_bit_eq_mod[of 6 "unat c div 2 ^ 3"]) (simp add: mult.commute)
    qed
    finally show ?thesis .
  qed
  moreover have "unat (c AND 504) \<noteq> 448" using assms by (simp only: word_unat_eq_iff) simp
  ultimately have q: "unat c div 8 mod 64 \<noteq> 56" by simp
  have "unat (c + 8) div 8 mod 64 = (unat c div 8 + 1) mod 64"
  proof -
    have "unat (c + 8) = (unat c + 8) mod (8 * 2 ^ 29)" by (simp add: unat_word_ariths)
    also have "\<dots> = 8 * ((unat c + 8) div 8 mod 2 ^ 29) + (unat c + 8) mod 8" by (rule mod_mult2_eq)
    finally have "unat (c + 8) div 8 mod 64 = (unat c + 8) div 8 mod 64" by (simp add: mod_mod_cancel)
    moreover have "(unat c + 8) div 8 = unat c div 8 + 1" by simp
    ultimately show ?thesis by simp
  qed
  then have "unat (c + 8) div 8 mod 64 = Suc (unat c div 8 mod 64) mod 64"
    by (simp add: mod_Suc_eq)
  moreover have "(120 - Suc k mod 64) mod 64 < (120 - k) mod 64" if "k < 64" "k \<noteq> 56" for k :: nat
  proof (cases "k = 63")
    case False
    have *: "(120 - k) mod 64 = (if k < 57 then 56 - k else 120 - k)" using that
      by (simp add: mod_if)
    moreover have "(120 - Suc k) mod 64 = (if k < 56 then 55 - k else 119 - k)"
      using that False by (simp add: mod_if)
    ultimately show ?thesis using that False by (auto split: if_splits)
  qed simp
  ultimately show ?thesis using q by simp
qed

text \<open>The zero padding of \<open>kern_sha1_final\<close>: \<open>while ((count[0] & 504) != 448)\<close>.\<close>

function pad_loop :: "sha1_ctx \<Rightarrow> sha1_ctx" where
  "pad_loop context =
    (if sha_count context ! 0 AND 504 \<noteq> 448 then pad_loop (kern_sha1_update [0] context)
     else context)"
  by pat_completeness auto
termination
  by (relation "measure (\<lambda>c. (120 - unat (sha_count c ! 0) div 8 mod 64) mod 64)")
    (simp_all only: in_measure wf_measure update_count1 pad_measure simp_thms)

declare pad_loop.simps [simp del]

definition kern_sha1_final :: "sha1_ctx \<Rightarrow> bytes \<times> sha1_ctx" where
  "kern_sha1_final context =
    (let fc = finalcount context;
         context = kern_sha1_update fc (pad_loop (kern_sha1_update [0x80] context))
     in (map (\<lambda>i. ucast (drop_bit ((3 - i mod 4) * 8) (sha_state context ! (i div 4)) AND 255)) [0..<20],
         context))"

section \<open>FIPS 180-4\<close>

definition be32_at :: "bytes \<Rightarrow> nat \<Rightarrow> u32" where
  "be32_at b i = push_bit 24 (ucast (b ! i)) OR push_bit 16 (ucast (b ! (i + 1))) OR
     push_bit 8 (ucast (b ! (i + 2))) OR ucast (b ! (i + 3))"

fun fips_W :: "bytes \<Rightarrow> nat \<Rightarrow> u32" where
  "fips_W M t = (if t < 16 then be32_at M (4 * t)
     else rol (fips_W M (t - 3) XOR fips_W M (t - 8) XOR fips_W M (t - 14) XOR fips_W M (t - 16)) 1)"

declare fips_W.simps [simp del]

definition fips_f :: "nat \<Rightarrow> u32 \<Rightarrow> u32 \<Rightarrow> u32 \<Rightarrow> u32" where
  "fips_f t x y z =
    (if t < 20 then (x AND y) XOR (NOT x AND z)
     else if t < 40 then x XOR y XOR z
     else if t < 60 then (x AND y) XOR (x AND z) XOR (y AND z)
     else x XOR y XOR z)"

type_synonym sha_regs = "u32 \<times> u32 \<times> u32 \<times> u32 \<times> u32"

definition fips_round :: "bytes \<Rightarrow> nat \<Rightarrow> sha_regs \<Rightarrow> sha_regs" where
  "fips_round M t = (\<lambda>(a, b, c, d, e).
     (rol a 5 + fips_f t b c d + e + sha_const t + fips_W M t, a, rol b 30, c, d))"

definition fips_compress :: "u32 list \<Rightarrow> bytes \<Rightarrow> u32 list" where
  "fips_compress H M =
    (case fold (fips_round M) [0..<80] (H ! 0, H ! 1, H ! 2, H ! 3, H ! 4) of
       (a, b, c, d, e) \<Rightarrow> [H ! 0 + a, H ! 1 + b, H ! 2 + c, H ! 3 + d, H ! 4 + e])"

section \<open>The transform computes the FIPS compression\<close>

lemma sha_mix_fips: "sha_mix t x y z = fips_f t x y z"
proof -
  have "((x AND (y XOR z)) XOR z) = (x AND y) XOR (NOT x AND z)"
    and "((x OR y) AND z) OR (x AND y) = (x AND y) XOR (x AND z) XOR (y AND z)"
    by (rule bit_word_eqI; auto simp: bit_and_iff bit_or_iff bit_xor_iff bit_not_iff)+
  then show ?thesis by (simp add: sha_mix_def fips_f_def)
qed

lemma rol_bit: "n < 32 \<Longrightarrow> bit (rol x 8) n = bit x ((n + 24) mod 32)"
  "n < 32 \<Longrightarrow> bit (rol x 24) n = bit x ((n + 8) mod 32)"
  by (auto simp: rol_def bit_or_iff bit_push_bit_iff bit_drop_bit_eq mod_if add.commute
      dest: bit_imp_le_length)

lemma bit_le32_at:
  "bit (le32_at b i) n = (if n < 8 then bit (b ! i) n else if n < 16 then bit (b ! (i + 1)) (n - 8)
     else if n < 24 then bit (b ! (i + 2)) (n - 16) else n < 32 \<and> bit (b ! (i + 3)) (n - 24))"
  by (auto simp: le32_at_def bit_or_iff bit_push_bit_iff bit_unsigned_iff dest: bit_imp_le_length)

lemma bit_be32_at:
  "bit (be32_at b i) n = (if n < 8 then bit (b ! (i + 3)) n else if n < 16 then bit (b ! (i + 2)) (n - 8)
     else if n < 24 then bit (b ! (i + 1)) (n - 16) else n < 32 \<and> bit (b ! i) (n - 24))"
  by (auto simp: be32_at_def bit_or_iff bit_push_bit_iff bit_unsigned_iff dest: bit_imp_le_length)

lemma byte_swap:
  "(rol (le32_at b i) 24 AND 0xFF00FF00) OR (rol (le32_at b i) 8 AND 0x00FF00FF) = be32_at b i"
proof -
  have c1: "(0xFF00FF00 :: u32) = push_bit 8 (mask 8) OR push_bit 24 (mask 8)"
    and c2: "(0x00FF00FF :: u32) = mask 8 OR push_bit 16 (mask 8)"
    by (simp_all add: mask_eq_exp_minus_1)
  show ?thesis unfolding c1 c2
  proof (rule bit_word_eqI)
    fix n assume "n < LENGTH(32)"
    define m where "m = n mod 8"
    have m: "m < 8" by (simp add: m_def)
    have "n = m \<or> n = m + 8 \<or> n = m + 16 \<or> n = m + 24"
      using \<open>n < LENGTH(32)\<close> unfolding m_def by simp presburger
    then consider "n = m" | "n = m + 8" | "n = m + 16" | "n = m + 24" by blast
    then show "bit (rol (le32_at b i) 24 AND (push_bit 8 (mask 8) OR push_bit 24 (mask 8)) OR
        rol (le32_at b i) 8 AND (mask 8 OR push_bit 16 (mask 8))) n = bit (be32_at b i) n"
      using m by cases (simp_all add: bit_or_iff bit_and_iff bit_mask_iff rol_bit bit_le32_at
          bit_be32_at bit_push_bit_iff mod_if)
  qed
qed

lemma sha_reg_less [simp]: "sha_reg i j < 5"
  by (simp add: sha_reg_def)

lemma sha_reg_eq: "j < 5 \<Longrightarrow> k < 5 \<Longrightarrow> sha_reg i j = sha_reg i k \<longleftrightarrow> j = k"
  unfolding sha_reg_def using mod_shift_inj[of j "4 * i" 5 k] by (auto simp: add.commute)

lemma sha_reg_Suc:
  "sha_reg (Suc i) 0 = sha_reg i 4" "sha_reg (Suc i) (Suc j) = sha_reg i j"
  unfolding sha_reg_def by presburger+

definition sha_rel :: "bytes \<Rightarrow> nat \<Rightarrow> u32 list \<times> u32 list \<Rightarrow> sha_regs \<Rightarrow> bool" where
  "sha_rel M i st q = (case st of (r, l) \<Rightarrow> case q of (a, b, c, d, e) \<Rightarrow>
     length r = 5 \<and> length l = 16 \<and>
     r ! sha_reg i 0 = a \<and> r ! sha_reg i 1 = b \<and> r ! sha_reg i 2 = c \<and> r ! sha_reg i 3 = d \<and>
     r ! sha_reg i 4 = e \<and>
     (\<forall>t < i. i \<le> t + 16 \<longrightarrow> l ! (t mod 16) = fips_W M t) \<and>
     (\<forall>t < 16. i \<le> t \<longrightarrow> l ! t = le32_at M (4 * t)))"

lemma schedule_step:
  assumes l: "length l = 16" and old: "\<forall>t < i. i \<le> t + 16 \<longrightarrow> l ! (t mod 16) = fips_W M t"
    and new: "\<forall>t < 16. i \<le> t \<longrightarrow> l ! t = le32_at M (4 * t)"
    and l': "l' = (if i < 16 then sha_blk0 l i else sha_blk l i)"
  shows "length l' = 16 \<and> (\<forall>t < Suc i. Suc i \<le> t + 16 \<longrightarrow> l' ! (t mod 16) = fips_W M t) \<and>
    (\<forall>t < 16. Suc i \<le> t \<longrightarrow> l' ! t = le32_at M (4 * t))"
proof -
  have W: "l' = l[i mod 16 := fips_W M i]"
  proof (cases "i < 16")
    case True
    then show ?thesis using l' new byte_swap by (simp add: sha_blk0_def fips_W.simps[of M i])
  next
    case False
    have m: "(i + 13) mod 16 = (i - 3) mod 16" "(i + 8) mod 16 = (i - 8) mod 16"
      "(i + 2) mod 16 = (i - 14) mod 16" "i mod 16 = (i - 16) mod 16"
    proof -
      have "i + 13 = (i - 3) + 16" "i + 8 = (i - 8) + 16" "i + 2 = (i - 14) + 16" "i = (i - 16) + 16"
        using False by simp_all
      then show "(i + 13) mod 16 = (i - 3) mod 16" "(i + 8) mod 16 = (i - 8) mod 16"
        "(i + 2) mod 16 = (i - 14) mod 16" "i mod 16 = (i - 16) mod 16"
        by (metis mod_add_self2)+
    qed
    have "l ! ((i - 3) mod 16) = fips_W M (i - 3)" "l ! ((i - 8) mod 16) = fips_W M (i - 8)"
      "l ! ((i - 14) mod 16) = fips_W M (i - 14)"
      using old False by simp_all
    moreover have "l ! (i mod 16) = fips_W M (i - 16)"
      unfolding m(4) using old False by simp
    ultimately have "sha_blk l i = l[i mod 16 := rol (fips_W M (i - 3) XOR fips_W M (i - 8) XOR
        fips_W M (i - 14) XOR fips_W M (i - 16)) 1]"
      by (simp only: sha_blk_def m(1-3))
    then show ?thesis by (simp only: l' False if_False fips_W.simps[of M i])
  qed
  have ne: "t mod 16 \<noteq> i mod 16" if "t < i" "Suc i \<le> t + 16" for t
  proof
    assume "t mod 16 = i mod 16"
    then have "16 dvd i - t" using that(1) mod_eq_dvd_iff_nat[of t i 16] by simp
    with that show False by (auto dest: dvd_imp_le)
  qed
  show ?thesis
  proof (intro conjI allI impI)
    show "length l' = 16" using W l by simp
    fix t assume "t < Suc i" "Suc i \<le> t + 16"
    then show "l' ! (t mod 16) = fips_W M t"
      using W l ne[of t] old by (cases "t = i") auto
  next
    fix t :: nat assume "t < 16" "Suc i \<le> t"
    then have "i mod 16 \<noteq> t" by simp
    with \<open>t < 16\<close> \<open>Suc i \<le> t\<close> show "l' ! t = le32_at M (4 * t)" using W new by simp
  qed
qed

lemma sha_round_sim:
  assumes "sha_rel M i (r, l) (a, b, c, d, e)"
  shows "sha_rel M (Suc i) (sha_round i (r, l)) (fips_round M i (a, b, c, d, e))"
proof -
  define l' where "l' = (if i < 16 then sha_blk0 l i else sha_blk l i)"
  have A: "length r = 5" "r ! sha_reg i 0 = a" "r ! sha_reg i 1 = b" "r ! sha_reg i 2 = c"
    "r ! sha_reg i 3 = d" "r ! sha_reg i 4 = e"
    and L: "length l = 16" "\<forall>t < i. i \<le> t + 16 \<longrightarrow> l ! (t mod 16) = fips_W M t"
    "\<forall>t < 16. i \<le> t \<longrightarrow> l ! t = le32_at M (4 * t)"
    using assms by (simp_all add: sha_rel_def)
  note S = schedule_step[OF L l'_def]
  have Wi: "l' ! (i mod 16) = fips_W M i" using S by simp
  define T where "T = e + (sha_mix i b c d + fips_W M i + sha_const i + rol a 5)"
  have R: "sha_round i (r, l) = (r[sha_reg i 4 := T, sha_reg i 1 := rol b 30], l')"
    using A Wi by (simp add: sha_round_def Let_def l'_def[symmetric] T_def sha_reg_eq)
  have F: "fips_round M i (a, b, c, d, e) = (T, a, rol b 30, c, d)"
    by (simp add: fips_round_def T_def sha_mix_fips ac_simps)
  have idx: "sha_reg (Suc i) 0 = sha_reg i 4" "sha_reg (Suc i) 1 = sha_reg i 0"
    "sha_reg (Suc i) 2 = sha_reg i 1" "sha_reg (Suc i) 3 = sha_reg i 2" "sha_reg (Suc i) 4 = sha_reg i 3"
    using sha_reg_Suc[of i] by (simp_all add: numeral_eq_Suc)
  show ?thesis
    unfolding R F sha_rel_def using S A by (simp add: idx[unfolded One_nat_def] sha_reg_eq)
qed

lemma sha_rounds_sim:
  assumes "sha_rel M 0 st q"
  shows "sha_rel M n (fold sha_round [0..<n] st) (fold (fips_round M) [0..<n] q)"
proof (induction n)
  case (Suc n)
  obtain r l where st: "fold sha_round [0..<n] st = (r, l)" by fastforce
  obtain a b c d e where q: "fold (fips_round M) [0..<n] q = (a, b, c, d, e)"
    by (metis prod.exhaust)
  from sha_round_sim[of M n r l a b c d e] Suc show ?case by (simp add: st q)
qed (use assms in simp)

lemma transform_fips:
  assumes "length H = 5"
  shows "kern_sha1_transform H M = fips_compress H M"
proof -
  let ?l = "map (\<lambda>i. le32_at M (4 * i)) [0..<16]"
  let ?q = "(H ! 0, H ! 1, H ! 2, H ! 3, H ! 4)"
  have "sha_rel M 0 (H, ?l) ?q"
    using assms by (simp add: sha_rel_def sha_reg_def numeral_2_eq_2)
  from sha_rounds_sim[OF this, of 80]
  obtain r l a b c d e where f: "fold sha_round [0..<80] (H, ?l) = (r, l)"
    "fold (fips_round M) [0..<80] ?q = (a, b, c, d, e)"
    and R: "sha_rel M 80 (r, l) (a, b, c, d, e)"
    by (metis prod.exhaust)
  have "r ! 0 = a" "r ! 1 = b" "r ! 2 = c" "r ! 3 = d" "r ! 4 = e"
    using R by (simp_all add: sha_rel_def sha_reg_def)
  moreover have "[0..<5] = [0, 1, 2, 3, 4::nat]" by (simp add: upt_rec numeral_eq_Suc)
  ultimately show ?thesis
    unfolding kern_sha1_transform_def fips_compress_def Let_def
    using f assms by simp
qed

section \<open>Absorbing a message in pieces\<close>

function sha_absorb :: "u32 list \<Rightarrow> bytes \<Rightarrow> u32 list" where
  "sha_absorb H m = (if 64 \<le> length m then sha_absorb (fips_compress H (take 64 m)) (drop 64 m) else H)"
  by pat_completeness auto
termination
  by (relation "measure (\<lambda>(_, m). length m)") auto

declare sha_absorb.simps [simp del]

definition sha_tail :: "bytes \<Rightarrow> bytes" where
  "sha_tail m = drop (64 * (length m div 64)) m"

lemma length_fips_compress [simp]: "length (fips_compress H M) = 5"
  by (simp add: fips_compress_def split: prod.split)

lemma length_sha_absorb [simp]: "length H = 5 \<Longrightarrow> length (sha_absorb H m) = 5"
proof (induction H m rule: sha_absorb.induct)
  case (1 H m)
  then show ?case by (subst sha_absorb.simps) auto
qed

lemma length_sha_tail [simp]: "length (sha_tail m) = length m mod 64"
  by (simp add: sha_tail_def minus_mult_div_eq_mod)

lemma sha_absorb_append: "sha_absorb H (m @ d) = sha_absorb (sha_absorb H m) (sha_tail m @ d)"
proof (induction H m rule: sha_absorb.induct)
  case (1 H m)
  show ?case
  proof (cases "64 \<le> length m")
    case True
    have "sha_tail m = sha_tail (drop 64 m)"
    proof -
      have "length m div 64 = Suc ((length m - 64) div 64)" using True by (simp add: le_div_geq)
      then show ?thesis by (simp add: sha_tail_def add.commute)
    qed
    moreover have "sha_absorb H (m @ d) = sha_absorb (fips_compress H (take 64 m)) (drop 64 m @ d)"
      using True by (subst sha_absorb.simps) simp
    moreover have "sha_absorb H m = sha_absorb (fips_compress H (take 64 m)) (drop 64 m)"
      using True by (subst sha_absorb.simps) simp
    ultimately show ?thesis using 1[OF True] by simp
  next
    case False
    then have "sha_absorb H m = H" by (subst sha_absorb.simps) simp
    with False show ?thesis by (simp add: sha_tail_def)
  qed
qed

lemma update_loop_absorb:
  "i \<le> length data \<Longrightarrow> length H = 5 \<Longrightarrow>
    update_loop data i H = (sha_absorb H (drop i data), i + 64 * ((length data - i) div 64))"
proof (induction data i H rule: update_loop.induct)
  case (1 data i H)
  show ?case
  proof (cases "i + 63 < length data")
    case True
    have "update_loop data i H = update_loop data (i + 64) (fips_compress H (slice i 64 data))"
      using True 1(3) by (subst update_loop.simps) (simp add: transform_fips)
    also have "\<dots> = (sha_absorb (fips_compress H (slice i 64 data)) (drop (i + 64) data),
        i + 64 + 64 * ((length data - (i + 64)) div 64))"
      using 1(1)[OF True] True 1(3) by (simp add: transform_fips)
    also have "sha_absorb (fips_compress H (slice i 64 data)) (drop (i + 64) data) = sha_absorb H (drop i data)"
    proof -
      have "64 \<le> length data - i" using True by simp
      then show ?thesis by (subst (2) sha_absorb.simps) (simp add: slice_def add.commute)
    qed
    also have "i + 64 + 64 * ((length data - (i + 64)) div 64) = i + 64 * ((length data - i) div 64)"
      using True by (simp add: le_div_geq)
    finally show ?thesis .
  next
    case False
    then have "\<not> 64 \<le> length data - i" by simp
    then have "sha_absorb H (drop i data) = H" by (subst sha_absorb.simps) simp
    with False 1(2) show ?thesis by (subst update_loop.simps) simp
  qed
qed

section \<open>The context invariant\<close>

definition sha_init_state :: "u32 list" where
  "sha_init_state = [0x67452301, 0xEFCDAB89, 0x98BADCFE, 0x10325476, 0xC3D2E1F0]"

text \<open>A context has absorbed the message \<open>m\<close>.\<close>

definition ctx_ok :: "sha1_ctx \<Rightarrow> bytes \<Rightarrow> bool" where
  "ctx_ok c m \<longleftrightarrow> sha_state c = sha_absorb sha_init_state m \<and> length (sha_buffer c) = 64 \<and>
     length (sha_count c) = 2 \<and>
     unat (sha_count c ! 0) + 2 ^ 32 * unat (sha_count c ! 1) = 8 * length m mod 2 ^ 64 \<and>
     take (length m mod 64) (sha_buffer c) = sha_tail m"

lemma ctx_ok_init: "length (sha_buffer c) = 64 \<Longrightarrow> ctx_ok (kern_sha1_init c) []"
  by (simp add: ctx_ok_def kern_sha1_init_def sha_init_state_def sha_tail_def sha_absorb.simps)

lemma count_step:
  fixes c0 c1 :: u32
  assumes "L < 2 ^ 32" "unat c0 + 2 ^ 32 * unat c1 = N mod 2 ^ 64"
    and a: "c0' = c0 + push_bit 3 (word_of_nat L)"
    and b: "c1' = c1 + (if c0' < c0 then 1 else 0) + drop_bit 29 (word_of_nat L)"
  shows "unat c0' + 2 ^ 32 * unat c1' = (N + 8 * L) mod 2 ^ 64"
proof -
  define x where "x = 8 * L mod 2 ^ 32"
  define y where "y = 8 * L div 2 ^ 32"
  have L: "8 * L = x + 2 ^ 32 * y" unfolding x_def y_def by (rule mod_mult_div_eq[symmetric])
  have y: "y < 8" using assms(1) by (simp add: y_def)
  have ux: "unat (push_bit 3 (word_of_nat L :: u32)) = x"
    using assms(1) by (simp only: unat_push_bit_mult) (simp add: x_def unat_of_nat mult.commute)
  have uy: "unat (drop_bit 29 (word_of_nat L :: u32)) = y"
    using assms(1) by (simp only: unat_drop_bit_div) (simp add: y_def unat_of_nat)
  have xl: "x < 2 ^ 32" by (simp add: x_def)
  have c0: "unat c0 < 2 ^ 32" "unat c1 < 2 ^ 32" using unsigned_less[of c0] unsigned_less[of c1] by simp_all
  have u0: "unat c0' = (unat c0 + x) mod 2 ^ 32" by (simp add: a unat_word_ariths ux)
  define k where "k = (if c0' < c0 then 1 else 0 :: nat)"
  have k: "unat c0 + x = unat c0' + 2 ^ 32 * k"
  proof (cases "unat c0 + x < 2 ^ 32")
    case True
    then show ?thesis using u0 by (simp add: k_def word_less_nat_alt)
  next
    case False
    then have "unat c0' = unat c0 + x - 2 ^ 32" using u0 c0 xl by (simp add: mod_if)
    then show ?thesis using False xl by (simp add: k_def word_less_nat_alt)
  qed
  have u1: "unat c1' = (unat c1 + k + y) mod 2 ^ 32"
    by (simp add: b unat_word_ariths uy k_def mod_simps)
  have "unat c0' + 2 ^ 32 * unat c1' = (unat c0' + 2 ^ 32 * (unat c1 + k + y)) mod (2 ^ 32 * 2 ^ 32)"
  proof -
    have "v + B * (w mod B) = (v + B * w) mod (B * B)" if "v < B" for v w B :: nat
      using that by (simp add: mod_mult2_eq)
    moreover have "unat c0' < 2 ^ 32" using unat_u32_less[of c0'] by simp
    ultimately show ?thesis by (simp only: u1)
  qed
  also have "unat c0' + 2 ^ 32 * (unat c1 + k + y) = (unat c0 + 2 ^ 32 * unat c1) + 8 * L"
    using k L by simp
  finally show ?thesis using assms(2) by (simp add: mod_add_left_eq)
qed

lemma ctx_index:
  assumes "ctx_ok c m"
  shows "unat (drop_bit 3 (sha_count c ! 0) AND 63) = length m mod 64"
proof -
  let ?c0 = "sha_count c ! 0"
  have "unat ?c0 < 2 ^ 32" using unsigned_less[of ?c0] by simp
  moreover have "unat ?c0 + 2 ^ 32 * unat (sha_count c ! 1) = 8 * length m mod 2 ^ 64"
    using assms by (simp add: ctx_ok_def)
  ultimately have "unat ?c0 = (8 * length m mod 2 ^ 64) mod 2 ^ 32"
    by (metis mod_less mod_mult_self2)
  then have u: "unat ?c0 = 8 * length m mod 2 ^ 32" by (simp add: mod_mod_cancel)
  have "unat (drop_bit 3 ?c0 AND mask 6) = unat ?c0 div 8 mod 64"
    by (simp only: unat_and_mask unat_drop_bit_div) simp
  moreover have "(63 :: u32) = mask 6" by (simp add: mask_eq_exp_minus_1)
  moreover have "8 * n mod 4294967296 div 8 mod 64 = n mod 64" for n :: nat
  proof -
    have "8 * n mod (8 * 536870912) = 8 * (n mod 536870912)" by (rule mod_mult_mult1)
    then show ?thesis by (simp add: mod_mod_cancel)
  qed
  ultimately show ?thesis using u by simp
qed

lemma sha_tail_dvd: "length xs = 64 * q \<Longrightarrow> sha_tail (xs @ ys) = sha_tail ys"
  by (simp add: sha_tail_def)

lemma sha_tail_append: "sha_tail (m @ d) = sha_tail (sha_tail m @ d)"
proof -
  have "64 * (length m div 64) \<le> length m" by simp
  then have "length (take (64 * (length m div 64)) m) = 64 * (length m div 64)" by simp
  from sha_tail_dvd[OF this, of "sha_tail m @ d"] show ?thesis
    by (simp add: sha_tail_def)
qed

lemma update_split:
  assumes "kern_sha1_update data c = c'" "ctx_ok c m"
    "j = length m mod 64"
  shows "sha_state c' = sha_absorb (sha_state c) (sha_tail m @ data) \<and>
    length (sha_buffer c') = 64 \<and>
    take ((length m + length data) mod 64) (sha_buffer c') = sha_tail (sha_tail m @ data)"
proof -
  have j: "unat (drop_bit 3 (sha_count c ! 0) AND 63) = j" using ctx_index[OF assms(2)] assms(3) by simp
  have j64: "j < 64" and lt: "length (sha_tail m) = j" using assms(3) by simp_all
  have buf: "take j (sha_buffer c) = sha_tail m" "length (sha_buffer c) = 64"
    and H5: "length (sha_state c) = 5"
    using assms(2,3) by (simp_all add: ctx_ok_def sha_init_state_def)
  have mm: "(length m + n) mod 64 = (j + n) mod 64" for n using assms(3) by (simp add: mod_add_left_eq)
  show ?thesis
  proof (cases "j + length data > 63")
    case False
    have "sha_absorb (sha_state c) (sha_tail m @ data) = sha_state c"
      using False lt by (subst sha_absorb.simps) simp
    moreover have "sha_tail (sha_tail m @ data) = sha_tail m @ data"
      using False lt by (simp add: sha_tail_def)
    ultimately show ?thesis
      using False buf j64 mm[of "length data"]
      by (simp add: kern_sha1_update_def Let_def memcpy_at_def j assms(3)[symmetric] flip: assms(1))
  next
    case True
    define b where "b = sha_tail m @ take (64 - j) data"
    define n where "n = (length data - (64 - j)) div 64"
    define i where "i = 64 - j + 64 * n"
    have b: "memcpy_at (sha_buffer c) j (take (64 - j) data) = b" "length b = 64"
      using True buf j64 lt by (simp_all add: memcpy_at_def b_def)
    have loop: "update_loop data (64 - j) (fips_compress (sha_state c) b) =
        (sha_absorb (fips_compress (sha_state c) b) (drop (64 - j) data), i)"
      using update_loop_absorb[of "64 - j" data] True by (simp add: i_def n_def)
    have S: "sha_absorb (sha_state c) (sha_tail m @ data) =
        sha_absorb (fips_compress (sha_state c) b) (drop (64 - j) data)"
      using True lt j64 by (subst sha_absorb.simps) (simp add: b_def)
    have k: "(j + length data) div 64 = Suc n"
      using True j64 by (simp add: n_def le_div_geq)
    have "64 * Suc n - j = i" using j64 by (simp add: i_def)
    then have T: "sha_tail (sha_tail m @ data) = drop i data"
      using lt k j64 by (simp add: sha_tail_def)
    have "length (drop i data) = (j + length data) mod 64"
    proof -
      have "length (sha_tail (sha_tail m @ data)) = (j + length data) mod 64"
        using assms(3) by (simp add: mod_add_left_eq)
      then show ?thesis by (simp only: T)
    qed
    then have "take ((j + length data) mod 64) (memcpy_at b 0 (drop i data)) = drop i data"
      "length (memcpy_at b 0 (drop i data)) = 64"
      using b(2) by (simp_all add: memcpy_at_def)
    then show ?thesis
      using True b loop S T mm[of "length data"] H5
      by (simp add: kern_sha1_update_def Let_def transform_fips j flip: assms(1))
  qed
qed

lemma ctx_ok_update:
  assumes "ctx_ok c m" "length data < 2 ^ 32"
  shows "ctx_ok (kern_sha1_update data c) (m @ data)"
proof -
  have "sha_count (kern_sha1_update data c) =
      [sha_count c ! 0 + push_bit 3 (word_of_nat (length data)),
       sha_count c ! 1 + (if sha_count c ! 0 + push_bit 3 (word_of_nat (length data)) < sha_count c ! 0
         then 1 else 0) + drop_bit 29 (word_of_nat (length data))]"
    by (simp add: kern_sha1_update_def Let_def split: prod.split)
  then have "unat (sha_count (kern_sha1_update data c) ! 0) +
      2 ^ 32 * unat (sha_count (kern_sha1_update data c) ! 1) = 8 * length (m @ data) mod 2 ^ 64"
    "length (sha_count (kern_sha1_update data c)) = 2"
    using count_step[OF assms(2), of "sha_count c ! 0" "sha_count c ! 1" "8 * length m", OF _ refl refl]
      assms(1) by (simp_all add: ctx_ok_def)
  then show ?thesis
    using update_split[OF refl assms(1) refl, of data] assms(1)
    by (simp add: ctx_ok_def sha_absorb_append[of _ m data] sha_tail_append[of m data])
qed

section \<open>Padding and the digest\<close>

definition be64_bytes :: "nat \<Rightarrow> bytes" where
  "be64_bytes n = map (\<lambda>i. word_of_nat (n div 256 ^ (7 - i))) [0..<8]"

definition fips_pad :: "bytes \<Rightarrow> bytes" where
  "fips_pad m = m @ [0x80] @ replicate ((119 - length m mod 64) mod 64) 0 @ be64_bytes (8 * length m)"

definition fips_digest :: "u32 list \<Rightarrow> bytes" where
  "fips_digest H = concat (map (\<lambda>h. [ucast (drop_bit 24 h), ucast (drop_bit 16 h),
     ucast (drop_bit 8 h), ucast h]) H)"

definition fips_sha1 :: "bytes \<Rightarrow> bytes" where
  "fips_sha1 m = fips_digest (sha_absorb sha_init_state (fips_pad m))"

lemma length_be64_bytes [simp]: "length (be64_bytes n) = 8"
  by (simp add: be64_bytes_def)

lemma finalcount_be64:
  assumes "ctx_ok c m" "8 * length m < 2 ^ 64"
  shows "finalcount c = be64_bytes (8 * length m)"
proof -
  let ?c0 = "sha_count c ! 0" and ?c1 = "sha_count c ! 1"
  have N: "8 * length m = unat ?c0 + 2 ^ 32 * unat ?c1" using assms by (simp add: ctx_ok_def)
  have c0: "unat ?c0 < 2 ^ 32" using unat_u32_less[of ?c0] by simp
  have byte: "(ucast (drop_bit k w AND 255) :: u8) = word_of_nat (unat w div 2 ^ k)" for k and w :: u32
  proof -
    have "unat (drop_bit k w AND mask 8) = unat w div 2 ^ k mod 256"
      by (simp only: unat_and_mask unat_drop_bit_div) simp
    moreover have m: "mask 8 = (255 :: u32)" by (simp add: mask_eq_exp_minus_1)
    ultimately have "unat (drop_bit k w AND 255) = unat w div 2 ^ k mod 256" by (simp only: m)
    then have "unat (ucast (drop_bit k w AND 255) :: u8) = unat (word_of_nat (unat w div 2 ^ k) :: u8)"
      by (simp only: unat_ucast_mod unat_of_nat) simp
    then show ?thesis by (simp only: word_unat_eq_iff)
  qed
  have hi: "(8 * length m) div 2 ^ (32 + k) = unat ?c1 div 2 ^ k" for k
    using c0 by (simp add: N power_add div_mult2_eq)
  have lo: "(word_of_nat ((8 * length m) div 2 ^ k) :: u8) = word_of_nat (unat ?c0 div 2 ^ k)" if "k \<le> 24" for k
  proof -
    have "32 = k + ((24 - k) + 8)" using that by simp
    then have "(2::nat) ^ 32 = 2 ^ k * (2 ^ (24 - k) * 2 ^ 8)" by (metis power_add)
    then have "(8 * length m) div 2 ^ k = (unat ?c0 + 2 ^ k * (2 ^ (24 - k) * 2 ^ 8 * unat ?c1)) div 2 ^ k"
      by (simp only: N mult.assoc)
    also have "\<dots> = 2 ^ (24 - k) * 2 ^ 8 * unat ?c1 + unat ?c0 div 2 ^ k"
      by (rule div_mult_self2) simp
    also have "\<dots> = 256 * (2 ^ (24 - k) * unat ?c1) + unat ?c0 div 2 ^ k" by simp
    finally have "(8 * length m) div 2 ^ k mod 256 = unat ?c0 div 2 ^ k mod 256"
      by (simp only: mod_mult_self4)
    then have "unat (word_of_nat ((8 * length m) div 2 ^ k) :: u8) = unat (word_of_nat (unat ?c0 div 2 ^ k) :: u8)"
      by (simp only: unat_of_nat) simp
    then show ?thesis by (simp only: word_unat_eq_iff)
  qed
  have p: "(256 :: nat) ^ k = 2 ^ (8 * k)" for k by (simp add: power_mult)
  have "[0..<8] = [0, 1, 2, 3, 4, 5, 6, 7::nat]" by (simp add: upt_rec numeral_eq_Suc)
  then show ?thesis
    using hi[of 24] hi[of 16] hi[of 8] hi[of 0] lo[of 24] lo[of 16] lo[of 8] lo[of 0]
    by (simp add: finalcount_def be64_bytes_def byte p)
qed

lemma pad_loop_ok:
  assumes "ctx_ok c m"
  shows "ctx_ok (pad_loop c) (m @ replicate ((56 + 64 - length m mod 64) mod 64) 0)"
  using assms
proof (induction c arbitrary: m rule: pad_loop.induct)
  case (1 c)
  have m504: "(504 :: u32) = push_bit 3 (mask 6)" and m63: "mask 6 = (63 :: u32)"
    by (simp_all add: mask_eq_exp_minus_1)
  have "c0 AND 504 = (448 :: u32) \<longleftrightarrow> unat (drop_bit 3 c0 AND 63) = 56" for c0
  proof -
    have "c0 AND push_bit 3 (mask 6) = push_bit 3 (drop_bit 3 c0 AND mask 6)"
      by (intro bit_word_eqI) (auto simp: bit_and_iff bit_push_bit_iff bit_drop_bit_eq bit_mask_iff)
    then have e: "c0 AND 504 = push_bit 3 (drop_bit 3 c0 AND 63)" unfolding m504 m63 .
    have "unat (drop_bit 3 c0 AND mask 6) < 64" by (simp only: unat_and_mask) simp
    then have lt: "unat (drop_bit 3 c0 AND 63) < 64" by (simp only: m63)
    have "unat (c0 AND 504) = unat (drop_bit 3 c0 AND 63) * 8"
      unfolding e using lt by (simp only: unat_push_bit_mult) simp
    then show ?thesis by (simp only: word_unat_eq_iff) auto
  qed
  with ctx_index[OF 1(2)] have stop: "sha_count c ! 0 AND 504 = 448 \<longleftrightarrow> length m mod 64 = 56" by simp
  show ?case
  proof (cases "length m mod 64 = 56")
    case True
    then show ?thesis using 1(2) stop by (subst pad_loop.simps) simp
  next
    case False
    have "ctx_ok (kern_sha1_update [0] c) (m @ [0])" using ctx_ok_update[OF 1(2), of "[0]"] by simp
    from 1(1)[OF _ this] False stop
    have "ctx_ok (pad_loop (kern_sha1_update [0] c))
        ((m @ [0]) @ replicate ((56 + 64 - length (m @ [0]) mod 64) mod 64) 0)" by simp
    moreover have "(56 + 64 - length m mod 64) mod 64 = Suc ((56 + 64 - length (m @ [0]) mod 64) mod 64)"
    proof -
      have *: "(120 - k) mod 64 = Suc ((120 - Suc k mod 64) mod 64)" if "k < 64" "k \<noteq> 56" for k :: nat
      proof -
        consider "k < 56" | "56 < k" "k < 63" | "k = 63" using \<open>k < 64\<close> \<open>k \<noteq> 56\<close> by linarith
        then show ?thesis
        proof cases
          case 1
          then have "120 - k = (56 - k) + 64" "120 - Suc k = (55 - k) + 64" "56 - k = Suc (55 - k)" by simp_all
          moreover have "Suc k mod 64 = Suc k" "(56 - k) mod 64 = 56 - k" "(55 - k) mod 64 = 55 - k"
            using 1 by simp_all
          ultimately show ?thesis by (simp only: mod_add_self2)
        next
          case 2
          then have "Suc k mod 64 = Suc k" "(120 - k) mod 64 = 120 - k" "(120 - Suc k) mod 64 = 120 - Suc k"
            "120 - k = Suc (120 - Suc k)" by simp_all
          then show ?thesis by (simp only:)
        qed simp
      qed
      show ?thesis using *[of "length m mod 64"] False by (simp add: mod_Suc_eq)
    qed
    moreover have "pad_loop c = pad_loop (kern_sha1_update [0] c)"
      using False stop by (subst pad_loop.simps) simp
    ultimately show ?thesis by simp
  qed
qed

lemma digest_fips:
  assumes "length H = 5"
  shows "map (\<lambda>i. ucast (drop_bit ((3 - i mod 4) * 8) (H ! (i div 4)) AND 255)) [0..<20] = fips_digest H"
proof -
  obtain a b c d e where H: "H = [a, b, c, d, e]" using assms by (auto simp: length_Suc_conv numeral_eq_Suc)
  have m: "(255 :: u32) = mask 8" by (simp add: mask_eq_exp_minus_1)
  have byte: "(ucast (w AND 255) :: u8) = ucast w" for w :: u32
    unfolding m by (rule bit_word_eqI) (simp add: bit_unsigned_iff bit_and_iff bit_mask_iff)
  have u: "[0..<20] = [0, 1, 2, 3, 4, 5, 6, 7, 8, 9, 10, 11, 12, 13, 14, 15, 16, 17, 18, 19::nat]"
    by (simp add: upt_rec numeral_eq_Suc)
  show ?thesis unfolding u H by (simp add: fips_digest_def byte)
qed

lemma fold_update_ok:
  assumes "ctx_ok c m" "\<forall>d \<in> set ps. length d < 2 ^ 32"
  shows "ctx_ok (fold kern_sha1_update ps c) (m @ concat ps)"
  using assms
proof (induction ps arbitrary: c m)
  case (Cons d ps)
  then have "ctx_ok (kern_sha1_update d c) (m @ d)" by (intro ctx_ok_update) simp_all
  from Cons.IH[OF this] Cons.prems(2) show ?case by simp
qed simp

lemma kern_sha1_final_ok:
  assumes 1: "ctx_ok c m" and len: "8 * length m < 2 ^ 64"
  shows "fst (kern_sha1_final c) = fips_sha1 m \<and> length (sha_buffer (snd (kern_sha1_final c))) = 64"
proof -
  have "ctx_ok (kern_sha1_update [0x80] c) (m @ [0x80])"
    using ctx_ok_update[OF 1, of "[0x80]"] by simp
  from pad_loop_ok[OF this]
  have 2: "ctx_ok (pad_loop (kern_sha1_update [0x80] c))
      ((m @ [0x80]) @ replicate ((120 - length (m @ [0x80]) mod 64) mod 64) 0)" by simp
  have "(120 - Suc k mod 64) mod 64 = (119 - k mod 64) mod 64" for k :: nat
    by (simp add: mod_Suc split: if_splits)
  then have "(m @ [0x80]) @ replicate ((120 - length (m @ [0x80]) mod 64) mod 64) 0 @
      be64_bytes (8 * length m) = fips_pad m"
    by (simp add: fips_pad_def)
  moreover have "length (be64_bytes (8 * length m)) < 2 ^ 32" by simp
  ultimately have "ctx_ok (kern_sha1_update (finalcount c) (pad_loop (kern_sha1_update [0x80] c))) (fips_pad m)"
    using ctx_ok_update[OF 2, of "be64_bytes (8 * length m)"] finalcount_be64[OF 1 len]
    by (simp only: append_assoc)
  then have "sha_state (kern_sha1_update (finalcount c) (pad_loop (kern_sha1_update [0x80] c))) =
      sha_absorb sha_init_state (fips_pad m)"
    "length (sha_buffer (kern_sha1_update (finalcount c) (pad_loop (kern_sha1_update [0x80] c)))) = 64"
    by (simp_all add: ctx_ok_def)
  then show ?thesis
    by (simp add: kern_sha1_final_def Let_def fips_sha1_def digest_fips sha_init_state_def)
qed

lemma length_fips_sha1 [simp]: "length (fips_sha1 m) = 20"
proof -
  have "length (sha_absorb sha_init_state (fips_pad m)) = 5" by (simp add: sha_init_state_def)
  then obtain a b c d e where "sha_absorb sha_init_state (fips_pad m) = [a, b, c, d, e]"
    by (auto simp: length_Suc_conv numeral_eq_Suc)
  then show ?thesis by (simp add: fips_sha1_def fips_digest_def)
qed


definition sha_demo_ctx :: sha1_ctx where
  "sha_demo_ctx = \<lparr>sha_state = [], sha_count = [], sha_buffer = replicate 64 0\<rparr>"


end
