(* ===== verification/Wpa.thy ===== *)
theory Wpa
  imports Sha1 "HOL-Library.Monad_Syntax"
begin

text \<open>
  The WPA2 layer of \<open>src/kext/RTW88IEEE80211.cpp\<close>: HMAC-SHA1, the passphrase mapping
  (\<open>derivePMK\<close>), the pairwise key expansion (\<open>derivePTK\<close>), the RSN element
  (\<open>rtw88RsnSelectCcmpPsk\<close>, \<open>rtw88BuildSelectedRsnIe\<close>), the EAPOL-Key frames
  (\<open>sendEAPOLKey\<close>, \<open>eapol_mic_ok\<close>) and the KDE walk (\<open>extract_gtk_from_kde\<close>).  Parsers read
  their buffer through checked reads: \<open>None\<close> is an access outside it.
\<close>

section \<open>HMAC-SHA1\<close>

definition sha_ctx0 :: sha1_ctx where
  "sha_ctx0 = \<lparr>sha_state = [], sha_count = [], sha_buffer = replicate 64 0\<rparr>"

definition kern_hmac_sha1 :: "bytes \<Rightarrow> bytes \<Rightarrow> bytes" where
  "kern_hmac_sha1 key data =
    (let (key, ctx) = (if length key > 64
            then kern_sha1_final (kern_sha1_update key (kern_sha1_init sha_ctx0)) else (key, sha_ctx0));
         k_ipad = map (\<lambda>b. b XOR 0x36) (memcpy_at (replicate 64 0) 0 key);
         k_opad = map (\<lambda>b. b XOR 0x5c) (memcpy_at (replicate 64 0) 0 key);
         (mac, ctx) = kern_sha1_final (kern_sha1_update data (kern_sha1_update k_ipad (kern_sha1_init ctx)));
         (mac, ctx) = kern_sha1_final (kern_sha1_update mac (kern_sha1_update k_opad (kern_sha1_init ctx)))
     in mac)"

text \<open>RFC 2104.\<close>

definition hmac_key :: "bytes \<Rightarrow> bytes" where
  "hmac_key k = (let k = (if length k > 64 then fips_sha1 k else k) in k @ replicate (64 - length k) 0)"

definition hmac_sha1 :: "bytes \<Rightarrow> bytes \<Rightarrow> bytes" where
  "hmac_sha1 k m = fips_sha1 (map (\<lambda>b. b XOR 0x5c) (hmac_key k) @
     fips_sha1 (map (\<lambda>b. b XOR 0x36) (hmac_key k) @ m))"

section \<open>Passphrase and pairwise keys\<close>

text \<open>The functions below take the MAC as an argument; the code's are their instances at
  \<open>kern_hmac_sha1\<close>.\<close>

definition xor_bytes :: "bytes \<Rightarrow> bytes \<Rightarrow> bytes" where
  "xor_bytes a b = map2 (XOR) a b"

fun pmk_loop :: "(bytes \<Rightarrow> bytes \<Rightarrow> bytes) \<Rightarrow> bytes \<Rightarrow> nat \<Rightarrow> bytes \<Rightarrow> bytes \<Rightarrow> bytes" where
  "pmk_loop mac pass 0 u t = t"
| "pmk_loop mac pass (Suc n) u t = (let u = mac pass u in pmk_loop mac pass n u (xor_bytes t u))"

definition pmk_block :: "(bytes \<Rightarrow> bytes \<Rightarrow> bytes) \<Rightarrow> nat \<Rightarrow> bytes \<Rightarrow> bytes \<Rightarrow> nat \<Rightarrow> bytes" where
  "pmk_block mac iters pass ssid block =
    (let b = (word_of_nat block :: u32);
         salt = ssid @ [ucast (drop_bit 24 b), ucast (drop_bit 16 b), ucast (drop_bit 8 b), ucast b];
         u = mac pass salt
     in pmk_loop mac pass (iters - 1) u u)"

definition derivePMK_with :: "(bytes \<Rightarrow> bytes \<Rightarrow> bytes) \<Rightarrow> nat \<Rightarrow> bytes \<Rightarrow> bytes \<Rightarrow> bytes" where
  "derivePMK_with mac iters pass ssid =
    (let ssid = (if length ssid > 120 then take 120 ssid else ssid)
     in take 20 (pmk_block mac iters pass ssid 1) @ take 12 (pmk_block mac iters pass ssid 2))"

definition derivePMK :: "bytes \<Rightarrow> bytes \<Rightarrow> bytes" where
  "derivePMK = derivePMK_with kern_hmac_sha1 4096"

fun memcmp_less :: "bytes \<Rightarrow> bytes \<Rightarrow> bool" where
  "memcmp_less (a # as) (b # bs) = (if a = b then memcmp_less as bs else a < b)"
| "memcmp_less _ _ = False"

text \<open>\<open>Pairwise key expansion\<close> in ASCII.\<close>

definition ptk_label :: bytes where
  "ptk_label = [0x50, 0x61, 0x69, 0x72, 0x77, 0x69, 0x73, 0x65, 0x20, 0x6b, 0x65, 0x79, 0x20,
     0x65, 0x78, 0x70, 0x61, 0x6e, 0x73, 0x69, 0x6f, 0x6e]"

definition ptk_data :: "bytes \<Rightarrow> bytes \<Rightarrow> bytes \<Rightarrow> bytes \<Rightarrow> bytes" where
  "ptk_data anonce snonce spa aa =
    (let (min_mac, max_mac) = (if memcmp_less spa aa then (spa, aa) else (aa, spa));
         (min_nonce, max_nonce) = (if memcmp_less snonce anonce then (snonce, anonce) else (anonce, snonce))
     in ptk_label @ [0] @ min_mac @ max_mac @ min_nonce @ max_nonce)"

definition derivePTK_with :: "(bytes \<Rightarrow> bytes \<Rightarrow> bytes) \<Rightarrow> bytes \<Rightarrow> bytes \<Rightarrow> bytes \<Rightarrow> bytes \<Rightarrow> bytes \<Rightarrow> bytes" where
  "derivePTK_with mac pmk anonce snonce spa aa =
    (let data = ptk_data anonce snonce spa aa
     in concat (map (\<lambda>i. take (if i < 3 then 20 else 4) (mac pmk (data @ [word_of_nat i]))) [0..<4]))"

definition derivePTK :: "bytes \<Rightarrow> bytes \<Rightarrow> bytes \<Rightarrow> bytes \<Rightarrow> bytes \<Rightarrow> bytes" where
  "derivePTK = derivePTK_with kern_hmac_sha1"

section \<open>The RSN element\<close>

definition CIPHER_TKIP :: u32 where "CIPHER_TKIP = 0x000FAC02"
definition CIPHER_CCMP :: u32 where "CIPHER_CCMP = 0x000FAC04"
definition AKM_PSK :: u32 where "AKM_PSK = 0x000FAC02"

definition suite_of :: "u8 \<Rightarrow> u8 \<Rightarrow> u8 \<Rightarrow> u8 \<Rightarrow> u32" where
  "suite_of b0 b1 b2 b3 = push_bit 24 (ucast b0) OR push_bit 16 (ucast b1) OR
     push_bit 8 (ucast b2) OR ucast b3"

definition rtw88ReadSuite :: "bytes \<Rightarrow> nat \<Rightarrow> u32 option" where
  "rtw88ReadSuite mem p = do {
     b0 \<leftarrow> rd mem p; b1 \<leftarrow> rd mem (p + 1); b2 \<leftarrow> rd mem (p + 2); b3 \<leftarrow> rd mem (p + 3);
     Some (suite_of b0 b1 b2 b3) }"

definition rtw88WriteSuite :: "u32 \<Rightarrow> bytes" where
  "rtw88WriteSuite s = [ucast (drop_bit 24 s), ucast (drop_bit 16 s), ucast (drop_bit 8 s), ucast s]"

text \<open>The two suite loops: is \<open>want\<close> among the \<open>n\<close> suites at \<open>p\<close>?\<close>

fun has_suite :: "bytes \<Rightarrow> u32 \<Rightarrow> nat \<Rightarrow> nat \<Rightarrow> bool \<Rightarrow> bool option" where
  "has_suite mem want p 0 found = Some found"
| "has_suite mem want p (Suc n) found = do {
     s \<leftarrow> rtw88ReadSuite mem p;
     has_suite mem want (p + 4) n (if s = want then True else found) }"

definition rtw88RsnSelectCcmpPsk :: "bytes \<Rightarrow> nat \<Rightarrow> (u32 \<times> u32) option option" where
  "rtw88RsnSelectCcmpPsk rsn len =
    (if 8 > len then Some None
     else do {
       group \<leftarrow> rtw88ReadSuite rsn 2;
       if 8 > len then Some None
       else do {
         c0 \<leftarrow> rd rsn 6; c1 \<leftarrow> rd rsn 7;
         let pairwiseCount = unat (le16 c0 c1);
         let p = 8;
         if p + pairwiseCount * 4 > len then Some None
         else do {
           hasCcmp \<leftarrow> has_suite rsn CIPHER_CCMP p pairwiseCount False;
           let p = p + pairwiseCount * 4;
           if p + 2 > len then Some None
           else do {
             a0 \<leftarrow> rd rsn p; a1 \<leftarrow> rd rsn (p + 1);
             let akmCount = unat (le16 a0 a1);
             let p = p + 2;
             if p + akmCount * 4 > len then Some None
             else do {
               hasPsk \<leftarrow> has_suite rsn AKM_PSK p akmCount False;
               if \<not> hasCcmp \<or> \<not> hasPsk then Some None
               else Some (Some (CIPHER_CCMP,
                 if group \<noteq> CIPHER_CCMP \<and> group \<noteq> CIPHER_TKIP then CIPHER_CCMP else group)) }}}}})"

definition rtw88BuildSelectedRsnIe :: "u32 \<Rightarrow> bytes" where
  "rtw88BuildSelectedRsnIe group_cipher =
    (let g = (if group_cipher \<noteq> CIPHER_TKIP then CIPHER_CCMP else group_cipher)
     in [48, 20, 1, 0] @ rtw88WriteSuite g @ [1, 0] @ rtw88WriteSuite CIPHER_CCMP @ [1, 0] @
        rtw88WriteSuite AKM_PSK @ [0, 0])"

section \<open>EAPOL-Key frames\<close>

definition eapol_mic_ok_with :: "(bytes \<Rightarrow> bytes \<Rightarrow> bytes) \<Rightarrow> bool \<Rightarrow> bytes \<Rightarrow> bytes \<Rightarrow> nat \<Rightarrow> bool option" where
  "eapol_mic_ok_with mac alloc_ok kck eapol eapol_len =
    (if eapol_len < 99 then Some False
     else if \<not> alloc_ok then Some False
     else do {
       tmp \<leftarrow> rds eapol 0 eapol_len;
       rx_mic \<leftarrow> rds tmp 81 16;
       let tmp = memcpy_at tmp 81 (replicate 16 0);
       let m = mac (take 16 kck) tmp;
       Some (rx_mic = take 16 m) })"

definition eapol_mic_ok :: "bool \<Rightarrow> bytes \<Rightarrow> bytes \<Rightarrow> nat \<Rightarrow> bool option" where
  "eapol_mic_ok = eapol_mic_ok_with kern_hmac_sha1"

text \<open>The EAPOL-Key message \<open>sendEAPOLKey\<close> builds behind the Ethernet header, in the 498 bytes
  that follow it in \<open>frame[512]\<close>.  The key descriptor starts at offset 4.\<close>

definition key_info_bits :: "nat \<Rightarrow> bool \<Rightarrow> bool \<Rightarrow> bool \<Rightarrow> u16" where
  "key_info_bits step install ack mic =
    0x000A OR (if mic then 0x0100 else 0) OR (if install then 0x0040 else 0) OR
    (if ack then 0x0080 else 0) OR (if step = 4 then 0x0200 else 0)"

definition eapol_unsigned :: "nat \<Rightarrow> u16 \<Rightarrow> bytes \<Rightarrow> bytes \<Rightarrow> u32 \<Rightarrow> bytes \<times> nat" where
  "eapol_unsigned step ki replay_counter snonce group_cipher =
    (let e = memcpy_at (replicate 498 0) 0 [2, 3];
         e = memcpy_at e 4 [2, hi8 ki, lo8 ki, 0, 16];
         e = memcpy_at e 9 replay_counter;
         e = memcpy_at e 17 snonce;
         rsn = rtw88BuildSelectedRsnIe group_cipher;
         (e, kdl) = (if step = 2
            then (memcpy_at e 99 rsn, if 99 + length rsn > 512 - 14 then 0 else length rsn) else (e, 0));
         e = memcpy_at e 97 [hi8 (word_of_nat kdl), lo8 (word_of_nat kdl)];
         total = 4 + (95 + kdl);
         e = memcpy_at e 2 [hi8 (word_of_nat (95 + kdl)), lo8 (word_of_nat (95 + kdl))]
     in (e, total))"

definition sendEAPOLKey_frame :: "(bytes \<Rightarrow> bytes \<Rightarrow> bytes) \<Rightarrow> nat \<Rightarrow> bytes \<Rightarrow> bool \<Rightarrow> bool \<Rightarrow> bool \<Rightarrow>
    bytes \<Rightarrow> bytes \<Rightarrow> bytes \<Rightarrow> bytes \<Rightarrow> u32 \<Rightarrow> bytes" where
  "sendEAPOLKey_frame mac step replay_counter install ack mic_on bssid macAddr snonce ptk group_cipher =
    (let (e, total) = eapol_unsigned step (key_info_bits step install ack mic_on) replay_counter
            snonce group_cipher;
         e = (if mic_on then memcpy_at e 81 (take 16 (mac (take 16 ptk) (take total e))) else e)
     in bssid @ macAddr @ [0x88, 0x8e] @ take total e)"

section \<open>The key data elements\<close>

function kde_walk :: "bytes \<Rightarrow> nat \<Rightarrow> nat \<Rightarrow> (bytes \<times> u8 \<times> u8) option option" where
  "kde_walk mem key_data_len pos =
    (if pos + 2 \<le> key_data_len
     then do {
       kid \<leftarrow> rd mem pos;
       len \<leftarrow> rd mem (pos + 1);
       if pos + 2 + unat len > key_data_len then Some None
       else do {
         is_gtk \<leftarrow> (if kid = 0xdd \<and> len \<ge> 6
            then do { oui \<leftarrow> rds mem (pos + 2) 4; Some (oui = [0x00, 0x0f, 0xac, 0x01]) }
            else Some False);
         if is_gtk then
           (let key_len = len - 6 in
            if key_len > 32 then Some None
            else do {
              b4 \<leftarrow> rd mem (pos + 6);
              key \<leftarrow> rds mem (pos + 8) (unat key_len);
              Some (Some (memcpy_at (replicate 32 0) 0 key, key_len, b4 AND 3)) })
         else kde_walk mem key_data_len (pos + 2 + unat len) } }
     else Some None)"
  by pat_completeness auto
termination
  by (relation "measure (\<lambda>(_, n, pos). n - pos)") auto

declare kde_walk.simps [simp del]

text \<open>\<open>Some (Some (gtk, gtk_len, gtk_idx))\<close> when the function returns true, \<open>Some None\<close> when it
  returns false.\<close>

definition extract_gtk_from_kde :: "bytes \<Rightarrow> nat \<Rightarrow> (bytes \<times> u8 \<times> u8) option option" where
  "extract_gtk_from_kde key_data key_data_len = kde_walk key_data key_data_len 0"

section \<open>The keyed MAC\<close>

text \<open>\<open>kern_hmac_sha1\<close> is the HMAC-SHA1 of RFC 2104 for keys of any length, the hashed key
  of more than 64 bytes included.\<close>

theorem kern_hmac_is_rfc2104:
  assumes "length key < 2 ^ 32" "length data < 2 ^ 32"
  shows "kern_hmac_sha1 key data = hmac_sha1 key data"
proof -
  define kc where "kc = (if length key > 64
      then kern_sha1_final (kern_sha1_update key (kern_sha1_init sha_ctx0)) else (key, sha_ctx0))"
  have ok0: "ctx_ok (kern_sha1_init sha_ctx0) []" by (rule ctx_ok_init) (simp add: sha_ctx0_def)
  have kc: "fst kc = (if length key > 64 then fips_sha1 key else key)" "length (sha_buffer (snd kc)) = 64"
    using kern_sha1_final_ok[OF ctx_ok_update[OF ok0 assms(1)]] assms(1)
    by (auto simp: kc_def sha_ctx0_def)
  let ?k = "fst kc"
  have pad: "memcpy_at (replicate 64 0) 0 ?k = hmac_key key" "length (hmac_key key) = 64"
    using kc(1) by (auto simp: memcpy_at_def hmac_key_def Let_def)
  define ip where "ip = map (\<lambda>b. b XOR 0x36) (hmac_key key)"
  define op where "op = map (\<lambda>b. b XOR 0x5c) (hmac_key key)"
  have len: "length ip = 64" "length op = 64" using pad by (simp_all add: ip_def op_def)
  have step: "fst (kern_sha1_final (kern_sha1_update d (kern_sha1_update p (kern_sha1_init c)))) = fips_sha1 (p @ d)
      \<and> length (sha_buffer (snd (kern_sha1_final (kern_sha1_update d (kern_sha1_update p (kern_sha1_init c)))))) = 64"
    if "length (sha_buffer c) = 64" "length p = 64" "length d < 2 ^ 32" for c p d
  proof -
    have "ctx_ok (kern_sha1_update p (kern_sha1_init c)) p"
      using ctx_ok_update[OF ctx_ok_init[OF that(1)], of p] that(2) by simp
    from ctx_ok_update[OF this that(3)]
    show ?thesis using kern_sha1_final_ok that by simp
  qed
  obtain mac1 c1 where s1: "kern_sha1_final (kern_sha1_update data (kern_sha1_update ip
      (kern_sha1_init (snd kc)))) = (mac1, c1)" by fastforce
  then have m1: "mac1 = fips_sha1 (ip @ data)" "length (sha_buffer c1) = 64"
    using step[OF kc(2) len(1) assms(2)] by simp_all
  then have "fst (kern_sha1_final (kern_sha1_update mac1 (kern_sha1_update op (kern_sha1_init c1)))) =
      fips_sha1 (op @ mac1)"
    using step[OF m1(2) len(2), of mac1] by simp
  then show ?thesis
    unfolding kern_hmac_sha1_def Let_def kc_def[symmetric]
    using s1 m1(1) pad(1) by (simp add: split_beta ip_def op_def hmac_sha1_def)
qed

theorem kern_hmac_is_rfc2104_witness:
  "kern_hmac_sha1 [0x0b, 0x0b] [0x48, 0x69] = hmac_sha1 [0x0b, 0x0b] [0x48, 0x69]"
  by (rule kern_hmac_is_rfc2104) simp_all

text \<open>What the key derivation and the EAPOL frames need of a MAC.\<close>

locale keyed_mac =
  fixes mac :: "bytes \<Rightarrow> bytes \<Rightarrow> bytes"
  assumes length_mac: "length (mac k d) = 20"
begin

lemma length_pmk_loop: "length t = 20 \<Longrightarrow> length (pmk_loop mac pass n u t) = 20"
  by (induction n arbitrary: u t) (simp_all add: Let_def xor_bytes_def length_mac)

lemma length_pmk_block: "length (pmk_block mac iters pass ssid b) = 20"
  by (simp add: pmk_block_def Let_def length_pmk_loop length_mac)

lemma length_derivePMK: "length (derivePMK_with mac iters pass ssid) = 32"
  by (simp add: derivePMK_with_def Let_def length_pmk_block)

lemma length_derivePTK: "length (derivePTK_with mac pmk an sn spa aa) = 64"
proof -
  have "[0..<4] = [0, 1, 2, 3::nat]" by (simp add: upt_rec numeral_eq_Suc)
  then show ?thesis by (simp add: derivePTK_with_def Let_def length_mac)
qed

text \<open>A frame sealed with a MIC passes the check under the same key, and only with that MIC.\<close>

lemma mic_check:
  assumes "99 \<le> n" "n \<le> length e"
  shows "eapol_mic_ok_with mac True kck e n =
    Some (slice 81 16 e = take 16 (mac (take 16 kck) (memcpy_at (take n e) 81 (replicate 16 0))))"
  using assms by (simp add: eapol_mic_ok_with_def rds_def slice_def drop_take min_def)

lemma mic_seal:
  assumes "99 \<le> n" "n \<le> length e" "slice 81 16 e = replicate 16 0"
    "e' = memcpy_at e 81 (take 16 (mac (take 16 kck) (take n e)))"
  shows "eapol_mic_ok_with mac True kck e' n = Some True"
proof -
  let ?m = "take 16 (mac (take 16 kck) (take n e))"
  have lm: "length ?m = 16" by (simp add: length_mac)
  have e: "e = take 81 e @ replicate 16 0 @ drop 97 e"
    using assms(3) append_take_drop_id[of 81 e] append_take_drop_id[of 16 "drop 81 e"]
    by (simp add: slice_def)
  have e': "e' = take 81 e @ ?m @ drop 97 e" unfolding assms(4) memcpy_at_def lm by simp
  have "memcpy_at (take n e') 81 (replicate 16 0) = take n e"
  proof -
    have "take n e' = take 81 e @ ?m @ take (n - 97) (drop 97 e)"
      unfolding e' using assms(1,2) lm by simp
    then have "memcpy_at (take n e') 81 (replicate 16 0) = take 81 e @ replicate 16 0 @ take (n - 97) (drop 97 e)"
      using assms(1,2) lm by (simp add: memcpy_at_def)
    also have "\<dots> = take n (take 81 e @ replicate 16 0 @ drop 97 e)"
      using assms(1,2) by simp
    finally show ?thesis using e by simp
  qed
  moreover have "slice 81 16 e' = ?m"
    unfolding e' using assms(1,2) lm by (simp add: slice_def)
  moreover have "n \<le> length e'" unfolding e' using assms(1,2) lm by simp
  ultimately show ?thesis using mic_check[OF assms(1)] by simp
qed

end

lemma length_kern_hmac: "length (kern_hmac_sha1 k d) = 20"
  by (simp add: kern_hmac_sha1_def Let_def kern_sha1_final_def split_beta)

interpretation hmac: keyed_mac kern_hmac_sha1
  by unfold_locales (rule length_kern_hmac)

section \<open>Key derivation\<close>

text \<open>RFC 8018: \<open>U_1 = PRF(P, S || INT(i))\<close>, \<open>U_{k+1} = PRF(P, U_k)\<close>, \<open>F = U_1 xor ... xor U_c\<close>.\<close>

fun pbkdf2_U :: "(bytes \<Rightarrow> bytes \<Rightarrow> bytes) \<Rightarrow> bytes \<Rightarrow> bytes \<Rightarrow> nat \<Rightarrow> bytes" where
  "pbkdf2_U prf P S 0 = prf P S"
| "pbkdf2_U prf P S (Suc k) = prf P (pbkdf2_U prf P S k)"

definition pbkdf2_F :: "(bytes \<Rightarrow> bytes \<Rightarrow> bytes) \<Rightarrow> bytes \<Rightarrow> bytes \<Rightarrow> nat \<Rightarrow> nat \<Rightarrow> bytes" where
  "pbkdf2_F prf P S c i =
    (let S' = S @ [word_of_nat (i div 16777216), word_of_nat (i div 65536), word_of_nat (i div 256), word_of_nat i]
     in fold (\<lambda>k t. xor_bytes t (pbkdf2_U prf P S' k)) [1..<c] (pbkdf2_U prf P S' 0))"

lemma pmk_loop_fold:
  "pmk_loop mac P n (pbkdf2_U mac P S j) t =
    fold (\<lambda>k t. xor_bytes t (pbkdf2_U mac P S k)) [Suc j..<Suc j + n] t"
proof (induction n arbitrary: j t)
  case (Suc n)
  have "[Suc j..<Suc j + Suc n] = Suc j # [Suc (Suc j)..<Suc (Suc j) + n]"
    by (simp add: upt_rec)
  then show ?case using Suc[of "Suc j"] by (simp add: Let_def)
qed simp

lemma pmk_block_F:
  assumes "0 < c" "b = 1 \<or> b = 2"
  shows "pmk_block mac c P S b = pbkdf2_F mac P S c b"
proof -
  obtain n where "c = Suc n" using assms(1) by (cases c) auto
  then show ?thesis using assms(2) pmk_loop_fold[of mac P n _ 0]
    by (auto simp: pmk_block_def pbkdf2_F_def Let_def)
qed

text \<open>\<open>derivePMK\<close> is PBKDF2 of RFC 8018 over HMAC-SHA1 with 4096 iterations and 32 bytes of
  output, for the SSID cut to 120 bytes (an SSID has at most 32).\<close>

theorem derivePMK_is_pbkdf2:
  "derivePMK pass ssid =
    take 32 (pbkdf2_F kern_hmac_sha1 pass (take 120 ssid) 4096 1 @
             pbkdf2_F kern_hmac_sha1 pass (take 120 ssid) 4096 2) \<and>
   length (derivePMK pass ssid) = 32"
proof -
  have t: "(if length ssid > 120 then take 120 ssid else ssid) = take 120 ssid" by simp
  have F: "pmk_block kern_hmac_sha1 4096 pass S 1 = pbkdf2_F kern_hmac_sha1 pass S 4096 1"
    "pmk_block kern_hmac_sha1 4096 pass S 2 = pbkdf2_F kern_hmac_sha1 pass S 4096 2" for S
    by (rule pmk_block_F; simp)+
  have len: "length (pbkdf2_F kern_hmac_sha1 pass S 4096 1) = 20" for S
    using hmac.length_pmk_block[of 4096 pass S 1] by (simp only: F)
  show ?thesis
    using hmac.length_derivePMK[of 4096 pass ssid]
    unfolding derivePMK_def derivePMK_with_def Let_def t F by (simp add: len[unfolded One_nat_def])
qed

lemma memcmp_less_asym: "memcmp_less a b \<Longrightarrow> \<not> memcmp_less b a"
  by (induction a b rule: memcmp_less.induct) (auto split: if_splits)

lemma memcmp_less_total:
  "length a = length b \<Longrightarrow> \<not> memcmp_less a b \<Longrightarrow> \<not> memcmp_less b a \<Longrightarrow> a = b"
proof (induction a arbitrary: b)
  case (Cons x a)
  then obtain y b' where b: "b = y # b'" by (cases b) auto
  with Cons.prems have "\<not> x < y" "\<not> y < x" by (auto split: if_splits)
  then have "x = y" by simp
  with Cons b show ?case by simp
qed simp

lemma ptk_data_sym:
  assumes "length anonce = length snonce" "length spa = length aa"
  shows "ptk_data anonce snonce spa aa = ptk_data snonce anonce aa spa"
proof -
  have "(if memcmp_less a b then (a, b) else (b, a)) = (if memcmp_less b a then (b, a) else (a, b))"
    if "length a = length b" for a b
    using memcmp_less_asym[of a b] memcmp_less_total[OF that] by auto
  note H = this[OF assms(1)[symmetric]] this[OF assms(2)]
  show ?thesis unfolding ptk_data_def H ..
qed



section \<open>The RSN element\<close>

lemma readSuite_write:
  "p + 4 \<le> length mem \<Longrightarrow> rtw88ReadSuite mem p =
    Some (suite_of (mem ! p) (mem ! (p + 1)) (mem ! (p + 2)) (mem ! (p + 3)))"
  by (simp add: rtw88ReadSuite_def)

lemma suite_of_write:
  "rtw88WriteSuite s = [b0, b1, b2, b3] \<Longrightarrow> suite_of b0 b1 b2 b3 = s"
proof -
  assume "rtw88WriteSuite s = [b0, b1, b2, b3]"
  then have "b0 = ucast (drop_bit 24 s)" "b1 = ucast (drop_bit 16 s)" "b2 = ucast (drop_bit 8 s)" "b3 = ucast s"
    by (simp_all add: rtw88WriteSuite_def)
  moreover have "suite_of (ucast (drop_bit 24 s)) (ucast (drop_bit 16 s)) (ucast (drop_bit 8 s)) (ucast s) = s"
  proof (rule bit_word_eqI)
    fix n assume n: "n < LENGTH(32)"
    define m where "m = n mod 8"
    have "n = m \<or> n = m + 8 \<or> n = m + 16 \<or> n = m + 24" "m < 8"
      using n unfolding m_def by (simp_all, presburger)
    then show "bit (suite_of (ucast (drop_bit 24 s)) (ucast (drop_bit 16 s)) (ucast (drop_bit 8 s)) (ucast s)) n = bit s n"
      by (elim disjE) (simp_all add: suite_of_def bit_or_iff bit_push_bit_iff bit_unsigned_iff bit_drop_bit_eq ac_simps)
  qed
  ultimately show ?thesis by simp
qed

lemma has_suite_safe:
  "p + n * 4 \<le> length mem \<Longrightarrow> has_suite mem want p n found =
    Some (found \<or> (\<exists>i < n. rtw88ReadSuite mem (p + 4 * i) = Some want))"
proof (induction n arbitrary: p found)
  case (Suc n)
  have r: "rtw88ReadSuite mem p = Some (suite_of (mem ! p) (mem ! (p + 1)) (mem ! (p + 2)) (mem ! (p + 3)))"
    using Suc.prems by (intro readSuite_write) simp
  have "(\<exists>i < Suc n. rtw88ReadSuite mem (p + 4 * i) = Some want) \<longleftrightarrow>
      rtw88ReadSuite mem p = Some want \<or> (\<exists>i < n. rtw88ReadSuite mem (p + 4 + 4 * i) = Some want)"
    by (simp add: Ex_less_Suc2 ac_simps)
  with Suc.IH[of "p + 4"] Suc.prems r show ?case by simp
qed simp

end
