(* ===== verification/Eapol.thy ===== *)
theory Eapol
  imports Wpa
begin

text \<open>
  Properties of the WPA2 elements of \<open>Wpa\<close>: the RSN element parser is memory safe and accepts
  exactly the elements with CCMP and PSK; the EAPOL-Key frames the kext sends carry a MIC its own
  check accepts; the KDE walk stays inside the key data and recovers the group key.
\<close>

section \<open>The RSN element\<close>

text \<open>The element as IEEE 802.11 lays it out: version, group suite, counted pairwise suites,
  counted AKM suites.\<close>

definition suite_at :: "bytes \<Rightarrow> nat \<Rightarrow> u32" where
  "suite_at b p = suite_of (b ! p) (b ! (p + 1)) (b ! (p + 2)) (b ! (p + 3))"

definition count_at :: "bytes \<Rightarrow> nat \<Rightarrow> nat" where
  "count_at b p = unat (le16 (b ! p) (b ! (p + 1)))"

definition rsn_ccmp_psk :: "bytes \<Rightarrow> nat \<Rightarrow> bool" where
  "rsn_ccmp_psk b len =
    (let pc = count_at b 6; q = 8 + 4 * pc; ac = count_at b q
     in 8 \<le> len \<and> q + 2 \<le> len \<and> q + 2 + 4 * ac \<le> len \<and>
        (\<exists>i < pc. suite_at b (8 + 4 * i) = CIPHER_CCMP) \<and>
        (\<exists>i < ac. suite_at b (q + 2 + 4 * i) = AKM_PSK))"

lemma readSuite_suite_at: "p + 4 \<le> length b \<Longrightarrow> rtw88ReadSuite b p = Some (suite_at b p)"
  by (simp add: readSuite_write suite_at_def)

lemma has_suite_at:
  assumes "p + n * 4 \<le> length b"
  shows "has_suite b want p n False = Some (\<exists>i < n. suite_at b (p + 4 * i) = want)"
proof -
  have "rtw88ReadSuite b (p + 4 * i) = Some (suite_at b (p + 4 * i))" if "i < n" for i
    using assms that by (intro readSuite_suite_at) simp
  then show ?thesis using has_suite_safe[OF assms, of want False] by auto
qed

lemma rtw88RsnSelect_eq:
  assumes "len \<le> length b"
  shows "rtw88RsnSelectCcmpPsk b len = Some (if rsn_ccmp_psk b len
    then Some (CIPHER_CCMP, if suite_at b 2 = CIPHER_TKIP then CIPHER_TKIP else CIPHER_CCMP)
    else None)"
proof (cases "8 \<le> len")
  case False
  then show ?thesis by (simp add: rtw88RsnSelectCcmpPsk_def rsn_ccmp_psk_def Let_def)
next
  case True
  define pc where "pc = count_at b 6"
  define q where "q = 8 + pc * 4"
  have g: "rtw88ReadSuite b 2 = Some (suite_at b 2)" using True assms by (intro readSuite_suite_at) simp
  have c: "rd b 6 = Some (b ! 6)" "rd b 7 = Some (b ! 7)" using True assms by simp_all
  have pc': "unat (le16 (b ! 6) (b ! 7)) = pc" by (simp add: pc_def count_at_def)
  have q': "8 + 4 * pc = q" by (simp add: q_def)
  show ?thesis
  proof (cases "q + 2 \<le> len")
    case False
    then have "\<not> rsn_ccmp_psk b len"
      unfolding rsn_ccmp_psk_def Let_def pc_def[symmetric] q' by simp
    moreover have "rtw88RsnSelectCcmpPsk b len = Some None"
    proof (cases "q \<le> len")
      case True
      then have "has_suite b CIPHER_CCMP 8 pc False =
          Some (\<exists>i < pc. suite_at b (8 + 4 * i) = CIPHER_CCMP)"
        using assms by (intro has_suite_at) (simp add: q_def)
      then show ?thesis using True False \<open>8 \<le> len\<close> g c
        by (simp add: rtw88RsnSelectCcmpPsk_def Let_def pc' q_def)
    next
      case False
      then show ?thesis using \<open>8 \<le> len\<close> g c
        by (simp add: rtw88RsnSelectCcmpPsk_def Let_def pc' q_def)
    qed
    ultimately show ?thesis by simp
  next
    case q2: True
    define ac where "ac = count_at b q"
    have a: "rd b q = Some (b ! q)" "rd b (q + 1) = Some (b ! (q + 1))" using q2 assms by simp_all
    have ac': "unat (le16 (b ! q) (b ! (q + 1))) = ac" by (simp add: ac_def count_at_def)
    have p: "has_suite b CIPHER_CCMP 8 pc False = Some (\<exists>i < pc. suite_at b (8 + 4 * i) = CIPHER_CCMP)"
      using assms q2 by (intro has_suite_at) (simp add: q_def)
    have sel: "rtw88RsnSelectCcmpPsk b len =
        (if q + 2 + ac * 4 > len then Some None
         else do {
           hasPsk \<leftarrow> has_suite b AKM_PSK (q + 2) ac False;
           if \<not> (\<exists>i < pc. suite_at b (8 + 4 * i) = CIPHER_CCMP) \<or> \<not> hasPsk then Some None
           else Some (Some (CIPHER_CCMP,
             if suite_at b 2 \<noteq> CIPHER_CCMP \<and> suite_at b 2 \<noteq> CIPHER_TKIP then CIPHER_CCMP else suite_at b 2)) })"
      using True q2 by (simp add: rtw88RsnSelectCcmpPsk_def Let_def g c pc' p flip: q_def)
        (simp add: a[simplified] ac'[simplified])
    show ?thesis
    proof (cases "q + 2 + ac * 4 \<le> len")
      case False
      then have "\<not> rsn_ccmp_psk b len"
        unfolding rsn_ccmp_psk_def Let_def pc_def[symmetric] q' ac_def[symmetric] by simp
      with sel False show ?thesis by simp
    next
      case fit: True
      have k: "has_suite b AKM_PSK (q + 2) ac False = Some (\<exists>i < ac. suite_at b (q + 2 + 4 * i) = AKM_PSK)"
        using assms fit by (intro has_suite_at) simp
      have "rsn_ccmp_psk b len \<longleftrightarrow> (\<exists>i < pc. suite_at b (8 + 4 * i) = CIPHER_CCMP) \<and>
          (\<exists>i < ac. suite_at b (q + 2 + 4 * i) = AKM_PSK)"
        unfolding rsn_ccmp_psk_def Let_def pc_def[symmetric] q' ac_def[symmetric]
        using True q2 fit by simp
      with sel k fit show ?thesis by auto
    qed
  qed
qed

text \<open>\<open>rtw88RsnSelectCcmpPsk\<close> never reads outside the element, accepts exactly the elements
  that list CCMP as a pairwise suite and PSK as an AKM, and reports CCMP with the group suite
  reduced to TKIP or CCMP; the element \<open>rtw88BuildSelectedRsnIe\<close> puts into requests is accepted
  and gives back its group suite.\<close>

theorem rsn_select_correct:
  assumes "len \<le> length b"
  shows "rtw88RsnSelectCcmpPsk b len = Some (if rsn_ccmp_psk b len
      then Some (CIPHER_CCMP, if suite_at b 2 = CIPHER_TKIP then CIPHER_TKIP else CIPHER_CCMP)
      else None) \<and>
    length (rtw88BuildSelectedRsnIe g) = 22 \<and>
    rtw88RsnSelectCcmpPsk (drop 2 (rtw88BuildSelectedRsnIe g)) (unat (rtw88BuildSelectedRsnIe g ! 1)) =
      Some (Some (CIPHER_CCMP, if g = CIPHER_TKIP then CIPHER_TKIP else CIPHER_CCMP))"
proof -
  have w: "length (rtw88WriteSuite s) = 4" for s by (simp add: rtw88WriteSuite_def)
  have "rtw88RsnSelectCcmpPsk (drop 2 (rtw88BuildSelectedRsnIe CIPHER_TKIP)) 20 =
      Some (Some (CIPHER_CCMP, CIPHER_TKIP))"
    "rtw88RsnSelectCcmpPsk (drop 2 (rtw88BuildSelectedRsnIe CIPHER_CCMP)) 20 =
      Some (Some (CIPHER_CCMP, CIPHER_CCMP))"
    by code_simp+
  moreover have "rtw88BuildSelectedRsnIe g = rtw88BuildSelectedRsnIe CIPHER_CCMP" if "g \<noteq> CIPHER_TKIP"
    using that by (simp add: rtw88BuildSelectedRsnIe_def)
  moreover have "unat (rtw88BuildSelectedRsnIe g ! 1) = 20" by (simp add: rtw88BuildSelectedRsnIe_def)
  ultimately show ?thesis
    using rtw88RsnSelect_eq[OF assms] by (auto simp: rtw88BuildSelectedRsnIe_def w)
qed

theorem rsn_select_correct_witness:
  "rtw88RsnSelectCcmpPsk [1, 0, 0, 0x0f, 0xac, 2, 1, 0, 0, 0x0f, 0xac, 4, 1, 0, 0, 0x0f, 0xac, 2] 18 =
    Some (Some (CIPHER_CCMP, CIPHER_TKIP))"
proof -
  let ?b = "[1, 0, 0, 0x0f, 0xac, 2, 1, 0, 0, 0x0f, 0xac, 4, 1, 0, 0, 0x0f, 0xac, 2] :: bytes"
  have "rsn_ccmp_psk ?b 18" "suite_at ?b 2 = CIPHER_TKIP" by code_simp+
  with rsn_select_correct[of 18 ?b] show ?thesis by simp
qed

section \<open>EAPOL-Key frames\<close>

lemma length_rsn: "length (rtw88BuildSelectedRsnIe g) = 22"
  by (simp add: rtw88BuildSelectedRsnIe_def rtw88WriteSuite_def)

lemma memcpy_mid:
  "off = length a \<Longrightarrow> length src = length b \<Longrightarrow> memcpy_at (a @ b @ c) off src = a @ src @ c"
  by (simp add: memcpy_at_def)

text \<open>The layout of the 498-byte message area before the MIC is written.\<close>

definition eapol_rsn :: "nat \<Rightarrow> u32 \<Rightarrow> bytes" where
  "eapol_rsn step g = (if step = 2 then rtw88BuildSelectedRsnIe g else [])"

lemma eapol_layout:
  assumes "length rc = 8" "length sn = 32"
  shows "eapol_unsigned step ki rc sn g =
    ([2, 3, 0, 95 + of_nat (length (eapol_rsn step g)), 2, hi8 ki, lo8 ki, 0, 16] @ rc @ sn @
       replicate 48 0 @ [0, of_nat (length (eapol_rsn step g))] @ eapol_rsn step g @
       replicate (399 - length (eapol_rsn step g)) 0,
     99 + length (eapol_rsn step g))"
proof -
  let ?r = "eapol_rsn step g"
  have h: "hi8 (117 :: u16) = 0" "lo8 (117 :: u16) = 117" "hi8 (95 :: u16) = 0" "lo8 (95 :: u16) = 95"
    "hi8 (22 :: u16) = 0" "lo8 (22 :: u16) = 22" "hi8 (0 :: u16) = 0" "lo8 (0 :: u16) = 0"
    by code_simp+
  have z: "replicate 498 (0 :: u8) = [0, 0] @ [0, 0] @ replicate 5 0 @ replicate 8 0 @ replicate 32 0 @
      replicate 48 0 @ [0, 0] @ replicate (length ?r) 0 @ replicate (399 - length ?r) 0"
  proof -
    have "[0, 0 :: u8] = replicate 2 0" by (simp add: numeral_2_eq_2)
    then show ?thesis by (simp add: length_rsn eapol_rsn_def flip: replicate_add)
  qed
  note mid = memcpy_mid[where a = "[]", simplified] memcpy_mid
  let ?z = "replicate (399 - length ?r) (0 :: u8)"
  have e1: "memcpy_at (replicate 498 0) 0 [2, 3] = [2, 3, 0, 0] @ replicate 5 0 @ replicate 8 0 @
      replicate 32 0 @ replicate 48 0 @ [0, 0] @ replicate (length ?r) 0 @ ?z"
    unfolding z by (subst memcpy_mid[where a = "[]", simplified]) simp_all
  have e2: "memcpy_at ([2, 3, 0, 0] @ replicate 5 0 @ x) 4 [2, hi8 ki, lo8 ki, 0, 16] =
      [2, 3, 0, 0, 2, hi8 ki, lo8 ki, 0, 16] @ x" for x
    by (subst memcpy_mid) simp_all
  have e3: "memcpy_at ([2, 3, 0, 0, 2, hi8 ki, lo8 ki, 0, 16] @ replicate 8 0 @ x) 9 rc =
      [2, 3, 0, 0, 2, hi8 ki, lo8 ki, 0, 16] @ rc @ x" for x
    by (subst memcpy_mid) (simp_all add: assms)
  have e4: "memcpy_at ([2, 3, 0, 0, 2, hi8 ki, lo8 ki, 0, 16] @ rc @ replicate 32 0 @ x) 17 sn =
      [2, 3, 0, 0, 2, hi8 ki, lo8 ki, 0, 16] @ rc @ sn @ x" for x
    using memcpy_mid[of 17 "[2, 3, 0, 0, 2, hi8 ki, lo8 ki, 0, 16] @ rc" sn "replicate 32 0" x]
    by (simp add: assms)
  define P where "P = [2, 3, 0, 0, 2, hi8 ki, lo8 ki, 0, 16] @ rc @ sn @ replicate 48 0"
  have lp: "length P = 97" by (simp add: P_def assms)
  have e5: "(if step = 2 then memcpy_at (P @ [0, 0] @ replicate (length ?r) 0 @ ?z) 99 (rtw88BuildSelectedRsnIe g)
      else P @ [0, 0] @ replicate (length ?r) 0 @ ?z) = P @ [0, 0] @ ?r @ ?z"
    using memcpy_mid[of 99 "P @ [0, 0]" ?r "replicate (length ?r) 0" ?z] lp
    by (cases "step = 2") (simp_all add: eapol_rsn_def)
  have e6: "memcpy_at (P @ [0, 0] @ x) 97 [a, b] = P @ [a, b] @ x" for a b x
    using memcpy_mid[of 97 P "[a, b]" "[0, 0]" x] lp by simp
  have e7: "memcpy_at (P @ x) 2 [a, b] = [2, 3, a, b, 2, hi8 ki, lo8 ki, 0, 16] @ rc @ sn @ replicate 48 0 @ x"
    for a b x
    using memcpy_mid[of 2 "[2, 3]" "[a, b]" "[0, 0]" "[2, hi8 ki, lo8 ki, 0, 16] @ rc @ sn @ replicate 48 0 @ x"]
    by (simp add: P_def)
  have P: "[2, 3, 0, 0, 2, hi8 ki, lo8 ki, 0, 16] @ rc @ sn @ replicate 48 0 @ x = P @ x" for x
    by (simp add: P_def)
  have k: "(if step = 2 then (memcpy_at x 99 (rtw88BuildSelectedRsnIe g),
       if 99 + length (rtw88BuildSelectedRsnIe g) > 512 - 14 then 0 else length (rtw88BuildSelectedRsnIe g))
     else (x, 0)) = (if step = 2 then memcpy_at x 99 (rtw88BuildSelectedRsnIe g) else x, length ?r)" for x
    by (simp add: length_rsn eapol_rsn_def)
  have b: "hi8 (of_nat (length ?r)) = 0" "lo8 (of_nat (length ?r)) = of_nat (length ?r)"
    "hi8 (of_nat (95 + length ?r)) = 0" "lo8 (of_nat (95 + length ?r)) = 95 + of_nat (length ?r)"
    by (simp_all add: eapol_rsn_def length_rsn h)
  show ?thesis
    unfolding eapol_unsigned_def Let_def e1 append_assoc e2 e3 e4 k split_conv P e5 e6 e7
    using b by simp
qed

lemma slice_mid: "off = length a \<Longrightarrow> n = length b \<Longrightarrow> slice off n (a @ b @ c) = b"
  by (simp add: slice_def)

lemma sendEAPOLKey_ok:
  assumes "length rc = 8" "length sn = 32" "length bssid = 6" "length macAddr = 6"
    and fr: "fr = sendEAPOLKey_frame kern_hmac_sha1 step rc install ack True bssid macAddr sn ptk g"
    and e: "e = drop 14 fr"
  shows "take 14 fr = bssid @ macAddr @ [0x88, 0x8e] \<and>
    e ! 1 = 3 \<and> length e = 4 + unat (be16 (e ! 2) (e ! 3)) \<and>
    be16 (e ! 5) (e ! 6) = key_info_bits step install ack True \<and>
    slice 9 8 e = rc \<and> slice 17 32 e = sn \<and>
    drop 99 e = (if step = 2 then rtw88BuildSelectedRsnIe g else []) \<and>
    eapol_mic_ok True ptk e (length e) = Some True"
proof -
  define ki where "ki = key_info_bits step install ack True"
  define r where "r = eapol_rsn step g"
  have r: "length r = 22 \<or> r = []" by (simp add: r_def eapol_rsn_def length_rsn)
  define n where "n = 99 + length r"
  define H where "H = [2, 3, 0, 95 + of_nat (length r), 2, hi8 ki, lo8 ki, 0, 16 :: u8]"
  define E where "E = (H @ rc @ sn @ replicate 32 0) @ replicate 16 0 @ ([0, of_nat (length r)] @ r)"
  define Z where "Z = replicate (399 - length r) (0 :: u8)"
  have lH: "length H = 9" by (simp add: H_def)
  have "replicate 48 (0 :: u8) = replicate 32 0 @ replicate 16 0" by (simp flip: replicate_add)
  then have u: "eapol_unsigned step ki rc sn g = (E @ Z, n)"
    using eapol_layout[OF assms(1,2), of step ki g] by (simp add: E_def Z_def H_def n_def r_def)
  have lE: "length E = n" using assms(1,2) lH by (simp add: E_def n_def)
  define m where "m = take 16 (kern_hmac_sha1 (take 16 ptk) E)"
  have lm: "length m = 16" by (simp add: m_def length_kern_hmac)
  define E' where "E' = (H @ rc @ sn @ replicate 32 0) @ m @ ([0, of_nat (length r)] @ r)"
  have lE': "length E' = n" using assms(1,2) lH lm by (simp add: E'_def n_def)
  have "memcpy_at (E @ Z) 81 m = E' @ Z"
    using memcpy_mid[of 81 "H @ rc @ sn @ replicate 32 0" m "replicate 16 0" "[0, of_nat (length r)] @ r @ Z"]
      assms(1,2) lH lm by (simp add: E_def E'_def)
  then have "fr = bssid @ macAddr @ [0x88, 0x8e] @ E'"
    using u lE lE' by (simp add: fr sendEAPOLKey_frame_def Let_def m_def ki_def[symmetric])
  then have eE: "e = E'" and f: "take 14 fr = bssid @ macAddr @ [0x88, 0x8e]"
    using assms(3,4) by (simp_all add: e)
  have sl: "slice 81 16 E = replicate 16 0"
    unfolding E_def by (rule slice_mid) (simp_all add: assms(1,2) lH)
  have "memcpy_at E 81 m = E'"
    unfolding E_def E'_def by (rule memcpy_mid) (simp_all add: assms(1,2) lH lm)
  then have "eapol_mic_ok True ptk E' n = Some True"
    using hmac.mic_seal[of n E E' ptk] sl lE by (simp add: eapol_mic_ok_def m_def n_def)
  moreover have "slice 9 8 E' = rc"
    using slice_mid[of 9 H 8 rc] lH assms(1) by (simp add: E'_def)
  moreover have "slice 17 32 E' = sn"
    using slice_mid[of 17 "H @ rc" 32 sn] lH assms(1,2) by (simp add: E'_def)
  moreover have "drop 99 E' = r"
    unfolding E'_def using assms(1,2) lH lm by simp
  moreover have "E' ! 1 = 3" "be16 (E' ! 5) (E' ! 6) = ki"
    by (simp_all add: E'_def H_def)
  moreover have "unat (be16 (E' ! 2) (E' ! 3)) = 95 + length r"
  proof -
    have c: "be16 0 95 = 95" "be16 0 117 = 117" by code_simp+
    have "E' ! 2 = 0" "E' ! 3 = 95 + of_nat (length r)" by (simp_all add: E'_def H_def)
    then show ?thesis using r by (auto simp: c)
  qed
  ultimately show ?thesis
    using eE f lE' by (simp add: n_def r_def ki_def eapol_rsn_def)
qed

text \<open>C6. Every EAPOL-Key frame \<open>sendEAPOLKey\<close> builds with a MIC carries the bridge header
  (AP, station, 0x888e), a length field that covers the whole message, the replay counter, the
  nonce and the key information it was given, the RSN element in message 2, and a MIC that
  \<open>eapol_mic_ok\<close> accepts under the same key.\<close>

theorem sendEAPOLKey_verifies:
  assumes "length rc = 8" "length sn = 32" "length bssid = 6" "length macAddr = 6"
    and fr: "fr = sendEAPOLKey_frame kern_hmac_sha1 step rc install ack True bssid macAddr sn ptk g"
    and e: "e = drop 14 fr"
  shows "take 14 fr = bssid @ macAddr @ [0x88, 0x8e] \<and>
    e ! 1 = 3 \<and> length e = 4 + unat (be16 (e ! 2) (e ! 3)) \<and>
    be16 (e ! 5) (e ! 6) = key_info_bits step install ack True \<and>
    slice 9 8 e = rc \<and> slice 17 32 e = sn \<and>
    drop 99 e = (if step = 2 then rtw88BuildSelectedRsnIe g else []) \<and>
    eapol_mic_ok True ptk e (length e) = Some True"
  using assms by (rule sendEAPOLKey_ok)

theorem sendEAPOLKey_verifies_witness:
  "eapol_mic_ok True [7] (drop 14 (sendEAPOLKey_frame kern_hmac_sha1 2 (replicate 8 1) False False True
      (replicate 6 2) (replicate 6 3) (replicate 32 4) [7] CIPHER_CCMP))
    (length (drop 14 (sendEAPOLKey_frame kern_hmac_sha1 2 (replicate 8 1) False False True
      (replicate 6 2) (replicate 6 3) (replicate 32 4) [7] CIPHER_CCMP))) = Some True"
  using sendEAPOLKey_verifies[OF length_replicate length_replicate length_replicate length_replicate
      refl refl, of 2 1 False False 2 3 4 "[7]" CIPHER_CCMP] by blast

section \<open>Key data elements\<close>

definition is_gtk_kde :: "u8 \<times> bytes \<Rightarrow> bool" where
  "is_gtk_kde k = (fst k = 0xdd \<and> 6 \<le> length (snd k) \<and> take 4 (snd k) = [0x00, 0x0f, 0xac, 0x01])"

definition encode_kdes :: "(u8 \<times> bytes) list \<Rightarrow> bytes" where
  "encode_kdes ks = concat (map (\<lambda>(i, b). i # of_nat (length b) # b) ks)"

text \<open>The first group key KDE decides.\<close>

fun gtk_of :: "(u8 \<times> bytes) list \<Rightarrow> (bytes \<times> u8 \<times> u8) option" where
  "gtk_of [] = None"
| "gtk_of (k # ks) = (if is_gtk_kde k
     then (if length (snd k) > 38 then None
           else Some (drop 6 (snd k) @ replicate (38 - length (snd k)) 0,
                  of_nat (length (snd k) - 6), snd k ! 4 AND 3))
     else gtk_of ks)"

lemma kde_walk_safe:
  assumes "n \<le> length mem"
  shows "\<exists>r. kde_walk mem n pos = Some r \<and>
    (\<forall>gtk l i. r = Some (gtk, l, i) \<longrightarrow> length gtk = 32 \<and> l \<le> 32 \<and> i \<le> 3)"
  using assms
proof (induction mem n pos rule: kde_walk.induct)
  case (1 mem n pos)
  show ?case
  proof (cases "pos + 2 \<le> n \<and> pos + 2 + unat (mem ! (pos + 1)) \<le> n")
    case False
    then show ?thesis using 1(2) by (subst kde_walk.simps) auto
  next
    case True
    let ?len = "mem ! (pos + 1)"
    have r: "rd mem pos = Some (mem ! pos)" "rd mem (pos + 1) = Some ?len" using True 1(2) by auto
    define g where "g = (mem ! pos = 0xdd \<and> ?len \<ge> 6 \<and> slice (pos + 2) 4 mem = [0x00, 0x0f, 0xac, 0x01])"
    have g: "(if mem ! pos = 0xdd \<and> ?len \<ge> 6
        then do { oui \<leftarrow> rds mem (pos + 2) 4; Some (oui = [0x00, 0x0f, 0xac, 0x01]) }
        else Some False) = Some g"
    proof (cases "?len \<ge> 6")
      case six: True
      then have "6 \<le> unat ?len" by (simp add: word_le_nat_alt)
      then have "pos + 2 + 4 \<le> length mem" using True 1(2) by linarith
      then show ?thesis using six by (simp add: g_def rds_def)
    qed (simp add: g_def)
    show ?thesis
    proof (cases g)
      case False
      then show ?thesis
        using 1(1)[of "mem ! pos" ?len False] True 1(2) r g by (subst kde_walk.simps) auto
    next
      case gt: True
      then have six: "6 \<le> unat ?len" by (simp add: g_def word_le_nat_alt)
      have kl: "unat (?len - 6) = unat ?len - 6" using six by (simp add: unat_sub word_le_nat_alt)
      have "pos + 6 < length mem" "pos + 8 + unat (?len - 6) \<le> length mem"
        using six True 1(2) unfolding kl by linarith+
      then have rr: "rd mem (pos + 6) = Some (mem ! (pos + 6))"
        "rds mem (pos + 8) (unat (?len - 6)) = Some (slice (pos + 8) (unat (?len - 6)) mem)"
        "length (slice (pos + 8) (unat (?len - 6)) mem) = unat (?len - 6)"
        by (simp_all add: rds_def)
      show ?thesis
      proof (cases "?len - 6 > 32")
        case True
        with r g gt \<open>pos + 2 \<le> n \<and> _\<close> show ?thesis by (subst kde_walk.simps) (simp add: Let_def)
      next
        case False
        then have "unat (?len - 6) \<le> 32" by (simp add: word_le_nat_alt not_less)
        moreover have "mem ! (pos + 6) AND 3 \<le> 3" by (rule word_and_le1)
        ultimately show ?thesis using r g gt rr False \<open>pos + 2 \<le> n \<and> _\<close>
          by (subst kde_walk.simps) (simp add: Let_def not_less)
      qed
    qed
  qed
qed

lemma kde_walk_encode:
  assumes "\<forall>k \<in> set ks. length (snd k) < 256"
  shows "kde_walk (pre @ encode_kdes ks @ post) (length pre + length (encode_kdes ks)) (length pre) =
    Some (gtk_of ks)"
  using assms
proof (induction ks arbitrary: pre)
  case Nil
  then show ?case by (subst kde_walk.simps) (simp add: encode_kdes_def)
next
  case (Cons k ks)
  obtain i b where k: "k = (i, b)" by (cases k)
  let ?l = "of_nat (length b) :: u8"
  let ?mem = "pre @ encode_kdes (k # ks) @ post" and ?n = "length pre + length (encode_kdes (k # ks))"
  have lb: "unat ?l = length b" using Cons.prems k by (simp add: unat_of_nat)
  have enc: "encode_kdes (k # ks) = i # ?l # b @ encode_kdes ks" by (simp add: encode_kdes_def k)
  have r: "rd ?mem (length pre) = Some i" "rd ?mem (Suc (length pre)) = Some ?l"
    by (simp_all add: rd_def enc nth_append)
  have sl: "rds ?mem (length pre + 2 + o') m = Some (slice o' m b)" if "o' + m \<le> length b" for o' m
    using that by (simp add: rds_def slice_def enc)
  have len6: "?l \<ge> 6 \<longleftrightarrow> 6 \<le> length b" using lb by (simp add: word_le_nat_alt)
  have g: "(if i = 0xdd \<and> ?l \<ge> 6
      then do { oui \<leftarrow> rds ?mem (length pre + 2) 4; Some (oui = [0x00, 0x0f, 0xac, 0x01]) }
      else Some False) = Some (is_gtk_kde k)"
    using sl[of 0 4] len6 by (auto simp: is_gtk_kde_def k)
  have fit: "length pre + 2 \<le> ?n" "\<not> length pre + 2 + unat ?l > ?n" by (simp_all add: enc lb)
  show ?case
  proof (cases "is_gtk_kde k")
    case False
    have "kde_walk ?mem ?n (length pre) = kde_walk ?mem ?n (length pre + 2 + unat ?l)"
      using fit r g False by (subst kde_walk.simps) simp
    also have "\<dots> = Some (gtk_of ks)"
      using Cons.IH[of "pre @ i # ?l # b"] Cons.prems lb by (simp add: enc add.assoc)
    finally show ?thesis using False by simp
  next
    case True
    then have six: "6 \<le> length b" by (simp add: is_gtk_kde_def k)
    then have kl: "unat (?l - 6) = length b - 6" using lb by (simp add: unat_sub word_le_nat_alt)
    have big: "?l - 6 > 32 \<longleftrightarrow> length b > 38" using kl six by (simp add: word_less_nat_alt) arith
    have b4: "rd ?mem (length pre + 6) = Some (b ! 4)"
      using six by (simp add: rd_def enc nth_append)
    have key: "rds ?mem (length pre + 8) (unat (?l - 6)) = Some (drop 6 b)"
      using sl[of 6 "length b - 6"] kl six by (simp add: slice_def ac_simps)
    have "?l - 6 = of_nat (length b - 6)" using six by (simp add: of_nat_diff)
    moreover have "length b \<le> 38 \<Longrightarrow> 32 - (length b - 6) = 38 - length b" using six by arith
    ultimately show ?thesis
      using fit r g True b4 key big by (subst kde_walk.simps)
        (auto simp: Let_def k memcpy_at_def not_less not_le simp del: unat_of_nat)
  qed
qed



end
