(* ===== verification/Aes.thy ===== *)
theory Aes
  imports Prelude "HOL-Library.Monad_Syntax"
begin

text \<open>
  AES-128 decryption and the RFC 3394 key unwrap of \<open>src/kext/RTW88IEEE80211.cpp\<close>
  (\<open>aes_xtime\<close>, \<open>aes_mul\<close>, \<open>aes128_key_expand\<close>, the inverse round functions,
  \<open>aes128_decrypt_block\<close>, \<open>aes_unwrap_128\<close>).  The program only decrypts; the cipher of
  FIPS 197 and the key wrap of RFC 3394 are the specifications it inverts.
\<close>

section \<open>The code\<close>

definition aes_sbox :: bytes where
  "aes_sbox = [
     0x63, 0x7c, 0x77, 0x7b, 0xf2, 0x6b, 0x6f, 0xc5, 0x30, 0x01, 0x67, 0x2b, 0xfe, 0xd7, 0xab, 0x76,
     0xca, 0x82, 0xc9, 0x7d, 0xfa, 0x59, 0x47, 0xf0, 0xad, 0xd4, 0xa2, 0xaf, 0x9c, 0xa4, 0x72, 0xc0,
     0xb7, 0xfd, 0x93, 0x26, 0x36, 0x3f, 0xf7, 0xcc, 0x34, 0xa5, 0xe5, 0xf1, 0x71, 0xd8, 0x31, 0x15,
     0x04, 0xc7, 0x23, 0xc3, 0x18, 0x96, 0x05, 0x9a, 0x07, 0x12, 0x80, 0xe2, 0xeb, 0x27, 0xb2, 0x75,
     0x09, 0x83, 0x2c, 0x1a, 0x1b, 0x6e, 0x5a, 0xa0, 0x52, 0x3b, 0xd6, 0xb3, 0x29, 0xe3, 0x2f, 0x84,
     0x53, 0xd1, 0x00, 0xed, 0x20, 0xfc, 0xb1, 0x5b, 0x6a, 0xcb, 0xbe, 0x39, 0x4a, 0x4c, 0x58, 0xcf,
     0xd0, 0xef, 0xaa, 0xfb, 0x43, 0x4d, 0x33, 0x85, 0x45, 0xf9, 0x02, 0x7f, 0x50, 0x3c, 0x9f, 0xa8,
     0x51, 0xa3, 0x40, 0x8f, 0x92, 0x9d, 0x38, 0xf5, 0xbc, 0xb6, 0xda, 0x21, 0x10, 0xff, 0xf3, 0xd2,
     0xcd, 0x0c, 0x13, 0xec, 0x5f, 0x97, 0x44, 0x17, 0xc4, 0xa7, 0x7e, 0x3d, 0x64, 0x5d, 0x19, 0x73,
     0x60, 0x81, 0x4f, 0xdc, 0x22, 0x2a, 0x90, 0x88, 0x46, 0xee, 0xb8, 0x14, 0xde, 0x5e, 0x0b, 0xdb,
     0xe0, 0x32, 0x3a, 0x0a, 0x49, 0x06, 0x24, 0x5c, 0xc2, 0xd3, 0xac, 0x62, 0x91, 0x95, 0xe4, 0x79,
     0xe7, 0xc8, 0x37, 0x6d, 0x8d, 0xd5, 0x4e, 0xa9, 0x6c, 0x56, 0xf4, 0xea, 0x65, 0x7a, 0xae, 0x08,
     0xba, 0x78, 0x25, 0x2e, 0x1c, 0xa6, 0xb4, 0xc6, 0xe8, 0xdd, 0x74, 0x1f, 0x4b, 0xbd, 0x8b, 0x8a,
     0x70, 0x3e, 0xb5, 0x66, 0x48, 0x03, 0xf6, 0x0e, 0x61, 0x35, 0x57, 0xb9, 0x86, 0xc1, 0x1d, 0x9e,
     0xe1, 0xf8, 0x98, 0x11, 0x69, 0xd9, 0x8e, 0x94, 0x9b, 0x1e, 0x87, 0xe9, 0xce, 0x55, 0x28, 0xdf,
     0x8c, 0xa1, 0x89, 0x0d, 0xbf, 0xe6, 0x42, 0x68, 0x41, 0x99, 0x2d, 0x0f, 0xb0, 0x54, 0xbb, 0x16]"

definition aes_rsbox :: bytes where
  "aes_rsbox = [
     0x52, 0x09, 0x6a, 0xd5, 0x30, 0x36, 0xa5, 0x38, 0xbf, 0x40, 0xa3, 0x9e, 0x81, 0xf3, 0xd7, 0xfb,
     0x7c, 0xe3, 0x39, 0x82, 0x9b, 0x2f, 0xff, 0x87, 0x34, 0x8e, 0x43, 0x44, 0xc4, 0xde, 0xe9, 0xcb,
     0x54, 0x7b, 0x94, 0x32, 0xa6, 0xc2, 0x23, 0x3d, 0xee, 0x4c, 0x95, 0x0b, 0x42, 0xfa, 0xc3, 0x4e,
     0x08, 0x2e, 0xa1, 0x66, 0x28, 0xd9, 0x24, 0xb2, 0x76, 0x5b, 0xa2, 0x49, 0x6d, 0x8b, 0xd1, 0x25,
     0x72, 0xf8, 0xf6, 0x64, 0x86, 0x68, 0x98, 0x16, 0xd4, 0xa4, 0x5c, 0xcc, 0x5d, 0x65, 0xb6, 0x92,
     0x6c, 0x70, 0x48, 0x50, 0xfd, 0xed, 0xb9, 0xda, 0x5e, 0x15, 0x46, 0x57, 0xa7, 0x8d, 0x9d, 0x84,
     0x90, 0xd8, 0xab, 0x00, 0x8c, 0xbc, 0xd3, 0x0a, 0xf7, 0xe4, 0x58, 0x05, 0xb8, 0xb3, 0x45, 0x06,
     0xd0, 0x2c, 0x1e, 0x8f, 0xca, 0x3f, 0x0f, 0x02, 0xc1, 0xaf, 0xbd, 0x03, 0x01, 0x13, 0x8a, 0x6b,
     0x3a, 0x91, 0x11, 0x41, 0x4f, 0x67, 0xdc, 0xea, 0x97, 0xf2, 0xcf, 0xce, 0xf0, 0xb4, 0xe6, 0x73,
     0x96, 0xac, 0x74, 0x22, 0xe7, 0xad, 0x35, 0x85, 0xe2, 0xf9, 0x37, 0xe8, 0x1c, 0x75, 0xdf, 0x6e,
     0x47, 0xf1, 0x1a, 0x71, 0x1d, 0x29, 0xc5, 0x89, 0x6f, 0xb7, 0x62, 0x0e, 0xaa, 0x18, 0xbe, 0x1b,
     0xfc, 0x56, 0x3e, 0x4b, 0xc6, 0xd2, 0x79, 0x20, 0x9a, 0xdb, 0xc0, 0xfe, 0x78, 0xcd, 0x5a, 0xf4,
     0x1f, 0xdd, 0xa8, 0x33, 0x88, 0x07, 0xc7, 0x31, 0xb1, 0x12, 0x10, 0x59, 0x27, 0x80, 0xec, 0x5f,
     0x60, 0x51, 0x7f, 0xa9, 0x19, 0xb5, 0x4a, 0x0d, 0x2d, 0xe5, 0x7a, 0x9f, 0x93, 0xc9, 0x9c, 0xef,
     0xa0, 0xe0, 0x3b, 0x4d, 0xae, 0x2a, 0xf5, 0xb0, 0xc8, 0xeb, 0xbb, 0x3c, 0x83, 0x53, 0x99, 0x61,
     0x17, 0x2b, 0x04, 0x7e, 0xba, 0x77, 0xd6, 0x26, 0xe1, 0x69, 0x14, 0x63, 0x55, 0x21, 0x0c, 0x7d]"

definition aes_xtime :: "u8 \<Rightarrow> u8" where
  "aes_xtime x = push_bit 1 x XOR (if x AND 0x80 \<noteq> 0 then 0x1b else 0)"

text \<open>The loop of \<open>aes_mul\<close>: \<open>while (y)\<close>.\<close>

function aes_mul_loop :: "u8 \<Rightarrow> u8 \<Rightarrow> u8 \<Rightarrow> u8" where
  "aes_mul_loop r x y =
    (if y \<noteq> 0 then aes_mul_loop (if y AND 1 \<noteq> 0 then r XOR x else r) (aes_xtime x) (drop_bit 1 y) else r)"
  by pat_completeness auto
termination
proof (relation "measure (\<lambda>(_, _, y). unat y)", goal_cases)
  case (2 r x y)
  then have "0 < unat y" by (simp add: unat_gt_0)
  then have "unat y div 2 < unat y" by simp
  moreover have "unat (drop_bit 1 y) = unat y div 2" using unat_drop_bit_div[of 1 y] by simp
  ultimately show ?case by (simp only: in_measure split_conv)
qed simp

definition aes_mul :: "u8 \<Rightarrow> u8 \<Rightarrow> u8" where
  "aes_mul x y = aes_mul_loop 0 x y"

definition sub8 :: "bytes \<Rightarrow> u8 \<Rightarrow> u8" where
  "sub8 tab x = tab ! unat x"

definition aes_rcon :: bytes where
  "aes_rcon = [0x01, 0x02, 0x04, 0x08, 0x10, 0x20, 0x40, 0x80, 0x1b, 0x36]"

text \<open>One iteration of the key expansion: \<open>bytes\<close> is the length of the schedule so far and
  \<open>r\<close> the next round constant.\<close>

definition key_step :: "bytes \<times> nat \<Rightarrow> bytes \<times> nat" where
  "key_step st =
    (case st of (rk, r) \<Rightarrow>
      let n = length rk;
          t = slice (n - 4) 4 rk;
          (t, r) = (if n mod 16 = 0
             then ([sub8 aes_sbox (t ! 1) XOR aes_rcon ! r, sub8 aes_sbox (t ! 2),
                    sub8 aes_sbox (t ! 3), sub8 aes_sbox (t ! 0)], r + 1)
             else (t, r))
      in (rk @ map2 (XOR) (slice (n - 16) 4 rk) t, r))"

definition aes128_key_expand :: "bytes \<Rightarrow> bytes" where
  "aes128_key_expand key = fst ((key_step ^^ 40) (take 16 key, 0))"

definition aes_add_round_key :: "bytes \<Rightarrow> bytes \<Rightarrow> bytes" where
  "aes_add_round_key state rk = map2 (XOR) state rk"

definition aes_inv_shift_rows :: "bytes \<Rightarrow> bytes" where
  "aes_inv_shift_rows s = s[
     13 := s ! 9, 9 := s ! 5, 5 := s ! 1, 1 := s ! 13,
     2 := s ! 10, 10 := s ! 2, 6 := s ! 14, 14 := s ! 6,
     3 := s ! 7, 7 := s ! 11, 11 := s ! 15, 15 := s ! 3]"

definition aes_inv_sub_bytes :: "bytes \<Rightarrow> bytes" where
  "aes_inv_sub_bytes s = map (sub8 aes_rsbox) s"

definition inv_mix_column :: "u8 \<Rightarrow> u8 \<Rightarrow> u8 \<Rightarrow> u8 \<Rightarrow> bytes" where
  "inv_mix_column a0 a1 a2 a3 =
    [aes_mul a0 0x0e XOR aes_mul a1 0x0b XOR aes_mul a2 0x0d XOR aes_mul a3 0x09,
     aes_mul a0 0x09 XOR aes_mul a1 0x0e XOR aes_mul a2 0x0b XOR aes_mul a3 0x0d,
     aes_mul a0 0x0d XOR aes_mul a1 0x09 XOR aes_mul a2 0x0e XOR aes_mul a3 0x0b,
     aes_mul a0 0x0b XOR aes_mul a1 0x0d XOR aes_mul a2 0x09 XOR aes_mul a3 0x0e]"

definition aes_inv_mix_columns :: "bytes \<Rightarrow> bytes" where
  "aes_inv_mix_columns s = concat (map (\<lambda>c. inv_mix_column (s ! (4 * c)) (s ! (4 * c + 1))
     (s ! (4 * c + 2)) (s ! (4 * c + 3))) [0..<4])"

definition aes128_decrypt_block :: "bytes \<Rightarrow> bytes \<Rightarrow> bytes" where
  "aes128_decrypt_block key inp =
    (let rk = aes128_key_expand key;
         s = aes_add_round_key (take 16 inp) (slice 160 16 rk);
         s = fold (\<lambda>round s. aes_inv_mix_columns (aes_add_round_key
               (aes_inv_sub_bytes (aes_inv_shift_rows s)) (slice (round * 16) 16 rk))) (rev [1..<10]) s
     in aes_add_round_key (aes_inv_sub_bytes (aes_inv_shift_rows s)) (slice 0 16 rk))"

section \<open>FIPS 197\<close>

definition aes_sub_bytes :: "bytes \<Rightarrow> bytes" where
  "aes_sub_bytes s = map (sub8 aes_sbox) s"

text \<open>Row r of the state (bytes r, r + 4, r + 8, r + 12) moves left by r.\<close>

definition aes_shift_rows :: "bytes \<Rightarrow> bytes" where
  "aes_shift_rows s = map (\<lambda>i. s ! ((i + 4 * (i mod 4)) mod 16)) [0..<16]"

definition mix_column :: "u8 \<Rightarrow> u8 \<Rightarrow> u8 \<Rightarrow> u8 \<Rightarrow> bytes" where
  "mix_column a0 a1 a2 a3 =
    [aes_mul a0 2 XOR aes_mul a1 3 XOR a2 XOR a3,
     a0 XOR aes_mul a1 2 XOR aes_mul a2 3 XOR a3,
     a0 XOR a1 XOR aes_mul a2 2 XOR aes_mul a3 3,
     aes_mul a0 3 XOR a1 XOR a2 XOR aes_mul a3 2]"

definition aes_mix_columns :: "bytes \<Rightarrow> bytes" where
  "aes_mix_columns s = concat (map (\<lambda>c. mix_column (s ! (4 * c)) (s ! (4 * c + 1))
     (s ! (4 * c + 2)) (s ! (4 * c + 3))) [0..<4])"

definition fips197_encrypt :: "bytes \<Rightarrow> bytes \<Rightarrow> bytes" where
  "fips197_encrypt key inp =
    (let rk = aes128_key_expand key;
         s = aes_add_round_key inp (slice 0 16 rk);
         s = fold (\<lambda>round s. aes_add_round_key (aes_mix_columns (aes_shift_rows (aes_sub_bytes s)))
               (slice (round * 16) 16 rk)) [1..<10] s
     in aes_add_round_key (aes_shift_rows (aes_sub_bytes s)) (slice 160 16 rk))"

section \<open>Every inverse step undoes its step\<close>

lemma rsbox_sbox: "sub8 aes_rsbox (sub8 aes_sbox x) = x"
proof -
  have "\<forall>x :: u8. sub8 aes_rsbox (sub8 aes_sbox x) = x"
    unfolding all_words_8 by code_simp
  then show ?thesis by blast
qed

lemma inv_sub_bytes: "aes_inv_sub_bytes (aes_sub_bytes s) = s"
  by (simp add: aes_inv_sub_bytes_def aes_sub_bytes_def rsbox_sbox comp_def)

lemma length16:
  assumes "length s = 16"
  obtains a b c d e f g h i j k l m n p q where "s = [a, b, c, d, e, f, g, h, i, j, k, l, m, n, p, q]"
  using assms by (auto simp: length_Suc_conv numeral_eq_Suc)

lemma upt16: "[0..<16] = [0, 1, 2, 3, 4, 5, 6, 7, 8, 9, 10, 11, 12, 13, 14, 15::nat]"
  by (simp add: upt_rec numeral_eq_Suc)

lemma inv_shift_rows: "length s = 16 \<Longrightarrow> aes_inv_shift_rows (aes_shift_rows s) = s"
  by (erule length16) (simp add: aes_inv_shift_rows_def aes_shift_rows_def upt16)

lemma add_round_key_cancel:
  "length k = length s \<Longrightarrow> aes_add_round_key (aes_add_round_key s k) k = s"
  unfolding aes_add_round_key_def
  by (induction s k rule: list_induct2') auto

lemma xtime_xor: "aes_xtime (a XOR b) = aes_xtime a XOR aes_xtime b"
proof -
  have m: "x AND 0x80 \<noteq> 0 \<longleftrightarrow> bit x 7" for x :: u8
    using and_exp_eq_0_iff_not_bit[of x 7] by simp
  have p: "push_bit 1 (a XOR b) = push_bit 1 a XOR push_bit 1 b"
    by (rule bit_word_eqI) (simp add: bit_push_bit_iff bit_xor_iff)
  show ?thesis unfolding aes_xtime_def m p by (auto simp: bit_xor_iff ac_simps)
qed

lemma mul_loop_xor:
  "aes_mul_loop (r XOR r') (a XOR b) y = aes_mul_loop r a y XOR aes_mul_loop r' b y"
proof (induction r a y arbitrary: r' b rule: aes_mul_loop.induct)
  case (1 r a y)
  show ?case
  proof (cases "y = 0")
    case False
    have "(if y AND 1 \<noteq> 0 then (r XOR r') XOR (a XOR b) else r XOR r') =
        (if y AND 1 \<noteq> 0 then r XOR a else r) XOR (if y AND 1 \<noteq> 0 then r' XOR b else r')"
      by (simp add: ac_simps)
    with 1[OF False] False show ?thesis
      by (subst (1 2 3) aes_mul_loop.simps) (simp add: xtime_xor)
  qed (subst (1 2 3) aes_mul_loop.simps, simp)
qed

lemma mul_xor: "aes_mul (a XOR b) c = aes_mul a c XOR aes_mul b c"
  using mul_loop_xor[of 0 0 a b c] by (simp add: aes_mul_def)

declare aes_mul_loop.simps [simp del]

text \<open>The constants of the matrices as polynomials in \<open>xtime\<close>.\<close>

lemma mul_consts:
  "aes_mul x 2 = aes_xtime x"
  "aes_mul x 3 = x XOR aes_xtime x"
  "aes_mul x 0x09 = x XOR aes_xtime (aes_xtime (aes_xtime x))"
  "aes_mul x 0x0b = x XOR aes_xtime x XOR aes_xtime (aes_xtime (aes_xtime x))"
  "aes_mul x 0x0d = x XOR aes_xtime (aes_xtime x) XOR aes_xtime (aes_xtime (aes_xtime x))"
  "aes_mul x 0x0e = aes_xtime x XOR aes_xtime (aes_xtime x) XOR aes_xtime (aes_xtime (aes_xtime x))"
  by (simp_all add: aes_mul_def aes_mul_loop.simps xor.assoc)

lemma inv_mix_column:
  "mix_column a b c d = [p, q, r, s] \<Longrightarrow> inv_mix_column p q r s = [a, b, c, d]"
  by (auto simp: mix_column_def inv_mix_column_def mul_consts xtime_xor xor.assoc xor.commute
      xor.left_commute)

lemma inv_mix_columns:
  assumes "length s = 16"
  shows "aes_inv_mix_columns (aes_mix_columns s) = s"
proof -
  have u: "[0..<4] = [0, 1, 2, 3::nat]" by (simp add: upt_rec numeral_eq_Suc)
  obtain a b c d e f g h i j k l m n p q where s: "s = [a, b, c, d, e, f, g, h, i, j, k, l, m, n, p, q]"
    using assms by (rule length16)
  have four: "\<exists>p q r t. mix_column a b c d = [p, q, r, t]" for a b c d by (simp add: mix_column_def)
  obtain x0 x1 x2 x3 where 0: "mix_column a b c d = [x0, x1, x2, x3]" using four by blast
  obtain x4 x5 x6 x7 where 1: "mix_column e f g h = [x4, x5, x6, x7]" using four by blast
  obtain x8 x9 xa xb where 2: "mix_column i j k l = [x8, x9, xa, xb]" using four by blast
  obtain xc xd xe xf where 3: "mix_column m n p q = [xc, xd, xe, xf]" using four by blast
  have "aes_mix_columns s = [x0, x1, x2, x3, x4, x5, x6, x7, x8, x9, xa, xb, xc, xd, xe, xf]"
    by (simp add: aes_mix_columns_def u s 0 1 2 3)
  then show ?thesis
    using inv_mix_column[OF 0] inv_mix_column[OF 1] inv_mix_column[OF 2] inv_mix_column[OF 3]
    by (simp add: aes_inv_mix_columns_def u s)
qed

section \<open>The block cipher\<close>

lemma length_key_step1: "16 \<le> length rk \<Longrightarrow> length (fst (key_step (rk, r))) = length rk + 4"
  by (simp add: key_step_def Let_def)

lemma length_key_step:
  "16 \<le> length key \<Longrightarrow> length (fst ((key_step ^^ n) (take 16 key, 0))) = 16 + 4 * n"
proof (induction n)
  case (Suc n)
  obtain rk r where e: "(key_step ^^ n) (take 16 key, 0) = (rk, r)" by fastforce
  with Suc have "length rk = 16 + 4 * n" by simp
  with length_key_step1[of rk r] e show ?case by simp
qed simp

lemma length_key_expand: "16 \<le> length key \<Longrightarrow> length (aes128_key_expand key) = 176"
  using length_key_step[of key 40] by (simp add: aes128_key_expand_def)

lemma length_mix [simp]: "length (aes_mix_columns s) = 16" "length (aes_inv_mix_columns s) = 16"
  by (simp_all add: aes_mix_columns_def aes_inv_mix_columns_def mix_column_def inv_mix_column_def
      numeral_eq_Suc)

lemma length_rounds [simp]:
  "length (aes_sub_bytes s) = length s" "length (aes_shift_rows s) = 16"
  "length (aes_inv_sub_bytes s) = length s" "length (aes_inv_shift_rows s) = length s"
  "length (aes_add_round_key s k) = min (length s) (length k)"
  by (simp_all add: aes_sub_bytes_def aes_shift_rows_def aes_inv_sub_bytes_def
      aes_inv_shift_rows_def aes_add_round_key_def)

lemma round_undo:
  assumes "length s = 16" "length k = 16"
  shows "aes_inv_sub_bytes (aes_inv_shift_rows (aes_inv_mix_columns (aes_add_round_key
      (aes_add_round_key (aes_mix_columns (aes_shift_rows (aes_sub_bytes s))) k) k))) = s"
  using assms by (simp add: add_round_key_cancel inv_mix_columns inv_shift_rows inv_sub_bytes)

lemma rounds_undo:
  assumes "length s = 16" "\<forall>i \<in> set rs. length (k i) = 16"
  shows "fold (\<lambda>i s. aes_inv_mix_columns (aes_add_round_key (aes_inv_sub_bytes (aes_inv_shift_rows s)) (k i)))
      (rev rs) (aes_shift_rows (aes_sub_bytes (fold (\<lambda>i s. aes_add_round_key (aes_mix_columns (aes_shift_rows (aes_sub_bytes s))) (k i)) rs s)))
    = aes_shift_rows (aes_sub_bytes s)"
  using assms
proof (induction rs rule: rev_induct)
  case (snoc i rs)
  let ?t = "fold (\<lambda>i s. aes_add_round_key (aes_mix_columns (aes_shift_rows (aes_sub_bytes s))) (k i)) rs s"
  have t: "length ?t = 16" using snoc.prems
    by (induction rs rule: rev_induct) auto
  have "aes_inv_mix_columns (aes_add_round_key (aes_inv_sub_bytes (aes_inv_shift_rows (aes_shift_rows (aes_sub_bytes
      (aes_add_round_key (aes_mix_columns (aes_shift_rows (aes_sub_bytes ?t))) (k i)))))) (k i)) =
      aes_shift_rows (aes_sub_bytes ?t)"
    using t snoc.prems(2)
    by (simp add: inv_shift_rows inv_sub_bytes add_round_key_cancel inv_mix_columns)
  with snoc show ?case by simp
qed simp

lemma decrypt_encrypt:
  assumes "16 \<le> length key" "length p = 16"
  shows "aes128_decrypt_block key (fips197_encrypt key p) = p \<and> length (fips197_encrypt key p) = 16"
proof -
  define rk where "rk = aes128_key_expand key"
  have lr: "length rk = 176" using length_key_expand[OF assms(1)] by (simp add: rk_def)
  define k where "k = (\<lambda>i. slice (i * 16) 16 rk)"
  have lk: "length (k i) = 16" if "i \<le> 10" for i using lr that by (simp add: k_def)
  have k0: "slice 0 16 rk = k 0" "slice 160 16 rk = k 10" by (simp_all add: k_def)
  define s0 where "s0 = aes_add_round_key p (k 0)"
  have l0: "length s0 = 16" using assms(2) lk[of 0] by (simp add: s0_def)
  define t where "t = fold (\<lambda>i s. aes_add_round_key (aes_mix_columns (aes_shift_rows (aes_sub_bytes s))) (k i)) [1..<10] s0"
  have enc: "fips197_encrypt key p = aes_add_round_key (aes_shift_rows (aes_sub_bytes t)) (k 10)"
    unfolding fips197_encrypt_def Let_def rk_def[symmetric] k0 t_def s0_def k_def ..
  have len: "length (fips197_encrypt key p) = 16" using lk[of 10] by (simp add: enc)
  have "aes_add_round_key (fips197_encrypt key p) (k 10) = aes_shift_rows (aes_sub_bytes t)"
    unfolding enc using lk[of 10] by (simp add: add_round_key_cancel)
  moreover have "fold (\<lambda>i s. aes_inv_mix_columns (aes_add_round_key (aes_inv_sub_bytes (aes_inv_shift_rows s)) (k i)))
      (rev [1..<10]) (aes_shift_rows (aes_sub_bytes t)) = aes_shift_rows (aes_sub_bytes s0)"
    unfolding t_def using l0 lk by (intro rounds_undo) auto
  ultimately have "aes128_decrypt_block key (fips197_encrypt key p) =
      aes_add_round_key (aes_inv_sub_bytes (aes_inv_shift_rows (aes_shift_rows (aes_sub_bytes s0)))) (k 0)"
    unfolding aes128_decrypt_block_def Let_def rk_def[symmetric] k0 using len by (simp add: k_def)
  also have "\<dots> = p"
    using l0 lk[of 0] assms(2) by (simp add: inv_shift_rows inv_sub_bytes s0_def add_round_key_cancel)
  finally show ?thesis using len by simp
qed



end
