(* ===== verification/Keywrap.thy ===== *)
theory Keywrap
  imports Aes
begin

text \<open>
  \<open>aes_unwrap_128\<close> of \<open>src/kext/RTW88IEEE80211.cpp\<close> against the key wrap of RFC 3394, over any
  block cipher and then over AES.  The input is read through checked reads.
\<close>

section \<open>The code\<close>

text \<open>\<open>for (k = 7; k >= 0 && t; k--, t >>= 8) block[k] ^= t & 0xff\<close>; the argument is k + 1.\<close>

fun xor_counter :: "nat \<Rightarrow> u64 \<Rightarrow> bytes \<Rightarrow> bytes" where
  "xor_counter 0 t a = a"
| "xor_counter (Suc k) t a =
    (if t = 0 then a else xor_counter k (drop_bit 8 t) (a[k := a ! k XOR ucast (t AND 0xff)]))"

definition unwrap_step :: "(bytes \<Rightarrow> bytes \<Rightarrow> bytes) \<Rightarrow> bytes \<Rightarrow> nat \<Rightarrow> nat \<Rightarrow> nat \<Rightarrow>
    bytes \<times> bytes list \<Rightarrow> bytes \<times> bytes list" where
  "unwrap_step dec kek n j i st =
    (case st of (a, r) \<Rightarrow>
      let t = word_of_nat (n * j + i + 1);
          block = xor_counter 8 t a @ r ! i;
          plain = dec kek block
      in (take 8 plain, r[i := slice 8 8 plain]))"

definition unwrap_iv :: bytes where
  "unwrap_iv = [0xa6, 0xa6, 0xa6, 0xa6, 0xa6, 0xa6, 0xa6, 0xa6]"

definition aes_unwrap_with :: "(bytes \<Rightarrow> bytes \<Rightarrow> bytes) \<Rightarrow> bytes \<Rightarrow> bytes \<Rightarrow> nat \<Rightarrow>
    (bytes \<times> nat) option option" where
  "aes_unwrap_with dec kek inp in_len =
    (if in_len < 16 \<or> in_len mod 8 \<noteq> 0 then Some None
     else let n = in_len div 8 - 1 in
       if n = 0 \<or> n > 32 then Some None
       else do {
         a \<leftarrow> rds inp 0 8;
         r \<leftarrow> those (map (\<lambda>i. rds inp (8 + i * 8) 8) [0..<n]);
         let (a, r) = fold (\<lambda>j. fold (unwrap_step dec kek n j) (rev [0..<n])) (rev [0..<6]) (a, r);
         if a \<noteq> unwrap_iv then Some None else Some (Some (concat r, n * 8)) })"

definition aes_unwrap_128 :: "bytes \<Rightarrow> bytes \<Rightarrow> nat \<Rightarrow> (bytes \<times> nat) option option" where
  "aes_unwrap_128 = aes_unwrap_with aes128_decrypt_block"

section \<open>RFC 3394\<close>

definition be64 :: "u64 \<Rightarrow> bytes" where
  "be64 t = map (\<lambda>i. ucast (drop_bit (8 * (7 - i)) t)) [0..<8]"

text \<open>\<open>B = AES(K, A | R[i])\<close>, \<open>A = MSB(64, B) ^ t\<close> with \<open>t = n * j + i\<close>, \<open>R[i] = LSB(64, B)\<close>
  (\<open>i\<close> counts from 0 here).\<close>

definition wrap_step :: "(bytes \<Rightarrow> bytes \<Rightarrow> bytes) \<Rightarrow> bytes \<Rightarrow> nat \<Rightarrow> nat \<Rightarrow> nat \<Rightarrow>
    bytes \<times> bytes list \<Rightarrow> bytes \<times> bytes list" where
  "wrap_step enc kek n j i st =
    (case st of (a, r) \<Rightarrow>
      let b = enc kek (a @ r ! i)
      in (map2 (XOR) (take 8 b) (be64 (word_of_nat (n * j + i + 1))), r[i := drop 8 b]))"

definition rfc3394_wrap :: "(bytes \<Rightarrow> bytes \<Rightarrow> bytes) \<Rightarrow> bytes \<Rightarrow> bytes list \<Rightarrow> bytes" where
  "rfc3394_wrap enc kek P =
    (let n = length P;
         (a, r) = fold (\<lambda>j. fold (wrap_step enc kek n j) [0..<n]) [0..<6] (unwrap_iv, P)
     in a @ concat r)"

section \<open>Unwrapping a wrapped key\<close>

lemma length_xor_counter [simp]: "length (xor_counter k t a) = length a"
  by (induction k t a rule: xor_counter.induct) auto

lemma xor_counter_nth:
  "k \<le> length a \<Longrightarrow> i < length a \<Longrightarrow> xor_counter k t a ! i =
    (if i < k then a ! i XOR ucast (drop_bit (8 * (k - 1 - i)) t) else a ! i)"
proof (induction k t a rule: xor_counter.induct)
  case (2 k t a)
  have m: "(ucast (t AND 0xff) :: u8) = ucast t"
  proof -
    have "(0xff :: u64) = mask 8" by (simp add: mask_eq_exp_minus_1)
    show ?thesis unfolding \<open>0xff = mask 8\<close>
      by (intro bit_word_eqI) (simp add: bit_unsigned_iff bit_and_iff bit_mask_iff)
  qed
  show ?case
  proof (cases "t = 0")
    case False
    have d: "drop_bit (8 * (k - 1 - i)) (drop_bit 8 t) = drop_bit (8 * (k - i)) t" if "i < k"
    proof -
      have "8 * (k - i) = 8 * (k - 1 - i) + 8" using that by (simp add: algebra_simps)
      then show ?thesis by (simp add: drop_bit_drop_bit)
    qed
    show ?thesis using 2 False d m by (auto simp: nth_list_update less_Suc_eq)
  qed simp
qed simp

lemma xor_counter_be64: "length a = 8 \<Longrightarrow> xor_counter 8 t a = map2 (XOR) a (be64 t)"
  by (rule nth_equalityI) (auto simp: be64_def xor_counter_nth)

lemma map2_xor_cancel: "length a = length b \<Longrightarrow> map2 (XOR) (map2 (XOR) a b) b = (a :: bytes)"
  by (induction a b rule: list_induct2') auto

definition wrap_ok :: "nat \<Rightarrow> bytes \<times> bytes list \<Rightarrow> bool" where
  "wrap_ok n st \<longleftrightarrow> length (fst st) = 8 \<and> length (snd st) = n \<and> (\<forall>x \<in> set (snd st). length x = 8)"

locale block_cipher =
  fixes enc dec :: "bytes \<Rightarrow> bytes \<Rightarrow> bytes" and key_ok :: "bytes \<Rightarrow> bool"
  assumes dec_enc: "key_ok k \<Longrightarrow> length p = 16 \<Longrightarrow> dec k (enc k p) = p"
    and length_enc: "key_ok k \<Longrightarrow> length p = 16 \<Longrightarrow> length (enc k p) = 16"
begin

lemma step_undo:
  assumes "key_ok kek" "i < n" "wrap_ok n st"
  shows "wrap_ok n (wrap_step enc kek n j i st) \<and>
    unwrap_step dec kek n j i (wrap_step enc kek n j i st) = st"
proof -
  obtain a r where st: "st = (a, r)" by fastforce
  have la: "length a = 8" and lr: "length r = n" "\<forall>x \<in> set r. length x = 8"
    using assms(3) by (simp_all add: wrap_ok_def st)
  then have li: "length (r ! i) = 8" using assms(2) by simp
  define b where "b = enc kek (a @ r ! i)"
  have lb: "length b = 16" unfolding b_def by (rule length_enc) (simp_all add: assms(1) la li)
  define t :: u64 where "t = word_of_nat (n * j + i + 1)"
  have l64: "length (be64 t) = 8" by (simp add: be64_def)
  have w: "wrap_step enc kek n j i st = (map2 (XOR) (take 8 b) (be64 t), r[i := drop 8 b])"
    by (simp add: wrap_step_def st b_def t_def Let_def)
  have "xor_counter 8 t (map2 (XOR) (take 8 b) (be64 t)) = take 8 b"
    using lb l64 by (simp add: xor_counter_be64 map2_xor_cancel)
  moreover have "dec kek b = a @ r ! i" unfolding b_def by (rule dec_enc) (simp_all add: assms(1) la li)
  moreover have "slice 8 8 (a @ r ! i) = r ! i" "take 8 (a @ r ! i) = a"
    using la li by (simp_all add: slice_def)
  moreover have "\<forall>x \<in> set (r[i := drop 8 b]). length x = 8"
    using lr lb set_update_subset_insert[of r i "drop 8 b"] by auto
  moreover have "i < length r" using lr assms(2) by simp
  ultimately show ?thesis
    using lb l64 la lr unfolding w unfolding unwrap_step_def split_conv Let_def t_def[symmetric]
    by (simp add: wrap_ok_def st)
qed

lemma unwrap_wrap:
  assumes "key_ok kek" "1 \<le> length P" "length P \<le> 32" "\<forall>x \<in> set P. length x = 8"
  shows "aes_unwrap_with dec kek (rfc3394_wrap enc kek P @ pad) (8 * (length P + 1)) =
    Some (Some (concat P, 8 * length P))"
proof -
  let ?n = "length P"
  let ?F = "\<lambda>j. fold (wrap_step enc kek ?n j) [0..<?n]"
  let ?G = "\<lambda>j. fold (unwrap_step dec kek ?n j) (rev [0..<?n])"
  have inner: "wrap_ok ?n (?F j st) \<and> ?G j (?F j st) = st" if "wrap_ok ?n st" for j st
    by (rule fold_undo[where I = "wrap_ok ?n"]) (use step_undo assms(1) that in auto)
  have ok: "wrap_ok ?n (unwrap_iv, P)" using assms(4) by (simp add: wrap_ok_def unwrap_iv_def)
  have W: "wrap_ok ?n (fold ?F [0..<6] (unwrap_iv, P)) \<and>
      fold ?G (rev [0..<6]) (fold ?F [0..<6] (unwrap_iv, P)) = (unwrap_iv, P)"
    by (rule fold_undo[where I = "wrap_ok ?n"]) (use inner ok in auto)
  obtain a r where w: "fold ?F [0..<6] (unwrap_iv, P) = (a, r)" by fastforce
  then have l: "length a = 8" "length r = ?n" "\<forall>x \<in> set r. length x = 8"
    using W by (simp_all add: wrap_ok_def)
  have wr: "rfc3394_wrap enc kek P = a @ concat r" using w by (simp add: rfc3394_wrap_def Let_def)
  have chunk: "take 8 (drop (8 * i) (concat r @ y)) = r ! i" if "i < length r" "\<forall>x \<in> set r. length x = 8"
    for i and r :: "bytes list" and y
    using that
  proof (induction r arbitrary: i)
    case (Cons x r)
    then show ?case by (cases i) auto
  qed simp
  have "length (concat r) = 8 * length r" if "\<forall>x \<in> set r. length x = 8" for r :: "bytes list"
    using that by (induction r) auto
  from this[OF l(3)] have lc: "length (concat r) = 8 * ?n" using l(2) by simp
  have "those (map (\<lambda>i. rds ((a @ concat r) @ pad) (8 + i * 8) 8) [0..<?n]) = Some r"
  proof -
    have "rds ((a @ concat r) @ pad) (8 + i * 8) 8 = Some (r ! i)" if "i < ?n" for i
      using chunk[of i r pad] that l lc by (simp add: rds_def slice_def mult.commute)
    then have "map (\<lambda>i. rds ((a @ concat r) @ pad) (8 + i * 8) 8) [0..<?n] = map Some r"
      using l(2) by (intro nth_equalityI) auto
    moreover have "those (map Some r) = Some r" by (induction r) auto
    ultimately show ?thesis by simp
  qed
  moreover have "rds ((a @ concat r) @ pad) 0 8 = Some a" using l(1) by (simp add: rds_def)
  moreover have "(8 + 8 * ?n) div 8 - 1 = ?n" "P \<noteq> []" using assms(2) by auto
  ultimately show ?thesis
    using assms(2,3) W w by (simp add: aes_unwrap_with_def Let_def wr)
qed

end

interpretation aes: block_cipher fips197_encrypt aes128_decrypt_block "\<lambda>k. 16 \<le> length k"
  by unfold_locales (simp_all add: decrypt_encrypt)

lemma those_length: "those xs = Some ys \<Longrightarrow> length ys = length xs"
  by (induction xs arbitrary: ys) (auto split: option.splits)

text \<open>C9. \<open>aes_unwrap_128\<close> recovers every key wrapped as RFC 3394 says with AES-128, for 1 to 32
  blocks of 8 bytes; on any input it reads no byte beyond \<open>in_len\<close>, refuses lengths that are
  not a multiple of 8 or hold no key, and never returns more than the 256 bytes of the caller's
  buffer.\<close>

theorem aes_unwrap_inverts_rfc3394:
  assumes "16 \<le> length kek" "1 \<le> length P" "length P \<le> 32" "\<forall>x \<in> set P. length x = 8"
    "in_len \<le> length inp"
  shows "aes_unwrap_128 kek (rfc3394_wrap fips197_encrypt kek P @ pad) (8 * (length P + 1)) =
      Some (Some (concat P, 8 * length P)) \<and>
    (\<exists>r. aes_unwrap_128 kek inp in_len = Some r \<and>
      (\<forall>k l. r = Some (k, l) \<longrightarrow> in_len mod 8 = 0 \<and> 16 \<le> in_len \<and> l = in_len - 8 \<and> l \<le> 256))"
proof
  show "aes_unwrap_128 kek (rfc3394_wrap fips197_encrypt kek P @ pad) (8 * (length P + 1)) =
      Some (Some (concat P, 8 * length P))"
    unfolding aes_unwrap_128_def by (rule aes.unwrap_wrap) (use assms in auto)
  show "\<exists>r. aes_unwrap_128 kek inp in_len = Some r \<and>
      (\<forall>k l. r = Some (k, l) \<longrightarrow> in_len mod 8 = 0 \<and> 16 \<le> in_len \<and> l = in_len - 8 \<and> l \<le> 256)"
  proof (cases "in_len < 16 \<or> in_len mod 8 \<noteq> 0")
    case True
    then show ?thesis by (auto simp: aes_unwrap_128_def aes_unwrap_with_def)
  next
    case False
    define n where "n = in_len div 8 - 1"
    have il: "in_len = 8 * (n + 1)" using False by (auto simp: n_def)
    have n0: "n \<noteq> 0" using False il by auto
    have a: "rds inp 0 8 = Some (take 8 inp)" using False assms(5) by (simp add: rds_def)
    have "rds inp (8 + i * 8) 8 = Some (slice (8 + i * 8) 8 inp)" if "i < n" for i
      using that assms(5) il by (simp add: rds_def)
    then have "map (\<lambda>i. rds inp (8 + i * 8) 8) [0..<n] = map Some (map (\<lambda>i. slice (8 + i * 8) 8 inp) [0..<n])"
      by simp
    moreover have "those (map Some ys) = Some ys" for ys :: "bytes list" by (induction ys) auto
    ultimately obtain r where r: "those (map (\<lambda>i. rds inp (8 + i * 8) 8) [0..<n]) = Some r" by metis
    obtain a' r' where f: "fold (\<lambda>j. fold (unwrap_step aes128_decrypt_block kek n j) (rev [0..<n]))
        (rev [0..<6]) (take 8 inp, r) = (a', r')" by fastforce
    show ?thesis
      using False a r f n0 il
      by (auto simp: aes_unwrap_128_def aes_unwrap_with_def Let_def n_def[symmetric])
  qed
qed

theorem aes_unwrap_inverts_rfc3394_witness:
  "aes_unwrap_128 (replicate 16 1) (rfc3394_wrap fips197_encrypt (replicate 16 1) [replicate 8 2, replicate 8 3] @ [0])
     24 = Some (Some (replicate 8 2 @ replicate 8 3, 16))"
  using aes_unwrap_inverts_rfc3394[of "replicate 16 1" "[replicate 8 2, replicate 8 3]" 0 "[]" "[0]"] by simp

end
