(* ===== verification/Lists.thy ===== *)
theory Lists
  imports Prelude "HOL-Library.Monad_Syntax"
begin

text \<open>
  The intrusive lists of \<open>src/compat/linux/types.h\<close> (\<open>list_head\<close>, \<open>hlist\<close>) on a store of
  pointers.  A node is a number, a pointer is \<open>None\<close> when NULL, and following NULL is the result
  \<open>None\<close> of an operation.  \<open>dll s h xs\<close> says that the circular list of head \<open>h\<close> holds the nodes
  \<open>xs\<close>; every operation is shown to do to \<open>xs\<close> what its name says.
\<close>

type_synonym node = nat

record list_store =
  lnext :: "node \<Rightarrow> node option"
  lprev :: "node \<Rightarrow> node option"

section \<open>The operations\<close>

definition INIT_LIST_HEAD :: "node \<Rightarrow> list_store \<Rightarrow> list_store" where
  "INIT_LIST_HEAD l s = s\<lparr>lnext := (lnext s)(l \<mapsto> l), lprev := (lprev s)(l \<mapsto> l)\<rparr>"

definition list_add_raw :: "node \<Rightarrow> node \<Rightarrow> node \<Rightarrow> list_store \<Rightarrow> list_store" where
  "list_add_raw n prev next s =
    (let s = s\<lparr>lprev := (lprev s)(next \<mapsto> n)\<rparr>;
         s = s\<lparr>lnext := (lnext s)(n \<mapsto> next)\<rparr>;
         s = s\<lparr>lprev := (lprev s)(n \<mapsto> prev)\<rparr>
     in s\<lparr>lnext := (lnext s)(prev \<mapsto> n)\<rparr>)"

definition list_add_tail :: "node \<Rightarrow> node \<Rightarrow> list_store \<Rightarrow> list_store option" where
  "list_add_tail n head s = do { p \<leftarrow> lprev s head; Some (list_add_raw n p head s) }"

definition list_add :: "node \<Rightarrow> node \<Rightarrow> list_store \<Rightarrow> list_store option" where
  "list_add n head s = do { x \<leftarrow> lnext s head; Some (list_add_raw n head x s) }"

definition list_del :: "node \<Rightarrow> list_store \<Rightarrow> list_store option" where
  "list_del entry s = do {
     p \<leftarrow> lprev s entry;
     let s = s\<lparr>lnext := (lnext s)(p := lnext s entry)\<rparr>;
     x \<leftarrow> lnext s entry;
     let s = s\<lparr>lprev := (lprev s)(x := lprev s entry)\<rparr>;
     Some (s\<lparr>lnext := (lnext s)(entry := None), lprev := (lprev s)(entry := None)\<rparr>) }"

definition list_del_init :: "node \<Rightarrow> list_store \<Rightarrow> list_store option" where
  "list_del_init entry s = do { s \<leftarrow> list_del entry s; Some (INIT_LIST_HEAD entry s) }"

definition list_empty :: "node \<Rightarrow> list_store \<Rightarrow> bool" where
  "list_empty head s = (lnext s head = Some head)"

definition list_move_tail :: "node \<Rightarrow> node \<Rightarrow> list_store \<Rightarrow> list_store option" where
  "list_move_tail l head s = do { s \<leftarrow> list_del l s; list_add_tail l head s }"

definition list_first_entry_or_null :: "node \<Rightarrow> list_store \<Rightarrow> node option" where
  "list_first_entry_or_null head s =
    (case lnext s head of None \<Rightarrow> None | Some p \<Rightarrow> if p \<noteq> head then Some p else None)"

text \<open>\<open>list_for_each_entry\<close>: the nodes visited within \<open>fuel\<close> steps; \<open>None\<close> when the walk follows
  NULL or has not come back to the head.\<close>

fun list_walk :: "nat \<Rightarrow> node \<Rightarrow> node \<Rightarrow> list_store \<Rightarrow> node list option" where
  "list_walk 0 pos head s = (if pos = head then Some [] else None)"
| "list_walk (Suc fuel) pos head s =
    (if pos = head then Some []
     else do { q \<leftarrow> lnext s pos; ps \<leftarrow> list_walk fuel q head s; Some (pos # ps) })"

definition list_for_each_entry :: "nat \<Rightarrow> node \<Rightarrow> list_store \<Rightarrow> node list option" where
  "list_for_each_entry fuel head s = do { p \<leftarrow> lnext s head; list_walk fuel p head s }"

text \<open>The \<open>hlist\<close>: a head points to the first node; \<open>pprev\<close> is the address of the pointer that
  points to the node, the head's \<open>first\<close> or a node's \<open>next\<close> (both are the first word of their
  object, so the owner names it).\<close>

definition hlist_add_head :: "node \<Rightarrow> node \<Rightarrow> list_store \<Rightarrow> list_store" where
  "hlist_add_head n h s =
    (let s = s\<lparr>lnext := (lnext s)(n := lnext s h)\<rparr>;
         s = (case lnext s h of None \<Rightarrow> s | Some f \<Rightarrow> s\<lparr>lprev := (lprev s)(f \<mapsto> n)\<rparr>);
         s = s\<lparr>lnext := (lnext s)(h \<mapsto> n)\<rparr>
     in s\<lparr>lprev := (lprev s)(n \<mapsto> h)\<rparr>)"

definition hlist_del_init :: "node \<Rightarrow> list_store \<Rightarrow> list_store" where
  "hlist_del_init n s =
    (case lprev s n of
       None \<Rightarrow> s
     | Some p \<Rightarrow>
        (let s = s\<lparr>lnext := (lnext s)(p := lnext s n)\<rparr>;
             s = (case lnext s n of None \<Rightarrow> s | Some x \<Rightarrow> s\<lparr>lprev := (lprev s)(x := lprev s n)\<rparr>)
         in INIT_LIST_HEAD n s))"

section \<open>The abstraction\<close>

fun links :: "list_store \<Rightarrow> node list \<Rightarrow> bool" where
  "links s (a # b # r) = (lnext s a = Some b \<and> lprev s b = Some a \<and> links s (b # r))"
| "links s _ = True"

definition dll :: "list_store \<Rightarrow> node \<Rightarrow> node list \<Rightarrow> bool" where
  "dll s h xs \<longleftrightarrow> distinct (h # xs) \<and> links s (h # xs @ [h])"

lemma links_cong:
  "(\<And>a. a \<in> set (butlast l) \<Longrightarrow> lnext s a = lnext s' a) \<Longrightarrow>
   (\<And>a. a \<in> set (tl l) \<Longrightarrow> lprev s a = lprev s' a) \<Longrightarrow> links s l = links s' l"
proof (induction s l rule: links.induct)
  case (1 s a b r)
  have "links s (b # r) = links s' (b # r)"
  proof (rule 1(1))
    fix x assume "x \<in> set (butlast (b # r))" then show "lnext s x = lnext s' x" using 1(2) by simp
  next
    fix x assume "x \<in> set (tl (b # r))" then show "lprev s x = lprev s' x" using 1(3) by simp
  qed
  with 1(2)[of a] 1(3)[of b] show ?case by simp
qed auto

lemma links_split: "links s (xs @ y # ys) \<longleftrightarrow> links s (xs @ [y]) \<and> links s (y # ys)"
proof (induction xs)
  case (Cons x xs)
  then show ?case by (cases xs) auto
qed simp

lemma dll_next: "dll s h xs \<Longrightarrow> lnext s h = Some (hd (xs @ [h]))"
  by (cases xs) (auto simp: dll_def)

lemma snoc_exists:
  obtains zs p where "h # xs = zs @ [p]"
  by (cases "h # xs" rule: rev_exhaust) auto

lemma dll_prev:
  assumes "dll s h xs"
  shows "lprev s h = Some (last (h # xs))"
proof -
  obtain zs p where z: "h # xs = zs @ [p]" by (rule snoc_exists)
  have "h # xs @ [h] = (h # xs) @ [h]" by simp
  also have "\<dots> = zs @ p # [h]" unfolding z by simp
  finally have "links s (zs @ p # [h])" using assms by (simp only: dll_def)
  then have "lprev s h = Some p" using links_split[of s zs p "[h]"] by simp
  then show ?thesis by (simp add: z)
qed

lemma dll_empty: "dll s h xs \<Longrightarrow> list_empty h s \<longleftrightarrow> xs = []"
  using dll_next[of s h xs] by (cases xs) (auto simp: list_empty_def dll_def)

lemma dll_init: "dll (INIT_LIST_HEAD h s) h []"
  by (simp add: dll_def INIT_LIST_HEAD_def)

lemma list_add_raw_lookup [simp]:
  "lnext (list_add_raw n p x s) = ((lnext s)(n \<mapsto> x))(p \<mapsto> n)"
  "lprev (list_add_raw n p x s) = ((lprev s)(x \<mapsto> n))(n \<mapsto> p)"
  by (simp_all add: list_add_raw_def Let_def)

text \<open>Inserting between two neighbours.\<close>

lemma list_add_raw_links:
  assumes "distinct (as @ [p])" "distinct (x # bs)" "links s (as @ p # x # bs)"
    "n \<notin> set (as @ [p])" "n \<notin> set (x # bs)" "x \<notin> set (tl (as @ [p]))" "p \<notin> set (butlast (x # bs))"
  shows "links (list_add_raw n p x s) (as @ p # n # x # bs)"
proof -
  let ?s = "list_add_raw n p x s"
  have l: "links s (as @ [p])" "links s (x # bs)"
    using assms(3) links_split[of s as p "x # bs"] by simp_all
  have "links ?s (as @ [p]) = links s (as @ [p])"
  proof (rule links_cong)
    fix a assume "a \<in> set (butlast (as @ [p]))"
    then show "lnext ?s a = lnext s a" using assms(1,4) by auto
  next
    fix a assume a: "a \<in> set (tl (as @ [p]))"
    then have "a \<noteq> x" using assms(6) by auto
    moreover have "a \<noteq> n" using a assms(4) by (auto dest: list.set_sel(2)[rotated])
    ultimately show "lprev ?s a = lprev s a" by simp
  qed
  moreover have "links ?s (x # bs) = links s (x # bs)"
  proof (rule links_cong)
    fix a assume a: "a \<in> set (butlast (x # bs))"
    then have "a \<noteq> p" using assms(7) by auto
    moreover have "a \<in> set (x # bs)" using a by (rule in_set_butlastD)
    then have "a \<noteq> n" using assms(5) by blast
    ultimately show "lnext ?s a = lnext s a" by simp
  next
    fix a assume "a \<in> set (tl (x # bs))"
    then show "lprev ?s a = lprev s a" using assms(2,5) by auto
  qed
  moreover have "p \<noteq> n" "x \<noteq> n" using assms(4,5) by auto
  ultimately show ?thesis using l links_split[of ?s as p "n # x # bs"] by simp
qed

lemma list_add_tail:
  assumes "dll s h xs" "n \<notin> set (h # xs)"
  shows "\<exists>s'. list_add_tail n h s = Some s' \<and> dll s' h (xs @ [n])"
proof -
  obtain zs p where z: "h # xs = zs @ [p]" by (rule snoc_exists)
  have e: "h # xs @ ys = zs @ p # ys" for ys using arg_cong[OF z, of "\<lambda>l. l @ ys"] by simp
  have l: "lprev s h = Some p" using dll_prev[OF assms(1)] z by simp
  have d: "distinct (zs @ [p])" "links s (zs @ p # h # [])" "h \<notin> set (tl (zs @ [p]))"
    using assms(1) e[of "[h]"] by (auto simp: dll_def simp flip: z)
  have "links (list_add_raw n p h s) (zs @ p # n # h # [])"
  proof (rule list_add_raw_links)
    show "n \<notin> set (zs @ [p])" using assms(2) unfolding z .
    show "n \<notin> set (h # [])" using assms(2) by simp
  qed (use d in auto)
  then have "links (list_add_raw n p h s) (h # (xs @ [n]) @ [h])"
    using e[of "[n, h]"] by (simp only: append_assoc append_Cons append_Nil)
  then have "dll (list_add_raw n p h s) h (xs @ [n])"
    using assms by (simp add: dll_def)
  then show ?thesis using l by (simp add: list_add_tail_def)
qed

lemma list_add:
  assumes "dll s h xs" "n \<notin> set (h # xs)"
  shows "\<exists>s'. list_add n h s = Some s' \<and> dll s' h (n # xs)"
proof -
  obtain x bs where x: "xs @ [h] = x # bs" by (cases xs) auto
  have l: "lnext s h = Some x" using dll_next[OF assms(1)] x by simp
  have "links s ([] @ h # x # bs)" using assms(1) x by (simp add: dll_def)
  moreover have "distinct (x # bs)" "h \<notin> set (butlast (x # bs))" "n \<notin> set (x # bs)"
    using assms unfolding x[symmetric] by (auto simp: dll_def)
  ultimately have "links (list_add_raw n h x s) ([] @ h # n # x # bs)"
    using assms(2) by (intro list_add_raw_links) auto
  then have "dll (list_add_raw n h x s) h (n # xs)"
    using assms x by (auto simp: dll_def)
  then show ?thesis using l by (simp add: list_add_def)
qed

lemma list_del:
  assumes "dll s h (xs @ n # ys)"
  shows "\<exists>s'. list_del n s = Some s' \<and> dll s' h (xs @ ys) \<and> lnext s' n = None \<and> lprev s' n = None"
proof -
  obtain zs p where z: "h # xs = zs @ [p]" by (rule snoc_exists)
  have e: "h # xs @ us = zs @ p # us" for us using arg_cong[OF z, of "\<lambda>l. l @ us"] by simp
  obtain x bs where x: "ys @ [h] = x # bs" by (cases ys) auto
  have dist: "distinct (h # xs @ n # ys)" using assms by (simp add: dll_def)
  have "h # (xs @ n # ys) @ [h] = zs @ p # n # x # bs" using e[of "n # x # bs"] x by simp
  then have L: "links s (zs @ p # n # x # bs)" using assms by (simp only: dll_def)
  then have pn: "lnext s p = Some n" "lprev s n = Some p" "lnext s n = Some x" "lprev s x = Some n"
    and lz: "links s (zs @ [p])" and lx: "links s (x # bs)"
    using links_split[of s zs p "n # x # bs"] by simp_all
  have np: "n \<notin> set (zs @ [p])" "n \<notin> set (x # bs)"
    using dist unfolding z[symmetric] x[symmetric] by auto
  then have np': "n \<noteq> p" "n \<noteq> x" by auto
  note np = np np'
  define s1 where "s1 = s\<lparr>lnext := (lnext s)(p \<mapsto> x)\<rparr>"
  define s2 where "s2 = s1\<lparr>lprev := (lprev s1)(x \<mapsto> p)\<rparr>"
  define s' where "s' = s2\<lparr>lnext := (lnext s2)(n := None), lprev := (lprev s2)(n := None)\<rparr>"
  have r: "list_del n s = Some s'"
    using pn np by (simp add: list_del_def Let_def s'_def s2_def s1_def)
  have nx: "lnext s' = ((lnext s)(p \<mapsto> x))(n := None)" and pv: "lprev s' = ((lprev s)(x \<mapsto> p))(n := None)"
    by (simp_all add: s'_def s2_def s1_def)
  have "links s' (zs @ [p]) = links s (zs @ [p])"
  proof (rule links_cong)
    fix a assume "a \<in> set (butlast (zs @ [p]))"
    moreover have "distinct (zs @ [p])" using dist by (auto simp flip: z)
    ultimately show "lnext s' a = lnext s a" using np by (auto simp: nx)
  next
    fix a assume a: "a \<in> set (tl (zs @ [p]))"
    then have "a \<in> set xs" by (simp flip: z)
    then have "a \<noteq> x" "a \<noteq> n" using dist x by (cases ys; auto)+
    then show "lprev s' a = lprev s a" by (simp add: pv)
  qed
  moreover have "links s' (x # bs) = links s (x # bs)"
  proof (rule links_cong)
    fix a assume a: "a \<in> set (butlast (x # bs))"
    then have "a \<in> set ys" by (simp flip: x)
    moreover have "p = last (h # xs)" using z by simp
    then have "p \<in> set (h # xs)" by (metis last_in_set list.distinct(1))
    ultimately have "a \<noteq> p" "a \<noteq> n" using dist by auto
    then show "lnext s' a = lnext s a" by (simp add: nx)
  next
    fix a assume "a \<in> set (tl (x # bs))"
    moreover have "distinct (x # bs)" using dist by (simp flip: x)
    ultimately show "lprev s' a = lprev s a" using np by (auto simp: pv)
  qed
  ultimately have "links s' (zs @ p # x # bs)"
    using lz lx np links_split[of s' zs p "x # bs"] by (simp add: nx pv)
  moreover have "h # (xs @ ys) @ [h] = zs @ p # x # bs" using e[of "x # bs"] x by simp
  ultimately have "dll s' h (xs @ ys)" using dist by (simp only: dll_def) auto
  then show ?thesis using r by (simp add: nx pv)
qed

lemma list_walk_links:
  assumes "links s (ps @ [h])" "h \<notin> set ps" "length ps \<le> fuel"
  shows "list_walk fuel (hd (ps @ [h])) h s = Some ps"
  using assms
proof (induction ps arbitrary: fuel)
  case Nil
  then show ?case by (cases fuel) auto
next
  case (Cons p ps)
  then obtain k where k: "fuel = Suc k" by (cases fuel) auto
  have "lnext s p = Some (hd (ps @ [h]))" "links s (ps @ [h])"
    using Cons.prems(1) by (cases ps; simp)+
  with Cons k show ?case by auto
qed

text \<open>The iteration macro visits exactly the nodes, in order.\<close>

lemma list_for_each_entry:
  assumes "dll s h xs" "length xs \<le> fuel"
  shows "list_for_each_entry fuel h s = Some xs"
proof -
  have "links s (xs @ [h])" using assms(1) by (cases xs) (auto simp: dll_def)
  moreover have "h \<notin> set xs" using assms(1) by (simp add: dll_def)
  ultimately show ?thesis
    using list_walk_links[of s xs h fuel] assms dll_next[OF assms(1)] by (simp add: list_for_each_entry_def)
qed

section \<open>Queues\<close>

text \<open>What the clients of a queue rely on: elements come out in the order they went in.\<close>

datatype 'e queue_op = Enq 'e | Deq

fun run_ops :: "('e \<Rightarrow> 'q \<Rightarrow> 'q option) \<Rightarrow> ('q \<Rightarrow> ('e option \<times> 'q) option) \<Rightarrow> 'e queue_op list \<Rightarrow> 'q \<Rightarrow>
    ('e list \<times> 'q) option" where
  "run_ops enq deq [] q = Some ([], q)"
| "run_ops enq deq (Enq e # ops) q = do { q' \<leftarrow> enq e q; run_ops enq deq ops q' }"
| "run_ops enq deq (Deq # ops) q = do {
     (r, q') \<leftarrow> deq q; (es, q'') \<leftarrow> run_ops enq deq ops q';
     Some (case r of None \<Rightarrow> es | Some e \<Rightarrow> e # es, q'') }"

fun enqueued :: "'e queue_op list \<Rightarrow> 'e list" where
  "enqueued [] = []"
| "enqueued (Enq e # ops) = e # enqueued ops"
| "enqueued (Deq # ops) = enqueued ops"

locale fifo_queue =
  fixes inv :: "'q \<Rightarrow> bool" and contents :: "'q \<Rightarrow> 'e list" and ok :: "'e \<Rightarrow> bool"
    and enq :: "'e \<Rightarrow> 'q \<Rightarrow> 'q option" and deq :: "'q \<Rightarrow> ('e option \<times> 'q) option"
  assumes enq: "inv q \<Longrightarrow> ok e \<Longrightarrow> e \<notin> set (contents q) \<Longrightarrow>
      \<exists>q'. enq e q = Some q' \<and> inv q' \<and> contents q' = contents q @ [e]"
    and deq_empty: "inv q \<Longrightarrow> contents q = [] \<Longrightarrow> deq q = Some (None, q)"
    and deq: "inv q \<Longrightarrow> contents q = e # es \<Longrightarrow>
      \<exists>q'. deq q = Some (Some e, q') \<and> inv q' \<and> contents q' = es"
begin

text \<open>Over any run that does not enqueue an element that may still be queued, the elements taken
  out and those left are, in order, those that were there and those put in.\<close>

lemma fifo:
  assumes "inv q" "distinct (contents q @ enqueued ops)" "\<forall>e \<in> set (enqueued ops). ok e"
  shows "\<exists>es q'. run_ops enq deq ops q = Some (es, q') \<and> inv q' \<and>
    contents q @ enqueued ops = es @ contents q'"
  using assms
proof (induction ops arbitrary: q rule: enqueued.induct)
  case (2 e ops)
  then obtain q' where "enq e q = Some q'" "inv q'" "contents q' = contents q @ [e]"
    using enq[of q e] by auto
  moreover from this obtain es q'' where "run_ops enq deq ops q' = Some (es, q'')" "inv q''"
    "contents q' @ enqueued ops = es @ contents q''"
    using 2(1)[of q'] 2(3,4) by auto
  ultimately show ?case by simp
next
  case (3 ops)
  show ?case
  proof (cases "contents q")
    case Nil
    obtain fs q'' where "run_ops enq deq ops q = Some (fs, q'')" "inv q''"
      "contents q @ enqueued ops = fs @ contents q''"
      using 3(1)[of q] 3(2-4) by auto
    with deq_empty[OF 3(2) Nil] show ?thesis by simp
  next
    case (Cons e es)
    then obtain q' where q': "deq q = Some (Some e, q')" "inv q'" "contents q' = es"
      using deq[OF 3(2)] by blast
    then obtain fs q'' where "run_ops enq deq ops q' = Some (fs, q'')" "inv q''"
      "contents q' @ enqueued ops = fs @ contents q''"
      using 3(1)[of q'] 3(3,4) Cons by auto
    with q' Cons show ?thesis by (intro exI[of _ "e # fs"] exI[of _ q'']) simp
  qed
qed simp

end

end
