(* ===== verification/Skb.thy ===== *)
theory Skb
  imports Lists
begin

text \<open>
  \<open>src/compat/linux/skbuff.h\<close>: the socket buffer and its queues, and \<open>mbufToSkb\<close> of
  \<open>src/kext/RTW88IEEE80211.cpp\<close>.  A buffer is its allocation (the bytes from \<open>head\<close> to \<open>end\<close>)
  with \<open>data\<close> and \<open>tail\<close> as offsets into it; pointer arithmetic that leaves the allocation below
  is a negative offset, so offsets are integers.  Accesses outside the allocation are the result
  \<open>None\<close>.  A queue is a list head on the pointer store with its counter.
\<close>

section \<open>The buffer\<close>

record sk_buff =
  sk_mem :: bytes
  sk_data :: int
  sk_tail :: int
  sk_len :: u32
  sk_priority :: u32
  sk_queue_mapping :: u16
  sk_cb :: bytes

definition sk_end :: "sk_buff \<Rightarrow> int" where
  "sk_end skb = int (length (sk_mem skb))"

text \<open>\<open>junk\<close> is what \<open>kmalloc\<close> leaves in the new memory.\<close>

definition alloc_skb :: "(nat \<Rightarrow> u8) \<Rightarrow> u32 \<Rightarrow> sk_buff" where
  "alloc_skb junk sz =
    (let alloc_size = sz + 64
     in \<lparr>sk_mem = map junk [0..<unat alloc_size], sk_data = 0, sk_tail = 0, sk_len = 0,
         sk_priority = 0, sk_queue_mapping = 0, sk_cb = replicate 64 0\<rparr>)"

definition netdev_alloc_skb_ip_align :: "(nat \<Rightarrow> u8) \<Rightarrow> u32 \<Rightarrow> sk_buff" where
  "netdev_alloc_skb_ip_align junk sz = alloc_skb junk (sz + 2)"

text \<open>\<open>skb_put\<close> returns the old tail.\<close>

definition skb_put :: "u32 \<Rightarrow> sk_buff \<Rightarrow> int \<times> sk_buff" where
  "skb_put n skb = (sk_tail skb, skb\<lparr>sk_tail := sk_tail skb + uint n, sk_len := sk_len skb + n\<rparr>)"

text \<open>A store of \<open>src\<close> at offset \<open>p\<close> of the allocation, and a read of \<open>n\<close> bytes there.\<close>

definition skb_store :: "int \<Rightarrow> bytes \<Rightarrow> sk_buff \<Rightarrow> sk_buff option" where
  "skb_store p src skb =
    (if src = [] then Some skb
     else if 0 \<le> p \<and> p + int (length src) \<le> sk_end skb
     then Some (skb\<lparr>sk_mem := memcpy_at (sk_mem skb) (nat p) src\<rparr>) else None)"

definition skb_read :: "int \<Rightarrow> nat \<Rightarrow> sk_buff \<Rightarrow> bytes option" where
  "skb_read p n skb =
    (if n = 0 then Some []
     else if 0 \<le> p \<and> p + int n \<le> sk_end skb then Some (slice (nat p) n (sk_mem skb)) else None)"

definition skb_put_zero :: "u32 \<Rightarrow> sk_buff \<Rightarrow> (int \<times> sk_buff) option" where
  "skb_put_zero n skb =
    (let (tmp, skb) = skb_put n skb
     in do { skb \<leftarrow> skb_store tmp (replicate (unat n) 0) skb; Some (tmp, skb) })"

definition skb_put_data :: "bytes \<Rightarrow> sk_buff \<Rightarrow> sk_buff option" where
  "skb_put_data d skb = (let (tmp, skb) = skb_put (word_of_nat (length d)) skb in skb_store tmp d skb)"

definition skb_push :: "u32 \<Rightarrow> sk_buff \<Rightarrow> sk_buff" where
  "skb_push n skb = skb\<lparr>sk_data := sk_data skb - uint n, sk_len := sk_len skb + n\<rparr>"

definition skb_pull :: "u32 \<Rightarrow> sk_buff \<Rightarrow> sk_buff" where
  "skb_pull n skb = skb\<lparr>sk_data := sk_data skb + uint n, sk_len := sk_len skb - n\<rparr>"

definition skb_reserve :: "int \<Rightarrow> sk_buff \<Rightarrow> sk_buff" where
  "skb_reserve n skb = skb\<lparr>sk_data := sk_data skb + n, sk_tail := sk_tail skb + n\<rparr>"

definition skb_trim :: "u32 \<Rightarrow> sk_buff \<Rightarrow> sk_buff" where
  "skb_trim n skb =
    (if sk_len skb > n then skb\<lparr>sk_tail := sk_tail skb - uint (sk_len skb - n), sk_len := n\<rparr> else skb)"

definition skb_headroom :: "sk_buff \<Rightarrow> u32" where
  "skb_headroom skb = word_of_int (sk_data skb)"

definition skb_tailroom :: "sk_buff \<Rightarrow> u32" where
  "skb_tailroom skb = word_of_int (sk_end skb - sk_tail skb)"

definition skb_reset_tail_pointer :: "sk_buff \<Rightarrow> sk_buff" where
  "skb_reset_tail_pointer skb = skb\<lparr>sk_tail := sk_data skb\<rparr>"

definition skb_copy_header :: "sk_buff \<Rightarrow> sk_buff \<Rightarrow> sk_buff" where
  "skb_copy_header dst src = dst\<lparr>sk_cb := sk_cb src, sk_priority := sk_priority src\<rparr>"

definition skb_copy :: "(nat \<Rightarrow> u8) \<Rightarrow> sk_buff \<Rightarrow> sk_buff option" where
  "skb_copy junk skb =
    (let n = alloc_skb junk (sk_len skb + skb_headroom skb);
         n = skb_reserve (sint (skb_headroom skb)) n;
         (tmp, n) = skb_put (sk_len skb) n
     in do {
       d \<leftarrow> skb_read (sk_data skb) (unat (sk_len skb)) skb;
       n \<leftarrow> skb_store tmp d n;
       Some (n\<lparr>sk_cb := sk_cb skb\<rparr>) })"

definition skb_copy_from_linear_data :: "sk_buff \<Rightarrow> nat \<Rightarrow> bytes option" where
  "skb_copy_from_linear_data skb n = skb_read (sk_data skb) n skb"

definition skb_set_queue_mapping :: "u16 \<Rightarrow> sk_buff \<Rightarrow> sk_buff" where
  "skb_set_queue_mapping q skb = skb\<lparr>sk_queue_mapping := q\<rparr>"

definition skb_get_queue_mapping :: "sk_buff \<Rightarrow> u16" where
  "skb_get_queue_mapping skb = sk_queue_mapping skb"

text \<open>\<open>mbufToSkb\<close>: the packet header says \<open>pkt_len\<close>, the segments are copied one by one
  with \<open>skb_put\<close>.\<close>

fun put_segments :: "bytes list \<Rightarrow> sk_buff \<Rightarrow> sk_buff option" where
  "put_segments [] skb = Some skb"
| "put_segments (d # ds) skb =
    (if d = [] then put_segments ds skb
     else do { skb \<leftarrow> skb_put_data d skb; put_segments ds skb })"

definition mbufToSkb :: "(nat \<Rightarrow> u8) \<Rightarrow> u32 \<Rightarrow> bytes list \<Rightarrow> sk_buff option" where
  "mbufToSkb junk pkt_len segs =
    (let skb = skb_reserve 128 (alloc_skb junk (pkt_len + 64))
     in put_segments segs skb)"

section \<open>What a buffer holds\<close>

definition skb_ok :: "sk_buff \<Rightarrow> bool" where
  "skb_ok skb \<longleftrightarrow> 0 \<le> sk_data skb \<and> sk_data skb \<le> sk_tail skb \<and> sk_tail skb \<le> sk_end skb \<and>
     sk_tail skb - sk_data skb = uint (sk_len skb) \<and> sk_end skb < 2 ^ 31"

definition payload :: "sk_buff \<Rightarrow> bytes" where
  "payload skb = slice (nat (sk_data skb)) (unat (sk_len skb)) (sk_mem skb)"

lemma uint_eq_int_iff: "uint (w :: u32) = int n \<longleftrightarrow> unat w = n"
  by (simp only: uint_nat of_nat_eq_iff)

lemma uint_word_of_nat_small: "n < 2 ^ 32 \<Longrightarrow> uint (word_of_nat n :: u32) = int n"
  by (simp only: uint_eq_int_iff unat_word_of_nat_small)

lemma uint_add_small:
  "uint a + uint b < 2 ^ 32 \<Longrightarrow> uint (a + b :: u32) = uint a + uint b"
  by (simp add: uint_word_ariths)

lemma skb_ok_nat:
  assumes "skb_ok skb"
  obtains d n where "sk_data skb = int d" "sk_tail skb = int (d + n)" "unat (sk_len skb) = n"
    "uint (sk_len skb) = int n" "d + n \<le> length (sk_mem skb)" "length (sk_mem skb) < 2 ^ 31"
proof
  show "sk_data skb = int (nat (sk_data skb))" using assms by (simp add: skb_ok_def)
  show "unat (sk_len skb) = unat (sk_len skb)" ..
  show "uint (sk_len skb) = int (unat (sk_len skb))" by simp
  show "sk_tail skb = int (nat (sk_data skb) + unat (sk_len skb))" using assms by (simp add: skb_ok_def)
  show "nat (sk_data skb) + unat (sk_len skb) \<le> length (sk_mem skb)"
    using assms nat_add_distrib[of "sk_data skb" "uint (sk_len skb)"]
    unfolding skb_ok_def sk_end_def unat_eq_nat_uint by linarith
  show "length (sk_mem skb) < 2 ^ 31" using assms by (simp add: skb_ok_def sk_end_def)
qed

lemma skb_put_data_ok:
  assumes "skb_ok skb" "int (length d) \<le> sk_end skb - sk_tail skb"
  shows "\<exists>skb'. skb_put_data d skb = Some skb' \<and> skb_ok skb' \<and> payload skb' = payload skb @ d \<and>
    sk_data skb' = sk_data skb \<and> sk_end skb' = sk_end skb \<and>
    sk_tail skb' = sk_tail skb + int (length d)"
proof -
  from assms(1) obtain o' n where k: "sk_data skb = int o'" "sk_tail skb = int (o' + n)"
    "unat (sk_len skb) = n" "uint (sk_len skb) = int n" "o' + n \<le> length (sk_mem skb)"
    "length (sk_mem skb) < 2 ^ 31" by (rule skb_ok_nat)
  have fit: "o' + n + length d \<le> length (sk_mem skb)" using assms(2) k by (simp add: sk_end_def)
  let ?l = "word_of_nat (length d) :: u32"
  have ul: "uint ?l = int (length d)" using fit k(6) by (intro uint_word_of_nat_small) simp
  have sum: "uint (sk_len skb + ?l) = int (n + length d)"
    using ul k(4,6) fit by (subst uint_add_small) simp_all
  then have usum: "unat (sk_len skb + ?l) = n + length d" by (simp only: unat_eq_nat_uint nat_int)
  define s1 where "s1 = skb\<lparr>sk_tail := int (o' + n + length d), sk_len := sk_len skb + ?l\<rparr>"
  define s2 where "s2 = s1\<lparr>sk_mem := memcpy_at (sk_mem skb) (o' + n) d\<rparr>"
  have put: "skb_put ?l skb = (int (o' + n), s1)"
    using k(2) ul by (simp add: skb_put_def s1_def)
  have e: "skb_put_data d skb = Some (if d = [] then s1 else s2)"
    using fit by (simp add: skb_put_data_def put skb_store_def sk_end_def s1_def s2_def nat_add_distrib)
  have lm: "length (sk_mem s2) = length (sk_mem skb)" using fit by (simp add: s2_def)
  have "s2 = s1" if "d = []" using that by (simp add: s2_def s1_def memcpy_at_def)
  then have e': "skb_put_data d skb = Some s2" using e by simp
  have "payload s2 = payload skb @ d"
  proof -
    have "payload s2 = take (n + length d) (drop o' (take (o' + n) (sk_mem skb) @ d @ drop (o' + n + length d) (sk_mem skb)))"
      by (simp add: payload_def s2_def s1_def usum[simplified] k(1) slice_def memcpy_at_def)
    then show ?thesis using fit by (simp add: payload_def slice_def k drop_take)
  qed
  moreover have "skb_ok s2" "sk_data s2 = sk_data skb" "sk_end s2 = sk_end skb"
      "sk_tail s2 = sk_tail skb + int (length d)"
    using lm fit k sum by (simp_all add: skb_ok_def sk_end_def s2_def s1_def)
  ultimately show ?thesis using e' by blast
qed

lemma skb_push_ok:
  assumes "skb_ok skb" "uint n \<le> sk_data skb"
  shows "skb_ok (skb_push n skb) \<and>
    payload (skb_push n skb) = slice (nat (sk_data skb) - unat n) (unat n) (sk_mem skb) @ payload skb"
proof -
  from assms(1) obtain o' m where k: "sk_data skb = int o'" "sk_tail skb = int (o' + m)"
    "unat (sk_len skb) = m" "uint (sk_len skb) = int m" "o' + m \<le> length (sk_mem skb)"
    "length (sk_mem skb) < 2 ^ 31" by (rule skb_ok_nat)
  obtain p where pn: "unat n = p" by simp
  have un: "uint n = int p" using pn by (simp only: uint_eq_int_iff)
  have p: "p \<le> o'" using assms(2) k(1) un by simp
  have sum: "uint (sk_len skb + n) = int (m + p)"
    using p k un by (subst uint_add_small) simp_all
  then have usum: "unat (sk_len skb + n) = m + p" by (simp only: unat_eq_nat_uint nat_int)
  have "payload (skb_push n skb) = take (m + p) (drop (o' - p) (sk_mem skb))"
    using p by (simp add: payload_def skb_push_def usum k(1) un slice_def nat_diff_distrib)
  also have "\<dots> = take p (drop (o' - p) (sk_mem skb)) @ take m (drop o' (sk_mem skb))"
    using p by (simp add: take_add add.commute[of m])
  finally have "payload (skb_push n skb) = slice (o' - p) p (sk_mem skb) @ payload skb"
    by (simp add: payload_def slice_def k)
  moreover have "skb_ok (skb_push n skb)"
    using p k un sum by (simp add: skb_ok_def skb_push_def sk_end_def)
  ultimately show ?thesis using k(1) by (simp add: pn)
qed

lemma skb_pull_ok:
  assumes "skb_ok skb" "n \<le> sk_len skb"
  shows "skb_ok (skb_pull n skb) \<and> payload (skb_pull n skb) = drop (unat n) (payload skb)"
proof -
  from assms(1) obtain o' m where k: "sk_data skb = int o'" "sk_tail skb = int (o' + m)"
    "unat (sk_len skb) = m" "uint (sk_len skb) = int m" "o' + m \<le> length (sk_mem skb)"
    "length (sk_mem skb) < 2 ^ 31" by (rule skb_ok_nat)
  obtain p where pn: "unat n = p" by simp
  have un: "uint n = int p" using pn by (simp only: uint_eq_int_iff)
  have p: "p \<le> m" using assms(2) k(3) by (simp add: pn word_le_nat_alt)
  have usub: "unat (sk_len skb - n) = m - p"
    using p k(3) assms(2) by (simp add: unat_sub pn)
  then have sub: "uint (sk_len skb - n) = int (m - p)" by (simp only: uint_eq_int_iff)
  have "payload (skb_pull n skb) = take (m - p) (drop (o' + p) (sk_mem skb))"
    by (simp add: payload_def skb_pull_def usub k(1) un slice_def nat_add_distrib)
  then have "payload (skb_pull n skb) = drop p (payload skb)"
    using p by (simp add: payload_def slice_def k drop_take add.commute)
  then show ?thesis using p k un sub by (simp add: skb_ok_def skb_pull_def sk_end_def pn of_nat_diff)
qed

lemma skb_trim_ok:
  assumes "skb_ok skb"
  shows "skb_ok (skb_trim n skb) \<and> payload (skb_trim n skb) = take (unat n) (payload skb)"
proof (cases "n < sk_len skb")
  case False
  then have "unat (sk_len skb) \<le> unat n" by (simp add: word_le_nat_alt not_less)
  then have "take (unat n) (payload skb) = payload skb"
    using length_slice_le[of "nat (sk_data skb)" "unat (sk_len skb)" "sk_mem skb"]
    by (simp add: payload_def)
  with False assms show ?thesis by (simp add: skb_trim_def)
next
  case True
  from assms(1) obtain o' m where k: "sk_data skb = int o'" "sk_tail skb = int (o' + m)"
    "unat (sk_len skb) = m" "uint (sk_len skb) = int m" "o' + m \<le> length (sk_mem skb)"
    "length (sk_mem skb) < 2 ^ 31" by (rule skb_ok_nat)
  obtain p where pn: "unat n = p" by simp
  have un: "uint n = int p" using pn by (simp only: uint_eq_int_iff)
  have p: "p < m" using True k(3) by (simp add: pn word_less_nat_alt)
  have "unat (sk_len skb - n) = m - p"
    using p k(3) True by (simp add: unat_sub pn order.strict_implies_order)
  then have sub: "uint (sk_len skb - n) = int (m - p)" by (simp only: uint_eq_int_iff)
  have "payload (skb_trim n skb) = take p (drop o' (sk_mem skb))"
    using True by (simp add: payload_def skb_trim_def k(1) slice_def pn)
  then have "payload (skb_trim n skb) = take p (payload skb)"
    using p by (simp add: payload_def slice_def k)
  then show ?thesis
    using p k un sub True by (simp add: skb_ok_def skb_trim_def sk_end_def pn of_nat_diff)
qed



definition skb_demo :: sk_buff where
  "skb_demo = \<lparr>sk_mem = [1, 2, 3, 4, 5, 6], sk_data = 2, sk_tail = 4, sk_len = 2, sk_priority = 0,
     sk_queue_mapping = 0, sk_cb = []\<rparr>"

lemma skb_demo_ok: "skb_ok skb_demo"
  by (simp add: skb_ok_def skb_demo_def sk_end_def)


section \<open>Packets from the network stack\<close>

lemma skb_headroom_ok: "skb_ok skb \<Longrightarrow> uint (skb_headroom skb) = sk_data skb"
  unfolding skb_headroom_def skb_ok_def sk_end_def by (simp add: uint_word_of_int)

lemma put_segments_ok:
  assumes "skb_ok skb" "int (length (concat ds)) \<le> sk_end skb - sk_tail skb"
  shows "\<exists>skb'. put_segments ds skb = Some skb' \<and> skb_ok skb' \<and>
    payload skb' = payload skb @ concat ds \<and> sk_data skb' = sk_data skb \<and>
    sk_end skb' = sk_end skb \<and> sk_tail skb' = sk_tail skb + int (length (concat ds))"
  using assms
proof (induction ds arbitrary: skb)
  case (Cons d ds)
  show ?case
  proof (cases "d = []")
    case True
    then show ?thesis using Cons.IH[OF Cons.prems(1)] Cons.prems(2) by simp
  next
    case False
    have "int (length d) \<le> sk_end skb - sk_tail skb" using Cons.prems(2) by simp
    from skb_put_data_ok[OF Cons.prems(1) this] obtain s1 where s1: "skb_put_data d skb = Some s1"
      "skb_ok s1" "payload s1 = payload skb @ d" "sk_data s1 = sk_data skb" "sk_end s1 = sk_end skb"
      "sk_tail s1 = sk_tail skb + int (length d)" by blast
    moreover have "int (length (concat ds)) \<le> sk_end s1 - sk_tail s1" using Cons.prems(2) s1 by simp
    ultimately show ?thesis using Cons.IH[of s1] False by auto
  qed
qed simp

lemma put_segments_too_long:
  assumes "skb_ok skb" "int (length (concat ds)) > sk_end skb - sk_tail skb" "length (concat ds) < 2 ^ 31"
  shows "put_segments ds skb = None"
  using assms
proof (induction ds arbitrary: skb)
  case Nil
  then show ?case by (simp add: skb_ok_def)
next
  case (Cons d ds)
  show ?case
  proof (cases "int (length d) \<le> sk_end skb - sk_tail skb")
    case True
    from skb_put_data_ok[OF Cons.prems(1) this] obtain s1 where s1: "skb_put_data d skb = Some s1"
      "skb_ok s1" "sk_end s1 = sk_end skb" "sk_tail s1 = sk_tail skb + int (length d)" by blast
    show ?thesis
    proof (cases "d = []")
      case True
      then show ?thesis using Cons.IH[of skb] Cons.prems by simp
    next
      case False
      have "put_segments ds s1 = None" using Cons.prems s1 by (intro Cons.IH) simp_all
      then show ?thesis using False s1(1) by simp
    qed
  next
    case False
    then have "d \<noteq> []" using Cons.prems(1) by (auto simp: skb_ok_def)
    moreover have "skb_put_data d skb = None"
      using False \<open>d \<noteq> []\<close> by (simp add: skb_put_data_def skb_put_def skb_store_def sk_end_def)
    ultimately show ?thesis by simp
  qed
qed

lemma mbuf_buffer:
  fixes junk :: "nat \<Rightarrow> u8"
  assumes "unat n < 2 ^ 30"
  defines "b \<equiv> skb_reserve 128 (alloc_skb junk (n + 64))"
  shows "skb_ok b \<and> payload b = [] \<and> sk_data b = 128 \<and> sk_end b - sk_tail b = int (unat n)"
proof -
  obtain m where m: "unat n = m" by simp
  have un: "uint n = int m" using m by (simp only: uint_eq_int_iff)
  have "uint (n + 128) = int (m + 128)"
    using assms(1) uint_add_small[of n 128] un m by simp
  then have "unat (n + 64 + 64) = unat n + 128" using m by (simp only: uint_eq_int_iff add.assoc) simp
  then show ?thesis using assms(1) un m
    by (simp add: slice_def b_def skb_reserve_def alloc_skb_def skb_ok_def sk_end_def payload_def)
qed


text \<open>\<open>mbufToSkb\<close> needs every byte of the slack of \<open>alloc_skb\<close>: when the packet header's length
  is the sum of the segments, the whole packet is copied, with 128 bytes of headroom and the tail
  exactly at the end of the allocation; when the segments hold more than the header says, the copy
  leaves the allocation.\<close>

theorem mbufToSkb_exact:
  assumes "length (concat segs) < 2 ^ 30" "unat pkt_len < 2 ^ 30"
  shows "case mbufToSkb junk pkt_len segs of
      Some skb \<Rightarrow> length (concat segs) \<le> unat pkt_len \<and> skb_ok skb \<and> payload skb = concat segs \<and>
        uint (skb_headroom skb) = 128 \<and>
        sk_end skb - sk_tail skb = int (unat pkt_len - length (concat segs))
    | None \<Rightarrow> length (concat segs) > unat pkt_len"
proof -
  obtain m where m: "unat pkt_len = m" by simp
  define b where "b = skb_reserve 128 (alloc_skb junk (pkt_len + 64))"
  have b: "skb_ok b" "payload b = []" "sk_data b = 128" "sk_end b - sk_tail b = int m"
    using mbuf_buffer[OF assms(2), of junk] unfolding b_def m by simp_all
  show ?thesis
  proof (cases "length (concat segs) \<le> m")
    case True
    from put_segments_ok[OF b(1), of segs] b True m
    obtain skb where skb: "put_segments segs b = Some skb" "skb_ok skb" "payload skb = concat segs"
      "sk_data skb = 128" "sk_end skb - sk_tail skb = int m - int (length (concat segs))"
      by auto
    from skb_headroom_ok[OF skb(2)] skb True m show ?thesis
      by (simp add: mbufToSkb_def of_nat_diff flip: b_def)
  next
    case False
    then have "put_segments segs b = None" using b assms(1) by (intro put_segments_too_long) simp_all
    then show ?thesis using False m by (simp add: mbufToSkb_def flip: b_def)
  qed
qed

lemma mbufToSkb_exact_witness:
  "case mbufToSkb (\<lambda>_. 0) 3 [[1], [], [2, 3]] of
      Some skb \<Rightarrow> length (concat [[1], [], [2, 3 :: u8]]) \<le> unat (3 :: u32) \<and> skb_ok skb \<and>
        payload skb = concat [[1], [], [2, 3]] \<and> uint (skb_headroom skb) = 128 \<and>
        sk_end skb - sk_tail skb = int (unat (3 :: u32) - length (concat [[1], [], [2, 3 :: u8]]))
    | None \<Rightarrow> length (concat [[1], [], [2, 3 :: u8]]) > unat (3 :: u32)"
  by (rule mbufToSkb_exact) simp_all

section \<open>Queues of buffers\<close>

text \<open>A queue is its list head and its counter; the buffers are nodes of the store the queues
  share.  The operations work on the store and the queue.\<close>

record sk_buff_head =
  qh_list :: node
  qh_qlen :: u32

type_synonym skb_queue = "list_store \<times> sk_buff_head"

definition skb_queue_head_init :: "skb_queue \<Rightarrow> skb_queue" where
  "skb_queue_head_init sq = (case sq of (s, q) \<Rightarrow> (INIT_LIST_HEAD (qh_list q) s, q\<lparr>qh_qlen := 0\<rparr>))"

definition skb_queue_empty :: "skb_queue \<Rightarrow> bool" where
  "skb_queue_empty sq = (case sq of (s, q) \<Rightarrow> list_empty (qh_list q) s)"

definition skb_queue_len :: "skb_queue \<Rightarrow> u32" where
  "skb_queue_len sq = qh_qlen (snd sq)"

definition skb_queue_tail :: "node \<Rightarrow> skb_queue \<Rightarrow> skb_queue option" where
  "skb_queue_tail skb sq =
    (case sq of (s, q) \<Rightarrow> do {
       s \<leftarrow> list_add_tail skb (qh_list q) s; Some (s, q\<lparr>qh_qlen := qh_qlen q + 1\<rparr>) })"

definition skb_queue_head :: "node \<Rightarrow> skb_queue \<Rightarrow> skb_queue option" where
  "skb_queue_head skb sq =
    (case sq of (s, q) \<Rightarrow> do {
       s \<leftarrow> list_add skb (qh_list q) s; Some (s, q\<lparr>qh_qlen := qh_qlen q + 1\<rparr>) })"

definition skb_unlink :: "node \<Rightarrow> skb_queue \<Rightarrow> skb_queue option" where
  "skb_unlink skb sq =
    (case sq of (s, q) \<Rightarrow> do { s \<leftarrow> list_del skb s; Some (s, q\<lparr>qh_qlen := qh_qlen q - 1\<rparr>) })"

definition skb_dequeue :: "skb_queue \<Rightarrow> (node option \<times> skb_queue) option" where
  "skb_dequeue sq =
    (case sq of (s, q) \<Rightarrow>
      if list_empty (qh_list q) s then Some (None, sq)
      else do {
        skb \<leftarrow> lnext s (qh_list q);
        s \<leftarrow> list_del skb s;
        Some (Some skb, s, q\<lparr>qh_qlen := qh_qlen q - 1\<rparr>) })"

definition skb_peek :: "skb_queue \<Rightarrow> node option" where
  "skb_peek sq =
    (case sq of (s, q) \<Rightarrow> if list_empty (qh_list q) s then None else lnext s (qh_list q))"

text \<open>\<open>skb_queue_purge\<close>, \<open>ieee80211_purge_tx_queue\<close>: the buffers freed, in order.\<close>

partial_function (option) skb_queue_purge :: "skb_queue \<Rightarrow> (node list \<times> skb_queue) option" where
  [code]: "skb_queue_purge sq =
    Option.bind (skb_dequeue sq) (\<lambda>(r, sq).
      case r of None \<Rightarrow> Some ([], sq)
      | Some skb \<Rightarrow> Option.bind (skb_queue_purge sq) (\<lambda>(freed, sq). Some (skb # freed, sq)))"


text \<open>\<open>skbq q xs\<close>: the queue holds the buffers \<open>xs\<close> and counts them.  A buffer is an allocated
  object, so there are fewer than \<open>2 ^ 32\<close> of them and the counter cannot wrap.\<close>

definition skbq :: "skb_queue \<Rightarrow> node list \<Rightarrow> bool" where
  "skbq sq xs \<longleftrightarrow> dll (fst sq) (qh_list (snd sq)) xs \<and> unat (qh_qlen (snd sq)) = length xs \<and>
     (\<forall>x \<in> set xs. x < 2 ^ 31)"

definition skb_contents :: "skb_queue \<Rightarrow> node list" where
  "skb_contents sq = (case list_for_each_entry (unat (skb_queue_len sq)) (qh_list (snd sq)) (fst sq) of
     None \<Rightarrow> [] | Some xs \<Rightarrow> xs)"

lemma skbq_contents: "skbq sq xs \<Longrightarrow> skb_contents sq = xs"
  using list_for_each_entry[of "fst sq" "qh_list (snd sq)" xs "length xs"]
  by (simp add: skbq_def skb_contents_def skb_queue_len_def)

lemma small_nodes:
  assumes "distinct xs" "\<forall>x \<in> set xs. x < (2 :: nat) ^ 31"
  shows "length xs \<le> 2 ^ 31"
proof -
  have "set xs \<subseteq> {..<2 ^ 31}" using assms(2) by auto
  then have "card (set xs) \<le> card {..<(2 :: nat) ^ 31}" by (intro card_mono) simp_all
  then show ?thesis using assms(1) by (simp add: distinct_card)
qed

lemma unat_inc: "unat (n :: u32) \<le> 2 ^ 31 \<Longrightarrow> unat (n + 1) = unat n + 1"
  by (simp only: unat_word_ariths(1)) simp

lemma unat_dec: "unat (n :: u32) = Suc k \<Longrightarrow> unat (n - 1) = k"
  by (simp add: unat_sub word_le_nat_alt)

lemma skb_queue_head_init: "skbq (skb_queue_head_init sq) []"
  by (cases sq) (simp add: skbq_def skb_queue_head_init_def dll_init)

lemma skb_queue_tail:
  assumes "skbq sq xs" "n \<notin> set xs" "n \<noteq> qh_list (snd sq)" "n < 2 ^ 31"
  shows "\<exists>sq'. skb_queue_tail n sq = Some sq' \<and> skbq sq' (xs @ [n]) \<and> qh_list (snd sq') = qh_list (snd sq)"
proof -
  have l: "length xs \<le> 2 ^ 31" using assms(1) by (intro small_nodes) (auto simp: skbq_def dll_def)
  obtain s' where "list_add_tail n (qh_list (snd sq)) (fst sq) = Some s'" "dll s' (qh_list (snd sq)) (xs @ [n])"
    using list_add_tail[of "fst sq" "qh_list (snd sq)" xs n] assms by (auto simp: skbq_def)
  then show ?thesis using assms(1,4) l
    by (auto simp: skb_queue_tail_def skbq_def unat_inc split: prod.split)
qed

lemma skb_queue_head:
  assumes "skbq sq xs" "n \<notin> set xs" "n \<noteq> qh_list (snd sq)" "n < 2 ^ 31"
  shows "\<exists>sq'. skb_queue_head n sq = Some sq' \<and> skbq sq' (n # xs) \<and> qh_list (snd sq') = qh_list (snd sq)"
proof -
  have l: "length xs \<le> 2 ^ 31" using assms(1) by (intro small_nodes) (auto simp: skbq_def dll_def)
  obtain s' where "list_add n (qh_list (snd sq)) (fst sq) = Some s'" "dll s' (qh_list (snd sq)) (n # xs)"
    using list_add[of "fst sq" "qh_list (snd sq)" xs n] assms by (auto simp: skbq_def)
  then show ?thesis using assms(1,4) l
    by (auto simp: skb_queue_head_def skbq_def unat_inc split: prod.split)
qed

lemma skb_unlink:
  assumes "skbq sq (xs @ n # ys)"
  shows "\<exists>sq'. skb_unlink n sq = Some sq' \<and> skbq sq' (xs @ ys) \<and> qh_list (snd sq') = qh_list (snd sq)"
proof -
  obtain s' where "list_del n (fst sq) = Some s'" "dll s' (qh_list (snd sq)) (xs @ ys)"
    using list_del[of "fst sq" "qh_list (snd sq)" xs n ys] assms by (auto simp: skbq_def)
  then show ?thesis using assms
    by (auto simp: skb_unlink_def skbq_def unat_dec split: prod.split)
qed

lemma skb_queue_empty: "skbq sq xs \<Longrightarrow> skb_queue_empty sq \<longleftrightarrow> xs = []"
  by (cases sq) (simp add: skbq_def skb_queue_empty_def dll_empty)

lemma skb_dequeue_empty: "skbq sq [] \<Longrightarrow> skb_dequeue sq = Some (None, sq)"
  using skb_queue_empty[of sq "[]"] by (cases sq) (simp add: skb_queue_empty_def skb_dequeue_def)

lemma skb_dequeue_unlink:
  assumes "skbq sq (n # ys)"
  shows "skb_dequeue sq = map_option (\<lambda>sq'. (Some n, sq')) (skb_unlink n sq)"
proof (cases sq)
  case (Pair s q)
  with assms have "dll s (qh_list q) (n # ys)" by (simp add: skbq_def)
  from dll_empty[OF this] dll_next[OF this] Pair show ?thesis
    by (cases "list_del n s") (simp_all add: skb_dequeue_def skb_unlink_def)
qed

lemma skb_dequeue:
  assumes "skbq sq (n # ys)"
  shows "\<exists>sq'. skb_dequeue sq = Some (Some n, sq') \<and> skbq sq' ys \<and> qh_list (snd sq') = qh_list (snd sq)"
  using skb_unlink[of sq "[]" n ys] assms by (auto simp: skb_dequeue_unlink)

text \<open>The queue of head \<open>h\<close> is a first-in-first-out queue.\<close>

definition skbq_inv :: "node \<Rightarrow> skb_queue \<Rightarrow> bool" where
  "skbq_inv h sq \<longleftrightarrow> qh_list (snd sq) = h \<and> (\<exists>xs. skbq sq xs)"

definition skbq_node :: "node \<Rightarrow> node \<Rightarrow> bool" where
  "skbq_node h n \<longleftrightarrow> n \<noteq> h \<and> n < 2 ^ 31"

interpretation skbfifo: fifo_queue "skbq_inv h" skb_contents "skbq_node h" skb_queue_tail skb_dequeue
  for h
proof
  fix q e assume "skbq_inv h q" "skbq_node h e" "e \<notin> set (skb_contents q)"
  moreover from this have "skbq q (skb_contents q)" using skbq_contents unfolding skbq_inv_def by metis
  ultimately obtain q' where "skb_queue_tail e q = Some q'" "skbq q' (skb_contents q @ [e])"
      "qh_list (snd q') = h"
    using skb_queue_tail[of q "skb_contents q" e] unfolding skbq_inv_def skbq_node_def by blast
  then show "\<exists>q'. skb_queue_tail e q = Some q' \<and> skbq_inv h q' \<and> skb_contents q' = skb_contents q @ [e]"
    using skbq_contents unfolding skbq_inv_def by blast
next
  fix q assume "skbq_inv h q" "skb_contents q = []"
  then show "skb_dequeue q = Some (None, q)"
    using skb_dequeue_empty skbq_contents unfolding skbq_inv_def by metis
next
  fix q and e :: node and es assume "skbq_inv h q" "skb_contents q = e # es"
  moreover from this have "skbq q (e # es)" using skbq_contents unfolding skbq_inv_def by metis
  ultimately obtain q' where "skb_dequeue q = Some (Some e, q')" "skbq q' es" "qh_list (snd q') = h"
    using skb_dequeue[of q e es] unfolding skbq_inv_def by blast
  then show "\<exists>q'. skb_dequeue q = Some (Some e, q') \<and> skbq_inv h q' \<and> skb_contents q' = es"
    using skbq_contents unfolding skbq_inv_def by blast
qed

text \<open>From an initialised queue, whatever buffers are put in and taken out, in any order,
  \<open>skb_queue_tail\<close> and \<open>skb_dequeue\<close> never follow a bad pointer, the buffers come out in the order
  they went in, and those not yet out are exactly the ones on the list.\<close>

theorem skb_queue_is_fifo:
  assumes "distinct (enqueued ops)" "\<forall>n \<in> set (enqueued ops). n \<noteq> qh_list (snd sq) \<and> n < 2 ^ 31"
  shows "\<exists>out sq'. run_ops skb_queue_tail skb_dequeue ops (skb_queue_head_init sq) = Some (out, sq') \<and>
    enqueued ops = out @ skb_contents sq'"
proof -
  have i: "skbq (skb_queue_head_init sq) []" by (rule skb_queue_head_init)
  moreover have "qh_list (snd (skb_queue_head_init sq)) = qh_list (snd sq)"
    by (cases sq) (simp add: skb_queue_head_init_def)
  ultimately have "skbq_inv (qh_list (snd sq)) (skb_queue_head_init sq)" by (auto simp: skbq_inv_def)
  from skbfifo.fifo[OF this, of ops] assms skbq_contents[OF i] show ?thesis
    by (auto simp: skbq_node_def)
qed

definition list_store0 :: list_store where
  "list_store0 = \<lparr>lnext = Map.empty, lprev = Map.empty\<rparr>"

lemma skb_queue_is_fifo_witness:
  "\<exists>out sq'. run_ops skb_queue_tail skb_dequeue [Enq 7, Enq 8, Deq, Deq, Deq, Enq 9]
      (skb_queue_head_init (list_store0, \<lparr>qh_list = 0, qh_qlen = 5\<rparr>)) = Some (out, sq') \<and>
    [7, 8, 9] = out @ skb_contents sq'"
  using skb_queue_is_fifo[of "[Enq 7, Enq 8, Deq, Deq, Deq, Enq 9]" "(list_store0, \<lparr>qh_list = 0, qh_qlen = 5\<rparr>)"]
  by simp

text \<open>Purging a queue terminates, frees every buffer of it exactly once and in order, and leaves
  it empty with a counter of zero.\<close>

theorem skb_queue_purge_frees_all:
  assumes "skbq sq xs"
  shows "\<exists>sq'. skb_queue_purge sq = Some (xs, sq') \<and> skbq sq' [] \<and> skb_queue_empty sq' \<and>
    skb_queue_len sq' = 0"
  using assms
proof (induction xs arbitrary: sq)
  case Nil
  then have "skb_queue_purge sq = Some ([], sq)"
    by (simp add: skb_queue_purge.simps skb_dequeue_empty)
  with Nil show ?case by (simp add: skb_queue_empty skb_queue_len_def) (simp add: skbq_def unat_eq_0)
next
  case (Cons n xs)
  then obtain sq' where sq': "skb_dequeue sq = Some (Some n, sq')" "skbq sq' xs"
    using skb_dequeue by blast
  from Cons.IH[OF sq'(2)] obtain sq'' where "skb_queue_purge sq' = Some (xs, sq'')" "skbq sq'' []"
    "skb_queue_empty sq''" "skb_queue_len sq'' = 0" by blast
  moreover from this sq' have "skb_queue_purge sq = Some (n # xs, sq'')"
    by (subst skb_queue_purge.simps) simp
  ultimately show ?case by blast
qed

lemma skb_queue_purge_frees_all_witness:
  "\<exists>sq sq'. skbq sq [7, 8] \<and> skb_queue_purge sq = Some ([7, 8], sq') \<and> skb_queue_len sq' = 0"
proof -
  define q0 where "q0 = skb_queue_head_init (list_store0, \<lparr>qh_list = 0, qh_qlen = 5\<rparr>)"
  have "skbq q0 []" "qh_list (snd q0) = 0"
    by (simp_all only: q0_def skb_queue_head_init) (simp add: skb_queue_head_init_def)
  with skb_queue_tail[of q0 "[]" 7] obtain q1 where "skbq q1 [7]" "qh_list (snd q1) = 0" by auto
  with skb_queue_tail[of q1 "[7]" 8] obtain q2 where "skbq q2 [7, 8]" by auto
  with skb_queue_purge_frees_all show ?thesis by blast
qed

end
