(* ===== verification/Workqueue.thy ===== *)
theory Workqueue
  imports Lists
begin

text \<open>
  The work queues of \<open>src/compat/rtw88_compat.c\<close>: \<open>queue_work\<close>, the worker thread
  \<open>wq_thread_fn\<close>, \<open>destroy_workqueue\<close>, cancelling, flushing, and delayed work.  A work item is a
  node of the pointer store.  Every operation that takes the queue's lock is one atomic step; the
  worker's loop body is cut where it drops the lock to call the work function.
\<close>

section \<open>State and operations\<close>

record workqueue_struct =
  wq_queue :: node
  wq_running :: bool
  wq_done :: bool

record work_world =
  ww_lists :: list_store
  ww_pending :: "node \<Rightarrow> bool"
  ww_queues :: "nat \<Rightarrow> workqueue_struct option"

definition INIT_WORK :: "node \<Rightarrow> work_world \<Rightarrow> work_world" where
  "INIT_WORK work w = w\<lparr>ww_lists := INIT_LIST_HEAD work (ww_lists w),
     ww_pending := (ww_pending w)(work := False)\<rparr>"

text \<open>\<open>alloc_ok\<close>: \<open>IOMalloc\<close>, \<open>IOLockAlloc\<close> and \<open>kernel_thread_start\<close> all succeed.  The result is
  the new queue's identity or NULL.\<close>

definition alloc_workqueue :: "bool \<Rightarrow> nat \<Rightarrow> node \<Rightarrow> work_world \<Rightarrow> nat option \<times> work_world" where
  "alloc_workqueue alloc_ok i head w =
    (if alloc_ok
     then (Some i, w\<lparr>ww_lists := INIT_LIST_HEAD head (ww_lists w),
       ww_queues := (ww_queues w)(i \<mapsto> \<lparr>wq_queue = head, wq_running = True, wq_done = False\<rparr>)\<rparr>)
     else (None, w))"

text \<open>A NULL queue or work is \<open>None\<close> of the argument; a queue that does not exist (freed) or a NULL
  link followed is the result \<open>None\<close>.\<close>

definition queue_work :: "nat option \<Rightarrow> node option \<Rightarrow> work_world \<Rightarrow> (bool \<times> work_world) option" where
  "queue_work wqp wkp w =
    (case (wqp, wkp) of
       (Some i, Some work) \<Rightarrow> do {
         wq \<leftarrow> ww_queues w i;
         if ww_pending w work then Some (False, w)
         else do {
           let w = w\<lparr>ww_pending := (ww_pending w)(work := True)\<rparr>;
           s \<leftarrow> list_add_tail work (wq_queue wq) (ww_lists w);
           Some (True, w\<lparr>ww_lists := s\<rparr>) }}
     | _ \<Rightarrow> Some (False, w))"

text \<open>One turn of the worker: it sleeps, or takes a work item off the queue and calls its function
  without the lock, or ends.\<close>

datatype worker_action = Sleep | Run node | Exit

definition wq_thread_fn :: "nat \<Rightarrow> work_world \<Rightarrow> (worker_action \<times> work_world) option" where
  "wq_thread_fn i w = do {
     wq \<leftarrow> ww_queues w i;
     if wq_running wq \<or> \<not> list_empty (wq_queue wq) (ww_lists w)
     then if list_empty (wq_queue wq) (ww_lists w) then Some (Sleep, w)
       else do {
         work \<leftarrow> lnext (ww_lists w) (wq_queue wq);
         s \<leftarrow> list_del work (ww_lists w);
         Some (Run work, w\<lparr>ww_lists := s, ww_pending := (ww_pending w)(work := False)\<rparr>) }
     else Some (Exit, w\<lparr>ww_queues := (ww_queues w)(i \<mapsto> wq\<lparr>wq_done := True\<rparr>)\<rparr>) }"

text \<open>\<open>destroy_workqueue\<close> stops the worker, and frees the queue once the worker is done.\<close>

definition destroy_begin :: "nat \<Rightarrow> work_world \<Rightarrow> work_world option" where
  "destroy_begin i w = do {
     wq \<leftarrow> ww_queues w i; Some (w\<lparr>ww_queues := (ww_queues w)(i \<mapsto> wq\<lparr>wq_running := False\<rparr>)\<rparr>) }"

definition destroy_end :: "nat \<Rightarrow> work_world \<Rightarrow> work_world option" where
  "destroy_end i w = do {
     wq \<leftarrow> ww_queues w i;
     if wq_done wq then Some (w\<lparr>ww_queues := (ww_queues w)(i := None)\<rparr>) else None }"

definition cancel_work_sync :: "node \<Rightarrow> work_world \<Rightarrow> bool \<times> work_world" where
  "cancel_work_sync work w = (True, w\<lparr>ww_pending := (ww_pending w)(work := False)\<rparr>)"

text \<open>\<open>flush_workqueue\<close> returns at the first of its at most 1000 looks that finds the queue empty;
  \<open>looks\<close> are the worlds it sees.\<close>

definition flush_workqueue :: "nat option \<Rightarrow> work_world list \<Rightarrow> nat option" where
  "flush_workqueue wqp looks =
    (case wqp of None \<Rightarrow> Some 0
     | Some i \<Rightarrow> do {
         empties \<leftarrow> those (map (\<lambda>w. do { wq \<leftarrow> ww_queues w i; Some (list_empty (wq_queue wq) (ww_lists w)) })
           (take 1000 looks));
         Some (length (takeWhile Not empties)) })"

definition flush_work :: "node \<Rightarrow> work_world list \<Rightarrow> nat" where
  "flush_work work looks = length (takeWhile (\<lambda>w. ww_pending w work) (take 200 looks))"

section \<open>The invariant\<close>

text \<open>\<open>wq_inv w c\<close>: queue \<open>i\<close> holds the work items \<open>c i\<close>; lists and heads are disjoint; a work item
  is pending exactly when it is on some queue.\<close>

definition on_queue :: "(nat \<Rightarrow> workqueue_struct option) \<Rightarrow> (nat \<Rightarrow> node list) \<Rightarrow> nat \<Rightarrow> node set" where
  "on_queue qs c i = (case qs i of None \<Rightarrow> {} | Some wq \<Rightarrow> insert (wq_queue wq) (set (c i)))"

definition wq_inv :: "work_world \<Rightarrow> (nat \<Rightarrow> node list) \<Rightarrow> bool" where
  "wq_inv w c \<longleftrightarrow>
    (\<forall>i wq. ww_queues w i = Some wq \<longrightarrow> dll (ww_lists w) (wq_queue wq) (c i)) \<and>
    (\<forall>i j. i \<noteq> j \<longrightarrow> on_queue (ww_queues w) c i \<inter> on_queue (ww_queues w) c j = {}) \<and>
    (\<forall>n. ww_pending w n \<longleftrightarrow> (\<exists>i wq. ww_queues w i = Some wq \<and> n \<in> set (c i)))"

text \<open>Lists that share no node with the one changed are not disturbed.\<close>

lemma dll_frame:
  assumes "dll s h xs" "\<And>a. a \<in> set (h # xs) \<Longrightarrow> lnext s' a = lnext s a \<and> lprev s' a = lprev s a"
  shows "dll s' h xs"
proof -
  have "links s (h # xs @ [h]) = links s' (h # xs @ [h])"
  proof (rule links_cong)
    fix a assume "a \<in> set (butlast (h # xs @ [h]))"
    then have "a \<in> set (h # xs)" by (auto dest: in_set_butlastD)
    then show "lnext s a = lnext s' a" using assms(2) by simp
  next
    fix a assume "a \<in> set (tl (h # xs @ [h]))"
    then have "a \<in> set (h # xs)" by auto
    then show "lprev s a = lprev s' a" using assms(2) by simp
  qed
  with assms(1) show ?thesis by (simp add: dll_def)
qed

lemma list_add_tail_other:
  assumes "dll s h xs" "list_add_tail n h s = Some s'" "a \<notin> set (n # h # xs)"
  shows "lnext s' a = lnext s a \<and> lprev s' a = lprev s a"
proof -
  have "last (h # xs) \<in> set (h # xs)" by (rule last_in_set) simp
  then have "a \<noteq> last (h # xs)" using assms(3) by auto
  with dll_prev[OF assms(1)] assms(2,3) show ?thesis by (auto simp: list_add_tail_def)
qed

lemma list_del_first_other:
  assumes "dll s h (n # xs)" "list_del n s = Some s'" "a \<notin> set (h # n # xs)"
  shows "lnext s' a = lnext s a \<and> lprev s' a = lprev s a"
proof -
  have "lprev s n = Some h" "lnext s n = Some (hd (xs @ [h]))" "n \<noteq> h" using assms(1) by (cases xs; simp add: dll_def)+
  moreover have "a \<noteq> hd (xs @ [h])" using assms(3) by (cases xs) auto
  ultimately show ?thesis using assms(2,3) by (auto simp: list_del_def Let_def)
qed


lemma wq_inv_dll: "wq_inv w c \<Longrightarrow> ww_queues w i = Some wq \<Longrightarrow> dll (ww_lists w) (wq_queue wq) (c i)"
  by (simp add: wq_inv_def)

lemma wq_inv_disjoint:
  "wq_inv w c \<Longrightarrow> ww_queues w i = Some wq \<Longrightarrow> ww_queues w j = Some wq' \<Longrightarrow> i \<noteq> j \<Longrightarrow>
   set (wq_queue wq # c i) \<inter> set (wq_queue wq' # c j) = {}"
proof -
  assume a: "wq_inv w c" "ww_queues w i = Some wq" "ww_queues w j = Some wq'" "i \<noteq> j"
  then have "on_queue (ww_queues w) c i \<inter> on_queue (ww_queues w) c j = {}" unfolding wq_inv_def by blast
  with a(2,3) show ?thesis by (simp only: on_queue_def option.case set_simps)
qed

lemma wq_inv_pending: "wq_inv w c \<Longrightarrow> ww_pending w n \<longleftrightarrow> (\<exists>i wq. ww_queues w i = Some wq \<and> n \<in> set (c i))"
  by (simp add: wq_inv_def)

definition is_head :: "work_world \<Rightarrow> node \<Rightarrow> bool" where
  "is_head w n \<longleftrightarrow> (\<exists>i wq. ww_queues w i = Some wq \<and> wq_queue wq = n)"

lemma queue_work_pending:
  "ww_queues w i = Some wq \<Longrightarrow> ww_pending w n \<Longrightarrow> queue_work (Some i) (Some n) w = Some (False, w)"
  by (simp add: queue_work_def)

lemma queue_work_idle:
  assumes inv: "wq_inv w c" and i: "ww_queues w i = Some wq" and n: "\<not> ww_pending w n" "\<not> is_head w n"
  shows "\<exists>w'. queue_work (Some i) (Some n) w = Some (True, w') \<and> wq_inv w' (c(i := c i @ [n])) \<and>
    ww_queues w' = ww_queues w"
proof -
  have nc: "n \<notin> set (c j)" if "ww_queues w j = Some q" for j q using n(1) that wq_inv_pending[OF inv] by blast
  have nh: "n \<noteq> wq_queue q" if "ww_queues w j = Some q" for j q using n(2) that by (auto simp: is_head_def)
  let ?h = "wq_queue wq"
  have d: "dll (ww_lists w) ?h (c i)" by (rule wq_inv_dll[OF inv i])
  obtain s' where s': "list_add_tail n ?h (ww_lists w) = Some s'" "dll s' ?h (c i @ [n])"
    using list_add_tail[OF d, of n] nc[OF i] nh[OF i] by auto
  define w' where "w' = w\<lparr>ww_pending := (ww_pending w)(n := True), ww_lists := s'\<rparr>"
  have "queue_work (Some i) (Some n) w = Some (True, w')"
    using i n(1) s'(1) by (simp add: queue_work_def w'_def)
  moreover have "wq_inv w' (c(i := c i @ [n]))"
    unfolding wq_inv_def
  proof (intro conjI allI impI)
    fix j q assume j: "ww_queues w' j = Some q"
    show "dll (ww_lists w') (wq_queue q) ((c(i := c i @ [n])) j)"
    proof (cases "j = i")
      case True then show ?thesis using j i s'(2) by (simp add: w'_def)
    next
      case False
      have j: "ww_queues w j = Some q" using j by (simp add: w'_def)
      have "dll s' (wq_queue q) (c j)"
      proof (rule dll_frame[OF wq_inv_dll[OF inv j]])
        fix a assume "a \<in> set (wq_queue q # c j)"
        then have "a \<notin> set (n # ?h # c i)" using wq_inv_disjoint[OF inv i j] False nc[OF j] nh[OF j] by auto
        then show "lnext s' a = lnext (ww_lists w) a \<and> lprev s' a = lprev (ww_lists w) a"
          by (rule list_add_tail_other[OF d s'(1)])
      qed
      then show ?thesis using False by (simp add: w'_def)
    qed
  next
    fix k l :: nat assume "k \<noteq> l"
    then have "on_queue (ww_queues w) c k \<inter> on_queue (ww_queues w) c l = {}" using inv by (simp add: wq_inv_def)
    moreover have "n \<notin> on_queue (ww_queues w) c j" for j
      using nc nh by (auto simp: on_queue_def split: option.splits)
    moreover have "on_queue (ww_queues w') (c(i := c i @ [n])) j =
        (if j = i then insert n (on_queue (ww_queues w) c j) else on_queue (ww_queues w) c j)" for j
      using i by (auto simp: on_queue_def w'_def split: option.splits)
    ultimately show "on_queue (ww_queues w') (c(i := c i @ [n])) k \<inter> on_queue (ww_queues w') (c(i := c i @ [n])) l = {}"
      using \<open>k \<noteq> l\<close> by auto
  next
    fix m
    show "ww_pending w' m \<longleftrightarrow> (\<exists>j q. ww_queues w' j = Some q \<and> m \<in> set ((c(i := c i @ [n])) j))"
      using i wq_inv_pending[OF inv, of m] by (auto simp: w'_def)
  qed
  ultimately show ?thesis by (auto simp: w'_def)
qed

lemma wq_thread_fn_run:
  assumes inv: "wq_inv w c" and i: "ww_queues w i = Some wq" and ci: "c i = n # ns"
  shows "\<exists>w'. wq_thread_fn i w = Some (Run n, w') \<and> wq_inv w' (c(i := ns)) \<and> ww_queues w' = ww_queues w \<and>
    \<not> ww_pending w' n"
proof -
  let ?h = "wq_queue wq"
  have d: "dll (ww_lists w) ?h (n # ns)" using wq_inv_dll[OF inv i] ci by simp
  obtain s' where s': "list_del n (ww_lists w) = Some s'" "dll s' ?h ns"
    using list_del[of "ww_lists w" ?h "[]" n ns] d by auto
  define w' where "w' = w\<lparr>ww_lists := s', ww_pending := (ww_pending w)(n := False)\<rparr>"
  have "wq_thread_fn i w = Some (Run n, w')"
    using i s'(1) dll_empty[OF d] dll_next[OF d] by (simp add: wq_thread_fn_def w'_def)
  moreover have "wq_inv w' (c(i := ns))"
    unfolding wq_inv_def
  proof (intro conjI allI impI)
    fix j q assume j: "ww_queues w' j = Some q"
    show "dll (ww_lists w') (wq_queue q) ((c(i := ns)) j)"
    proof (cases "j = i")
      case True then show ?thesis using j i s'(2) by (simp add: w'_def)
    next
      case False
      have j: "ww_queues w j = Some q" using j by (simp add: w'_def)
      have "dll s' (wq_queue q) (c j)"
      proof (rule dll_frame[OF wq_inv_dll[OF inv j]])
        fix a assume "a \<in> set (wq_queue q # c j)"
        then have "a \<notin> set (?h # n # ns)" using wq_inv_disjoint[OF inv i j] False ci by auto
        then show "lnext s' a = lnext (ww_lists w) a \<and> lprev s' a = lprev (ww_lists w) a"
          by (rule list_del_first_other[OF d s'(1)])
      qed
      then show ?thesis using False by (simp add: w'_def)
    qed
  next
    fix k l :: nat assume "k \<noteq> l"
    then have "on_queue (ww_queues w) c k \<inter> on_queue (ww_queues w) c l = {}" using inv by (simp add: wq_inv_def)
    moreover have "on_queue (ww_queues w') (c(i := ns)) j \<subseteq> on_queue (ww_queues w) c j" for j
      using ci by (auto simp: on_queue_def w'_def split: option.splits)
    ultimately show "on_queue (ww_queues w') (c(i := ns)) k \<inter> on_queue (ww_queues w') (c(i := ns)) l = {}"
      by blast
  next
    fix m
    have "n \<notin> set ns" using d by (simp add: dll_def)
    moreover have "n \<notin> set (c j)" if "j \<noteq> i" "ww_queues w j = Some q" for j q
      using wq_inv_disjoint[OF inv i that(2)] that(1) ci by auto
    ultimately have 1: "m \<in> set ((c(i := ns)) j) \<longleftrightarrow> m \<in> set (c j) \<and> m \<noteq> n" if "ww_queues w j = Some q" for j q
      using that ci by auto
    have 2: "ww_pending w' m \<longleftrightarrow> m \<noteq> n \<and> ww_pending w m" "ww_queues w' = ww_queues w"
      by (simp_all add: w'_def)
    show "ww_pending w' m \<longleftrightarrow> (\<exists>j q. ww_queues w' j = Some q \<and> m \<in> set ((c(i := ns)) j))"
      unfolding 2 wq_inv_pending[OF inv, of m] using 1 by blast
  qed
  ultimately show ?thesis by (auto simp: w'_def)
qed

lemma wq_thread_fn_empty:
  assumes "wq_inv w c" "ww_queues w i = Some wq" "c i = []"
  shows "wq_thread_fn i w = Some (if wq_running wq then (Sleep, w)
    else (Exit, w\<lparr>ww_queues := (ww_queues w)(i \<mapsto> wq\<lparr>wq_done := True\<rparr>)\<rparr>))"
  using assms dll_empty[OF wq_inv_dll[OF assms(1,2)]] by (simp add: wq_thread_fn_def)


section \<open>Executions\<close>

datatype wq_event =
    EvAlloc nat node | EvQueue nat node bool | EvWorker nat worker_action
  | EvDestroyBegin nat | EvDestroyEnd nat

text \<open>The steps of the drivers and the workers, in any interleaving.  A work item is not the head of
  a queue, a new queue's head is new, and nothing is queued on a queue whose worker has ended.\<close>

inductive wq_step :: "work_world \<Rightarrow> wq_event \<Rightarrow> work_world \<Rightarrow> bool" where
  alloc: "ww_queues w i = None \<Longrightarrow> \<not> is_head w h \<Longrightarrow> \<not> ww_pending w h \<Longrightarrow>
    alloc_workqueue True i h w = (r, w') \<Longrightarrow> wq_step w (EvAlloc i h) w'"
| queue: "ww_queues w i = Some wq \<Longrightarrow> \<not> wq_done wq \<Longrightarrow> \<not> is_head w n \<Longrightarrow>
    queue_work (Some i) (Some n) w = Some (b, w') \<Longrightarrow> wq_step w (EvQueue i n b) w'"
| worker: "ww_queues w i = Some wq \<Longrightarrow> \<not> wq_done wq \<Longrightarrow> wq_thread_fn i w = Some (a, w') \<Longrightarrow>
    wq_step w (EvWorker i a) w'"
| destroy_begin: "destroy_begin i w = Some w' \<Longrightarrow> wq_step w (EvDestroyBegin i) w'"
| destroy_end: "destroy_end i w = Some w' \<Longrightarrow> wq_step w (EvDestroyEnd i) w'"

inductive_cases wq_stepE [elim]:
  "wq_step w (EvAlloc i h) w'" "wq_step w (EvQueue i n b) w'" "wq_step w (EvWorker i a) w'"
  "wq_step w (EvDestroyBegin i) w'" "wq_step w (EvDestroyEnd i) w'"

inductive wq_run :: "work_world \<Rightarrow> wq_event list \<Rightarrow> work_world \<Rightarrow> bool" where
  init: "ww_queues w = Map.empty \<Longrightarrow> ww_pending w = (\<lambda>_. False) \<Longrightarrow> wq_run w [] w"
| step: "wq_run w0 evs w \<Longrightarrow> wq_step w e w' \<Longrightarrow> wq_run w0 (evs @ [e]) w'"

text \<open>The work accepted by a queue and the work its worker ran.\<close>

fun accepted :: "nat \<Rightarrow> wq_event \<Rightarrow> node list" where
  "accepted i (EvQueue j n True) = (if i = j then [n] else [])"
| "accepted i _ = []"

fun ran :: "nat \<Rightarrow> wq_event \<Rightarrow> node list" where
  "ran i (EvWorker j (Run n)) = (if i = j then [n] else [])"
| "ran i _ = []"

definition wq_ok :: "work_world \<Rightarrow> (nat \<Rightarrow> node list) \<Rightarrow> bool" where
  "wq_ok w c \<longleftrightarrow> wq_inv w c \<and>
    (\<forall>i. case ww_queues w i of None \<Rightarrow> c i = [] | Some wq \<Rightarrow> wq_done wq \<longrightarrow> c i = [])"

lemma wq_inv_queues:
  assumes "wq_inv w c" "\<And>j. map_option wq_queue (qs j) = map_option wq_queue (ww_queues w j)"
  shows "wq_inv (w\<lparr>ww_queues := qs\<rparr>) c"
proof -
  have 1: "\<exists>q'. ww_queues w j = Some q' \<and> wq_queue q' = wq_queue q" if "qs j = Some q" for j q
    using assms(2)[of j] that by (cases "ww_queues w j") simp_all
  have 2: "\<exists>q'. qs j = Some q'" if "ww_queues w j = Some q" for j q
    using assms(2)[of j] that by (cases "qs j") simp_all
  have "on_queue qs c j = on_queue (ww_queues w) c j" for j
    using assms(2)[of j] by (cases "qs j"; cases "ww_queues w j") (simp_all add: on_queue_def)
  moreover have "dll (ww_lists w) (wq_queue q) (c j)" if "qs j = Some q" for j q
    using 1[OF that] assms(1) by (auto dest: wq_inv_dll)
  moreover have "ww_pending w n \<longleftrightarrow> (\<exists>j q. qs j = Some q \<and> n \<in> set (c j))" for n
    unfolding wq_inv_pending[OF assms(1)] using 1 2 by blast
  ultimately show ?thesis using assms(1) by (simp add: wq_inv_def)
qed

lemma wq_ok_new_queue:
  assumes ok: "wq_ok w c" and i: "ww_queues w i = None" and h: "\<not> is_head w h" "\<not> ww_pending w h"
  shows "wq_ok (snd (alloc_workqueue True i h w)) c"
proof -
  define w' where "w' = snd (alloc_workqueue True i h w)"
  have inv: "wq_inv w c" and ci: "c i = []" using ok i by (auto simp: wq_ok_def dest: spec[of _ i])
  have q: "ww_queues w' = (ww_queues w)(i \<mapsto> \<lparr>wq_queue = h, wq_running = True, wq_done = False\<rparr>)"
    and s: "ww_lists w' = INIT_LIST_HEAD h (ww_lists w)" "ww_pending w' = ww_pending w"
    by (simp_all add: w'_def alloc_workqueue_def)
  have nh: "h \<notin> set (wq_queue q # c j)" if "ww_queues w j = Some q" for j q
  proof -
    have "h \<noteq> wq_queue q" using that h(1) by (auto simp: is_head_def)
    moreover have "h \<notin> set (c j)" using that h(2) wq_inv_pending[OF inv, of h] by blast
    ultimately show ?thesis by simp
  qed
  have "wq_inv w' c" unfolding wq_inv_def
  proof (intro conjI allI impI)
    fix j q' assume j: "ww_queues w' j = Some q'"
    show "dll (ww_lists w') (wq_queue q') (c j)"
    proof (cases "j = i")
      case True
      then show ?thesis using j ci q s dll_init[of h] by auto
    next
      case False
      then have j: "ww_queues w j = Some q'" using j q by simp
      show ?thesis
        by (rule dll_frame[OF wq_inv_dll[OF inv j]]) (use nh[OF j] in \<open>auto simp: s INIT_LIST_HEAD_def\<close>)
    qed
  next
    fix k l :: nat assume "k \<noteq> l"
    then have "on_queue (ww_queues w) c k \<inter> on_queue (ww_queues w) c l = {}" using inv by (simp add: wq_inv_def)
    moreover have "h \<notin> on_queue (ww_queues w) c j" for j
      using nh by (auto simp: on_queue_def split: option.splits)
    moreover have "on_queue (ww_queues w') c j = (if j = i then {h} else on_queue (ww_queues w) c j)" for j
      using ci by (simp add: on_queue_def q)
    ultimately show "on_queue (ww_queues w') c k \<inter> on_queue (ww_queues w') c l = {}" using \<open>k \<noteq> l\<close> by auto
  next
    fix m
    have "n \<notin> set (c i)" for n using ci by simp
    then show "ww_pending w' m \<longleftrightarrow> (\<exists>j q. ww_queues w' j = Some q \<and> m \<in> set (c j))"
      using i unfolding s wq_inv_pending[OF inv] q by (auto split: if_splits) (metis fun_upd_other option.discI)
  qed
  then show ?thesis using ok ci unfolding w'_def[symmetric] by (simp add: wq_ok_def q)
qed

lemma wq_ok_upd:
  assumes "wq_ok w c" "ww_queues w i = Some wq" "\<not> wq_done wq"
    "wq_inv w' (c(i := xs))" "ww_queues w' = ww_queues w"
  shows "wq_ok w' (c(i := xs))"
  unfolding wq_ok_def
proof (intro conjI allI)
  fix j
  have "case ww_queues w j of None \<Rightarrow> c j = [] | Some wq \<Rightarrow> wq_done wq \<longrightarrow> c j = []"
    using assms(1) by (simp add: wq_ok_def)
  then show "case ww_queues w' j of None \<Rightarrow> (c(i := xs)) j = [] | Some wq \<Rightarrow> wq_done wq \<longrightarrow> (c(i := xs)) j = []"
    using assms(2,3,5) by (cases "j = i") (simp_all split: option.splits)
qed (rule assms(4))

lemma wq_ok_step:
  assumes "wq_step w e w'" "wq_ok w c"
  shows "\<exists>c'. wq_ok w' c' \<and> (\<forall>i. c i @ accepted i e = ran i e @ c' i)"
  using assms
proof cases
  case (alloc i h r)
  then show ?thesis using wq_ok_new_queue[OF assms(2), of i h] by (intro exI[of _ c]) simp
next
  case (queue i wq n b)
  have inv: "wq_inv w c" using assms(2) by (simp add: wq_ok_def)
  show ?thesis
  proof (cases "ww_pending w n")
    case True
    then show ?thesis using queue queue_work_pending[OF queue(2) True] assms(2) by auto
  next
    case False
    from queue_work_idle[OF inv queue(2) False queue(4)] queue(5)
    have "b = True" "wq_inv w' (c(i := c i @ [n]))" "ww_queues w' = ww_queues w" by auto
    with wq_ok_upd[OF assms(2) queue(2,3)] queue show ?thesis
      by (intro exI[of _ "c(i := c i @ [n])"]) auto
  qed
next
  case (worker i wq a)
  have inv: "wq_inv w c" using assms(2) by (simp add: wq_ok_def)
  show ?thesis
  proof (cases "c i")
    case Nil
    let ?w = "w\<lparr>ww_queues := (ww_queues w)(i \<mapsto> wq\<lparr>wq_done := True\<rparr>)\<rparr>"
    have "wq_inv ?w c" by (rule wq_inv_queues[OF inv]) (simp add: worker(2))
    with Nil assms(2) have "wq_ok ?w c" by (simp add: wq_ok_def)
    then show ?thesis using worker wq_thread_fn_empty[OF inv worker(2) Nil] assms(2)
      by (intro exI[of _ c]) (auto split: if_splits)
  next
    case (Cons n ns)
    from wq_thread_fn_run[OF inv worker(2) Cons] worker(4)
    have "a = Run n" "wq_inv w' (c(i := ns))" "ww_queues w' = ww_queues w" by auto
    with wq_ok_upd[OF assms(2) worker(2,3)] worker Cons show ?thesis
      by (intro exI[of _ "c(i := ns)"]) auto
  qed
next
  case (destroy_begin i)
  then obtain wq where wq: "ww_queues w i = Some wq"
    and w': "w' = w\<lparr>ww_queues := (ww_queues w)(i \<mapsto> wq\<lparr>wq_running := False\<rparr>)\<rparr>"
    by (auto simp: destroy_begin_def split: bind_splits)
  have "wq_inv w' c" unfolding w'
    by (rule wq_inv_queues) (use assms(2) wq in \<open>simp_all add: wq_ok_def\<close>)
  then have "wq_ok w' c" using assms(2) wq by (auto simp: wq_ok_def w' dest: spec[of _ i])
  then show ?thesis using destroy_begin by (intro exI[of _ c]) simp
next
  case (destroy_end i)
  then obtain wq where wq: "ww_queues w i = Some wq" "wq_done wq"
    and w': "w' = w\<lparr>ww_queues := (ww_queues w)(i := None)\<rparr>"
    by (auto simp: destroy_end_def split: bind_splits if_splits)
  have inv: "wq_inv w c" and ci: "c i = []" using assms(2) wq by (auto simp: wq_ok_def dest: spec[of _ i])
  have "wq_inv w' c" unfolding wq_inv_def
  proof (intro conjI allI impI)
    fix j q assume "ww_queues w' j = Some q"
    then show "dll (ww_lists w') (wq_queue q) (c j)"
      using wq_inv_dll[OF inv] by (auto simp: w' split: if_splits)
  next
    fix k l :: nat assume "k \<noteq> l"
    then have "on_queue (ww_queues w) c k \<inter> on_queue (ww_queues w) c l = {}" using inv by (simp add: wq_inv_def)
    then show "on_queue (ww_queues w') c k \<inter> on_queue (ww_queues w') c l = {}"
      by (auto simp: on_queue_def w' split: option.splits)
  next
    fix m
    have "n \<notin> set (c i)" for n using ci by simp
    then show "ww_pending w' m \<longleftrightarrow> (\<exists>j q. ww_queues w' j = Some q \<and> m \<in> set (c j))"
      using wq_inv_pending[OF inv, of m] unfolding w' by (auto split: if_splits) (metis fun_upd_other)
  qed
  then have "wq_ok w' c" using assms(2) ci by (auto simp: wq_ok_def w')
  then show ?thesis using destroy_end by (intro exI[of _ c]) simp
qed


lemma wq_run_ok:
  "wq_run w0 evs w \<Longrightarrow> \<exists>c. wq_ok w c \<and> (\<forall>i. concat (map (accepted i) evs) = concat (map (ran i) evs) @ c i)"
proof (induction rule: wq_run.induct)
  case (init w)
  then have "wq_ok w (\<lambda>_. [])" by (simp add: wq_ok_def wq_inv_def on_queue_def)
  then show ?case by (intro exI[of _ "\<lambda>_. []"]) simp
next
  case (step w0 evs w e w')
  then obtain c c' where "wq_ok w' c'" "\<And>i. c i @ accepted i e = ran i e @ c' i"
    "\<And>i. concat (map (accepted i) evs) = concat (map (ran i) evs) @ c i"
    using wq_ok_step by meson
  then show ?case by (intro exI[of _ c']) simp
qed


definition work_world0 :: work_world where
  "work_world0 = \<lparr>ww_lists = \<lparr>lnext = Map.empty, lprev = Map.empty\<rparr>, ww_pending = (\<lambda>_. False),
     ww_queues = Map.empty\<rparr>"

lemma wq_run0: "wq_run work_world0 [] work_world0"
  by (rule wq_run.init) (simp_all add: work_world0_def)

lemma wq_run_alloc: "wq_run work_world0 [EvAlloc 0 100] (snd (alloc_workqueue True 0 100 work_world0))"
  using wq_run.step[OF wq_run0, of "EvAlloc 0 100"] wq_step.alloc[of work_world0 0 100]
  by (simp add: work_world0_def is_head_def alloc_workqueue_def)

lemma demo_queue_ok: "wq_ok (snd (alloc_workqueue True 0 100 work_world0)) (\<lambda>_. [])"
proof -
  have "wq_ok work_world0 (\<lambda>_. [])" by (simp add: work_world0_def wq_ok_def wq_inv_def on_queue_def)
  from wq_ok_new_queue[OF this, of 0 100] show ?thesis by (simp add: work_world0_def is_head_def)
qed

lemma demo_queue:
  "wq_inv (snd (alloc_workqueue True 0 100 work_world0)) (\<lambda>_. [])"
  "ww_queues (snd (alloc_workqueue True 0 100 work_world0)) 0 =
     Some \<lparr>wq_queue = 100, wq_running = True, wq_done = False\<rparr>"
  "\<not> ww_pending (snd (alloc_workqueue True 0 100 work_world0)) 7"
  "\<not> is_head (snd (alloc_workqueue True 0 100 work_world0)) 7"
  using demo_queue_ok by (simp_all add: wq_ok_def alloc_workqueue_def work_world0_def is_head_def)


section \<open>Destroying a queue\<close>

text \<open>The worker from now until it sleeps (\<open>False\<close>) or ends (\<open>True\<close>), when its work queues no more.\<close>

fun worker_loop :: "nat \<Rightarrow> nat \<Rightarrow> work_world \<Rightarrow> (node list \<times> bool \<times> work_world) option" where
  "worker_loop 0 i w = None"
| "worker_loop (Suc fuel) i w = do {
     (a, w) \<leftarrow> wq_thread_fn i w;
     case a of Sleep \<Rightarrow> Some ([], False, w) | Exit \<Rightarrow> Some ([], True, w)
     | Run n \<Rightarrow> do { (ns, e, w) \<leftarrow> worker_loop fuel i w; Some (n # ns, e, w) } }"

lemma worker_loop_drains:
  assumes "wq_inv w c" "ww_queues w i = Some wq" "length (c i) < fuel"
  shows "\<exists>w'. worker_loop fuel i w = Some (c i, \<not> wq_running wq, w') \<and>
    ww_queues w' i = Some (if wq_running wq then wq else wq\<lparr>wq_done := True\<rparr>)"
  using assms
proof (induction fuel arbitrary: w c)
  case (Suc fuel)
  show ?case
  proof (cases "c i")
    case Nil
    then show ?thesis using wq_thread_fn_empty[OF Suc.prems(1,2) Nil] Suc.prems(2) by simp
  next
    case (Cons n ns)
    obtain w1 where w1: "wq_thread_fn i w = Some (Run n, w1)" "wq_inv w1 (c(i := ns))"
      "ww_queues w1 = ww_queues w"
      using wq_thread_fn_run[OF Suc.prems(1,2) Cons] by blast
    have "length ((c(i := ns)) i) < fuel" "ww_queues w1 i = Some wq"
      using Suc.prems(2,3) Cons w1(3) by simp_all
    from Suc.IH[OF w1(2) this(2,1)] w1(1) Cons show ?thesis by auto
  qed
qed simp

text \<open>\<open>destroy_workqueue\<close> does not drop work: after it has stopped the queue the worker runs every
  item still queued, in order, then reports that it is done, and the destruction completes.\<close>

theorem destroy_workqueue_drains:
  assumes "wq_inv w c" "ww_queues w i = Some wq" "length (c i) < fuel"
  shows "\<exists>w1 w2 w3. destroy_begin i w = Some w1 \<and> worker_loop fuel i w1 = Some (c i, True, w2) \<and>
    destroy_end i w2 = Some w3 \<and> ww_queues w3 i = None"
proof -
  let ?wq = "wq\<lparr>wq_running := False\<rparr>"
  let ?w1 = "w\<lparr>ww_queues := (ww_queues w)(i \<mapsto> ?wq)\<rparr>"
  have 1: "destroy_begin i w = Some ?w1" using assms(2) by (simp add: destroy_begin_def)
  have "wq_inv ?w1 c" by (rule wq_inv_queues[OF assms(1)]) (simp add: assms(2))
  from worker_loop_drains[OF this, of i ?wq fuel] assms(3) obtain w2
    where "worker_loop fuel i ?w1 = Some (c i, True, w2)" "ww_queues w2 i = Some (?wq\<lparr>wq_done := True\<rparr>)"
    by auto
  with 1 show ?thesis by (auto simp: destroy_end_def)
qed

lemma destroy_workqueue_drains_witness:
  "\<exists>w w1 w2 w3. destroy_begin 0 w = Some w1 \<and> worker_loop 2 0 w1 = Some ([7], True, w2) \<and>
    destroy_end 0 w2 = Some w3 \<and> ww_queues w3 0 = None"
proof -
  define w where "w = snd (alloc_workqueue True 0 100 work_world0)"
  have inv: "wq_inv w (\<lambda>_. [])" using demo_queue(1) by (simp add: w_def)
  have i: "ww_queues w 0 = Some \<lparr>wq_queue = 100, wq_running = True, wq_done = False\<rparr>"
    using demo_queue(2) by (simp add: w_def)
  obtain w' where "wq_inv w' ((\<lambda>_. [])(0 := [] @ [7]))" "ww_queues w' = ww_queues w"
    using queue_work_idle[OF inv i, of 7] demo_queue(3,4) unfolding w_def by blast
  with i destroy_workqueue_drains[of w' "(\<lambda>_. [])(0 := [] @ [7])" 0 _ 2] show ?thesis by auto
qed

section \<open>Cancelling\<close>

text \<open>C12. \<open>cancel_work_sync\<close> clears the pending flag of a queued work item but leaves it on the queue:
  when the item is queued again the list becomes a cycle, the worker runs the item once and its
  next turn follows a NULL link.\<close>

theorem cancel_then_requeue_crashes_worker:
  assumes "wq_inv w c" "ww_queues w i = Some wq" "c i = []" "\<not> ww_pending w n" "\<not> is_head w n"
  shows "\<exists>w1 w2 w3 w4. queue_work (Some i) (Some n) w = Some (True, w1) \<and>
    cancel_work_sync n w1 = (True, w2) \<and> queue_work (Some i) (Some n) w2 = Some (True, w3) \<and>
    wq_thread_fn i w3 = Some (Run n, w4) \<and> wq_thread_fn i w4 = None"
proof -
  let ?h = "wq_queue wq"
  have nh: "n \<noteq> ?h" using assms(2,5) by (auto simp: is_head_def)
  obtain w1 where w1: "queue_work (Some i) (Some n) w = Some (True, w1)" "wq_inv w1 (c(i := [n]))"
    "ww_queues w1 = ww_queues w"
    using queue_work_idle[OF assms(1,2,4,5)] assms(3) by auto
  have d: "dll (ww_lists w1) ?h [n]" using wq_inv_dll[OF w1(2), of i wq] w1(3) assms(2) by simp
  define w2 where "w2 = w1\<lparr>ww_pending := (ww_pending w1)(n := False)\<rparr>"
  define w3 where "w3 = w2\<lparr>ww_pending := (ww_pending w2)(n := True), ww_lists := list_add_raw n n ?h (ww_lists w1)\<rparr>"
  have 3: "queue_work (Some i) (Some n) w2 = Some (True, w3)"
    using dll_prev[OF d] w1(3) assms(2)
    by (simp add: queue_work_def list_add_tail_def w2_def w3_def)
  have nx: "lnext (ww_lists w3) ?h = Some n" "lnext (ww_lists w3) n = Some n" "lprev (ww_lists w3) n = Some n"
    using dll_next[OF d] nh by (simp_all add: w3_def)
  define s4 where "s4 = (ww_lists w3)\<lparr>lnext := ((lnext (ww_lists w3))(n := Some n))(n := None),
    lprev := ((lprev (ww_lists w3))(n := Some n))(n := None)\<rparr>"
  define w4 where "w4 = w3\<lparr>ww_lists := s4, ww_pending := (ww_pending w3)(n := False)\<rparr>"
  have q: "ww_queues w3 i = Some wq" "ww_queues w4 i = Some wq"
    using w1(3) assms(2) by (simp_all add: w4_def w3_def w2_def)
  have "wq_thread_fn i w3 = Some (Run n, w4)"
    using q(1) nx nh by (simp add: wq_thread_fn_def list_empty_def list_del_def Let_def w4_def s4_def)
  moreover have "wq_thread_fn i w4 = None"
    using q(2) nx nh by (simp add: wq_thread_fn_def list_empty_def list_del_def w4_def s4_def)
  ultimately show ?thesis using w1(1) 3 by (auto simp: cancel_work_sync_def w2_def)
qed

lemma cancel_then_requeue_crashes_worker_witness:
  "\<exists>w w1 w2 w3 w4. queue_work (Some 0) (Some 7) w = Some (True, w1) \<and>
    cancel_work_sync 7 w1 = (True, w2) \<and> queue_work (Some 0) (Some 7) w2 = Some (True, w3) \<and>
    wq_thread_fn 0 w3 = Some (Run 7, w4) \<and> wq_thread_fn 0 w4 = None"
proof -
  show ?thesis
    using cancel_then_requeue_crashes_worker[OF demo_queue(1,2) _ demo_queue(3,4)] by blast
qed

end
