(* ===== verification/Timers.thy ===== *)
theory Timers
  imports Workqueue
begin

text \<open>
  Timers and delayed work of \<open>src/compat/rtw88_compat.c\<close>.  A timer is backed by an XNU thread
  call, which lies outside the repository: the operations return the thread-call functions they
  call, in order, and the thread call may run \<open>timer_call_fn\<close> at any moment after it was entered,
  also after an attempt to cancel it.
\<close>

section \<open>Timers\<close>

text \<open>The callbacks: the one of delayed work carries the work item that \<open>from_timer\<close> recovers.\<close>

datatype timer_fn = DelayedWork node | OtherFn nat

record timer_list =
  tl_expires :: u64
  tl_function :: "timer_fn option"
  tl_call :: bool
  tl_active :: bool

datatype thread_call_op =
  TcAllocate | TcCancel | TcCancelWait | TcFree | TcEnterDelayed u32

definition timer_setup :: "timer_fn option \<Rightarrow> timer_list \<Rightarrow> thread_call_op list \<times> timer_list" where
  "timer_setup func t =
    ((if tl_call t then [TcCancel, TcFree] else []) @ [TcAllocate],
     t\<lparr>tl_function := func, tl_expires := 0, tl_active := False, tl_call := True\<rparr>)"

text \<open>The interval of the thread call: the signed distance to the deadline, at least 1, as 32 bits.\<close>

definition timer_delay :: "u64 \<Rightarrow> u64 \<Rightarrow> u32" where
  "timer_delay jiffies expires =
    (let delay_ms = expires - jiffies
     in if sint delay_ms \<le> 0 then 1 else ucast delay_ms)"

definition mod_timer :: "u64 \<Rightarrow> u64 \<Rightarrow> timer_list \<Rightarrow> bool \<times> thread_call_op list \<times> timer_list" where
  "mod_timer jiffies expires t =
    (tl_active t,
     (if tl_call t then [] else [TcAllocate]) @ [TcEnterDelayed (timer_delay jiffies expires)],
     t\<lparr>tl_call := True, tl_expires := expires, tl_active := True\<rparr>)"

definition del_timer :: "timer_list \<Rightarrow> bool \<times> thread_call_op list \<times> timer_list" where
  "del_timer t = (tl_active t, (if tl_call t then [TcCancel] else []), t\<lparr>tl_active := False\<rparr>)"

definition del_timer_sync :: "timer_list \<Rightarrow> thread_call_op list \<times> timer_list" where
  "del_timer_sync t =
    (let t = t\<lparr>tl_active := False\<rparr>
     in if tl_call t then ([TcCancelWait, TcFree], t\<lparr>tl_call := False\<rparr>) else ([], t))"

definition timer_pending :: "timer_list \<Rightarrow> bool" where
  "timer_pending t = tl_active t"

text \<open>The thread call's entry: the function it calls, when it calls one.\<close>

definition timer_call_fn :: "timer_list \<Rightarrow> timer_fn option \<times> timer_list" where
  "timer_call_fn t =
    (if tl_active t then (tl_function t, t\<lparr>tl_active := False\<rparr>) else (None, t))"

text \<open>A history of one timer, with the thread call firing at will.\<close>

datatype timer_event = Mod u64 u64 | Del | DelSync | Fire

fun timer_step :: "timer_event \<Rightarrow> timer_list \<Rightarrow> timer_fn list \<times> timer_list" where
  "timer_step (Mod j e) t = ([], snd (snd (mod_timer j e t)))"
| "timer_step Del t = ([], snd (snd (del_timer t)))"
| "timer_step DelSync t = ([], snd (del_timer_sync t))"
| "timer_step Fire t = (let (f, t) = timer_call_fn t in (case f of None \<Rightarrow> [] | Some g \<Rightarrow> [g], t))"

fun timer_run :: "timer_event list \<Rightarrow> timer_list \<Rightarrow> timer_fn list \<times> timer_list" where
  "timer_run [] t = ([], t)"
| "timer_run (e # es) t =
    (let (fs, t) = timer_step e t; (gs, t) = timer_run es t in (fs @ gs, t))"

fun is_mod :: "timer_event \<Rightarrow> bool" where
  "is_mod (Mod _ _) = True"
| "is_mod _ = False"

lemma timer_step_calls:
  "timer_step e t = (fs, t') \<Longrightarrow>
   length fs + (if tl_active t' then 1 else 0) \<le> (if is_mod e then 1 else 0) + (if tl_active t then 1 else 0)"
  by (cases e)
    (auto simp: mod_timer_def del_timer_def del_timer_sync_def timer_call_fn_def Let_def split: if_splits option.splits)

lemma timer_run_calls:
  "timer_run es t = (fs, t') \<Longrightarrow>
   length fs + (if tl_active t' then 1 else 0) \<le> length (filter is_mod es) + (if tl_active t then 1 else 0)"
proof (induction es arbitrary: t fs)
  case (Cons e es)
  obtain f1 t1 where 1: "timer_step e t = (f1, t1)" by (cases "timer_step e t")
  obtain f2 t2 where 2: "timer_run es t1 = (f2, t2)" by (cases "timer_run es t1")
  with 1 Cons.prems have "fs = f1 @ f2" "t2 = t'" by simp_all
  with timer_step_calls[OF 1] Cons.IH[of t1 f2] 2 show ?case by (auto split: if_splits)
qed simp

lemma timer_run_append:
  "timer_run (es @ es') t = (let (fs, t) = timer_run es t; (gs, t) = timer_run es' t in (fs @ gs, t))"
  by (induction es arbitrary: t) (simp_all split: prod.splits)

text \<open>A timer's function is called at most once per \<open>mod_timer\<close>, and a deleted timer stays silent
  however late its thread call runs: all the calls of a history that ends with a deletion and no
  later \<open>mod_timer\<close> were made before the deletion.\<close>

theorem deleted_timer_stays_silent:
  assumes "d \<in> {Del, DelSync}" "filter is_mod es' = []"
  shows "fst (timer_run (es @ d # es') (snd (timer_setup f t))) = fst (timer_run es (snd (timer_setup f t))) \<and>
    length (fst (timer_run es (snd (timer_setup f t)))) \<le> length (filter is_mod es)"
proof -
  define t0 where "t0 = snd (timer_setup f t)"
  obtain fs t1 where 1: "timer_run es t0 = (fs, t1)" by (cases "timer_run es t0")
  obtain f2 t2 where 2: "timer_step d t1 = (f2, t2)" by (cases "timer_step d t1")
  obtain f3 t3 where 3: "timer_run es' t2 = (f3, t3)" by (cases "timer_run es' t2")
  have "f2 = [] \<and> \<not> tl_active t2"
    using assms(1) 2 by (auto simp: del_timer_def del_timer_sync_def Let_def split: if_splits)
  moreover from this have "f3 = []" using timer_run_calls[OF 3] assms(2) by simp
  moreover have "\<not> tl_active t0" by (simp add: t0_def timer_setup_def)
  with timer_run_calls[OF 1] have "length fs \<le> length (filter is_mod es)" by (auto split: if_splits)
  ultimately show ?thesis using 1 2 3 by (simp add: timer_run_append flip: t0_def)
qed

lemma deleted_timer_stays_silent_witness:
  "fst (timer_run ([Mod 5 9, Fire, Fire, Mod 10 12] @ DelSync # [Fire, Fire])
      (snd (timer_setup (Some (OtherFn 1)) \<lparr>tl_expires = 0, tl_function = None, tl_call = False, tl_active = True\<rparr>))) =
    [OtherFn 1]"
  using deleted_timer_stays_silent[of DelSync "[Fire, Fire]" "[Mod 5 9, Fire, Fire, Mod 10 12]" "Some (OtherFn 1)"
      "\<lparr>tl_expires = 0, tl_function = None, tl_call = False, tl_active = True\<rparr>"]
  by (simp add: timer_setup_def mod_timer_def timer_call_fn_def)

text \<open>A timer set \<open>d\<close> jiffies ahead is armed for exactly \<open>d\<close> milliseconds, also when the deadline
  wraps around the 64-bit counter; a deadline that is now or in the past is armed for 1.\<close>

theorem timer_delay_exact:
  assumes "unat d < 2 ^ 32"
  shows "timer_delay j (j + d) = (if d = 0 then 1 else ucast d) \<and>
    unat (timer_delay j (j + d)) = (if d = 0 then 1 else unat d) \<and> timer_delay j (j - d) = 1"
proof -
  obtain n where n: "unat d = n" by simp
  have ud: "uint d = int n" unfolding n[symmetric] by simp
  have s: "sint d = int n"
    unfolding sint_uint ud using assms n by (intro signed_take_bit_int_eq_self) simp_all
  have "sint (- d) = - int n"
    unfolding sint_word_ariths s using assms n by (intro signed_take_bit_int_eq_self) simp_all
  moreover have "d = 0 \<longleftrightarrow> n = 0" unfolding n[symmetric] by (rule unat_eq_0[symmetric])
  moreover have "j - d - j = - d" by simp
  moreover have "unat (ucast d :: u32) = n" using assms n by (simp only: unat_ucast_mod) simp
  ultimately show ?thesis using s n by (simp add: timer_delay_def Let_def)
qed


lemma timer_delay_exact_witness:
  "timer_delay (- 5) (- 5 + 9) = 9 \<and> timer_delay (- 5) (- 5 + 9 :: u64) = (if (9 :: u64) = 0 then 1 else ucast (9 :: u64))"
  using timer_delay_exact[of 9 "- 5"] by simp

section \<open>Delayed work\<close>

text \<open>The world with the timers of the delayed works, a delayed work named by its work item, and
  \<open>system_wq\<close>.\<close>

record delayed_world =
  dw_work :: work_world
  dw_timer :: "node \<Rightarrow> timer_list"
  dw_system_wq :: "nat option"

definition delayed_work_timer_fn :: "node \<Rightarrow> delayed_world \<Rightarrow> (bool \<times> delayed_world) option" where
  "delayed_work_timer_fn work d = do {
     (b, w) \<leftarrow> queue_work (dw_system_wq d) (Some work) (dw_work d); Some (b, d\<lparr>dw_work := w\<rparr>) }"

definition queue_delayed_work :: "u64 \<Rightarrow> nat option \<Rightarrow> node option \<Rightarrow> u64 \<Rightarrow> delayed_world \<Rightarrow>
    (bool \<times> delayed_world) option" where
  "queue_delayed_work jiffies wqp dwork delay d =
    (case (wqp, dwork) of
       (Some i, Some work) \<Rightarrow>
         if delay = 0
         then do { (b, w) \<leftarrow> queue_work (Some i) (Some work) (dw_work d); Some (b, d\<lparr>dw_work := w\<rparr>) }
         else
           (let (_, t) = timer_setup (Some (DelayedWork work)) (dw_timer d work);
                (_, _, t) = mod_timer jiffies (jiffies + delay) t
            in Some (True, d\<lparr>dw_timer := (dw_timer d)(work := t)\<rparr>))
     | _ \<Rightarrow> Some (False, d))"

definition schedule_work :: "node option \<Rightarrow> delayed_world \<Rightarrow> (bool \<times> delayed_world) option" where
  "schedule_work work d = do {
     (b, w) \<leftarrow> queue_work (dw_system_wq d) work (dw_work d); Some (b, d\<lparr>dw_work := w\<rparr>) }"

definition schedule_delayed_work :: "u64 \<Rightarrow> node option \<Rightarrow> u64 \<Rightarrow> delayed_world \<Rightarrow>
    (bool \<times> delayed_world) option" where
  "schedule_delayed_work jiffies dwork delay d = queue_delayed_work jiffies (dw_system_wq d) dwork delay d"

definition cancel_delayed_work_sync :: "node \<Rightarrow> delayed_world \<Rightarrow> bool \<times> delayed_world" where
  "cancel_delayed_work_sync work d =
    (let (_, t) = del_timer_sync (dw_timer d work);
         (b, w) = cancel_work_sync work (dw_work d)
     in (b, d\<lparr>dw_timer := (dw_timer d)(work := t), dw_work := w\<rparr>))"

definition cancel_delayed_work :: "node \<Rightarrow> delayed_world \<Rightarrow> bool \<times> delayed_world" where
  "cancel_delayed_work work d =
    (let (_, _, t) = del_timer (dw_timer d work); w = dw_work d
     in (True, d\<lparr>dw_timer := (dw_timer d)(work := t),
           dw_work := w\<lparr>ww_pending := (ww_pending w)(work := False)\<rparr>\<rparr>))"

definition mod_delayed_work :: "u64 \<Rightarrow> nat option \<Rightarrow> node \<Rightarrow> u64 \<Rightarrow> delayed_world \<Rightarrow>
    (bool \<times> delayed_world) option" where
  "mod_delayed_work jiffies wqp work delay d =
    (let (_, d) = cancel_delayed_work work d in queue_delayed_work jiffies wqp (Some work) delay d)"

text \<open>The thread call of the timer of \<open>work\<close> runs.\<close>

definition delayed_fire :: "node \<Rightarrow> delayed_world \<Rightarrow> (bool \<times> delayed_world) option" where
  "delayed_fire work d =
    (let (f, t) = timer_call_fn (dw_timer d work); d = d\<lparr>dw_timer := (dw_timer d)(work := t)\<rparr>
     in case f of Some (DelayedWork n) \<Rightarrow> delayed_work_timer_fn n d | _ \<Rightarrow> Some (False, d))"

text \<open>Delayed work runs on the system queue, whatever queue it was given to: when its timer fires
  the item goes to the end of \<open>system_wq\<close>, and the queue named in the call keeps its contents.\<close>

theorem delayed_work_goes_to_system_wq:
  assumes "wq_inv (dw_work d) c" "ww_queues (dw_work d) i = Some wq" "dw_system_wq d = Some s"
    "ww_queues (dw_work d) s = Some swq" "i \<noteq> s" "delay \<noteq> 0"
    "\<not> ww_pending (dw_work d) work" "\<not> is_head (dw_work d) work"
  shows "\<exists>d1 d2. queue_delayed_work jiffies (Some i) (Some work) delay d = Some (True, d1) \<and>
    dw_work d1 = dw_work d \<and> delayed_fire work d1 = Some (True, d2) \<and>
    wq_inv (dw_work d2) (c(s := c s @ [work])) \<and> (c(s := c s @ [work])) i = c i"
proof -
  obtain w' where "queue_work (Some s) (Some work) (dw_work d) = Some (True, w')"
    "wq_inv w' (c(s := c s @ [work]))"
    using queue_work_idle[OF assms(1,4,7,8)] by blast
  then show ?thesis using assms(3,5,6)
    by (simp add: queue_delayed_work_def delayed_fire_def timer_setup_def mod_timer_def
        timer_call_fn_def delayed_work_timer_fn_def)
qed


lemma delayed_work_goes_to_system_wq_witness:
  "\<exists>d d1 d2. queue_delayed_work 50 (Some 1) (Some 7) 20 d = Some (True, d1) \<and>
    delayed_fire 7 d1 = Some (True, d2) \<and> wq_inv (dw_work d2) ((\<lambda>_. [])(0 := [] @ [7]))"
proof -
  define w where "w = snd (alloc_workqueue True 0 100 work_world0)"
  define w2 where "w2 = snd (alloc_workqueue True 1 200 w)"
  have "wq_ok w2 (\<lambda>_. [])" unfolding w2_def
    by (rule wq_ok_new_queue) (use demo_queue_ok in \<open>simp_all add: w_def alloc_workqueue_def work_world0_def is_head_def\<close>)
  then have inv: "wq_inv w2 (\<lambda>_. [])" by (simp add: wq_ok_def)
  define d where "d = \<lparr>dw_work = w2, dw_timer = (\<lambda>_. \<lparr>tl_expires = 0, tl_function = None, tl_call = False, tl_active = False\<rparr>),
    dw_system_wq = Some 0\<rparr>"
  obtain wq swq where d: "wq_inv (dw_work d) (\<lambda>_. [])" "ww_queues (dw_work d) 1 = Some wq"
    "dw_system_wq d = Some 0" "ww_queues (dw_work d) 0 = Some swq"
    "\<not> ww_pending (dw_work d) 7" "\<not> is_head (dw_work d) 7"
    using inv by (auto simp: d_def w2_def w_def alloc_workqueue_def work_world0_def is_head_def)
  have "(1 :: nat) \<noteq> 0" "(20 :: u64) \<noteq> 0" by simp_all
  from delayed_work_goes_to_system_wq[OF d(1-4) this d(5,6), of 50] show ?thesis by auto
qed

end
