(* ===== verification/Sync.thy ===== *)
theory Sync
  imports Bitops "HOL-Library.Monad_Syntax"
begin

text \<open>
  \<open>src/compat/linux\<close>: \<open>completion.h\<close>, \<open>mutex.h\<close>, \<open>atomic.h\<close> and \<open>average.h\<close>.  An \<open>IOLock\<close> is a
  flag; taking a lock that is held is the result \<open>None\<close>: the caller blocks, and for ever when the
  holder is the caller itself or never releases it.  A wait that drops the lock takes the list of
  what it finds each time it looks again.
\<close>

section \<open>Locks\<close>

definition IOLockLock :: "bool \<Rightarrow> bool option" where
  "IOLockLock held = (if held then None else Some True)"

definition mutex_trylock :: "bool \<Rightarrow> bool \<times> bool" where
  "mutex_trylock held = (\<not> held, True)"

definition mutex_is_locked :: "bool \<Rightarrow> bool \<times> bool" where
  "mutex_is_locked held =
    (let (r, held) = mutex_trylock held; held = (if r then False else held) in (\<not> r, held))"

section \<open>Completions\<close>

record completion =
  c_done :: u32
  c_locked :: bool

definition init_completion :: completion where
  "init_completion = \<lparr>c_done = 0, c_locked = False\<rparr>"

definition lock_completion :: "completion \<Rightarrow> completion option" where
  "lock_completion c = do { l \<leftarrow> IOLockLock (c_locked c); Some (c\<lparr>c_locked := l\<rparr>) }"

definition complete :: "completion \<Rightarrow> completion option" where
  "complete c = do {
     c \<leftarrow> lock_completion c; Some (c\<lparr>c_done := c_done c + 1, c_locked := False\<rparr>) }"

definition complete_all :: "completion \<Rightarrow> completion option" where
  "complete_all c = do {
     c \<leftarrow> lock_completion c; Some (c\<lparr>c_done := NOT 0, c_locked := False\<rparr>) }"

definition reinit_completion :: "completion \<Rightarrow> completion option" where
  "reinit_completion c = do {
     c \<leftarrow> lock_completion c; Some (c\<lparr>c_done := 0, c_locked := False\<rparr>) }"

definition completion_done :: "completion \<Rightarrow> bool" where
  "completion_done c \<longleftrightarrow> c_done c > 0"

text \<open>The tail of both waits, with the lock held.\<close>

definition consume_completion :: "completion \<Rightarrow> completion" where
  "consume_completion c =
    (let c = (if c_done c \<noteq> NOT 0 then c\<lparr>c_done := c_done c - 1\<rparr> else c) in c\<lparr>c_locked := False\<rparr>)"

text \<open>\<open>IOLockSleep\<close> drops the lock and takes it again when it is woken; \<open>wakes\<close> are the counts it
  then finds.\<close>

fun wait_loop :: "u32 list \<Rightarrow> completion \<Rightarrow> completion option" where
  "wait_loop wakes c =
    (if c_done c \<noteq> 0 then Some (consume_completion c)
     else case wakes of [] \<Rightarrow> None | d # wakes \<Rightarrow> wait_loop wakes (c\<lparr>c_done := d\<rparr>))"

declare wait_loop.simps [simp del]

definition wait_for_completion :: "u32 list \<Rightarrow> completion \<Rightarrow> completion option" where
  "wait_for_completion wakes c = do { c \<leftarrow> lock_completion c; wait_loop wakes c }"

text \<open>A look of the polling wait: the time it reads and the count it finds a sleep later.\<close>

fun wait_timeout_loop :: "u64 \<Rightarrow> (u64 \<times> u32) list \<Rightarrow> completion \<Rightarrow> (u64 \<times> completion) option" where
  "wait_timeout_loop deadline looks c =
    (if c_done c \<noteq> 0 then Some (1, consume_completion c)
     else case looks of [] \<Rightarrow> None
       | (jiffies, d) # looks \<Rightarrow>
          (let c = c\<lparr>c_locked := False\<rparr> in
           if time_after_eq jiffies deadline
           then do { c \<leftarrow> lock_completion c; Some (0, c) }
           else do { c \<leftarrow> lock_completion (c\<lparr>c_done := d\<rparr>); wait_timeout_loop deadline looks c }))"

declare wait_timeout_loop.simps [simp del]

definition wait_for_completion_timeout :: "u64 \<Rightarrow> u64 \<Rightarrow> (u64 \<times> u32) list \<Rightarrow> completion \<Rightarrow>
    (u64 \<times> completion) option" where
  "wait_for_completion_timeout jiffies timeout_j looks c =
    (let deadline = jiffies + timeout_j in do {
       c \<leftarrow> lock_completion c; wait_timeout_loop deadline looks c })"

lemma lock_completion_free: "\<not> c_locked c \<Longrightarrow> lock_completion c = Some (c\<lparr>c_locked := True\<rparr>)"
  by (simp add: lock_completion_def IOLockLock_def)

lemma lock_completion_held: "c_locked c \<Longrightarrow> lock_completion c = None"
  by (simp add: lock_completion_def IOLockLock_def)

lemma wait_timeout_loop_result:
  "wait_timeout_loop deadline looks c = Some (r, c') \<Longrightarrow> c_locked c \<Longrightarrow>
   r \<in> {0, 1} \<and> (c_locked c' \<longleftrightarrow> r = 0) \<and> (r = 0 \<longrightarrow> c_done c' = 0)"
proof (induction deadline looks c rule: wait_timeout_loop.induct)
  case (1 deadline looks c)
  show ?case
  proof (cases "c_done c = 0")
    case False
    with 1(2) show ?thesis
      by (auto simp: wait_timeout_loop.simps[of deadline looks] consume_completion_def Let_def)
  next
    case True
    then obtain j d ls where l: "looks = (j, d) # ls" using 1(2)
      by (cases looks) (auto simp: wait_timeout_loop.simps[of deadline "[]" c])
    show ?thesis
    proof (cases "time_after_eq j deadline")
      case True
      with 1(2) \<open>c_done c = 0\<close> l show ?thesis
        by (auto simp: wait_timeout_loop.simps[of deadline "(j, d) # ls"] lock_completion_free)
    next
      case False
      with 1(2) True l have "wait_timeout_loop deadline ls (c\<lparr>c_done := d, c_locked := True\<rparr>) = Some (r, c')"
        by (simp add: wait_timeout_loop.simps[of deadline "(j, d) # ls"] lock_completion_free)
      with 1(1)[OF _ l refl refl False] True show ?thesis by (simp add: lock_completion_free)
    qed
  qed
qed

text \<open>A timed-out wait returns with the completion's lock held: whatever happened during the wait,
  the result is 0 exactly when the lock is still taken, and then every later \<open>complete\<close>,
  \<open>complete_all\<close>, \<open>reinit_completion\<close> or wait on the same completion blocks for ever.\<close>

theorem timed_out_wait_keeps_the_lock:
  assumes "wait_for_completion_timeout jiffies timeout_j looks c = Some (r, c')" "\<not> c_locked c"
  shows "(r = 0 \<longleftrightarrow> c_locked c') \<and>
    (r = 0 \<longrightarrow> complete c' = None \<and> complete_all c' = None \<and> reinit_completion c' = None \<and>
      wait_for_completion wakes c' = None)"
proof -
  from assms have "wait_timeout_loop (jiffies + timeout_j) looks (c\<lparr>c_locked := True\<rparr>) = Some (r, c')"
    by (simp add: wait_for_completion_timeout_def lock_completion_free)
  from wait_timeout_loop_result[OF this] show ?thesis
    by (auto simp: complete_def complete_all_def reinit_completion_def wait_for_completion_def
        lock_completion_held)
qed

lemma timed_out_wait_keeps_the_lock_witness:
  "\<exists>c'. wait_for_completion_timeout 100 2 [(100, 0), (101, 0), (102, 5)] init_completion = Some (0, c') \<and>
    complete c' = None"
proof -
  have "wait_for_completion_timeout 100 2 [(100, 0), (101, 0), (102, 5)] init_completion =
    Some (0, \<lparr>c_done = 0, c_locked = True\<rparr>)" by code_simp
  from timed_out_wait_keeps_the_lock[OF this] show ?thesis
    using \<open>wait_for_completion_timeout _ _ _ _ = _\<close> by (simp add: init_completion_def)
qed

section \<open>Semaphores\<close>

record semaphore =
  sem_count :: "32 word"
  sem_locked :: bool

definition sema_init :: "32 word \<Rightarrow> semaphore" where
  "sema_init val = \<lparr>sem_count = val, sem_locked = False\<rparr>"

definition lock_semaphore :: "semaphore \<Rightarrow> semaphore option" where
  "lock_semaphore s = do { l \<leftarrow> IOLockLock (sem_locked s); Some (s\<lparr>sem_locked := l\<rparr>) }"

definition down_trylock :: "semaphore \<Rightarrow> (int \<times> semaphore) option" where
  "down_trylock s = do {
     s \<leftarrow> lock_semaphore s;
     Some (if 0 <s sem_count s then (0, s\<lparr>sem_count := sem_count s - 1, sem_locked := False\<rparr>)
           else (- 1, s\<lparr>sem_locked := False\<rparr>)) }"

fun down_loop :: "32 word list \<Rightarrow> semaphore \<Rightarrow> semaphore option" where
  "down_loop wakes s =
    (if sem_count s \<le>s 0
     then case wakes of [] \<Rightarrow> None | n # wakes \<Rightarrow> down_loop wakes (s\<lparr>sem_count := n\<rparr>)
     else Some (s\<lparr>sem_count := sem_count s - 1, sem_locked := False\<rparr>))"

declare down_loop.simps [simp del]

definition down :: "32 word list \<Rightarrow> semaphore \<Rightarrow> semaphore option" where
  "down wakes s = do { s \<leftarrow> lock_semaphore s; down_loop wakes s }"

definition up :: "semaphore \<Rightarrow> semaphore option" where
  "up s = do { s \<leftarrow> lock_semaphore s; Some (s\<lparr>sem_count := sem_count s + 1, sem_locked := False\<rparr>) }"

section \<open>Atomic counters\<close>

text \<open>Each operation returns its value and the new counter.\<close>

type_synonym atomic_t = "32 word"

definition atomic_read :: "atomic_t \<Rightarrow> 32 word" where "atomic_read v = v + 0"

definition atomic_add_return :: "32 word \<Rightarrow> atomic_t \<Rightarrow> 32 word \<times> atomic_t" where
  "atomic_add_return i v = (v + i, v + i)"

definition atomic_sub_return :: "32 word \<Rightarrow> atomic_t \<Rightarrow> 32 word \<times> atomic_t" where
  "atomic_sub_return i v = (v - i, v - i)"

definition atomic_inc_return :: "atomic_t \<Rightarrow> 32 word \<times> atomic_t" where
  "atomic_inc_return v = (v + 1, v + 1)"

definition atomic_dec_return :: "atomic_t \<Rightarrow> 32 word \<times> atomic_t" where
  "atomic_dec_return v = (v - 1, v - 1)"

definition atomic_dec_and_test :: "atomic_t \<Rightarrow> bool \<times> atomic_t" where
  "atomic_dec_and_test v = (v - 1 = 0, v - 1)"

definition atomic_inc_and_test :: "atomic_t \<Rightarrow> bool \<times> atomic_t" where
  "atomic_inc_and_test v = (v + 1 = 0, v + 1)"

definition atomic_cmpxchg :: "32 word \<Rightarrow> 32 word \<Rightarrow> atomic_t \<Rightarrow> 32 word \<times> atomic_t" where
  "atomic_cmpxchg old new_val v = (v, if v = old then new_val else v)"

definition xchg :: "u64 \<Rightarrow> u64 \<Rightarrow> u64 \<times> u64" where
  "xchg val ptr = (ptr, val)"

section \<open>Moving averages\<close>

definition ewma_read :: "nat \<Rightarrow> u64 \<Rightarrow> u64" where
  "ewma_read precision internal = drop_bit precision internal"

definition ewma_add :: "nat \<Rightarrow> nat \<Rightarrow> u64 \<Rightarrow> u64 \<Rightarrow> u64" where
  "ewma_add precision weight_rcp val internal =
    (if internal = 0 then push_bit precision val
     else (internal - drop_bit weight_rcp internal) + push_bit (precision - weight_rcp) val)"

end
