(* ===== verification/Frames.thy ===== *)
theory Frames
  imports Prelude "HOL-Library.Monad_Syntax"
begin

text \<open>
  802.11 headers: the frame-control constants and predicates of \<open>src/compat/net/mac80211.h\<close>, the
  address predicates of \<open>src/compat/linux/etherdevice.h\<close>, and the two small frames that
  \<open>src/compat/rtw88_compat.c\<close> builds itself.  A frame is its bytes; a read outside it is \<open>None\<close>.
\<close>

section \<open>Frame control\<close>

definition IEEE80211_FCTL_FTYPE :: u16 where "IEEE80211_FCTL_FTYPE = 0x000c"
definition IEEE80211_FCTL_STYPE :: u16 where "IEEE80211_FCTL_STYPE = 0x00f0"
definition IEEE80211_FCTL_TODS :: u16 where "IEEE80211_FCTL_TODS = 0x0100"
definition IEEE80211_FCTL_FROMDS :: u16 where "IEEE80211_FCTL_FROMDS = 0x0200"
definition IEEE80211_FCTL_PM :: u16 where "IEEE80211_FCTL_PM = 0x1000"
definition IEEE80211_FCTL_MOREDATA :: u16 where "IEEE80211_FCTL_MOREDATA = 0x2000"
definition IEEE80211_FCTL_PROTECTED :: u16 where "IEEE80211_FCTL_PROTECTED = 0x4000"
definition IEEE80211_FTYPE_MGMT :: u16 where "IEEE80211_FTYPE_MGMT = 0x0000"
definition IEEE80211_FTYPE_CTL :: u16 where "IEEE80211_FTYPE_CTL = 0x0004"
definition IEEE80211_FTYPE_DATA :: u16 where "IEEE80211_FTYPE_DATA = 0x0008"
definition IEEE80211_STYPE_ASSOC_REQ :: u16 where "IEEE80211_STYPE_ASSOC_REQ = 0x0000"
definition IEEE80211_STYPE_PROBE_REQ :: u16 where "IEEE80211_STYPE_PROBE_REQ = 0x0040"
definition IEEE80211_STYPE_PROBE_RESP :: u16 where "IEEE80211_STYPE_PROBE_RESP = 0x0050"
definition IEEE80211_STYPE_BEACON :: u16 where "IEEE80211_STYPE_BEACON = 0x0080"
definition IEEE80211_STYPE_AUTH :: u16 where "IEEE80211_STYPE_AUTH = 0x00B0"
definition IEEE80211_STYPE_DEAUTH :: u16 where "IEEE80211_STYPE_DEAUTH = 0x00C0"
definition IEEE80211_STYPE_ACTION :: u16 where "IEEE80211_STYPE_ACTION = 0x00D0"
definition IEEE80211_STYPE_QOS_DATA :: u16 where "IEEE80211_STYPE_QOS_DATA = 0x0080"
definition IEEE80211_QOS_CTL_TID_MASK :: u8 where "IEEE80211_QOS_CTL_TID_MASK = 0x0f"

named_theorems fc_defs "the frame-control constants"

lemmas fc_consts [fc_defs] =
  IEEE80211_FCTL_FTYPE_def IEEE80211_FCTL_STYPE_def IEEE80211_FCTL_TODS_def IEEE80211_FCTL_FROMDS_def
  IEEE80211_FCTL_PM_def IEEE80211_FCTL_MOREDATA_def IEEE80211_FCTL_PROTECTED_def
  IEEE80211_FTYPE_MGMT_def IEEE80211_FTYPE_CTL_def IEEE80211_FTYPE_DATA_def
  IEEE80211_STYPE_ASSOC_REQ_def IEEE80211_STYPE_PROBE_REQ_def IEEE80211_STYPE_PROBE_RESP_def
  IEEE80211_STYPE_BEACON_def IEEE80211_STYPE_AUTH_def IEEE80211_STYPE_DEAUTH_def
  IEEE80211_STYPE_ACTION_def IEEE80211_STYPE_QOS_DATA_def IEEE80211_QOS_CTL_TID_MASK_def

definition ieee80211_is_mgmt :: "u16 \<Rightarrow> bool" where
  "ieee80211_is_mgmt fc \<longleftrightarrow> fc AND 0x000c = IEEE80211_FTYPE_MGMT"

definition ieee80211_is_data :: "u16 \<Rightarrow> bool" where
  "ieee80211_is_data fc \<longleftrightarrow> fc AND 0x000c = IEEE80211_FTYPE_DATA"

definition ieee80211_is_ctl :: "u16 \<Rightarrow> bool" where
  "ieee80211_is_ctl fc \<longleftrightarrow> fc AND 0x000c = IEEE80211_FTYPE_CTL"

definition ieee80211_has_tods :: "u16 \<Rightarrow> bool" where
  "ieee80211_has_tods fc \<longleftrightarrow> fc AND IEEE80211_FCTL_TODS \<noteq> 0"

definition ieee80211_has_fromds :: "u16 \<Rightarrow> bool" where
  "ieee80211_has_fromds fc \<longleftrightarrow> fc AND IEEE80211_FCTL_FROMDS \<noteq> 0"

definition ieee80211_has_protected :: "u16 \<Rightarrow> bool" where
  "ieee80211_has_protected fc \<longleftrightarrow> fc AND IEEE80211_FCTL_PROTECTED \<noteq> 0"

definition ieee80211_has_moredata :: "u16 \<Rightarrow> bool" where
  "ieee80211_has_moredata fc \<longleftrightarrow> fc AND IEEE80211_FCTL_MOREDATA \<noteq> 0"

definition ieee80211_is_beacon :: "u16 \<Rightarrow> bool" where
  "ieee80211_is_beacon fc \<longleftrightarrow> fc AND (IEEE80211_FCTL_FTYPE OR IEEE80211_FCTL_STYPE) =
     (IEEE80211_FTYPE_MGMT OR IEEE80211_STYPE_BEACON)"

definition ieee80211_is_probe_resp :: "u16 \<Rightarrow> bool" where
  "ieee80211_is_probe_resp fc \<longleftrightarrow> fc AND (IEEE80211_FCTL_FTYPE OR IEEE80211_FCTL_STYPE) =
     (IEEE80211_FTYPE_MGMT OR IEEE80211_STYPE_PROBE_RESP)"

definition ieee80211_is_action :: "u16 \<Rightarrow> bool" where
  "ieee80211_is_action fc \<longleftrightarrow> fc AND (IEEE80211_FCTL_FTYPE OR IEEE80211_FCTL_STYPE) =
     (IEEE80211_FTYPE_MGMT OR IEEE80211_STYPE_ACTION)"

definition ieee80211_is_nullfunc :: "u16 \<Rightarrow> bool" where
  "ieee80211_is_nullfunc fc \<longleftrightarrow> fc AND (0x00fc OR 0x000c) = (0x0048 OR IEEE80211_FTYPE_DATA)"

definition ieee80211_is_data_qos :: "u16 \<Rightarrow> bool" where
  "ieee80211_is_data_qos fc \<longleftrightarrow> fc AND (0x000c OR 0x0080) = (IEEE80211_FTYPE_DATA OR 0x0080)"

definition ieee80211_get_hdrlen :: "u16 \<Rightarrow> nat" where
  "ieee80211_get_hdrlen fc =
    (let ds = IEEE80211_FCTL_TODS OR IEEE80211_FCTL_FROMDS;
         has_a4 = (fc AND ds = ds);
         is_qos = (fc AND 0x0080 \<noteq> 0 \<and> fc AND 0x000c = IEEE80211_FTYPE_DATA)
     in 24 + (if has_a4 then 6 else 0) + (if is_qos then 2 else 0))"

text \<open>The fields of \<open>struct ieee80211_hdr\<close>, read from the frame.\<close>

definition frame_control :: "bytes \<Rightarrow> u16 option" where
  "frame_control f = do { a \<leftarrow> rd f 0; b \<leftarrow> rd f 1; Some (le16 a b) }"

definition addr1 :: "bytes \<Rightarrow> bytes option" where "addr1 f = rds f 4 6"
definition addr2 :: "bytes \<Rightarrow> bytes option" where "addr2 f = rds f 10 6"
definition addr3 :: "bytes \<Rightarrow> bytes option" where "addr3 f = rds f 16 6"

definition seq_ctrl :: "bytes \<Rightarrow> u16 option" where
  "seq_ctrl f = do { a \<leftarrow> rd f 22; b \<leftarrow> rd f 23; Some (le16 a b) }"

definition ieee80211_get_hdrlen_from_skb :: "bytes \<Rightarrow> nat option" where
  "ieee80211_get_hdrlen_from_skb f = do { fc \<leftarrow> frame_control f; Some (ieee80211_get_hdrlen fc) }"

text \<open>The 24 bytes of a \<open>struct ieee80211_hdr_3addr\<close>.\<close>

definition hdr_3addr :: "u16 \<Rightarrow> u16 \<Rightarrow> bytes \<Rightarrow> bytes \<Rightarrow> bytes \<Rightarrow> u16 \<Rightarrow> bytes" where
  "hdr_3addr fc dur a1 a2 a3 seq =
    [lo8 fc, hi8 fc, lo8 dur, hi8 dur] @ a1 @ a2 @ a3 @ [lo8 seq, hi8 seq]"

section \<open>Addresses\<close>

definition eth_broadcast_addr :: bytes where "eth_broadcast_addr = replicate 6 0xff"
definition eth_zero_addr :: bytes where "eth_zero_addr = replicate 6 0"

definition ether_addr_equal :: "bytes \<Rightarrow> bytes \<Rightarrow> bool" where
  "ether_addr_equal a b \<longleftrightarrow> take 6 a = take 6 b"

definition is_broadcast_ether_addr :: "bytes \<Rightarrow> bool" where
  "is_broadcast_ether_addr a \<longleftrightarrow> a ! 0 AND a ! 1 AND a ! 2 AND a ! 3 AND a ! 4 AND a ! 5 = 0xff"

definition is_multicast_ether_addr :: "bytes \<Rightarrow> bool" where
  "is_multicast_ether_addr a \<longleftrightarrow> 0x01 AND a ! 0 \<noteq> 0"

definition is_unicast_ether_addr :: "bytes \<Rightarrow> bool" where
  "is_unicast_ether_addr a \<longleftrightarrow> \<not> is_multicast_ether_addr a"

definition is_zero_ether_addr :: "bytes \<Rightarrow> bool" where
  "is_zero_ether_addr a \<longleftrightarrow> \<not> a ! 0 OR a ! 1 OR a ! 2 OR a ! 3 OR a ! 4 OR a ! 5 \<noteq> 0"

definition is_valid_ether_addr :: "bytes \<Rightarrow> bool" where
  "is_valid_ether_addr a \<longleftrightarrow> \<not> is_multicast_ether_addr a \<and> \<not> is_zero_ether_addr a"

text \<open>\<open>random\<close> is what \<open>read_random\<close> stores.\<close>

definition eth_random_addr :: "bytes \<Rightarrow> bytes" where
  "eth_random_addr random =
    (let a = random; a = a[0 := a ! 0 AND 0xfe] in a[0 := a ! 0 OR 0x02])"

definition ether_addr_equal_masked :: "bytes \<Rightarrow> bytes \<Rightarrow> bytes \<Rightarrow> bool" where
  "ether_addr_equal_masked a b m \<longleftrightarrow> list_all (\<lambda>i. (a ! i XOR b ! i) AND m ! i = 0) [0..<6]"

section \<open>Frames of the reserved page\<close>

text \<open>The contents of the buffers, behind a headroom of 64 bytes.\<close>

definition ieee80211_nullfunc_get :: "(bytes \<times> bytes) option \<Rightarrow> bool \<Rightarrow> bytes option" where
  "ieee80211_nullfunc_get vif qos_ok =
    (case vif of None \<Rightarrow> None
     | Some (bssid, addr) \<Rightarrow>
        (let hdr_len = (if qos_ok then 26 else 24);
             p = replicate hdr_len 0;
             subtype = (if qos_ok then 0xC else 0x4) :: u8;
             p = p[0 := push_bit 4 subtype OR push_bit 2 2];
             p = p[1 := 0x01];
             p = p[2 := 0, 3 := 0];
             p = memcpy_at p 4 bssid;
             p = memcpy_at p 10 addr;
             p = memcpy_at p 16 bssid;
             p = p[22 := 0, 23 := 0];
             p = (if qos_ok then p[24 := 0, 25 := 0] else p)
         in Some p))"

definition ieee80211_pspoll_get :: "(bytes \<times> bytes \<times> u16) option \<Rightarrow> bytes option" where
  "ieee80211_pspoll_get vif =
    (case vif of None \<Rightarrow> None
     | Some (bssid, addr, vif_aid) \<Rightarrow>
        (let p = replicate 16 0;
             p = p[0 := push_bit 4 0xA OR push_bit 2 1];
             p = p[1 := 0x00];
             aid = vif_aid OR 0xC000;
             p = p[2 := ucast (aid AND 0xFF)];
             p = p[3 := ucast (drop_bit 8 aid)];
             p = memcpy_at p 4 bssid;
             p = memcpy_at p 10 addr
         in Some p))"

section \<open>Facts\<close>

lemma length_hdr_3addr [simp]:
  "length a1 = 6 \<Longrightarrow> length a2 = 6 \<Longrightarrow> length a3 = 6 \<Longrightarrow> length (hdr_3addr fc dur a1 a2 a3 seq) = 24"
  by (simp add: hdr_3addr_def)

lemma list6_cases:
  assumes "length a = 6"
  obtains a0 a1 a2 a3 a4 a5 where "a = [a0, a1, a2, a3, a4, a5]"
  using assms by (auto simp: eval_nat_numeral length_Suc_conv)

text \<open>Reading back the header that was written.\<close>

lemma hdr_3addr_fields [simp]:
  assumes "length a1 = 6" "length a2 = 6" "length a3 = 6"
  shows "frame_control (hdr_3addr fc dur a1 a2 a3 seq @ r) = Some fc"
    "addr1 (hdr_3addr fc dur a1 a2 a3 seq @ r) = Some a1"
    "addr2 (hdr_3addr fc dur a1 a2 a3 seq @ r) = Some a2"
    "addr3 (hdr_3addr fc dur a1 a2 a3 seq @ r) = Some a3"
    "seq_ctrl (hdr_3addr fc dur a1 a2 a3 seq @ r) = Some seq"
  using assms
  by (simp_all add: frame_control_def hdr_3addr_def addr1_def addr2_def addr3_def seq_ctrl_def
      rds_def slice_def rd_def nth_append)

text \<open>The predicates as bits of the frame control.\<close>

lemma bit_test: "w AND push_bit n 1 \<noteq> 0 \<longleftrightarrow> bit (w :: u16) n"
  by (simp add: bit_iff_and_push_bit_not_eq_0)

lemma fc_bits:
  "ieee80211_has_tods fc \<longleftrightarrow> bit fc 8" "ieee80211_has_fromds fc \<longleftrightarrow> bit fc 9"
  "ieee80211_has_protected fc \<longleftrightarrow> bit fc 14" "fc AND 0x0080 \<noteq> 0 \<longleftrightarrow> bit fc 7"
  using bit_test[of fc 8] bit_test[of fc 9] bit_test[of fc 14] bit_test[of fc 7]
  by (simp_all add: ieee80211_has_tods_def ieee80211_has_fromds_def ieee80211_has_protected_def fc_defs)

lemma u16_eq_iff:
  "a = b \<longleftrightarrow> list_all (\<lambda>n. bit a n = bit (b :: u16) n) [0, 1, 2, 3, 4, 5, 6, 7, 8, 9, 10, 11, 12, 13, 14, 15]"
proof -
  have e: "[0, 1, 2, 3, 4, 5, 6, 7, 8, 9, 10, 11, 12, 13, 14, 15] = [0..<16]" by code_simp
  show ?thesis unfolding e
  proof
    assume "list_all (\<lambda>n. bit a n = bit b n) [0..<16]"
    then show "a = b" by (intro bit_word_eqI) (simp add: list_all_iff)
  qed (simp add: list_all_iff)
qed

lemma fc_type_bits:
  "fc AND 0x000c = (0x0008 :: u16) \<longleftrightarrow> bit fc 3 \<and> \<not> bit fc 2"
  "fc AND 0x000c = (0 :: u16) \<longleftrightarrow> \<not> bit fc 3 \<and> \<not> bit fc 2"
  "fc AND 0x008c = (0x0088 :: u16) \<longleftrightarrow> bit fc 7 \<and> bit fc 3 \<and> \<not> bit fc 2"
  "fc AND 0x0300 = (0x0300 :: u16) \<longleftrightarrow> bit fc 8 \<and> bit fc 9"
  by (auto simp: u16_eq_iff bit_and_iff)


lemma is_data_qos_bits: "ieee80211_is_data_qos fc \<longleftrightarrow> bit fc 7 \<and> bit fc 3 \<and> \<not> bit fc 2"
  using fc_type_bits(3)[of fc] by (simp add: ieee80211_is_data_qos_def fc_defs)

lemma is_data_bits: "ieee80211_is_data fc \<longleftrightarrow> bit fc 3 \<and> \<not> bit fc 2"
  using fc_type_bits(1)[of fc] by (simp add: ieee80211_is_data_def fc_defs)

lemma is_mgmt_bits: "ieee80211_is_mgmt fc \<longleftrightarrow> \<not> bit fc 3 \<and> \<not> bit fc 2"
  using fc_type_bits(2)[of fc] by (simp add: ieee80211_is_mgmt_def fc_defs)

lemma hdrlen_bits:
  "ieee80211_get_hdrlen fc =
    24 + (if ieee80211_has_tods fc \<and> ieee80211_has_fromds fc then 6 else 0) +
    (if ieee80211_is_data_qos fc then 2 else 0)"
  using fc_type_bits(4)[of fc] fc_type_bits(1)[of fc] fc_bits(4)[of fc]
  by (simp add: ieee80211_get_hdrlen_def fc_bits is_data_qos_bits fc_defs)

end
