(* ===== verification/Datapath.thy ===== *)
theory Datapath
  imports Frames Skb
begin

text \<open>
  The data path of \<open>src/kext/RTW88IEEE80211.cpp\<close>: \<open>txDataFrame\<close> wraps an Ethernet frame in an
  802.11 data frame, \<open>deliverDataFrame\<close>, \<open>deAmsdu\<close> and \<open>deliverEthernet\<close> unwrap received ones.
  The packet buffers of the network stack lie outside the repository: \<open>txDataFrame\<close> takes the
  length in the packet header and the function \<open>mbuf_copydata\<close>, and received frames are returned
  as the actions taken with them.
\<close>

definition ETH_P_PAE :: u16 where "ETH_P_PAE = 0x888E"

section \<open>Transmission\<close>

record tx_ctx =
  tc_bssid :: bytes
  tc_mac :: bytes
  tc_channel :: u8
  tc_ht :: bool
  tc_wpa2 :: bool
  tc_ptk :: "u8 option"
  tc_ba_active :: bool
  tc_ba_tid :: u8
  tc_data_seq :: u16
  tc_tx_seq :: u16
  tc_pn :: bytes

text \<open>The loop \<open>for (i = 0; i < 6; i++) if (++pn[i] != 0) break;\<close>.\<close>

fun pn_increment :: "bytes \<Rightarrow> bytes" where
  "pn_increment [] = []"
| "pn_increment (b # bs) = (if b + 1 \<noteq> 0 then (b + 1) # bs else (b + 1) # pn_increment bs)"

definition ccmp_header :: "bytes \<Rightarrow> u8 \<Rightarrow> bytes" where
  "ccmp_header pn keyidx =
    [pn ! 0, pn ! 1, 0x00, 0x20 OR push_bit 6 (keyidx AND 0x3), pn ! 2, pn ! 3, pn ! 4, pn ! 5]"

definition snap_header :: "u16 \<Rightarrow> bytes" where
  "snap_header ethertype = [0xAA, 0xAA, 0x03, 0x00, 0x00, 0x00, hi8 ethertype, lo8 ethertype]"

text \<open>What the hardware is handed: the buffer, the AMPDU flag and whether a key is named.\<close>

record tx_frame =
  tf_skb :: sk_buff
  tf_ampdu :: bool
  tf_keyed :: bool
  tf_5ghz :: bool

text \<open>\<open>ready\<close>: the hardware, the interface and the station exist.  The outer \<open>None\<close> is a write
  outside the buffer; the inner one a frame that is dropped.\<close>

definition txDataFrame :: "bool \<Rightarrow> bool \<Rightarrow> (nat \<Rightarrow> u8) \<Rightarrow> nat \<Rightarrow> (nat \<Rightarrow> nat \<Rightarrow> bytes option) \<Rightarrow> tx_ctx \<Rightarrow>
    (tx_frame option \<times> tx_ctx) option" where
  "txDataFrame ready alloc_ok junk total_len copydata c =
    (if \<not> ready then Some (None, c)
     else if total_len < 14 \<or> total_len > 2048 then Some (None, c)
     else case copydata 0 14 of None \<Rightarrow> Some (None, c)
     | Some eh \<Rightarrow>
      (let paylen = total_len - 14;
           ethertype = be16 (eh ! 12) (eh ! 13);
           protected_frame = (tc_wpa2 c \<and> tc_ptk c \<noteq> None \<and> ethertype \<noteq> ETH_P_PAE);
           qos = tc_ht c;
           hlen = (if qos then 26 else 24);
           framelen = hlen + (if protected_frame then 8 else 0) + 8 + paylen
       in if \<not> alloc_ok then Some (None, c)
       else do {
         let skb = skb_reserve 128 (alloc_skb junk (word_of_nat framelen + 128));
         let fc = IEEE80211_FTYPE_DATA OR IEEE80211_FCTL_TODS;
         let fc = (if qos then fc OR IEEE80211_STYPE_QOS_DATA else fc);
         let fc = (if protected_frame then fc OR IEEE80211_FCTL_PROTECTED else fc);
         let sn = (if qos then tc_data_seq c else tc_tx_seq c);
         let c = (if qos then c\<lparr>tc_data_seq := tc_data_seq c + 1\<rparr> else c\<lparr>tc_tx_seq := tc_tx_seq c + 1\<rparr>);
         skb \<leftarrow> skb_put_data (hdr_3addr fc 0 (tc_bssid c) (tc_mac c) (take 6 eh) (push_bit 4 (sn AND 0xFFF))) skb;
         skb \<leftarrow> (if qos then skb_put_data [tc_ba_tid c AND IEEE80211_QOS_CTL_TID_MASK, 0] skb else Some skb);
         let c = (if protected_frame then c\<lparr>tc_pn := pn_increment (tc_pn c)\<rparr> else c);
         skb \<leftarrow> (if protected_frame
           then skb_put_data (ccmp_header (tc_pn c) (case tc_ptk c of None \<Rightarrow> 0 | Some k \<Rightarrow> k)) skb
           else Some skb);
         skb \<leftarrow> skb_put_data (snap_header ethertype) skb;
         (if paylen = 0
          then Some (Some (tx_frame.make (skb_set_queue_mapping 2 skb) (qos \<and> tc_ba_active c)
            protected_frame (tc_channel c > 14)), c)
          else case copydata 14 paylen of None \<Rightarrow> Some (None, c)
          | Some pay \<Rightarrow> do {
             skb \<leftarrow> skb_put_data pay skb;
             Some (Some (tx_frame.make (skb_set_queue_mapping 2 skb) (qos \<and> tc_ba_active c)
               protected_frame (tc_channel c > 14)), c) }) }))"

section \<open>Reception\<close>

datatype rx_action = Deliver bytes | Eapol bytes

text \<open>\<open>inject_ok n\<close>: the network stack takes a frame of \<open>n\<close> bytes.\<close>

definition deliverEthernet :: "(nat \<Rightarrow> bool) \<Rightarrow> bytes \<Rightarrow> bytes \<Rightarrow> u16 \<Rightarrow> bytes \<Rightarrow> rx_action list" where
  "deliverEthernet inject_ok da sa ethertype pl =
    (if inject_ok (14 + length pl)
     then [Deliver (da @ sa @ [hi8 ethertype, lo8 ethertype] @ pl)] else [])"

definition is_snap :: "bytes \<Rightarrow> nat \<Rightarrow> bool option" where
  "is_snap f off = do {
     a \<leftarrow> rd f off; b \<leftarrow> rd f (off + 1); c \<leftarrow> rd f (off + 2);
     Some (a = 0xAA \<and> b = 0xAA \<and> c = 0x03) }"

definition be16_rd :: "bytes \<Rightarrow> nat \<Rightarrow> u16 option" where
  "be16_rd f off = do { a \<leftarrow> rd f off; b \<leftarrow> rd f (off + 1); Some (be16 a b) }"

text \<open>The subframes from \<open>pos\<close> on.\<close>

function deAmsdu_from :: "(nat \<Rightarrow> bool) \<Rightarrow> bytes \<Rightarrow> nat \<Rightarrow> rx_action list option" where
  "deAmsdu_from inject_ok data pos =
    (if pos + 14 \<le> length data
     then do {
       sub \<leftarrow> be16_rd data (pos + 12);
       let sublen = unat sub;
       if sublen < 8 \<or> pos + 14 + sublen > length data then Some []
       else do {
         snap \<leftarrow> is_snap data (pos + 14);
         out \<leftarrow> (if snap
           then do {
             da \<leftarrow> rds data pos 6; sa \<leftarrow> rds data (pos + 6) 6;
             ethertype \<leftarrow> be16_rd data (pos + 14 + 6);
             pl \<leftarrow> rds data (pos + 14 + 8) (sublen - 8);
             Some (deliverEthernet inject_ok da sa ethertype pl) }
           else Some []);
         rest \<leftarrow> deAmsdu_from inject_ok data (pos + (14 + sublen + 3) div 4 * 4);
         Some (out @ rest) } }
     else Some [])"
  by pat_completeness auto
termination
  by (relation "measure (\<lambda>(_, data, pos). length data - pos)") auto

declare deAmsdu_from.simps [simp del]

definition deAmsdu :: "(nat \<Rightarrow> bool) \<Rightarrow> bytes \<Rightarrow> rx_action list option" where
  "deAmsdu inject_ok data = deAmsdu_from inject_ok data 0"

text \<open>\<open>f\<close> is the frame, \<open>skb->len\<close> its length.\<close>

definition deliverDataFrame :: "(nat \<Rightarrow> bool) \<Rightarrow> bool \<Rightarrow> bytes \<Rightarrow> rx_action list option" where
  "deliverDataFrame inject_ok handshaking f = do {
     fc \<leftarrow> frame_control f;
     hdrlen \<leftarrow> ieee80211_get_hdrlen_from_skb f;
     if length f < hdrlen then Some []
     else do {
       amsdu \<leftarrow> (if ieee80211_is_data_qos fc
         then do { q \<leftarrow> rd f (hdrlen - 2); Some (q AND 0x80 \<noteq> 0) } else Some False);
       if amsdu then
         (if ieee80211_has_protected fc \<and> length f < hdrlen + 8 then Some []
          else deAmsdu inject_ok (drop (hdrlen + (if ieee80211_has_protected fc then 8 else 0)) f))
       else if length f < hdrlen + 8 then Some []
       else do {
         snap \<leftarrow> is_snap f hdrlen;
         payload_off \<leftarrow> (if \<not> snap \<and> ieee80211_has_protected fc \<and> length f \<ge> hdrlen + 8 + 8
           then do { s \<leftarrow> is_snap f (hdrlen + 8); Some (if s then hdrlen + 8 else hdrlen) }
           else Some hdrlen);
         snap \<leftarrow> is_snap f payload_off;
         ethertype \<leftarrow> (if snap then be16_rd f (payload_off + 6) else Some 0);
         let pl = drop (payload_off + 8) f;
         if snap \<and> ethertype = ETH_P_PAE \<and> handshaking then Some [Eapol pl]
         else do {
           da \<leftarrow> addr1 f; sa \<leftarrow> addr3 f;
           Some (deliverEthernet inject_ok da sa ethertype pl) } } } }"


section \<open>Reception never reads outside the frame\<close>

lemma be16_rd_Some: "off + 1 < length f \<Longrightarrow> be16_rd f off = Some (be16 (f ! off) (f ! (off + 1)))"
  by (simp add: be16_rd_def)

lemma is_snap_Some:
  "off + 2 < length f \<Longrightarrow>
   is_snap f off = Some (f ! off = 0xAA \<and> f ! (off + 1) = 0xAA \<and> f ! (off + 2) = 0x03)"
  by (simp add: is_snap_def)

text \<open>The bytes after the Ethernet header of a delivered frame are consecutive bytes of \<open>f\<close>.\<close>

definition part_of :: "bytes \<Rightarrow> rx_action \<Rightarrow> bool" where
  "part_of f a = (case a of
     Deliver p \<Rightarrow> \<exists>off n. off + n \<le> length f \<and> drop 14 p = slice off n f \<and> length p = 14 + n
   | Eapol p \<Rightarrow> \<exists>off. off \<le> length f \<and> p = drop off f)"

lemma deliverEthernet_part:
  assumes "a \<in> set (deliverEthernet ok da sa et pl)" "length da = 6" "length sa = 6"
    "pl = slice off n f" "off + n \<le> length f"
  shows "part_of f a"
  using assms by (auto simp: deliverEthernet_def part_of_def slice_def split: if_splits)

lemma slice_drop: "slice off n (drop k f) = slice (k + off) n f"
  by (simp add: slice_def add.commute)

lemma part_of_drop:
  assumes "part_of (drop k f) a" "k \<le> length f"
  shows "part_of f a"
proof (cases a)
  case (Deliver p)
  with assms obtain off n where "off + n \<le> length f - k" "drop 14 p = slice (k + off) n f" "length p = 14 + n"
    by (auto simp: part_of_def slice_drop)
  with assms(2) have "(k + off) + n \<le> length f" by simp
  with \<open>drop 14 p = _\<close> \<open>length p = _\<close> Deliver show ?thesis by (auto simp: part_of_def)
next
  case (Eapol p)
  with assms obtain off where "off \<le> length f - k" "p = drop (off + k) f" by (auto simp: part_of_def)
  with assms(2) Eapol show ?thesis by (auto simp: part_of_def intro!: exI[of _ "off + k"])
qed

text \<open>One subframe.\<close>

definition sub_len :: "bytes \<Rightarrow> nat \<Rightarrow> nat" where
  "sub_len data pos = unat (be16 (data ! (pos + 12)) (data ! (pos + 12 + 1)))"

definition subframe_out :: "(nat \<Rightarrow> bool) \<Rightarrow> bytes \<Rightarrow> nat \<Rightarrow> rx_action list" where
  "subframe_out ok data pos =
    (if data ! (pos + 14) = 0xAA \<and> data ! (pos + 14 + 1) = 0xAA \<and> data ! (pos + 14 + 2) = 0x03
     then deliverEthernet ok (slice pos 6 data) (slice (pos + 6) 6 data)
       (be16 (data ! (pos + 14 + 6)) (data ! (pos + 14 + 6 + 1)))
       (slice (pos + 14 + 8) (sub_len data pos - 8) data)
     else [])"

lemma deAmsdu_from_stop: "length data < pos + 14 \<Longrightarrow> deAmsdu_from ok data pos = Some []"
  by (simp add: deAmsdu_from.simps)

lemma deAmsdu_from_bad:
  assumes "pos + 14 \<le> length data" "sub_len data pos < 8 \<or> pos + 14 + sub_len data pos > length data"
  shows "deAmsdu_from ok data pos = Some []"
  using assms be16_rd_Some[of "pos + 12" data]
  by (simp add: deAmsdu_from.simps[of ok data pos] sub_len_def)

lemma deAmsdu_from_good:
  assumes "pos + 14 + sub_len data pos \<le> length data" "8 \<le> sub_len data pos"
  shows "deAmsdu_from ok data pos = map_option ((@) (subframe_out ok data pos))
    (deAmsdu_from ok data (pos + (14 + sub_len data pos + 3) div 4 * 4))"
proof -
  let ?n = "sub_len data pos"
  have b: "be16_rd data (pos + 12) = Some (be16 (data ! (pos + 12)) (data ! (pos + 12 + 1)))"
    using assms by (intro be16_rd_Some) simp
  have s: "is_snap data (pos + 14) = Some (data ! (pos + 14) = 0xAA \<and> data ! (pos + 14 + 1) = 0xAA \<and> data ! (pos + 14 + 2) = 0x03)"
    using assms by (intro is_snap_Some) simp
  have r: "rds data pos 6 = Some (slice pos 6 data)" by (rule rds_Some) (use assms in simp)
  have r2: "rds data (pos + 6) 6 = Some (slice (pos + 6) 6 data)" by (rule rds_Some) (use assms in simp)
  have r3: "be16_rd data (pos + 14 + 6) = Some (be16 (data ! (pos + 14 + 6)) (data ! (pos + 14 + 6 + 1)))"
    by (rule be16_rd_Some) (use assms in simp)
  have r4: "rds data (pos + 14 + 8) (?n - 8) = Some (slice (pos + 14 + 8) (?n - 8) data)"
    by (rule rds_Some) (use assms in simp)
  have u: "unat (be16 (data ! (pos + 12)) (data ! (pos + 12 + 1))) = ?n" by (simp add: sub_len_def)
  have g: "pos + 14 \<le> length data" "\<not> (?n < 8 \<or> pos + 14 + ?n > length data)" using assms by simp_all
  show ?thesis
    unfolding deAmsdu_from.simps[of ok data pos] b s r r2 r3 r4 Let_def bind.simps u subframe_out_def
    using g by (cases "deAmsdu_from ok data (pos + (14 + ?n + 3) div 4 * 4)") simp_all
qed

lemma subframe_out_part:
  assumes "pos + 14 + sub_len data pos \<le> length data" "8 \<le> sub_len data pos" "a \<in> set (subframe_out ok data pos)"
  shows "part_of data a"
proof -
  have "a \<in> set (deliverEthernet ok (slice pos 6 data) (slice (pos + 6) 6 data)
       (be16 (data ! (pos + 14 + 6)) (data ! (pos + 14 + 6 + 1)))
       (slice (pos + 14 + 8) (sub_len data pos - 8) data))"
    using assms(3) by (simp add: subframe_out_def split: if_splits)
  then show ?thesis
    by (rule deliverEthernet_part[where off = "pos + 14 + 8" and n = "sub_len data pos - 8"])
      (use assms(1,2) in simp_all)
qed

lemma deAmsdu_from_safe:
  "\<exists>acts. deAmsdu_from ok data pos = Some acts \<and> (\<forall>a \<in> set acts. part_of data a)"
proof (induction "length data - pos" arbitrary: pos rule: less_induct)
  case less
  consider "length data < pos + 14"
    | "pos + 14 \<le> length data" "sub_len data pos < 8 \<or> pos + 14 + sub_len data pos > length data"
    | "pos + 14 + sub_len data pos \<le> length data" "8 \<le> sub_len data pos" by linarith
  then show ?case
  proof cases
    case 3
    have "length data - (pos + (14 + sub_len data pos + 3) div 4 * 4) < length data - pos" using 3 by simp
    from less(1)[OF this] obtain rest
      where "deAmsdu_from ok data (pos + (14 + sub_len data pos + 3) div 4 * 4) = Some rest"
        "\<forall>a \<in> set rest. part_of data a" by blast
    then show ?thesis using deAmsdu_from_good[OF 3, of ok] subframe_out_part[OF 3] by auto
  qed (simp_all add: deAmsdu_from_stop deAmsdu_from_bad)
qed

lemma hdrlen_cases: "24 \<le> ieee80211_get_hdrlen fc" "ieee80211_is_data_qos fc \<Longrightarrow> 26 \<le> ieee80211_get_hdrlen fc"
  by (simp_all add: hdrlen_bits)

lemma payload_offset:
  assumes "n + 8 \<le> length f"
  obtains off sn et where "off + 8 \<le> length f" "is_snap f off = Some sn" "be16_rd f (off + 6) = Some et"
    "(do { snap \<leftarrow> is_snap f n;
       if \<not> snap \<and> ieee80211_has_protected fc \<and> length f \<ge> n + 8 + 8
       then do { s \<leftarrow> is_snap f (n + 8); Some (if s then n + 8 else n) }
       else Some n }) = Some off"
proof -
  have s: "\<exists>b. is_snap f off = Some b" if "off + 8 \<le> length f" for off
    using is_snap_Some[of off f] that by simp
  have e: "\<exists>e. be16_rd f (off + 6) = Some e" if "off + 8 \<le> length f" for off
    using be16_rd_Some[of "off + 6" f] that by simp
  have "\<exists>off. off + 8 \<le> length f \<and> (do { snap \<leftarrow> is_snap f n;
       if \<not> snap \<and> ieee80211_has_protected fc \<and> length f \<ge> n + 8 + 8
       then do { s \<leftarrow> is_snap f (n + 8); Some (if s then n + 8 else n) }
       else Some n }) = Some off"
    using s[of n] s[of "n + 8"] assms by auto
  then show ?thesis using that s e by blast
qed

lemma deliverDataFrame_aggregate:
  assumes "frame_control f = Some fc" "n = ieee80211_get_hdrlen fc" "n \<le> length f"
    "ieee80211_is_data_qos fc" "f ! (n - 2) AND 0x80 \<noteq> 0" "24 \<le> n"
  shows "deliverDataFrame ok hs f =
    (if ieee80211_has_protected fc \<and> length f < n + 8 then Some []
     else deAmsdu ok (drop (n + (if ieee80211_has_protected fc then 8 else 0)) f))"
  using assms by (auto simp: deliverDataFrame_def ieee80211_get_hdrlen_from_skb_def)

lemma deliverDataFrame_single:
  assumes "frame_control f = Some fc" "n = ieee80211_get_hdrlen fc" "n + 8 \<le> length f"
    "\<not> (ieee80211_is_data_qos fc \<and> f ! (n - 2) AND 0x80 \<noteq> 0)" "24 \<le> n"
  obtains off sn et where "off + 8 \<le> length f" "deliverDataFrame ok hs f = Some
    (if sn \<and> et = ETH_P_PAE \<and> hs then [Eapol (drop (off + 8) f)]
     else deliverEthernet ok (slice 4 6 f) (slice 16 6 f) (if sn then et else 0) (drop (off + 8) f))"
proof -
  obtain off sn et where o: "off + 8 \<le> length f" "is_snap f off = Some sn" "be16_rd f (off + 6) = Some et"
    "(do { snap \<leftarrow> is_snap f n;
       if \<not> snap \<and> ieee80211_has_protected fc \<and> length f \<ge> n + 8 + 8
       then do { s \<leftarrow> is_snap f (n + 8); Some (if s then n + 8 else n) }
       else Some n }) = Some off"
    using payload_offset[OF assms(3)] by blast
  have q: "(if ieee80211_is_data_qos fc then do { q \<leftarrow> rd f (n - 2); Some (q AND 0x80 \<noteq> 0) } else Some False) = Some False"
    using assms by simp
  have a: "addr1 f = Some (slice 4 6 f)" "addr3 f = Some (slice 16 6 f)"
    using assms(3,5) by (simp_all add: addr1_def addr3_def rds_Some)
  show ?thesis
    by (rule that[OF o(1), of sn et])
      (use o(2-4) q a assms(1,3) in \<open>auto simp: deliverDataFrame_def ieee80211_get_hdrlen_from_skb_def
        split: bind_splits simp flip: assms(2)\<close>)
qed



section \<open>Aggregates\<close>

text \<open>The sender's side of an A-MSDU, as the standard lays it out: each MSDU behind its addresses
  and its length, padded to a multiple of four bytes except the last.\<close>

record msdu =
  ms_da :: bytes
  ms_sa :: bytes
  ms_type :: u16
  ms_data :: bytes

definition msdu_ok :: "msdu \<Rightarrow> bool" where
  "msdu_ok m \<longleftrightarrow> length (ms_da m) = 6 \<and> length (ms_sa m) = 6 \<and> length (ms_data m) < 65528"

definition amsdu_subframe :: "msdu \<Rightarrow> bytes" where
  "amsdu_subframe m =
    (let n = word_of_nat (8 + length (ms_data m))
     in ms_da m @ ms_sa m @ [hi8 n, lo8 n] @ snap_header (ms_type m) @ ms_data m)"

fun amsdu_encode :: "msdu list \<Rightarrow> bytes" where
  "amsdu_encode [] = []"
| "amsdu_encode [m] = amsdu_subframe m"
| "amsdu_encode (m # ms) =
    amsdu_subframe m @ replicate ((4 - length (amsdu_subframe m) mod 4) mod 4) 0 @ amsdu_encode ms"

lemma length_amsdu_subframe: "msdu_ok m \<Longrightarrow> length (amsdu_subframe m) = 22 + length (ms_data m)"
  by (simp add: amsdu_subframe_def msdu_ok_def snap_header_def Let_def)

lemma subframe_fields:
  assumes "msdu_ok m"
  shows "sub_len (amsdu_subframe m @ r) 0 = 8 + length (ms_data m)"
    "subframe_out ok (amsdu_subframe m @ r) 0 =
      deliverEthernet ok (ms_da m) (ms_sa m) (ms_type m) (ms_data m)"
proof -
  define n :: u16 where "n = word_of_nat (8 + length (ms_data m))"
  obtain d0 d1 d2 d3 d4 d5 where d: "ms_da m = [d0, d1, d2, d3, d4, d5]"
    using assms unfolding msdu_ok_def by (blast elim: list6_cases)
  obtain s0 s1 s2 s3 s4 s5 where s: "ms_sa m = [s0, s1, s2, s3, s4, s5]"
    using assms unfolding msdu_ok_def by (blast elim: list6_cases)
  have e: "amsdu_subframe m @ r = [d0, d1, d2, d3, d4, d5, s0, s1, s2, s3, s4, s5, hi8 n, lo8 n,
      0xAA, 0xAA, 0x03, 0, 0, 0, hi8 (ms_type m), lo8 (ms_type m)] @ ms_data m @ r"
    by (simp add: amsdu_subframe_def d s snap_header_def Let_def n_def)
  have "unat n = 8 + length (ms_data m)"
    using assms unfolding n_def msdu_ok_def by (intro unat_u16_small) simp
  then show l: "sub_len (amsdu_subframe m @ r) 0 = 8 + length (ms_data m)"
    unfolding sub_len_def e by simp
  show "subframe_out ok (amsdu_subframe m @ r) 0 =
      deliverEthernet ok (ms_da m) (ms_sa m) (ms_type m) (ms_data m)"
    unfolding subframe_out_def l unfolding e by (simp add: slice_def d s)
qed

lemma pad4: "N + (4 - N mod 4) mod 4 = (N + 3) div 4 * (4 :: nat)"
proof -
  have "N mod 4 = 0 \<or> N mod 4 = 1 \<or> N mod 4 = 2 \<or> N mod 4 = 3" by presburger
  moreover have "N mod 4 = 0 \<Longrightarrow> N = (N + 3) div 4 * 4" "N mod 4 = 1 \<Longrightarrow> N + 3 = (N + 3) div 4 * 4"
    "N mod 4 = 2 \<Longrightarrow> N + 2 = (N + 3) div 4 * 4" "N mod 4 = 3 \<Longrightarrow> N + 1 = (N + 3) div 4 * 4"
    by presburger+
  ultimately show ?thesis by (elim disjE) simp_all
qed

lemma sub_len_off: "sub_len (p @ s) (length p) = sub_len s 0"
  by (simp only: sub_len_def add.assoc nth_append_off add_0)

lemma subframe_out_off: "subframe_out ok (p @ s) (length p) = subframe_out ok s 0"
proof -
  have "slice (length p) 6 (p @ s) = slice 0 6 s" using slice_append_off[of p 0 6 s] by simp
  then show ?thesis
    by (simp only: subframe_out_def add.assoc nth_append_off slice_append_off add_0 sub_len_off)
qed

lemma deAmsdu_from_prefix:
  assumes "length p mod 4 = 0" "list_all msdu_ok ms"
  shows "deAmsdu_from ok (p @ amsdu_encode ms) (length p) =
    Some (concat (map (\<lambda>m. deliverEthernet ok (ms_da m) (ms_sa m) (ms_type m) (ms_data m)) ms))"
  using assms
proof (induction ms arbitrary: p rule: amsdu_encode.induct)
  case 1
  then show ?case by (simp add: deAmsdu_from_stop)
next
  case (2 m)
  then have m: "msdu_ok m" by simp
  note l = length_amsdu_subframe[OF m] and f = subframe_fields[OF m, where r = "[]", simplified]
  have "deAmsdu_from ok (p @ amsdu_subframe m) (length p + (14 + (8 + length (ms_data m)) + 3) div 4 * 4) = Some []"
    by (rule deAmsdu_from_stop) (simp add: l)
  then show ?case using deAmsdu_from_good[of "length p" "p @ amsdu_subframe m" ok] l f
    by (simp add: sub_len_off subframe_out_off)
next
  case (3 m m' ms)
  then have m: "msdu_ok m" by simp
  note l = length_amsdu_subframe[OF m]
  let ?n = "length (amsdu_subframe m)"
  define q where "q = p @ amsdu_subframe m @ replicate ((4 - ?n mod 4) mod 4) 0"
  let ?d = "q @ amsdu_encode (m' # ms)"
  have e: "p @ amsdu_encode (m # m' # ms) = ?d" by (simp add: q_def)
  have d: "?d = p @ amsdu_subframe m @ (replicate ((4 - ?n mod 4) mod 4) 0 @ amsdu_encode (m' # ms))"
    by (simp add: q_def)
  have lq: "length q = length p + (14 + (8 + length (ms_data m)) + 3) div 4 * 4"
    using pad4[of ?n] unfolding q_def l length_append length_replicate by simp
  have q4: "length q mod 4 = 0" using 3(2) unfolding lq by simp
  have f: "sub_len ?d (length p) = 8 + length (ms_data m)"
    "subframe_out ok ?d (length p) = deliverEthernet ok (ms_da m) (ms_sa m) (ms_type m) (ms_data m)"
    unfolding d sub_len_off subframe_out_off by (simp_all only: subframe_fields[OF m])
  have "deAmsdu_from ok ?d (length p) = map_option ((@) (subframe_out ok ?d (length p))) (deAmsdu_from ok ?d (length q))"
    using deAmsdu_from_good[of "length p" ?d ok] l unfolding f lq by (simp add: q_def)
  moreover have "list_all msdu_ok (m' # ms)" using 3(3) by simp
  ultimately show ?case using 3(1)[OF q4] unfolding e f by simp
qed

text \<open>C14. \<open>deAmsdu\<close> inverts aggregation: from the body of an A-MSDU made of any list of MSDUs, each
  aligned to four bytes, it hands up exactly those MSDUs as Ethernet frames, in order.\<close>

theorem deAmsdu_roundtrip:
  assumes "list_all msdu_ok ms"
  shows "deAmsdu (\<lambda>_. True) (amsdu_encode ms) =
    Some (map (\<lambda>m. Deliver (ms_da m @ ms_sa m @ [hi8 (ms_type m), lo8 (ms_type m)] @ ms_data m)) ms)"
  using deAmsdu_from_prefix[of "[]" ms "\<lambda>_. True"] assms
  by (simp add: deAmsdu_def deliverEthernet_def concat_map_singleton)

lemma deAmsdu_roundtrip_witness:
  "let m = \<lparr>ms_da = [0,1,2,3,4,5], ms_sa = [6,7,8,9,10,11], ms_type = 0x0800, ms_data = [1,2,3]\<rparr>
   in list_all msdu_ok [m, m] \<and> deAmsdu (\<lambda>_. True) (amsdu_encode [m, m]) =
    Some (map (\<lambda>m. Deliver (ms_da m @ ms_sa m @ [hi8 (ms_type m), lo8 (ms_type m)] @ ms_data m)) [m, m])"
  unfolding Let_def by (intro conjI deAmsdu_roundtrip) (simp_all add: msdu_ok_def)

section \<open>Transmitted frames\<close>

text \<open>A buffer that holds the bytes \<open>b\<close> and has room for \<open>r\<close> more.\<close>

definition holds :: "sk_buff \<Rightarrow> bytes \<Rightarrow> nat \<Rightarrow> bool" where
  "holds skb b r \<longleftrightarrow> skb_ok skb \<and> payload skb = b \<and> sk_end skb - sk_tail skb = int r"

lemma holds_put:
  assumes "holds skb b r" "length d \<le> r"
  shows "\<exists>skb'. skb_put_data d skb = Some skb' \<and> holds skb' (b @ d) (r - length d)"
proof -
  have "int (length d) \<le> sk_end skb - sk_tail skb" using assms by (simp add: holds_def)
  from skb_put_data_ok[OF _ this] assms(1) obtain skb'
    where s: "skb_put_data d skb = Some skb'" "skb_ok skb'" "payload skb' = payload skb @ d"
      "sk_end skb' = sk_end skb" "sk_tail skb' = sk_tail skb + int (length d)"
    by (auto simp: holds_def)
  then have "holds skb' (b @ d) (r - length d)" using assms by (simp add: holds_def of_nat_diff)
  with s(1) show ?thesis by blast
qed

lemma holds_put_if:
  assumes "holds skb b r" "length d \<le> r"
  shows "\<exists>skb' r'. (if q then skb_put_data d skb else Some skb) = Some skb' \<and>
    holds skb' (b @ (if q then d else [])) r' \<and> r \<le> r' + length d"
proof (cases q)
  case True
  obtain skb' where "skb_put_data d skb = Some skb'" "holds skb' (b @ d) (r - length d)"
    using holds_put[OF assms] by blast
  with True assms(2) show ?thesis by (intro exI[of _ skb'] exI[of _ "r - length d"]) simp
next
  case False
  with assms show ?thesis by (intro exI[of _ skb] exI[of _ r]) simp
qed

lemma holds_new:
  assumes "n < 2 ^ 30"
  shows "holds (skb_reserve 128 (alloc_skb junk (word_of_nat n + 128))) [] (n + 64)"
proof -
  have "skb_ok b \<and> payload b = [] \<and> sk_end b - sk_tail b = int (n + 64)"
    if "b = skb_reserve 128 (alloc_skb junk (word_of_nat n + 128))" for b
  proof -
    have "unat (word_of_nat n + 128 + 64 :: u32) = n + 192"
      using unat_word_of_nat_small[of "n + 192"] assms by (simp add: add.assoc)
    then show ?thesis using assms unfolding that
      by (simp add: slice_def skb_reserve_def alloc_skb_def skb_ok_def sk_end_def payload_def)
  qed
  then show ?thesis by (simp add: holds_def)
qed

text \<open>The MPDU of the Ethernet frame \<open>p\<close>.\<close>

definition tx_protected :: "tx_ctx \<Rightarrow> bytes \<Rightarrow> bool" where
  "tx_protected c p \<longleftrightarrow> tc_wpa2 c \<and> tc_ptk c \<noteq> None \<and> be16 (p ! 12) (p ! 13) \<noteq> ETH_P_PAE"

definition tx_fc :: "bool \<Rightarrow> bool \<Rightarrow> u16" where
  "tx_fc qos prot = 0x0108 OR (if qos then 0x0080 else 0) OR (if prot then 0x4000 else 0)"

definition tx_mpdu :: "tx_ctx \<Rightarrow> bytes \<Rightarrow> bytes" where
  "tx_mpdu c p =
    hdr_3addr (tx_fc (tc_ht c) (tx_protected c p)) 0 (tc_bssid c) (tc_mac c) (take 6 p)
      (push_bit 4 ((if tc_ht c then tc_data_seq c else tc_tx_seq c) AND 0xFFF)) @
    (if tc_ht c then [tc_ba_tid c AND 0x0f, 0] else []) @
    (if tx_protected c p
     then ccmp_header (pn_increment (tc_pn c)) (case tc_ptk c of None \<Rightarrow> 0 | Some k \<Rightarrow> k) else []) @
    snap_header (be16 (p ! 12) (p ! 13)) @ drop 14 p"

definition tx_ctx_after :: "tx_ctx \<Rightarrow> bytes \<Rightarrow> tx_ctx" where
  "tx_ctx_after c p =
    (let c' = (if tc_ht c then c\<lparr>tc_data_seq := tc_data_seq c + 1\<rparr> else c\<lparr>tc_tx_seq := tc_tx_seq c + 1\<rparr>)
     in if tx_protected c p then c'\<lparr>tc_pn := pn_increment (tc_pn c)\<rparr> else c')"

lemma tx_fc_steps:
  "IEEE80211_FTYPE_DATA OR IEEE80211_FCTL_TODS = tx_fc False False"
  "tx_fc False False OR IEEE80211_STYPE_QOS_DATA = tx_fc True False"
  "tx_fc qos False OR IEEE80211_FCTL_PROTECTED = tx_fc qos True"
  by (cases qos; simp add: tx_fc_def fc_defs)+

lemma tx_copy:
  assumes "14 \<le> length (p :: bytes)"
  shows "rds p 0 14 = Some (take 14 p)" "rds p 14 (length p - 14) = Some (drop 14 p)"
    "take 14 p ! 12 = p ! 12" "take 14 p ! 13 = p ! 13" "take 6 (take 14 p) = take 6 p"
  using assms by (simp_all add: rds_def slice_def)

lemma txDataFrame_eq:
  assumes "14 \<le> length p" "length p \<le> 2048" "length (tc_bssid c) = 6" "length (tc_mac c) = 6"
  shows "\<exists>skb. txDataFrame True True junk (length p) (rds p) c =
      Some (Some (tx_frame.make (skb_set_queue_mapping 2 skb) (tc_ht c \<and> tc_ba_active c)
        (tx_protected c p) (tc_channel c > 14)), tx_ctx_after c p) \<and>
    skb_ok skb \<and> payload skb = tx_mpdu c p"
proof -
  define et where "et = be16 (p ! 12) (p ! 13)"
  define prot where "prot = (tc_wpa2 c \<and> tc_ptk c \<noteq> None \<and> et \<noteq> ETH_P_PAE)"
  define qos where "qos = tc_ht c"
  define n :: nat where "n = (if qos then 26 else 24) + (if prot then 8 else 0) + 8 + (length p - 14)"
  define sn where "sn = (if qos then tc_data_seq c else tc_tx_seq c)"
  define cc where "cc = ccmp_header (pn_increment (tc_pn c)) (case tc_ptk c of None \<Rightarrow> 0 | Some k \<Rightarrow> k)"
  define hdr where "hdr = hdr_3addr (tx_fc qos prot) 0 (tc_bssid c) (tc_mac c) (take 6 p) (push_bit 4 (sn AND 0xFFF))"
  define q where "q = [tc_ba_tid c AND IEEE80211_QOS_CTL_TID_MASK, 0]"
  define s0 where "s0 = skb_reserve 128 (alloc_skb junk (word_of_nat n + 128))"
  have len: "length hdr = 24" "length cc = 8" "length q = 2" "length (snap_header et) = 8"
    using assms by (simp_all add: hdr_def cc_def q_def ccmp_header_def snap_header_def)
  have h0: "holds s0 [] (n + 64)" unfolding s0_def by (rule holds_new) (use assms in \<open>simp add: n_def\<close>)
  have n: "32 + (length p - 14) \<le> n" by (simp add: n_def)
  from holds_put[OF h0, of hdr] len obtain s1
    where s1: "skb_put_data hdr s0 = Some s1" "holds s1 ([] @ hdr) (n + 64 - 24)" by auto
  from holds_put_if[OF s1(2), of q qos] len obtain s2 r2
    where s2: "(if qos then skb_put_data q s1 else Some s1) = Some s2"
      "holds s2 (([] @ hdr) @ (if qos then q else [])) r2" "n + 64 - 24 \<le> r2 + 2" by auto
  have r2: "8 \<le> r2" using s2(3) by simp
  from holds_put_if[OF s2(2), of cc prot] len r2 obtain s3 r3
    where s3: "(if prot then skb_put_data cc s2 else Some s2) = Some s3"
      "holds s3 ((([] @ hdr) @ (if qos then q else [])) @ (if prot then cc else [])) r3" "r2 \<le> r3 + 8" by auto
  have r3: "8 + (length p - 14) \<le> r3" using s2(3) s3(3) n by simp
  from holds_put[OF s3(2), of "snap_header et"] len r3 obtain s4
    where s4: "skb_put_data (snap_header et) s3 = Some s4"
      "holds s4 (((([] @ hdr) @ (if qos then q else [])) @ (if prot then cc else [])) @ snap_header et) (r3 - 8)"
    by auto
  have "length (drop 14 p) \<le> r3 - 8" using r3 by simp
  from holds_put_if[OF s4(2) this, of "length p - 14 \<noteq> 0"] obtain s5 r5
    where s5: "(if length p - 14 \<noteq> 0 then skb_put_data (drop 14 p) s4 else Some s4) = Some s5"
      "holds s5 ((((([] @ hdr) @ (if qos then q else [])) @ (if prot then cc else [])) @ snap_header et) @
        (if length p - 14 \<noteq> 0 then drop 14 p else [])) r5" by blast
  have tp: "tx_protected c p = prot" by (simp add: tx_protected_def prot_def et_def)
  have mp: "tx_mpdu c p = hdr @ (if qos then q else []) @ (if prot then cc else []) @ snap_header et @ drop 14 p"
    unfolding tx_mpdu_def tp hdr_def sn_def qos_def q_def cc_def et_def fc_defs by simp
  have "payload s5 = tx_mpdu c p" using s5(2) unfolding holds_def mp by (cases "length p - 14 \<noteq> 0") simp_all
  moreover have "skb_ok s5" using s5(2) by (simp add: holds_def)
  moreover have "txDataFrame True True junk (length p) (rds p) c =
      Some (Some (tx_frame.make (skb_set_queue_mapping 2 s5) (qos \<and> tc_ba_active c) prot (tc_channel c > 14)),
        tx_ctx_after c p)"
  proof -
    have pr: "(tc_wpa2 c \<and> tc_ptk c \<noteq> None \<and> et \<noteq> ETH_P_PAE) = prot" unfolding prot_def ..
    have lt: "\<not> (length p < 14 \<or> length p > 2048)" using assms by simp
    note cp = tx_copy[OF assms(1)]
    show ?thesis
      using s1(1) s2(1) s3(1) s4(1) s5(1) lt
      unfolding txDataFrame_def tx_ctx_after_def Let_def hdr_def s0_def sn_def n_def q_def cc_def
      unfolding cp option.case
      unfolding cp et_def[symmetric] tp
      unfolding pr qos_def[symmetric]
      by (cases qos; cases prot; cases "length p - 14 = 0")
        (simp_all only: if_True if_False simp_thms tx_fc_steps bind.bind_lunit cp option.case,
         simp_all)
  qed
  ultimately show ?thesis by (intro exI[of _ s5]) (simp add: qos_def tp)
qed

lemma tx_mpdu_split:
  assumes "length (tc_bssid c) = 6" "length (tc_mac c) = 6" "14 \<le> length p"
  shows "frame_control (tx_mpdu c p) = Some (tx_fc (tc_ht c) (tx_protected c p))"
    "seq_ctrl (tx_mpdu c p) = Some (push_bit 4 ((if tc_ht c then tc_data_seq c else tc_tx_seq c) AND 0xFFF))"
    "addr1 (tx_mpdu c p) = Some (tc_bssid c)" "addr2 (tx_mpdu c p) = Some (tc_mac c)"
    "addr3 (tx_mpdu c p) = Some (take 6 p)"
proof -
  have l: "length (take 6 p) = 6" using assms by simp
  show "frame_control (tx_mpdu c p) = Some (tx_fc (tc_ht c) (tx_protected c p))"
    "seq_ctrl (tx_mpdu c p) = Some (push_bit 4 ((if tc_ht c then tc_data_seq c else tc_tx_seq c) AND 0xFFF))"
    "addr1 (tx_mpdu c p) = Some (tc_bssid c)" "addr2 (tx_mpdu c p) = Some (tc_mac c)"
    "addr3 (tx_mpdu c p) = Some (take 6 p)"
    unfolding tx_mpdu_def by (simp_all only: hdr_3addr_fields[OF assms(1,2) l])
qed

text \<open>An access point relays a frame of the cell: it swaps the direction bits and rotates the
  addresses; the body stays.\<close>

definition ap_relay :: "bytes \<Rightarrow> bytes option" where
  "ap_relay f = do {
     fc \<leftarrow> frame_control f; bssid \<leftarrow> addr1 f; sa \<leftarrow> addr2 f; da \<leftarrow> addr3 f; seq \<leftarrow> seq_ctrl f;
     Some (hdr_3addr ((fc AND NOT IEEE80211_FCTL_TODS) OR IEEE80211_FCTL_FROMDS) 0 da bssid sa seq @ drop 24 f) }"

definition relay_fc :: "bool \<Rightarrow> bool \<Rightarrow> u16" where
  "relay_fc qos prot = (tx_fc qos prot AND NOT IEEE80211_FCTL_TODS) OR IEEE80211_FCTL_FROMDS"

lemma relay_fc_facts:
  "ieee80211_is_data_qos (relay_fc qos prot) = qos" "ieee80211_has_protected (relay_fc qos prot) = prot"
  "ieee80211_get_hdrlen (relay_fc qos prot) = (if qos then 26 else 24)"
  by (cases qos; cases prot; simp add: relay_fc_def tx_fc_def ieee80211_is_data_qos_def
      ieee80211_has_protected_def ieee80211_get_hdrlen_def fc_defs)+

lemma drop_hdr: "length a = 6 \<Longrightarrow> length b = 6 \<Longrightarrow> length c = 6 \<Longrightarrow> drop 24 (hdr_3addr fc d a b c s @ r) = r"
  by simp

lemma deliver_snap:
  assumes l: "length da = 6" "length bssid = 6" "length sa = 6" and q: "length q = (if qos then 2 else 0)" "qos \<Longrightarrow> q ! 0 AND 0x80 = 0"
    and cc: "length cc = (if prot then 8 else 0)" "prot \<Longrightarrow> cc ! 2 = 0"
  shows "deliverDataFrame ok hs (hdr_3addr (relay_fc qos prot) 0 da bssid sa seq @ q @ cc @ snap_header et @ pl) =
    Some (if et = ETH_P_PAE \<and> hs then [Eapol pl] else deliverEthernet ok da sa et pl)"
proof -
  define n :: nat where "n = (if qos then 26 else 24)"
  define f where "f = hdr_3addr (relay_fc qos prot) 0 da bssid sa seq @ q @ cc @ snap_header et @ pl"
  let ?h = "hdr_3addr (relay_fc qos prot) 0 da bssid sa seq @ q"
  have lh: "length ?h = n" using l q by (simp add: n_def)
  have at: "f ! (n + i) = (cc @ snap_header et @ pl) ! i" for i
    using nth_append_off[of ?h "cc @ snap_header et @ pl" i] unfolding lh f_def by simp
  have lf: "length f = n + length cc + 8 + length pl"
    using lh by (simp add: f_def snap_header_def)
  have fc: "frame_control f = Some (relay_fc qos prot)" "addr1 f = Some da" "addr3 f = Some sa"
    unfolding f_def by (simp_all only: hdr_3addr_fields[OF l])
  have hl: "ieee80211_get_hdrlen_from_skb f = Some n"
    by (simp add: ieee80211_get_hdrlen_from_skb_def fc relay_fc_facts n_def)
  have am: "(if qos then do { b \<leftarrow> rd f (n - 2); Some (b AND 0x80 \<noteq> 0) } else Some False) = Some False"
  proof (cases qos)
    case True
    then have "f ! 24 = q ! 0"
      using nth_append_off[of "hdr_3addr (relay_fc qos prot) 0 da bssid sa seq" "q @ cc @ snap_header et @ pl" 0] l q
      by (simp add: f_def nth_append)
    with True q lf show ?thesis by (simp add: n_def)
  qed simp
  have snap: "is_snap f (n + length cc) = Some True" "be16_rd f (n + length cc + 6) = Some et"
  proof -
    obtain k where k: "n + length cc = k" by simp
    have at2: "f ! (k + i) = (snap_header et @ pl) ! i" for i
      using at[of "length cc + i"] nth_append_off[of cc "snap_header et @ pl" i] by (simp add: add.assoc flip: k)
    have k7: "k + 6 + 1 = k + 7" by simp
    show "is_snap f (n + length cc) = Some True" "be16_rd f (n + length cc + 6) = Some et"
      using at2[of 0] at2[of 1] at2[of 2] at2[of 6] at2[of 7] lf
      unfolding k is_snap_def be16_rd_def k7 by (simp_all add: snap_header_def)
  qed
  have off: "(do { snap \<leftarrow> is_snap f n;
        if \<not> snap \<and> prot \<and> length f \<ge> n + 8 + 8
        then do { s \<leftarrow> is_snap f (n + 8); Some (if s then n + 8 else n) } else Some n }) = Some (n + length cc)"
  proof (cases prot)
    case True
    then have "is_snap f n = Some False"
      using at[of 0] at[of 1] at[of 2] cc lf by (simp add: is_snap_def nth_append)
    with True snap lf cc show ?thesis by simp
  next
    case False
    with snap cc show ?thesis by simp
  qed
  have pl: "drop (n + length cc + 8) f = pl"
    using lh by (simp add: f_def snap_header_def)
  obtain b where b: "is_snap f n = Some b" using off by (cases "is_snap f n") simp_all
  have "deliverDataFrame ok hs f = Some (if et = ETH_P_PAE \<and> hs then [Eapol pl] else deliverEthernet ok da sa et pl)"
    unfolding deliverDataFrame_def fc hl bind.bind_lunit relay_fc_facts
    using lf am snap off pl b by (simp add: fc)
  then show ?thesis by (simp add: f_def)
qed

text \<open>C15. Through the air and back: for an Ethernet frame of 14 to 2048 bytes \<open>txDataFrame\<close> stays inside
  the buffer it allocates, and when the access point relays the result (with its CCMP header, when
  it has one), \<open>deliverDataFrame\<close> on the other side hands up the same Ethernet frame, with this
  station as its source.\<close>

theorem txDataFrame_reaches_peer:
  assumes "14 \<le> length p" "length p \<le> 2048" "length (tc_bssid c) = 6" "length (tc_mac c) = 6"
  shows "\<exists>tf. txDataFrame True True junk (length p) (rds p) c = Some (Some tf, tx_ctx_after c p) \<and>
    skb_ok (tf_skb tf) \<and>
    (\<exists>g. ap_relay (payload (tf_skb tf)) = Some g \<and>
      deliverDataFrame (\<lambda>_. True) False g = Some [Deliver (take 6 p @ tc_mac c @ drop 12 p)])"
proof -
  obtain skb where skb: "txDataFrame True True junk (length p) (rds p) c =
      Some (Some (tx_frame.make (skb_set_queue_mapping 2 skb) (tc_ht c \<and> tc_ba_active c)
        (tx_protected c p) (tc_channel c > 14)), tx_ctx_after c p)"
    "skb_ok skb" "payload skb = tx_mpdu c p" using txDataFrame_eq[OF assms(1-4)] by blast
  let ?seq = "push_bit 4 ((if tc_ht c then tc_data_seq c else tc_tx_seq c) AND 0xFFF) :: u16"
  let ?q = "if tc_ht c then [tc_ba_tid c AND 0x0f, 0] else []"
  let ?cc = "if tx_protected c p
     then ccmp_header (pn_increment (tc_pn c)) (case tc_ptk c of None \<Rightarrow> 0 | Some k \<Rightarrow> k) else []"
  let ?et = "be16 (p ! 12) (p ! 13)"
  let ?g = "hdr_3addr (relay_fc (tc_ht c) (tx_protected c p)) 0 (take 6 p) (tc_bssid c) (tc_mac c) ?seq @
    ?q @ ?cc @ snap_header ?et @ drop 14 p"
  have l6: "length (take 6 p) = 6" using assms(1) by simp
  have "drop 24 (tx_mpdu c p) = ?q @ ?cc @ snap_header ?et @ drop 14 p"
    unfolding tx_mpdu_def by (rule drop_hdr) (use assms l6 in simp_all)
  then have g: "ap_relay (tx_mpdu c p) = Some ?g"
    unfolding ap_relay_def tx_mpdu_split[OF assms(3,4,1)] bind.bind_lunit relay_fc_def by simp
  have "(tc_ba_tid c AND 0x0f) AND 0x80 = (0 :: u8)" by (simp add: and.assoc)
  then have d: "deliverDataFrame (\<lambda>_. True) False ?g =
      Some (deliverEthernet (\<lambda>_. True) (take 6 p) (tc_mac c) ?et (drop 14 p))"
    using assms l6 deliver_snap[of "take 6 p" "tc_bssid c" "tc_mac c" ?q "tc_ht c" ?cc "tx_protected c p" "\<lambda>_. True" False ?seq ?et "drop 14 p"]
    by (simp add: ccmp_header_def)
  have "hi8 ?et = p ! 12" "lo8 ?et = p ! 13" by (simp_all add: be16_eq_le16)
  moreover have "drop 12 p = p ! 12 # p ! 13 # drop 14 p"
    using assms(1) Cons_nth_drop_Suc[of 12 p] Cons_nth_drop_Suc[of 13 p] by simp
  ultimately have "deliverEthernet (\<lambda>_. True) (take 6 p) (tc_mac c) ?et (drop 14 p) =
      [Deliver (take 6 p @ tc_mac c @ drop 12 p)]" by (simp add: deliverEthernet_def)
  with d g skb show ?thesis
    by (simp add: tx_frame.make_def skb_set_queue_mapping_def skb_ok_def sk_end_def payload_def)
qed

definition tx_demo :: tx_ctx where
  "tx_demo = \<lparr>tc_bssid = [1, 2, 3, 4, 5, 6], tc_mac = [7, 8, 9, 10, 11, 12], tc_channel = 6, tc_ht = True,
     tc_wpa2 = True, tc_ptk = Some 0, tc_ba_active = False, tc_ba_tid = 0, tc_data_seq = 0, tc_tx_seq = 0,
     tc_pn = [255, 0, 0, 0, 0, 0]\<rparr>"

lemma txDataFrame_reaches_peer_witness:
  "\<exists>tf. txDataFrame True True (\<lambda>_. 0) (length (replicate 20 (8 :: u8))) (rds (replicate 20 8)) tx_demo =
      Some (Some tf, tx_ctx_after tx_demo (replicate 20 8)) \<and>
    skb_ok (tf_skb tf) \<and>
    (\<exists>g. ap_relay (payload (tf_skb tf)) = Some g \<and>
      deliverDataFrame (\<lambda>_. True) False g =
        Some [Deliver (take 6 (replicate 20 8) @ tc_mac tx_demo @ drop 12 (replicate 20 8))])"
  by (rule txDataFrame_reaches_peer) (simp_all add: tx_demo_def)

text \<open>The packet number as a number, least significant byte first.\<close>

fun le_value :: "bytes \<Rightarrow> nat" where
  "le_value [] = 0"
| "le_value (b # bs) = unat b + 256 * le_value bs"

lemma le_value_less: "le_value bs < 256 ^ length bs"
proof (induction bs)
  case (Cons b bs)
  then have "Suc (le_value bs) * 256 \<le> 256 ^ length bs * 256" by (intro mult_le_mono1) simp
  then show ?case using unat_u8_less[of b] by simp
qed simp

lemma pn_increment_value: "le_value (pn_increment bs) = (le_value bs + 1) mod 256 ^ length bs"
proof (induction bs)
  case (Cons b bs)
  show ?case
  proof (cases "b + 1 = 0")
    case True
    then have b: "unat b = 255" by (simp add: eq_neg_iff_add_eq_0[symmetric] unsigned_minus_1_eq_mask mask_eq_exp_minus_1)
    have "le_value (pn_increment (b # bs)) = 256 * ((le_value bs + 1) mod 256 ^ length bs)"
      using True Cons by simp
    also have "\<dots> = (256 * (le_value bs + 1)) mod (256 * 256 ^ length bs)" by (simp add: mult_mod_right)
    finally show ?thesis using b by (simp add: add.commute)
  next
    case False
    then have "unat (b + 1) = unat b + 1" by (simp add: unat_eq_zero unatSuc add.commute)
    moreover from this have "unat b + 1 < 256" using unat_u8_less[of "b + 1"] by simp
    moreover have "Suc (le_value bs) * 256 \<le> 256 ^ length bs * 256"
      using le_value_less[of bs] by (intro mult_le_mono1) simp
    ultimately show ?thesis using False by simp
  qed
qed simp

text \<open>A frame that goes out is encrypted exactly when a WPA2 pairwise key is installed and the
  packet is not EAPOL; then its CCMP header carries the old packet number plus one (modulo
  \<open>2 ^ 48\<close>), which becomes the new one, and otherwise the packet number stays.  The 12-bit sequence
  number of the header is the next one of the space the frame uses (QoS or not), and the other
  space is untouched.\<close>

theorem txDataFrame_numbers:
  assumes "14 \<le> length p" "length p \<le> 2048" "length (tc_bssid c) = 6" "length (tc_mac c) = 6"
    "length (tc_pn c) = 6"
  shows "\<exists>tf c'. txDataFrame True True junk (length p) (rds p) c = Some (Some tf, c') \<and>
    tf_keyed tf = (tc_wpa2 c \<and> tc_ptk c \<noteq> None \<and> be16 (p ! 12) (p ! 13) \<noteq> ETH_P_PAE) \<and>
    map_option ieee80211_has_protected (frame_control (payload (tf_skb tf))) = Some (tf_keyed tf) \<and>
    le_value (tc_pn c') = (if tf_keyed tf then (le_value (tc_pn c) + 1) mod 2 ^ 48 else le_value (tc_pn c)) \<and>
    (tf_keyed tf \<longrightarrow> (let h = drop (if tc_ht c then 26 else 24) (payload (tf_skb tf)) in
       [h ! 0, h ! 1, h ! 4, h ! 5, h ! 6, h ! 7] = tc_pn c')) \<and>
    seq_ctrl (payload (tf_skb tf)) = Some (push_bit 4 ((if tc_ht c then tc_data_seq c else tc_tx_seq c) AND 0xFFF)) \<and>
    tc_data_seq c' = tc_data_seq c + (if tc_ht c then 1 else 0) \<and>
    tc_tx_seq c' = tc_tx_seq c + (if tc_ht c then 0 else 1)"
proof -
  obtain skb where skb: "txDataFrame True True junk (length p) (rds p) c =
      Some (Some (tx_frame.make (skb_set_queue_mapping 2 skb) (tc_ht c \<and> tc_ba_active c)
        (tx_protected c p) (tc_channel c > 14)), tx_ctx_after c p)"
    "payload skb = tx_mpdu c p" using txDataFrame_eq[OF assms(1-4)] by blast
  define tf where "tf = tx_frame.make (skb_set_queue_mapping 2 skb) (tc_ht c \<and> tc_ba_active c)
        (tx_protected c p) (tc_channel c > 14)"
  have tf: "payload (tf_skb tf) = tx_mpdu c p" "tf_keyed tf = tx_protected c p"
    using skb(2) by (simp_all add: tf_def tx_frame.make_def skb_set_queue_mapping_def payload_def)
  have "ieee80211_has_protected (tx_fc q pr) = pr" for q pr
    by (cases q; cases pr; simp add: tx_fc_def ieee80211_has_protected_def fc_defs)
  moreover have "le_value (pn_increment (tc_pn c)) = (le_value (tc_pn c) + 1) mod 2 ^ 48"
    using pn_increment_value[of "tc_pn c"] assms(5) by simp
  moreover have "let h = drop (if tc_ht c then 26 else 24) (tx_mpdu c p) in
       [h ! 0, h ! 1, h ! 4, h ! 5, h ! 6, h ! 7] = pn_increment (tc_pn c)" if "tx_protected c p"
  proof -
    have "length (pn_increment bs) = length bs" for bs by (induction bs) simp_all
    then have "length (pn_increment (tc_pn c)) = 6" using assms(5) by simp
    then obtain a0 a1 a2 a3 a4 a5 where "pn_increment (tc_pn c) = [a0, a1, a2, a3, a4, a5]"
      by (rule list6_cases)
    moreover have "length (take 6 p) = 6" using assms(1) by simp
    ultimately show ?thesis using that assms(3,4)
      by (simp add: tx_mpdu_def ccmp_header_def)
  qed
  ultimately have "tf_keyed tf = (tc_wpa2 c \<and> tc_ptk c \<noteq> None \<and> be16 (p ! 12) (p ! 13) \<noteq> ETH_P_PAE)"
    "map_option ieee80211_has_protected (frame_control (payload (tf_skb tf))) = Some (tf_keyed tf)"
    "le_value (tc_pn (tx_ctx_after c p)) =
      (if tf_keyed tf then (le_value (tc_pn c) + 1) mod 2 ^ 48 else le_value (tc_pn c))"
    "tf_keyed tf \<longrightarrow> (let h = drop (if tc_ht c then 26 else 24) (payload (tf_skb tf)) in
       [h ! 0, h ! 1, h ! 4, h ! 5, h ! 6, h ! 7] = tc_pn (tx_ctx_after c p))"
    "seq_ctrl (payload (tf_skb tf)) = Some (push_bit 4 ((if tc_ht c then tc_data_seq c else tc_tx_seq c) AND 0xFFF))"
    "tc_data_seq (tx_ctx_after c p) = tc_data_seq c + (if tc_ht c then 1 else 0)"
    "tc_tx_seq (tx_ctx_after c p) = tc_tx_seq c + (if tc_ht c then 0 else 1)"
    unfolding tf tx_mpdu_split[OF assms(3,4,1)]
    by (simp_all add: tx_ctx_after_def Let_def) (simp add: tx_protected_def)
  with skb(1) show ?thesis unfolding tf_def by blast
qed

lemma txDataFrame_numbers_witness:
  "let p = replicate 20 (8 :: u8) in
   \<exists>tf c'. txDataFrame True True (\<lambda>_. 0) (length p) (rds p) tx_demo = Some (Some tf, c') \<and>
    tf_keyed tf = (tc_wpa2 tx_demo \<and> tc_ptk tx_demo \<noteq> None \<and> be16 (p ! 12) (p ! 13) \<noteq> ETH_P_PAE) \<and>
    map_option ieee80211_has_protected (frame_control (payload (tf_skb tf))) = Some (tf_keyed tf) \<and>
    le_value (tc_pn c') = (if tf_keyed tf then (le_value (tc_pn tx_demo) + 1) mod 2 ^ 48 else le_value (tc_pn tx_demo)) \<and>
    (tf_keyed tf \<longrightarrow> (let h = drop (if tc_ht tx_demo then 26 else 24) (payload (tf_skb tf)) in
       [h ! 0, h ! 1, h ! 4, h ! 5, h ! 6, h ! 7] = tc_pn c')) \<and>
    seq_ctrl (payload (tf_skb tf)) =
      Some (push_bit 4 ((if tc_ht tx_demo then tc_data_seq tx_demo else tc_tx_seq tx_demo) AND 0xFFF)) \<and>
    tc_data_seq c' = tc_data_seq tx_demo + (if tc_ht tx_demo then 1 else 0) \<and>
    tc_tx_seq c' = tc_tx_seq tx_demo + (if tc_ht tx_demo then 0 else 1)"
  unfolding Let_def[of "replicate 20 (8 :: u8)"]
  by (rule txDataFrame_numbers) (simp_all add: tx_demo_def)

end
