(* ===== verification/Scan.thy ===== *)
theory Scan
  imports Frames Eapol
begin

text \<open>
  Scan results, \<open>src/kext/RTW88IEEE80211.cpp\<close>: \<open>processScanResult\<close> parses a beacon or probe
  response into a BSS record and files it by BSSID, \<open>cmdScan\<close> opens a new scan generation,
  \<open>scanDone\<close> drops the access points that have not been heard for more than three of them, and
  \<open>cmdGetBSSList\<close> packs the list for user space, where \<open>cmd_list\<close> of \<open>ctl/main.c\<close> unpacks it.
  The linked list of records is a list; reads and copies outside an object are \<open>None\<close>.
\<close>

datatype IOReturn = kIOReturnSuccess | kIOReturnBadArgument | kIOReturnBusy | kIOReturnNotReady
  | kIOReturnNotFound | kIOReturnError | kIOReturnUnsupported | kIOReturnNotAttached | kIOReturnOffline
  | kIOReturnNoMemory

definition WLAN_EID_SSID :: u8 where "WLAN_EID_SSID = 0"
definition WLAN_EID_SUPP_RATES :: u8 where "WLAN_EID_SUPP_RATES = 1"
definition WLAN_EID_DS_PARAMS :: u8 where "WLAN_EID_DS_PARAMS = 3"
definition WLAN_EID_HT_CAPABILITY :: u8 where "WLAN_EID_HT_CAPABILITY = 45"
definition WLAN_EID_RSN :: u8 where "WLAN_EID_RSN = 48"
definition WLAN_EID_EXT_SUPP_RATES :: u8 where "WLAN_EID_EXT_SUPP_RATES = 50"
definition WLAN_EID_HT_OPERATION :: u8 where "WLAN_EID_HT_OPERATION = 61"
definition WLAN_EID_VHT_CAPABILITY :: u8 where "WLAN_EID_VHT_CAPABILITY = 191"
definition WLAN_EID_VHT_OPERATION :: u8 where "WLAN_EID_VHT_OPERATION = 192"
definition WLAN_EID_VENDOR_SPECIFIC :: u8 where "WLAN_EID_VENDOR_SPECIFIC = 221"

named_theorems eid_defs "the element identifiers"

lemmas eid_consts [eid_defs] =
  WLAN_EID_SSID_def WLAN_EID_SUPP_RATES_def WLAN_EID_DS_PARAMS_def WLAN_EID_HT_CAPABILITY_def
  WLAN_EID_RSN_def WLAN_EID_EXT_SUPP_RATES_def WLAN_EID_HT_OPERATION_def WLAN_EID_VHT_CAPABILITY_def
  WLAN_EID_VHT_OPERATION_def WLAN_EID_VENDOR_SPECIFIC_def

record rtw88_bss =
  b_ssid :: bytes
  b_ssid_len :: u8
  b_bssid :: bytes
  b_rssi :: u16
  b_freq :: u16
  b_channel :: u8
  b_cipher :: u32
  b_group_cipher :: u32
  b_akm :: u32
  b_last_seen :: u32
  b_ies :: bytes
  b_ies_len :: u16

text \<open>\<open>IOMallocZero(sizeof(RTW88BSS))\<close>.\<close>

definition bss_zero :: rtw88_bss where
  "bss_zero = \<lparr>b_ssid = replicate 33 0, b_ssid_len = 0, b_bssid = replicate 6 0, b_rssi = 0, b_freq = 0,
     b_channel = 0, b_cipher = 0, b_group_cipher = 0, b_akm = 0, b_last_seen = 0,
     b_ies = replicate 512 0, b_ies_len = 0\<rparr>"

section \<open>Parsing a beacon\<close>

text \<open>What one element changes; the element's bytes start at \<open>pos\<close>.\<close>

definition ie_field :: "bytes \<Rightarrow> nat \<Rightarrow> u8 \<Rightarrow> u8 \<Rightarrow> rtw88_bss \<Rightarrow> rtw88_bss option" where
  "ie_field f pos eid len bss =
    (if eid = WLAN_EID_SSID \<and> len > 0 \<and> len \<le> 32
     then do {
       s \<leftarrow> rds f (pos + 2) (unat len);
       ssid \<leftarrow> wr (b_ssid bss) 0 s;
       Some (bss\<lparr>b_ssid := ssid, b_ssid_len := len\<rparr>) }
     else if eid = WLAN_EID_DS_PARAMS \<and> len \<ge> 1
     then do { c \<leftarrow> rd f (pos + 2); Some (bss\<lparr>b_channel := c\<rparr>) }
     else if eid = WLAN_EID_HT_OPERATION \<and> len \<ge> 1 \<and> b_channel bss = 0
     then do { c \<leftarrow> rd f (pos + 2); Some (bss\<lparr>b_channel := c\<rparr>) }
     else if eid = WLAN_EID_RSN
     then do {
       sel \<leftarrow> rtw88RsnSelectCcmpPsk (drop (pos + 2) f) (unat len);
       Some (case sel of None \<Rightarrow> bss
         | Some (pw, grp) \<Rightarrow> bss\<lparr>b_cipher := pw, b_group_cipher := grp, b_akm := AKM_PSK\<rparr>) }
     else if eid = WLAN_EID_VENDOR_SPECIFIC \<and> len \<ge> 8
     then do {
       oui \<leftarrow> rds f (pos + 2) 4;
       Some (if oui = [0x00, 0x50, 0xf2, 0x01] \<and> b_cipher bss = 0
         then bss\<lparr>b_cipher := CIPHER_TKIP, b_group_cipher := CIPHER_TKIP, b_akm := AKM_PSK\<rparr>
         else bss) }
     else Some bss)"

text \<open>The copy of the raw element.\<close>

definition ie_copy :: "bytes \<Rightarrow> nat \<Rightarrow> u8 \<Rightarrow> rtw88_bss \<Rightarrow> rtw88_bss option" where
  "ie_copy f pos len bss =
    (let copy = 2 + ucast len :: u16
     in if unat (b_ies_len bss) + unat copy < 512
        then do {
          s \<leftarrow> rds f pos (unat copy);
          ies \<leftarrow> wr (b_ies bss) (unat (b_ies_len bss)) s;
          Some (bss\<lparr>b_ies := ies, b_ies_len := b_ies_len bss + copy\<rparr>) }
        else Some bss)"

function ie_walk :: "bytes \<Rightarrow> nat \<Rightarrow> rtw88_bss \<Rightarrow> rtw88_bss option" where
  "ie_walk f pos bss =
    (if pos + 2 \<le> length f
     then do {
       eid \<leftarrow> rd f pos; len \<leftarrow> rd f (pos + 1);
       if pos + 2 + unat len > length f then Some bss
       else do {
         bss \<leftarrow> ie_field f pos eid len bss;
         bss \<leftarrow> ie_copy f pos len bss;
         ie_walk f (pos + 2 + unat len) bss } }
     else Some bss)"
  by pat_completeness auto
termination
  by (relation "measure (\<lambda>(f, pos, _). length f - pos)") auto

declare ie_walk.simps [simp del]

text \<open>The channel of a frequency, when no element names it; \<open>int\<close> arithmetic cut to a byte.\<close>

definition freq_channel :: "u16 \<Rightarrow> u8" where
  "freq_channel freq =
    (let f = unat freq
     in if f = 2484 then 14
        else if f \<ge> 2412 \<and> f \<le> 2472 then word_of_nat ((f - 2407) div 5)
        else if f \<ge> 5000 \<and> f \<le> 5900 then word_of_nat ((f - 5000) div 5)
        else 0)"

section \<open>The list of access points\<close>

record scan_db =
  sd_list :: "rtw88_bss list"
  sd_count :: u32
  sd_gen :: u32

fun bss_update :: "rtw88_bss \<Rightarrow> rtw88_bss list \<Rightarrow> rtw88_bss list option" where
  "bss_update bss [] = None"
| "bss_update bss (e # es) =
    (if b_bssid e = b_bssid bss then Some (bss # es) else map_option ((#) e) (bss_update bss es))"

text \<open>\<open>f\<close> is the frame, \<open>signal\<close> and \<open>freq\<close> come from its receive status.\<close>

definition processScanResult :: "bool \<Rightarrow> bytes \<Rightarrow> u8 \<Rightarrow> u16 \<Rightarrow> scan_db \<Rightarrow> scan_db option" where
  "processScanResult alloc_ok f signal freq db =
    (if length f < 30 + 12 then Some db
     else if \<not> alloc_ok then Some db
     else do {
       bssid \<leftarrow> addr3 f;
       bss \<leftarrow> ie_walk f (24 + 12) (bss_zero\<lparr>b_bssid := bssid\<rparr>);
       let bss = bss\<lparr>b_rssi := scast signal, b_freq := freq, b_last_seen := sd_gen db\<rparr>;
       let bss = (if b_channel bss = 0 \<and> b_freq bss \<noteq> 0 then bss\<lparr>b_channel := freq_channel freq\<rparr> else bss);
       Some (case bss_update bss (sd_list db) of
           Some l \<Rightarrow> db\<lparr>sd_list := l\<rparr>
         | None \<Rightarrow> db\<lparr>sd_list := bss # sd_list db, sd_count := sd_count db + 1\<rparr>) })"

text \<open>The new generation that \<open>cmdScan\<close> opens.\<close>

definition scan_generation :: "scan_db \<Rightarrow> scan_db" where
  "scan_generation db =
    (let db = db\<lparr>sd_gen := sd_gen db + 1\<rparr>
     in if sd_gen db = 0
        then db\<lparr>sd_list := map (\<lambda>b. b\<lparr>b_last_seen := 1\<rparr>) (sd_list db), sd_gen := 1\<rparr> else db)"

text \<open>The aging loop of \<open>scanDone\<close>; \<open>target\<close> is the BSSID of the link, when there is one.\<close>

fun bss_expire :: "bytes option \<Rightarrow> u32 \<Rightarrow> rtw88_bss list \<Rightarrow> u32 \<Rightarrow> rtw88_bss list \<times> u32" where
  "bss_expire target gen [] cnt = ([], cnt)"
| "bss_expire target gen (b # bs) cnt =
    (if target \<noteq> Some (b_bssid b) \<and> gen - b_last_seen b > 3
     then bss_expire target gen bs (if cnt \<noteq> 0 then cnt - 1 else cnt)
     else let (l, c) = bss_expire target gen bs cnt in (b # l, c))"

definition scanDone_expire :: "bool \<Rightarrow> bytes option \<Rightarrow> scan_db \<Rightarrow> scan_db" where
  "scanDone_expire aborted target db =
    (if \<not> aborted
     then let (l, c) = bss_expire target (sd_gen db) (sd_list db) (sd_count db)
          in db\<lparr>sd_list := l, sd_count := c\<rparr>
     else db)"

text \<open>\<open>strlen\<close>, and the search of \<open>cmdConnect\<close>; \<open>ssid\<close> is the C string asked for, without its
  terminator.\<close>

definition strlen :: "bytes \<Rightarrow> nat" where
  "strlen s = length (takeWhile (\<lambda>c. c \<noteq> 0) s)"

definition bss_find :: "bytes \<Rightarrow> rtw88_bss list \<Rightarrow> rtw88_bss option" where
  "bss_find ssid l =
    find (\<lambda>b. strlen (b_ssid b) = strlen ssid \<and> take (strlen ssid) (b_ssid b) = take (strlen ssid) ssid) l"

section \<open>The list for user space\<close>

definition le32_bytes :: "u32 \<Rightarrow> bytes" where
  "le32_bytes w = [ucast w, ucast (drop_bit 8 w), ucast (drop_bit 16 w), ucast (drop_bit 24 w)]"

definition le32_read :: "bytes \<Rightarrow> nat \<Rightarrow> u32 option" where
  "le32_read m p = do {
     a \<leftarrow> rd m p; b \<leftarrow> rd m (p + 1); c \<leftarrow> rd m (p + 2); d \<leftarrow> rd m (p + 3);
     Some (ucast a OR push_bit 8 (ucast b) OR push_bit 16 (ucast c) OR push_bit 24 (ucast d)) }"

fun bss_list_loop :: "nat \<Rightarrow> rtw88_bss list \<Rightarrow> bytes \<Rightarrow> nat \<Rightarrow> (bytes \<times> nat) option" where
  "bss_list_loop mx [] buf written = Some (buf, written)"
| "bss_list_loop mx (b # bs) buf written =
    (let entry_sz = 1 + unat (b_ssid_len b) + 6 + 2 + 1 + 4
     in if written + entry_sz > mx then Some (buf, written)
        else do {
          ssid \<leftarrow> rds (b_ssid b) 0 (unat (b_ssid_len b));
          buf \<leftarrow> wr buf written ([b_ssid_len b] @ ssid @ b_bssid b @
            [hi8 (b_rssi b), lo8 (b_rssi b)] @ [b_channel b] @ le32_bytes (b_cipher b));
          bss_list_loop mx bs buf (written + entry_sz) })"

text \<open>\<open>buf\<close> is the caller's buffer, \<open>len\<close> its length: the result, the buffer and the new length.\<close>

definition cmdGetBSSList :: "bytes option \<Rightarrow> u32 option \<Rightarrow> scan_db \<Rightarrow>
    (IOReturn \<times> bytes \<times> u32) option" where
  "cmdGetBSSList buf len db =
    (case (buf, len) of
       (Some buf, Some len) \<Rightarrow>
         (let mx = (if len > 4095 then 4095 else unat len)
          in if mx < 4 then Some (kIOReturnSuccess, buf, 0)
             else do {
               (buf, written) \<leftarrow> bss_list_loop mx (sd_list db) buf 4;
               buf \<leftarrow> wr buf 0 (le32_bytes (word_of_nat written));
               Some (kIOReturnSuccess, buf, word_of_nat written) })
     | _ \<Rightarrow> Some (kIOReturnBadArgument, [], 0))"

text \<open>\<open>cmd_list\<close>: one line of the table, with the array the SSID is copied into.\<close>

record list_line =
  ll_ssid :: bytes
  ll_bssid :: bytes
  ll_rssi :: u16
  ll_ch :: u8
  ll_sec :: u32

function cmd_list_walk :: "bytes \<Rightarrow> nat \<Rightarrow> nat \<Rightarrow> list_line list option" where
  "cmd_list_walk buf p e =
    (if p + 1 \<le> e
     then do {
       ssid_len \<leftarrow> rd buf p;
       let p = p + 1;
       if p + unat ssid_len + 6 + 2 + 1 + 4 > e then Some []
       else do {
         s \<leftarrow> rds buf p (unat ssid_len);
         ssid \<leftarrow> wr (replicate 33 0) 0 s;
         let p = p + unat ssid_len;
         bssid \<leftarrow> rds buf p 6;
         r0 \<leftarrow> rd buf (p + 6); r1 \<leftarrow> rd buf (p + 7);
         ch \<leftarrow> rd buf (p + 8);
         cipher \<leftarrow> le32_read buf (p + 9);
         rest \<leftarrow> cmd_list_walk buf (p + 13) e;
         Some (\<lparr>ll_ssid = ssid, ll_bssid = bssid, ll_rssi = be16 r0 r1, ll_ch = ch, ll_sec = cipher\<rparr> # rest) } }
     else Some [])"
  by pat_completeness auto
termination
  by (relation "measure (\<lambda>(_, p, e). e - p)") auto

declare cmd_list_walk.simps [simp del]

definition cmd_list :: "bytes \<Rightarrow> nat \<Rightarrow> list_line list option" where
  "cmd_list buf len =
    (if len \<ge> 4
     then do {
       l \<leftarrow> le32_read buf 0;
       let explicit_len = (if unat l > len then len else unat l);
       cmd_list_walk buf 4 explicit_len }
     else cmd_list_walk buf 0 0)"

section \<open>Parsing stays in bounds\<close>

text \<open>A sequence of complete elements.\<close>

definition elements :: "bytes \<Rightarrow> bool" where
  "elements xs \<longleftrightarrow> (\<exists>ies. xs = encode_kdes ies \<and> (\<forall>(i, b) \<in> set ies. length b < 256))"

text \<open>A record of the list: the SSID fits, its array ends in a zero, and the stored elements are
  complete elements within the 512 bytes.\<close>

definition bss_ok :: "rtw88_bss \<Rightarrow> bool" where
  "bss_ok b \<longleftrightarrow> length (b_ssid b) = 33 \<and> b_ssid b ! 32 = 0 \<and> unat (b_ssid_len b) \<le> 32 \<and>
     length (b_bssid b) = 6 \<and> length (b_ies b) = 512 \<and> unat (b_ies_len b) < 512 \<and>
     elements (take (unat (b_ies_len b)) (b_ies b))"

lemma elements_append: "elements xs \<Longrightarrow> elements ys \<Longrightarrow> elements (xs @ ys)"
  unfolding elements_def encode_kdes_def
  by (elim exE conjE, rule_tac x = "ies @ iesa" in exI) auto

lemma elements_Nil: "elements []"
  by (auto simp: elements_def encode_kdes_def intro!: exI[of _ "[]"])

lemma elements_one: "length b = unat l \<Longrightarrow> elements (eid # l # b)"
  using unat_u8_less[of l]
  by (auto simp: elements_def encode_kdes_def intro!: exI[of _ "[(eid, b)]"])

lemma bss_zero_ok: "length a = 6 \<Longrightarrow> bss_ok (bss_zero\<lparr>b_bssid := a\<rparr>)"
  by (simp add: bss_ok_def bss_zero_def elements_Nil)

lemma ie_field_ok:
  assumes "bss_ok b" "pos + 2 + unat len \<le> length f"
  shows "\<exists>b'. ie_field f pos eid len b = Some b' \<and> bss_ok b' \<and> b_ies b' = b_ies b \<and>
    b_ies_len b' = b_ies_len b \<and> b_bssid b' = b_bssid b"
proof -
  have r: "1 \<le> len \<Longrightarrow> rd f (pos + 2) = Some (f ! (pos + 2))"
    using assms(2) by (intro rd_Some) (simp add: word_le_nat_alt)
  have s: "rds f (pos + 2) (unat len) = Some (slice (pos + 2) (unat len) f)"
    using assms(2) by (simp add: rds_def)
  have o: "8 \<le> len \<Longrightarrow> rds f (pos + 2) 4 = Some (slice (pos + 2) 4 f)"
    using assms(2) by (simp add: rds_def word_le_nat_alt)
  have q: "\<exists>x. rtw88RsnSelectCcmpPsk (drop (pos + 2) f) (unat len) = Some x"
    using rtw88RsnSelect_eq[of "unat len" "drop (pos + 2) f"] assms(2) by simp
  have w: "len \<le> 32 \<Longrightarrow> wr (b_ssid b) 0 (slice (pos + 2) (unat len) f) =
      Some (memcpy_at (b_ssid b) 0 (slice (pos + 2) (unat len) f))"
    using assms by (intro wr_Some) (simp add: bss_ok_def word_le_nat_alt)
  have k: "len \<le> 32 \<Longrightarrow> memcpy_at (b_ssid b) 0 (slice (pos + 2) (unat len) f) ! 32 = 0"
    using assms by (simp add: bss_ok_def word_le_nat_alt nth_memcpy_at)
  consider (ssid) "eid = WLAN_EID_SSID \<and> len > 0 \<and> len \<le> 32"
    | (ds) "\<not> (eid = WLAN_EID_SSID \<and> len > 0 \<and> len \<le> 32)" "eid = WLAN_EID_DS_PARAMS \<and> len \<ge> 1"
    | (ht) "\<not> (eid = WLAN_EID_SSID \<and> len > 0 \<and> len \<le> 32)" "\<not> (eid = WLAN_EID_DS_PARAMS \<and> len \<ge> 1)"
      "eid = WLAN_EID_HT_OPERATION \<and> len \<ge> 1 \<and> b_channel b = 0"
    | (rsn) "\<not> (eid = WLAN_EID_SSID \<and> len > 0 \<and> len \<le> 32)" "\<not> (eid = WLAN_EID_DS_PARAMS \<and> len \<ge> 1)"
      "\<not> (eid = WLAN_EID_HT_OPERATION \<and> len \<ge> 1 \<and> b_channel b = 0)" "eid = WLAN_EID_RSN"
    | (wpa) "\<not> (eid = WLAN_EID_SSID \<and> len > 0 \<and> len \<le> 32)" "\<not> (eid = WLAN_EID_DS_PARAMS \<and> len \<ge> 1)"
      "\<not> (eid = WLAN_EID_HT_OPERATION \<and> len \<ge> 1 \<and> b_channel b = 0)" "eid \<noteq> WLAN_EID_RSN"
      "eid = WLAN_EID_VENDOR_SPECIFIC \<and> len \<ge> 8"
    | (other) "\<not> (eid = WLAN_EID_SSID \<and> len > 0 \<and> len \<le> 32)" "\<not> (eid = WLAN_EID_DS_PARAMS \<and> len \<ge> 1)"
      "\<not> (eid = WLAN_EID_HT_OPERATION \<and> len \<ge> 1 \<and> b_channel b = 0)" "eid \<noteq> WLAN_EID_RSN"
      "\<not> (eid = WLAN_EID_VENDOR_SPECIFIC \<and> len \<ge> 8)" by blast
  then show ?thesis
  proof cases
    case ssid
    then have "ie_field f pos eid len b =
        Some (b\<lparr>b_ssid := memcpy_at (b_ssid b) 0 (slice (pos + 2) (unat len) f), b_ssid_len := len\<rparr>)"
      unfolding ie_field_def if_P[OF ssid] s bind.bind_lunit using w by simp
    then show ?thesis using ssid k assms by (simp add: bss_ok_def word_le_nat_alt)
  next
    case ds
    have "ie_field f pos eid len b = Some (b\<lparr>b_channel := f ! (pos + 2)\<rparr>)"
      unfolding ie_field_def if_not_P[OF ds(1)] if_P[OF ds(2)] r[OF ds(2)[THEN conjunct2]] bind.bind_lunit ..
    then show ?thesis using assms(1) by (simp add: bss_ok_def)
  next
    case ht
    have "ie_field f pos eid len b = Some (b\<lparr>b_channel := f ! (pos + 2)\<rparr>)"
      unfolding ie_field_def if_not_P[OF ht(1)] if_not_P[OF ht(2)] if_P[OF ht(3)]
        r[OF ht(3)[THEN conjunct2, THEN conjunct1]] bind.bind_lunit ..
    then show ?thesis using assms(1) by (simp add: bss_ok_def)
  next
    case rsn
    obtain x where x: "rtw88RsnSelectCcmpPsk (drop (pos + 2) f) (unat len) = Some x" using q by blast
    have "ie_field f pos eid len b = Some (case x of None \<Rightarrow> b
         | Some (pw, grp) \<Rightarrow> b\<lparr>b_cipher := pw, b_group_cipher := grp, b_akm := AKM_PSK\<rparr>)"
      unfolding ie_field_def if_not_P[OF rsn(1)] if_not_P[OF rsn(2)] if_not_P[OF rsn(3)] if_P[OF rsn(4)]
        x bind.bind_lunit ..
    then show ?thesis using assms(1) by (cases x) (auto simp: bss_ok_def)
  next
    case wpa
    have "ie_field f pos eid len b = Some (if slice (pos + 2) 4 f = [0x00, 0x50, 0xf2, 0x01] \<and> b_cipher b = 0
         then b\<lparr>b_cipher := CIPHER_TKIP, b_group_cipher := CIPHER_TKIP, b_akm := AKM_PSK\<rparr> else b)"
      unfolding ie_field_def if_not_P[OF wpa(1)] if_not_P[OF wpa(2)] if_not_P[OF wpa(3)] if_not_P[OF wpa(4)]
        if_P[OF wpa(5)] o[OF wpa(5)[THEN conjunct2]] bind.bind_lunit ..
    then show ?thesis using assms(1) by (simp add: bss_ok_def)
  next
    case other
    have "ie_field f pos eid len b = Some b"
      unfolding ie_field_def if_not_P[OF other(1)] if_not_P[OF other(2)] if_not_P[OF other(3)]
        if_not_P[OF other(4)] if_not_P[OF other(5)] ..
    then show ?thesis using assms(1) by simp
  qed
qed

lemma ie_copy_ok:
  assumes "bss_ok b" "pos + 2 + unat (f ! (pos + 1)) \<le> length f"
  shows "\<exists>b'. ie_copy f pos (f ! (pos + 1)) b = Some b' \<and> bss_ok b' \<and> b_bssid b' = b_bssid b"
proof -
  let ?l = "f ! (pos + 1)"
  let ?c = "2 + ucast ?l :: u16"
  let ?n = "unat (b_ies_len b)"
  have u: "unat ?c = 2 + unat ?l"
  proof -
    have "unat (ucast ?l :: u16) = unat ?l" using unat_u8_less[of ?l] by (simp add: unat_ucast_mod)
    then show ?thesis using unat_u8_less[of ?l] by (simp add: unat_word_ariths)
  qed
  show ?thesis
  proof (cases "?n + unat ?c < 512")
    case False
    then show ?thesis using assms(1) unfolding ie_copy_def Let_def by simp
  next
    case True
    let ?s = "slice pos (2 + unat ?l) f"
    have s: "rds f pos (unat ?c) = Some ?s" "length ?s = 2 + unat ?l"
      unfolding u using assms(2) by (simp_all add: rds_def)
    have w: "wr (b_ies b) ?n ?s = Some (memcpy_at (b_ies b) ?n ?s)"
      using True assms(1) s u by (intro wr_Some) (simp add: bss_ok_def)
    have n: "unat (b_ies_len b + ?c) = ?n + (2 + unat ?l)"
      using True u by (simp add: unat_word_ariths)
    have "?s = f ! pos # ?l # slice (pos + 2) (unat ?l) f"
      using assms(2) by (simp add: slice_def Cons_nth_drop_Suc[symmetric])
    moreover have "length (slice (pos + 2) (unat ?l) f) = unat ?l" using assms(2) by simp
    ultimately have e: "elements ?s" using elements_one by metis
    have "take (?n + (2 + unat ?l)) (memcpy_at (b_ies b) ?n ?s) = take ?n (b_ies b) @ ?s"
      using assms(1) True u s(2) by (simp add: memcpy_at_def bss_ok_def)
    then have el: "elements (take (?n + (2 + unat ?l)) (memcpy_at (b_ies b) ?n ?s))"
      using e assms(1) by (simp add: elements_append bss_ok_def)
    have len: "length (memcpy_at (b_ies b) ?n ?s) = 512"
      using assms(1) True u s(2) by (subst length_memcpy_at) (simp_all add: bss_ok_def)
    have "ie_copy f pos ?l b = Some (b\<lparr>b_ies := memcpy_at (b_ies b) ?n ?s, b_ies_len := b_ies_len b + ?c\<rparr>)"
      unfolding ie_copy_def Let_def s(1) using True w by simp
    moreover have "bss_ok (b\<lparr>b_ies := memcpy_at (b_ies b) ?n ?s, b_ies_len := b_ies_len b + ?c\<rparr>)"
      using assms(1) len el True unfolding bss_ok_def by (simp add: n[simplified] u[simplified])
    ultimately show ?thesis by simp
  qed
qed

lemma ie_walk_ok:
  assumes "bss_ok b"
  shows "\<exists>b'. ie_walk f pos b = Some b' \<and> bss_ok b' \<and> b_bssid b' = b_bssid b"
  using assms
proof (induction f pos b rule: ie_walk.induct)
  case (1 f pos b)
  show ?case
  proof (cases "pos + 2 \<le> length f \<and> pos + 2 + unat (f ! (pos + 1)) \<le> length f")
    case False
    then show ?thesis using 1(2) by (subst ie_walk.simps) auto
  next
    case True
    then have r: "rd f pos = Some (f ! pos)" "rd f (pos + 1) = Some (f ! (pos + 1))" by simp_all
    from ie_field_ok[OF 1(2), of pos "f ! (pos + 1)" f "f ! pos"] True obtain b1
      where b1: "ie_field f pos (f ! pos) (f ! (pos + 1)) b = Some b1" "bss_ok b1" "b_bssid b1 = b_bssid b" by auto
    from ie_copy_ok[OF b1(2)] True obtain b2
      where b2: "ie_copy f pos (f ! (pos + 1)) b1 = Some b2" "bss_ok b2" "b_bssid b2 = b_bssid b1" by blast
    have "ie_walk f pos b = ie_walk f (pos + 2 + unat (f ! (pos + 1))) b2"
      using True by (subst ie_walk.simps) (simp only: r b1 b2 bind.bind_lunit if_True simp_thms, simp)
    moreover have "\<exists>b'. ie_walk f (pos + 2 + unat (f ! (pos + 1))) b2 = Some b' \<and> bss_ok b' \<and> b_bssid b' = b_bssid b2"
      using True by (intro 1(1)[OF _ r(1) r(2) _ b1(1) b2(1) b2(2)]) simp_all
    ultimately show ?thesis using b1(3) b2(3) by simp
  qed
qed

section \<open>The list of access points\<close>

text \<open>The records are well formed, no BSSID occurs twice, and the counter is the length.\<close>

definition db_ok :: "scan_db \<Rightarrow> bool" where
  "db_ok db \<longleftrightarrow> list_all bss_ok (sd_list db) \<and> distinct (map b_bssid (sd_list db)) \<and>
     sd_count db = word_of_nat (length (sd_list db))"

definition db_empty :: scan_db where
  "db_empty = \<lparr>sd_list = [], sd_count = 0, sd_gen = 0\<rparr>"

lemma bss_update_cases:
  "(case bss_update b l of
      None \<Rightarrow> b_bssid b \<notin> b_bssid ` set l
    | Some l' \<Rightarrow> map b_bssid l' = map b_bssid l \<and> (list_all bss_ok l \<longrightarrow> bss_ok b \<longrightarrow> list_all bss_ok l') \<and>
        b \<in> set l')"
  by (induction l) (auto split: option.splits)

lemma processScanResult_ok:
  assumes "db_ok db"
  shows "\<exists>db'. processScanResult al f sig freq db = Some db' \<and> db_ok db' \<and>
    length (sd_list db') \<le> Suc (length (sd_list db)) \<and> sd_gen db' = sd_gen db"
proof (cases "length f < 30 + 12 \<or> \<not> al")
  case True
  then show ?thesis using assms by (auto simp: processScanResult_def)
next
  case False
  then have "42 \<le> length f" by simp
  then have a: "addr3 f = Some (slice 16 6 f)" "length (slice 16 6 f) = 6"
    by (simp_all add: addr3_def rds_def)
  obtain b where b: "ie_walk f (24 + 12) (bss_zero\<lparr>b_bssid := slice 16 6 f\<rparr>) = Some b" "bss_ok b"
    using ie_walk_ok[OF bss_zero_ok[OF a(2)]] by blast
  define b1 where "b1 = b\<lparr>b_rssi := scast sig, b_freq := freq, b_last_seen := sd_gen db\<rparr>"
  define b2 where "b2 = (if b_channel b1 = 0 \<and> b_freq b1 \<noteq> 0 then b1\<lparr>b_channel := freq_channel freq\<rparr> else b1)"
  have ok: "bss_ok b2" using b(2) by (simp add: b2_def b1_def bss_ok_def)
  have r: "processScanResult al f sig freq db = Some (case bss_update b2 (sd_list db) of
           Some l \<Rightarrow> db\<lparr>sd_list := l\<rparr>
         | None \<Rightarrow> db\<lparr>sd_list := b2 # sd_list db, sd_count := sd_count db + 1\<rparr>)"
    using False unfolding processScanResult_def
    by (simp only: a(1) b(1) bind.bind_lunit Let_def b1_def[symmetric] b2_def[symmetric]) simp
  show ?thesis
  proof (cases "bss_update b2 (sd_list db)")
    case None
    then show ?thesis using assms ok bss_update_cases[of b2 "sd_list db"]
      unfolding r by (simp add: db_ok_def)
  next
    case (Some l)
    then have "map b_bssid l = map b_bssid (sd_list db)" "list_all bss_ok l"
      using assms ok bss_update_cases[of b2 "sd_list db"] by (simp_all add: db_ok_def)
    moreover from this(1) have "length l = length (sd_list db)" by (rule map_eq_imp_length_eq)
    ultimately show ?thesis using Some assms unfolding r by (simp add: db_ok_def)
  qed
qed

lemma scan_generation_ok:
  "db_ok db \<Longrightarrow> db_ok (scan_generation db) \<and> length (sd_list (scan_generation db)) = length (sd_list db)"
  by (auto simp: scan_generation_def db_ok_def Let_def list_all_iff bss_ok_def comp_def)

lemma bss_expire_eq:
  assumes "length l + k < 2 ^ 32"
  shows "bss_expire t g l (word_of_nat (length l + k)) =
    (filter (\<lambda>b. t = Some (b_bssid b) \<or> g - b_last_seen b \<le> 3) l,
     word_of_nat (length (filter (\<lambda>b. t = Some (b_bssid b) \<or> g - b_last_seen b \<le> 3) l) + k))"
  using assms
proof (induction l arbitrary: k)
  case (Cons b l)
  have nz: "(word_of_nat (length (b # l) + k) :: u32) \<noteq> 0"
    using Cons(2) unat_word_of_nat_small[of "length (b # l) + k"] by (metis add_is_0 list.distinct(1) length_0_conv unat_0)
  have m: "(word_of_nat (length (b # l) + k) - 1 :: u32) = word_of_nat (length l + k)" by simp
  show ?case
  proof (cases "t \<noteq> Some (b_bssid b) \<and> g - b_last_seen b > 3")
    case True
    then show ?thesis using Cons(1)[of k] Cons(2) nz m by (auto simp: not_le)
  next
    case False
    then show ?thesis using Cons(1)[of "Suc k"] Cons(2) by (auto simp: not_less)
  qed
qed simp

lemma scanDone_ok:
  assumes "db_ok db" "length (sd_list db) < 2 ^ 32"
  shows "db_ok (scanDone_expire ab t db) \<and> length (sd_list (scanDone_expire ab t db)) \<le> length (sd_list db)"
proof -
  let ?P = "\<lambda>b. t = Some (b_bssid b) \<or> sd_gen db - b_last_seen b \<le> 3"
  have "bss_expire t (sd_gen db) (sd_list db) (sd_count db) =
      (filter ?P (sd_list db), word_of_nat (length (filter ?P (sd_list db))))"
    using bss_expire_eq[of "sd_list db" 0 t "sd_gen db"] assms by (simp add: db_ok_def)
  then show ?thesis using assms distinct_map_filter[of b_bssid "sd_list db" ?P]
    by (auto simp: scanDone_expire_def db_ok_def list_all_iff)
qed

text \<open>What happens to the list over time.\<close>

datatype scan_event = NewScan | Heard bytes u8 u16 | Done bool "bytes option"

fun scan_event_step :: "scan_event \<Rightarrow> scan_db \<Rightarrow> scan_db option" where
  "scan_event_step NewScan db = Some (scan_generation db)"
| "scan_event_step (Heard f sig freq) db = processScanResult True f sig freq db"
| "scan_event_step (Done ab t) db = Some (scanDone_expire ab t db)"

fun scan_run :: "scan_event list \<Rightarrow> scan_db \<Rightarrow> scan_db option" where
  "scan_run [] db = Some db"
| "scan_run (e # es) db = do { db \<leftarrow> scan_event_step e db; scan_run es db }"

lemma scan_run_ok:
  assumes "db_ok db" "length (sd_list db) + length es < 2 ^ 32"
  shows "\<exists>db'. scan_run es db = Some db' \<and> db_ok db'"
  using assms
proof (induction es arbitrary: db)
  case (Cons e es)
  have "\<exists>db1. scan_event_step e db = Some db1 \<and> db_ok db1 \<and> length (sd_list db1) \<le> Suc (length (sd_list db))"
  proof (cases e)
    case NewScan then show ?thesis using scan_generation_ok[OF Cons(2)] by simp
  next
    case (Heard f sig freq) then show ?thesis using processScanResult_ok[OF Cons(2), of True f sig freq] by auto
  next
    case (Done ab t) then show ?thesis using scanDone_ok[OF Cons(2), of ab t] Cons(3) by auto
  qed
  then obtain db1 where "scan_event_step e db = Some db1" "db_ok db1" "length (sd_list db1) \<le> Suc (length (sd_list db))"
    by blast
  then show ?case using Cons(1)[of db1] Cons(3) by simp
qed simp

text \<open>C17. Whatever frames arrive during whatever scans (short, with lying element lengths, with
  oversized SSIDs), parsing reads and writes only inside the frame and the record, and the list
  keeps its invariant: each record has a terminated SSID of at most 32 bytes and at most 511 bytes
  of complete elements, no access point occurs twice, and the counter is the length of the list.\<close>

theorem scan_list_invariant:
  assumes "length evs < 2 ^ 32"
  shows "\<exists>db. scan_run evs db_empty = Some db \<and> list_all bss_ok (sd_list db) \<and>
    distinct (map b_bssid (sd_list db)) \<and> sd_count db = word_of_nat (length (sd_list db))"
  using scan_run_ok[of db_empty evs] assms by (simp add: db_ok_def db_empty_def)

lemma scan_list_invariant_witness:
  "\<exists>db. scan_run [NewScan, Heard (replicate 36 0 @ [0, 33, 1, 1]) 200 2412, Done False None] db_empty = Some db \<and>
    list_all bss_ok (sd_list db) \<and> distinct (map b_bssid (sd_list db)) \<and>
    sd_count db = word_of_nat (length (sd_list db))"
  by (rule scan_list_invariant) simp

text \<open>A completed scan keeps exactly the access points that were heard in one of the last four
  scans (counted modulo \<open>2 ^ 32\<close>) and the one the station is linked to, in their order; an aborted
  scan keeps them all.\<close>

theorem scanDone_keeps_recent:
  assumes "db_ok db" "length (sd_list db) < 2 ^ 32"
  shows "sd_list (scanDone_expire aborted target db) =
    (if aborted then sd_list db
     else filter (\<lambda>b. target = Some (b_bssid b) \<or> sd_gen db - b_last_seen b \<le> 3) (sd_list db))"
  using bss_expire_eq[of "sd_list db" 0 target "sd_gen db"] assms
  by (simp add: scanDone_expire_def db_ok_def)

lemma scanDone_keeps_recent_witness:
  "let db = \<lparr>sd_list = [bss_zero], sd_count = 1, sd_gen = 4\<rparr> in
   sd_list (scanDone_expire False None db) =
    (if False then sd_list db
     else filter (\<lambda>b. None = Some (b_bssid b) \<or> sd_gen db - b_last_seen b \<le> 3) (sd_list db))"
proof -
  have "bss_zero = bss_zero\<lparr>b_bssid := replicate 6 0\<rparr>" by (simp add: bss_zero_def)
  then have "bss_ok bss_zero" using bss_zero_ok[of "replicate 6 0"] by simp
  then have "db_ok \<lparr>sd_list = [bss_zero], sd_count = 1, sd_gen = 4\<rparr>" by (simp add: db_ok_def)
  then show ?thesis unfolding Let_def by (rule scanDone_keeps_recent) simp
qed

section \<open>The list as user space sees it\<close>

definition bss_entry :: "rtw88_bss \<Rightarrow> bytes" where
  "bss_entry b = [b_ssid_len b] @ take (unat (b_ssid_len b)) (b_ssid b) @ b_bssid b @
    [hi8 (b_rssi b), lo8 (b_rssi b)] @ [b_channel b] @ le32_bytes (b_cipher b)"

definition bss_line :: "rtw88_bss \<Rightarrow> list_line" where
  "bss_line b = \<lparr>ll_ssid = memcpy_at (replicate 33 0) 0 (take (unat (b_ssid_len b)) (b_ssid b)),
     ll_bssid = b_bssid b, ll_rssi = b_rssi b, ll_ch = b_channel b, ll_sec = b_cipher b\<rparr>"

lemma length_bss_entry: "bss_ok b \<Longrightarrow> length (bss_entry b) = 14 + unat (b_ssid_len b)"
  by (simp add: bss_entry_def bss_ok_def le32_bytes_def)

lemma le32_read_bytes: "le32_read (p @ le32_bytes w @ r) (length p) = Some w"
proof -
  have n: "(p @ le32_bytes w @ r) ! (length p + i) = le32_bytes w ! i" if "i < 4" for i
    using that nth_append[of "le32_bytes w" r i] by (simp only: nth_append_off) (simp add: le32_bytes_def)
  have l: "length p + i < length (p @ le32_bytes w @ r)" if "i < 4" for i
    using that by (simp add: le32_bytes_def)
  have b: "ucast (ucast w :: u8) OR push_bit 8 (ucast (ucast (drop_bit 8 w) :: u8)) OR
      push_bit 16 (ucast (ucast (drop_bit 16 w) :: u8)) OR push_bit 24 (ucast (ucast (drop_bit 24 w) :: u8)) = (w :: u32)"
  proof (rule bit_word_eqI)
    fix n assume "n < LENGTH(32)"
    then show "bit (ucast (ucast w :: u8) OR push_bit 8 (ucast (ucast (drop_bit 8 w) :: u8)) OR
      push_bit 16 (ucast (ucast (drop_bit 16 w) :: u8)) OR push_bit 24 (ucast (ucast (drop_bit 24 w) :: u8)) :: u32) n = bit w n"
      by (cases "n < 8"; cases "n < 16"; cases "n < 24")
        (simp_all add: bit_or_iff bit_push_bit_iff bit_ucast_iff bit_drop_bit_eq not_less less_diff_conv2)
  qed
  show ?thesis
    using n[of 0] n[of 1] n[of 2] n[of 3] l[of 0] l[of 1] l[of 2] l[of 3]
    unfolding le32_read_def by (simp add: le32_bytes_def b)
qed

lemma wr_extend:
  assumes "w + length d \<le> length buf"
  shows "wr buf w d = Some (memcpy_at buf w d)" "length (memcpy_at buf w d) = length buf"
    "take (w + length d) (memcpy_at buf w d) = take w buf @ d"
  using assms by (simp_all add: wr_def memcpy_at_def)

lemma bss_list_loop_ok:
  assumes "list_all bss_ok bs" "w \<le> mx" "mx \<le> length buf"
  shows "\<exists>buf' w' k. bss_list_loop mx bs buf w = Some (buf', w') \<and> length buf' = length buf \<and>
    w \<le> w' \<and> w' \<le> mx \<and> k \<le> length bs \<and>
    take w' buf' = take w buf @ concat (map bss_entry (take k bs)) \<and>
    (k = length bs \<or> w' + length (bss_entry (bs ! k)) > mx)"
  using assms
proof (induction bs arbitrary: buf w)
  case Nil
  then show ?case by simp
next
  case (Cons b bs)
  then have b: "bss_ok b" by simp
  show ?case
  proof (cases "w + length (bss_entry b) > mx")
    case True
    then have "bss_list_loop mx (b # bs) buf w = Some (buf, w)"
      using length_bss_entry[OF b] by (simp add: Let_def)
    then show ?thesis using True Cons(3) by (intro exI[of _ buf] exI[of _ w] exI[of _ 0]) simp
  next
    case False
    let ?buf = "memcpy_at buf w (bss_entry b)"
    note x = wr_extend[of w "bss_entry b" buf]
    have fit: "w + length (bss_entry b) \<le> length buf" using False Cons(4) by simp
    have "rds (b_ssid b) 0 (unat (b_ssid_len b)) = Some (take (unat (b_ssid_len b)) (b_ssid b))"
      using b by (simp add: rds_def bss_ok_def)
    then have "bss_list_loop mx (b # bs) buf w = bss_list_loop mx bs ?buf (w + length (bss_entry b))"
      using False length_bss_entry[OF b] x(1)[OF fit]
      by (simp add: Let_def bss_entry_def[symmetric] add.commute add.left_commute)
        (simp add: bss_entry_def)
    moreover obtain buf' w' k where "bss_list_loop mx bs ?buf (w + length (bss_entry b)) = Some (buf', w')"
      "length buf' = length buf" "w + length (bss_entry b) \<le> w'" "w' \<le> mx" "k \<le> length bs"
      "take w' buf' = take (w + length (bss_entry b)) ?buf @ concat (map bss_entry (take k bs))"
      "k = length bs \<or> w' + length (bss_entry (bs ! k)) > mx"
      using Cons(1)[of "w + length (bss_entry b)" ?buf] Cons(2,4) False x(2)[OF fit] by auto
    ultimately show ?thesis using x(3)[OF fit]
      by (intro exI[of _ buf'] exI[of _ w'] exI[of _ "Suc k"]) auto
  qed
qed

lemma cmd_list_walk_entry:
  assumes "bss_ok b" "length p + length (bss_entry b) \<le> e"
  shows "cmd_list_walk (p @ bss_entry b @ r) (length p) e =
    map_option ((#) (bss_line b)) (cmd_list_walk (p @ bss_entry b @ r) (length (p @ bss_entry b)) e)"
proof -
  let ?m = "p @ bss_entry b @ r"
  let ?n = "unat (b_ssid_len b)"
  let ?s = "take ?n (b_ssid b)"
  have ls: "length ?s = ?n" "?n \<le> 32" using assms(1) by (simp_all add: bss_ok_def)
  have lb: "length (b_bssid b) = 6" using assms(1) by (simp add: bss_ok_def)
  have le: "length (bss_entry b) = 14 + ?n" by (rule length_bss_entry[OF assms(1)])
  obtain q where q: "length p + 1 + ?n = q" by simp
  have at: "?m ! (q + i) = (b_bssid b @ [hi8 (b_rssi b), lo8 (b_rssi b), b_channel b] @ le32_bytes (b_cipher b) @ r) ! i" for i
  proof -
    have "?m = (p @ b_ssid_len b # ?s) @ b_bssid b @ [hi8 (b_rssi b), lo8 (b_rssi b), b_channel b] @ le32_bytes (b_cipher b) @ r"
      by (simp add: bss_entry_def)
    moreover have "length (p @ b_ssid_len b # ?s) = q" using q ls(1) by simp
    ultimately show ?thesis
      using nth_append_off[of "p @ b_ssid_len b # ?s"
        "b_bssid b @ [hi8 (b_rssi b), lo8 (b_rssi b), b_channel b] @ le32_bytes (b_cipher b) @ r" i] by (simp only:)
  qed
  have r1: "rd ?m (length p) = Some (b_ssid_len b)" by (simp add: bss_entry_def rd_def nth_append)
  have r2: "rds ?m (length p + 1) ?n = Some ?s"
    using ls(1) lb by (simp add: rds_def slice_def bss_entry_def le32_bytes_def)
  have r3: "wr (replicate 33 0) 0 ?s = Some (memcpy_at (replicate 33 0) 0 ?s)" using ls by (simp add: wr_def)
  have lm: "q + 13 \<le> length ?m" using le q by simp
  have r4: "rds ?m q 6 = Some (b_bssid b)"
  proof -
    have "rds ?m q 6 = Some (slice q 6 ?m)" using lm by (simp add: rds_def)
    moreover have "slice q 6 ?m = b_bssid b"
      using at lm lb by (intro nth_equalityI) (simp_all add: nth_append)
    ultimately show ?thesis by simp
  qed
  have r5: "rd ?m (q + 6) = Some (hi8 (b_rssi b))" "rd ?m (q + 7) = Some (lo8 (b_rssi b))"
      "rd ?m (q + 8) = Some (b_channel b)"
    using at[of 6] at[of 7] at[of 8] lm lb by (simp_all add: rd_def nth_append)
  have r6: "le32_read ?m (q + 9) = Some (b_cipher b)"
  proof -
    have "?m = (p @ b_ssid_len b # ?s @ b_bssid b @ [hi8 (b_rssi b), lo8 (b_rssi b), b_channel b]) @ le32_bytes (b_cipher b) @ r"
      by (simp add: bss_entry_def)
    moreover have "length (p @ b_ssid_len b # ?s @ b_bssid b @ [hi8 (b_rssi b), lo8 (b_rssi b), b_channel b]) = q + 9"
      using q ls(1) lb by simp
    ultimately show ?thesis using le32_read_bytes by metis
  qed
  have g: "length p + 1 \<le> e" "\<not> q + 6 + 2 + 1 + 4 > e" using assms(2) le q by simp_all
  have e: "q + 13 = length (p @ bss_entry b)" using le q by simp
  show ?thesis
    unfolding cmd_list_walk.simps[of ?m "length p" e] if_P[OF g(1)] r1 bind.bind_lunit Let_def q if_not_P[OF g(2)] r2 r3 r4 r5 r6 e
    by (cases "cmd_list_walk ?m (length (p @ bss_entry b)) e") (simp_all add: bss_line_def)
qed

lemma cmd_list_walk_entries:
  assumes "list_all bss_ok bs"
  shows "cmd_list_walk (p @ concat (map bss_entry bs) @ r) (length p) (length p + length (concat (map bss_entry bs))) =
    Some (map bss_line bs)"
  using assms
proof (induction bs arbitrary: p)
  case Nil
  then show ?case by (subst cmd_list_walk.simps) simp
next
  case (Cons b bs)
  then show ?case
    using cmd_list_walk_entry[of b p "length p + length (concat (map bss_entry (b # bs)))" "concat (map bss_entry bs) @ r"]
      Cons(1)[of "p @ bss_entry b"] by (simp add: add.assoc)
qed

text \<open>C18. What the control program prints is what the driver found: from the 4095-byte buffer that
  \<open>cmdGetBSSList\<close> fills, \<open>cmd_list\<close> reads, without leaving the buffer or its 33-byte SSID array, the
  records of the list in order with their SSID, BSSID, signal, channel and cipher; all of them, or
  those before the first one that no longer fits.\<close>

theorem bss_list_roundtrip:
  assumes "list_all bss_ok (sd_list db)" "length buf = 4095"
  shows "\<exists>buf' n k. cmdGetBSSList (Some buf) (Some 4095) db = Some (kIOReturnSuccess, buf', word_of_nat n) \<and>
    n \<le> 4095 \<and> k \<le> length (sd_list db) \<and> cmd_list buf' n = Some (map bss_line (take k (sd_list db))) \<and>
    (k = length (sd_list db) \<or> n + length (bss_entry (sd_list db ! k)) > 4095)"
proof -
  obtain buf1 n k where l: "bss_list_loop 4095 (sd_list db) buf 4 = Some (buf1, n)" "length buf1 = 4095"
      "4 \<le> n" "n \<le> 4095" "k \<le> length (sd_list db)"
      "take n buf1 = take 4 buf @ concat (map bss_entry (take k (sd_list db)))"
      "k = length (sd_list db) \<or> n + length (bss_entry (sd_list db ! k)) > 4095"
    using bss_list_loop_ok[OF assms(1), of 4 4095 buf] assms(2) by auto
  let ?h = "le32_bytes (word_of_nat n)"
  let ?c = "concat (map bss_entry (take k (sd_list db)))"
  have lh: "length ?h = 4" by (simp add: le32_bytes_def)
  define buf2 where "buf2 = memcpy_at buf1 0 ?h"
  have w: "wr buf1 0 ?h = Some buf2" using l(2) lh by (simp add: wr_def buf2_def)
  have n: "length ?c + 4 = n" using arg_cong[OF l(6), of length] l(2,4) assms(2) by simp
  have "drop 4 buf1 = drop 4 (take n buf1 @ drop n buf1)" by simp
  also have "\<dots> = ?c @ drop n buf1"
    unfolding drop_append using l(2,3,4) assms(2) by (simp add: l(6))
  finally have d: "drop 4 buf1 = ?c @ drop n buf1" .
  have b2: "buf2 = ?h @ ?c @ drop n buf1" using lh d by (simp add: buf2_def memcpy_at_def)
  have "list_all bss_ok (take k (sd_list db))" using assms(1) by (auto simp: list_all_iff dest: in_set_takeD)
  from cmd_list_walk_entries[OF this, of ?h "drop n buf1"] n lh
  have walk: "cmd_list_walk buf2 4 n = Some (map bss_line (take k (sd_list db)))"
    by (simp add: b2 add.commute)
  have un: "unat (word_of_nat n :: u32) = n" using l(4) by (intro unat_word_of_nat_small) simp
  have "le32_read buf2 0 = Some (word_of_nat n)" using le32_read_bytes[of "[]"] by (simp add: b2)
  then have "cmd_list buf2 n = Some (map bss_line (take k (sd_list db)))"
    using walk l(3) un by (simp add: cmd_list_def)
  moreover have "cmdGetBSSList (Some buf) (Some 4095) db = Some (kIOReturnSuccess, buf2, word_of_nat n)"
    using l(1) w by (simp add: cmdGetBSSList_def)
  ultimately show ?thesis using l(4,5,7) by blast
qed

lemma bss_list_roundtrip_witness:
  "\<exists>buf' n k. cmdGetBSSList (Some (replicate 4095 0)) (Some 4095) db_empty = Some (kIOReturnSuccess, buf', word_of_nat n) \<and>
    n \<le> 4095 \<and> k \<le> length (sd_list db_empty) \<and> cmd_list buf' n = Some (map bss_line (take k (sd_list db_empty))) \<and>
    (k = length (sd_list db_empty) \<or> n + length (bss_entry (sd_list db_empty ! k)) > 4095)"
  by (rule bss_list_roundtrip) (simp_all add: db_empty_def)

end
