(* ===== verification/Mgmt.thy ===== *)
theory Mgmt
  imports Scan Reorder Skb
begin

text \<open>
  Management frames of \<open>src/kext/RTW88IEEE80211.cpp\<close>: the authentication and association
  requests, the probe request and the null-data frame, the block-ack agreement (\<open>ADDBA\<close>,
  \<open>DELBA\<close>) and the choice of the operating channel (\<open>setConnectedChandef\<close>).  Frames are built in
  the fixed arrays of the code with checked copies; the capabilities of the chip are parameters.
\<close>

section \<open>Capabilities and channels\<close>

datatype nl80211_band = NL80211_BAND_2GHZ | NL80211_BAND_5GHZ | NL80211_BAND_60GHZ

datatype nl80211_chan_width = NL80211_CHAN_WIDTH_20_NOHT | NL80211_CHAN_WIDTH_20 | NL80211_CHAN_WIDTH_40
  | NL80211_CHAN_WIDTH_80 | NL80211_CHAN_WIDTH_80P80 | NL80211_CHAN_WIDTH_160
  | NL80211_CHAN_WIDTH_5 | NL80211_CHAN_WIDTH_10

record ieee80211_channel =
  ch_band :: nl80211_band
  ch_center_freq :: u16
  ch_hw_value :: u16
  ch_flags :: u32

record ieee80211_sta_ht_cap =
  ht_cap :: u16
  ht_supported :: bool
  ht_ampdu_factor :: u8
  ht_ampdu_density :: u8
  ht_rx_mask :: bytes
  ht_rx_highest :: u16
  ht_tx_params :: u32

record ieee80211_sta_vht_cap =
  vht_supported :: bool
  vht_cap :: u32
  vht_rx_mcs_map :: u32
  vht_rx_highest :: u16
  vht_tx_mcs_map :: u32
  vht_tx_highest :: u16

record ieee80211_supported_band =
  sb_channels :: "ieee80211_channel list"
  sb_ht :: ieee80211_sta_ht_cap
  sb_vht :: ieee80211_sta_vht_cap
  sb_band :: nl80211_band

record cfg80211_chan_def =
  cd_chan :: ieee80211_channel
  cd_width :: nl80211_chan_width
  cd_center_freq1 :: u32

record ieee80211_sta =
  st_addr :: bytes
  st_aid :: u16
  st_wme :: bool
  st_supp_rates :: "u32 list"
  st_bandwidth :: nat
  st_ht :: ieee80211_sta_ht_cap
  st_vht :: ieee80211_sta_vht_cap

definition HT_CAP_SUP_WIDTH_20_40 :: u16 where "HT_CAP_SUP_WIDTH_20_40 = 0x0002"
definition HT_CAP_SGI_40 :: u16 where "HT_CAP_SGI_40 = 0x0040"
definition HT_CAP_DSSSCCK40 :: u16 where "HT_CAP_DSSSCCK40 = 0x1000"

text \<open>The part of the driver's state that describes the link.\<close>

record 'f link =
  l_target :: rtw88_bss
  l_mac :: bytes
  l_sta :: "ieee80211_sta option"
  l_txSeq :: u16
  l_dataSeq :: u16
  l_txBaActive :: bool
  l_baTid :: u8
  l_baDialog :: u8
  l_baBufSize :: u16
  l_connChanWidth :: u8
  l_rxBa :: "'f rx_reorder option list"

definition htAllowed :: "('f, 'm) link_scheme \<Rightarrow> bool" where
  "htAllowed s = (b_cipher (l_target s) \<noteq> CIPHER_TKIP)"

definition target_band :: "('f, 'm) link_scheme \<Rightarrow> nl80211_band" where
  "target_band s = (if b_channel (l_target s) > 14 then NL80211_BAND_5GHZ else NL80211_BAND_2GHZ)"

section \<open>The operating channel\<close>

text \<open>What the HT and VHT operation elements of the cached beacon say.\<close>

record op_info =
  oi_sco :: u8
  oi_htStaWidth :: bool
  oi_vhtWidth :: u8
  oi_vhtSeg0 :: u8

definition op_element :: "bytes \<Rightarrow> nat \<Rightarrow> u8 \<Rightarrow> u8 \<Rightarrow> op_info \<Rightarrow> op_info option" where
  "op_element ies i eid len oi =
    (if eid = WLAN_EID_HT_OPERATION \<and> len \<ge> 2
     then do { d1 \<leftarrow> rd ies (i + 2 + 1); Some (oi\<lparr>oi_sco := d1 AND 0x03, oi_htStaWidth := (d1 AND 0x04 \<noteq> 0)\<rparr>) }
     else if eid = WLAN_EID_VHT_OPERATION \<and> len \<ge> 3
     then do { d0 \<leftarrow> rd ies (i + 2); d1 \<leftarrow> rd ies (i + 2 + 1); Some (oi\<lparr>oi_vhtWidth := d0, oi_vhtSeg0 := d1\<rparr>) }
     else Some oi)"

function op_walk :: "bytes \<Rightarrow> nat \<Rightarrow> nat \<Rightarrow> op_info \<Rightarrow> op_info option" where
  "op_walk ies ielen i oi =
    (if i + 2 \<le> ielen
     then do {
       eid \<leftarrow> rd ies i; len \<leftarrow> rd ies (i + 1);
       if i + 2 + unat len > ielen then Some oi
       else do { oi \<leftarrow> op_element ies i eid len oi; op_walk ies ielen (i + 2 + unat len) oi } }
     else Some oi)"
  by pat_completeness auto
termination
  by (relation "measure (\<lambda>(_, ielen, i, _). ielen - i)") auto

declare op_walk.simps [simp del]

text \<open>The width and the centre frequency; \<open>force40\<close> is the RTL8723D on 2.4 GHz.\<close>

definition pick_chandef :: "bool \<Rightarrow> bool \<Rightarrow> bool \<Rightarrow> op_info \<Rightarrow> ieee80211_channel \<Rightarrow>
    cfg80211_chan_def \<times> ('f, 'm) link_scheme \<Rightarrow> cfg80211_chan_def \<times> ('f, 'm) link_scheme" where
  "pick_chandef chip40 chip80 force40 oi chan cs =
    (let (cd, s) = cs;
         (cd, s) =
           (if chip40 \<and> oi_htStaWidth oi \<and> (oi_sco oi = 1 \<or> oi_sco oi = 3)
            then (cd\<lparr>cd_width := NL80211_CHAN_WIDTH_40,
                     cd_center_freq1 := ucast (ch_center_freq chan) + (if oi_sco oi = 1 then 10 else -10)\<rparr>,
                  s\<lparr>l_connChanWidth := 40\<rparr>)
            else if chip40 \<and> force40
            then (cd\<lparr>cd_width := NL80211_CHAN_WIDTH_40, cd_center_freq1 := ucast (ch_center_freq chan) + 10\<rparr>,
                  s\<lparr>l_connChanWidth := 40\<rparr>)
            else (cd, s))
     in if chip80 \<and> oi_vhtWidth oi = 1 \<and> oi_vhtSeg0 oi \<noteq> 0
        then (cd\<lparr>cd_width := NL80211_CHAN_WIDTH_80, cd_center_freq1 := 5000 + 5 * ucast (oi_vhtSeg0 oi)\<rparr>,
              s\<lparr>l_connChanWidth := 80\<rparr>)
        else (cd, s))"

text \<open>\<open>bands\<close> are the bands of the chip, \<open>device\<close> its PCI device number.\<close>

definition setConnectedChandef :: "(nl80211_band \<Rightarrow> ieee80211_supported_band option) \<Rightarrow> u16 option \<Rightarrow>
    ieee80211_channel \<Rightarrow> ('f, 'm) link_scheme \<Rightarrow> (cfg80211_chan_def \<times> ('f, 'm) link_scheme) option" where
  "setConnectedChandef bands device chan s =
    (let cd = \<lparr>cd_chan = chan, cd_width = NL80211_CHAN_WIDTH_20_NOHT, cd_center_freq1 = ucast (ch_center_freq chan)\<rparr>;
         s = s\<lparr>l_connChanWidth := 20\<rparr>
     in if \<not> htAllowed s then Some (cd, s)
        else let bnd = target_band s
     in case bands bnd of None \<Rightarrow> Some (cd, s)
     | Some sb \<Rightarrow>
        let chip40 = (ht_cap (sb_ht sb) AND HT_CAP_SUP_WIDTH_20_40 \<noteq> 0);
            chip80 = (chip40 \<and> bnd = NL80211_BAND_5GHZ \<and> vht_supported (sb_vht sb));
            chip40 = (if \<not> chip40 \<and> bnd = NL80211_BAND_2GHZ \<and> device = Some 0xD723 then True else chip40);
            chip40 = (if \<not> chip40 \<and> bnd = NL80211_BAND_2GHZ \<and> ht_supported (sb_ht sb) then True else chip40)
        in do {
          oi \<leftarrow> op_walk (b_ies (l_target s)) (unat (b_ies_len (l_target s))) 0
                 \<lparr>oi_sco = 0, oi_htStaWidth = False, oi_vhtWidth = 0, oi_vhtSeg0 = 0\<rparr>;
          Some (pick_chandef chip40 chip80 (bnd = NL80211_BAND_2GHZ \<and> device = Some 0xD723) oi chan (cd, s)) })"

section \<open>Building frames\<close>

text \<open>Copying at a running position of the array.\<close>

definition put :: "bytes \<Rightarrow> bytes \<times> nat \<Rightarrow> (bytes \<times> nat) option" where
  "put d bp = (case bp of (buf, pos) \<Rightarrow> do { buf \<leftarrow> wr buf pos d; Some (buf, pos + length d) })"

definition buildAuthReq :: "bytes \<Rightarrow> ('f, 'm) link_scheme \<Rightarrow> (bytes \<times> nat \<times> ('f, 'm) link_scheme) option" where
  "buildAuthReq buf s =
    (let bssid = b_bssid (l_target s) in do {
       buf \<leftarrow> wr buf 0 (hdr_3addr (IEEE80211_FTYPE_MGMT OR IEEE80211_STYPE_AUTH) 0 bssid (l_mac s) bssid
                         (push_bit 4 (l_txSeq s)));
       let s = s\<lparr>l_txSeq := l_txSeq s + 1\<rparr>;
       buf \<leftarrow> wr buf 24 [0, 0, 1, 0, 0, 0];
       Some (buf, 24 + 6, s) })"

definition rates_2g :: bytes where "rates_2g = [0x82, 0x84, 0x8b, 0x96, 0x0c, 0x12, 0x18, 0x24]"
definition rates_5g :: bytes where "rates_5g = [0x8c, 0x12, 0x98, 0x24, 0x30, 0x48, 0x60, 0x6c]"
definition ext_rates_2g :: bytes where "ext_rates_2g = [0x30, 0x48, 0x60, 0x6c]"
definition wme_info :: bytes where "wme_info = [0xdd, 0x07, 0x00, 0x50, 0xf2, 0x02, 0x00, 0x01, 0x00]"

definition assoc_htcap :: "u8 \<Rightarrow> ieee80211_sta_ht_cap \<Rightarrow> u16" where
  "assoc_htcap width ht =
    (if width < 40
     then ht_cap ht AND NOT (HT_CAP_SUP_WIDTH_20_40 OR HT_CAP_SGI_40 OR HT_CAP_DSSSCCK40) else ht_cap ht)"

definition ht_element :: "u8 \<Rightarrow> ieee80211_sta_ht_cap \<Rightarrow> bytes" where
  "ht_element width ht =
    (let htcap = assoc_htcap width ht
     in [WLAN_EID_HT_CAPABILITY, 26] @ [lo8 htcap, hi8 htcap] @
        [(ht_ampdu_factor ht AND 0x3) OR push_bit 2 (ht_ampdu_density ht AND 0x7)] @
        take 10 (ht_rx_mask ht) @ [lo8 (ht_rx_highest ht), hi8 (ht_rx_highest ht)] @
        [ucast (ht_tx_params ht)] @ replicate 10 0)"

definition vht_element :: "ieee80211_sta_vht_cap \<Rightarrow> bytes" where
  "vht_element vht =
    (let rxmap = ucast (vht_rx_mcs_map vht) :: u16; txmap = ucast (vht_tx_mcs_map vht) :: u16
     in [WLAN_EID_VHT_CAPABILITY, 12] @ le32_bytes (vht_cap vht) @ [lo8 rxmap, hi8 rxmap] @
        [lo8 (vht_rx_highest vht), hi8 (vht_rx_highest vht)] @ [lo8 txmap, hi8 txmap] @
        [lo8 (vht_tx_highest vht), hi8 (vht_tx_highest vht)])"

definition buildAssocReq :: "(nl80211_band \<Rightarrow> ieee80211_supported_band option) \<Rightarrow> bool \<Rightarrow> bytes \<Rightarrow>
    ('f, 'm) link_scheme \<Rightarrow> (bytes \<times> nat \<times> ('f, 'm) link_scheme) option" where
  "buildAssocReq bands wpa2 buf s =
    (let t = l_target s; bssid = b_bssid t in do {
       bp \<leftarrow> put (hdr_3addr (IEEE80211_FTYPE_MGMT OR IEEE80211_STYPE_ASSOC_REQ) 0 bssid (l_mac s) bssid
                   (push_bit 4 (l_txSeq s))) (buf, 0);
       let s = s\<lparr>l_txSeq := l_txSeq s + 1\<rparr>;
       let cap = 0x0431;
       let cap = (if wpa2 then cap OR 0x0010 else cap);
       bp \<leftarrow> put [lo8 cap, hi8 cap, 10, 0] bp;
       ssid \<leftarrow> rds (b_ssid t) 0 (unat (b_ssid_len t));
       bp \<leftarrow> put ([WLAN_EID_SSID, b_ssid_len t] @ ssid) bp;
       let rates = (if b_channel t > 14 then rates_5g else rates_2g);
       bp \<leftarrow> put ([WLAN_EID_SUPP_RATES, word_of_nat (length rates)] @ rates) bp;
       bp \<leftarrow> (if b_channel t \<le> 14
              then put ([WLAN_EID_EXT_SUPP_RATES, word_of_nat (length ext_rates_2g)] @ ext_rates_2g) bp else Some bp);
       let sband = bands (target_band s);
       bp \<leftarrow> (case sband of
            Some sb \<Rightarrow> if htAllowed s \<and> ht_supported (sb_ht sb)
              then put (ht_element (l_connChanWidth s) (sb_ht sb)) bp else Some bp
          | None \<Rightarrow> Some bp);
       bp \<leftarrow> (case sband of
            Some sb \<Rightarrow> if htAllowed s \<and> target_band s = NL80211_BAND_5GHZ \<and> vht_supported (sb_vht sb)
              then put (vht_element (sb_vht sb)) bp else Some bp
          | None \<Rightarrow> Some bp);
       bp \<leftarrow> put wme_info bp;
       (buf, len) \<leftarrow> (if wpa2 then put (rtw88BuildSelectedRsnIe (b_group_cipher t)) bp else Some bp);
       Some (buf, len, s) })"

text \<open>The deauthentication frame of \<open>doDisconnect\<close>.\<close>

definition WLAN_REASON_DEAUTH_LEAVING :: u8 where "WLAN_REASON_DEAUTH_LEAVING = 3"

definition buildDeauth :: "('f, 'm) link_scheme \<Rightarrow> bytes" where
  "buildDeauth s =
    (let bssid = b_bssid (l_target s)
     in hdr_3addr (IEEE80211_FTYPE_MGMT OR IEEE80211_STYPE_DEAUTH) 0 bssid (l_mac s) bssid 0 @
        [WLAN_REASON_DEAUTH_LEAVING, 0])"

definition txProbeRequest :: "nl80211_band option \<Rightarrow> ('f, 'm) link_scheme \<Rightarrow>
    (bytes \<times> ('f, 'm) link_scheme) option" where
  "txProbeRequest chan_band s = do {
     bp \<leftarrow> put (hdr_3addr (IEEE80211_FTYPE_MGMT OR IEEE80211_STYPE_PROBE_REQ) 0 (replicate 6 0xff) (l_mac s)
                 (replicate 6 0xff) (push_bit 4 (l_txSeq s AND 0xFFF))) (replicate 128 0, 0);
     let s = s\<lparr>l_txSeq := l_txSeq s + 1\<rparr>;
     bp \<leftarrow> put [WLAN_EID_SSID, 0] bp;
     let rates = (if chan_band = Some NL80211_BAND_5GHZ then rates_5g else rates_2g);
     (buf, len) \<leftarrow> put ([WLAN_EID_SUPP_RATES, word_of_nat (length rates)] @ rates) bp;
     Some (take len buf, s) }"

definition txNullFunc :: "bool \<Rightarrow> bool \<Rightarrow> ('f, 'm) link_scheme \<Rightarrow> bytes option \<times> ('f, 'm) link_scheme" where
  "txNullFunc ready powerSave s =
    (if \<not> ready \<or> l_sta s = None then (None, s)
     else let bssid = b_bssid (l_target s);
              fc = IEEE80211_FTYPE_DATA OR 0x0040 OR IEEE80211_FCTL_TODS;
              fc = (if powerSave then fc OR IEEE80211_FCTL_PM else fc);
              f = hdr_3addr fc 0 bssid (l_mac s) bssid (push_bit 4 (l_txSeq s AND 0xFFF))
          in (Some f, s\<lparr>l_txSeq := l_txSeq s + 1\<rparr>))"

text \<open>\<open>txMgmtFrame\<close> copies the frame behind 128 bytes of headroom.  The inner \<open>None\<close>: no frame is
  sent.\<close>

definition txMgmtFrame :: "bool \<Rightarrow> bool \<Rightarrow> (nat \<Rightarrow> u8) \<Rightarrow> bytes \<Rightarrow> nat \<Rightarrow> sk_buff option option" where
  "txMgmtFrame ready alloc_ok junk frame len =
    (if \<not> ready then Some None
     else if \<not> alloc_ok then Some None
     else do {
       let skb = skb_reserve 128 (alloc_skb junk (word_of_nat len + 128));
       d \<leftarrow> rds frame 0 len;
       skb \<leftarrow> skb_put_data d skb;
       Some (Some skb) })"

section \<open>Block-ack agreements\<close>

definition WLAN_CATEGORY_BACK :: u8 where "WLAN_CATEGORY_BACK = 3"
definition WLAN_ACTION_ADDBA_REQ :: u8 where "WLAN_ACTION_ADDBA_REQ = 0"
definition WLAN_ACTION_ADDBA_RESP :: u8 where "WLAN_ACTION_ADDBA_RESP = 1"
definition WLAN_ACTION_DELBA :: u8 where "WLAN_ACTION_DELBA = 2"

lemmas ba_consts [eid_defs] = WLAN_CATEGORY_BACK_def WLAN_ACTION_ADDBA_REQ_def
  WLAN_ACTION_ADDBA_RESP_def WLAN_ACTION_DELBA_def

definition action_hdr :: "('f, 'm) link_scheme \<Rightarrow> bytes" where
  "action_hdr s =
    (let bssid = b_bssid (l_target s)
     in hdr_3addr (IEEE80211_FTYPE_MGMT OR IEEE80211_STYPE_ACTION) 0 bssid (l_mac s) bssid
          (push_bit 4 (l_txSeq s AND 0xFFF)))"

definition sendAddbaRequest :: "u8 \<Rightarrow> ('f, 'm) link_scheme \<Rightarrow> bytes \<times> ('f, 'm) link_scheme" where
  "sendAddbaRequest tid s =
    (let h = action_hdr s;
         s = s\<lparr>l_txSeq := l_txSeq s + 1\<rparr>;
         s = s\<lparr>l_baDialog := (if l_baDialog s + 1 = 0 then 1 else l_baDialog s + 1)\<rparr>;
         param = push_bit 1 1 OR push_bit 2 (ucast (tid AND 0xf)) OR push_bit 6 (l_baBufSize s AND 0x3ff) :: u16;
         ssc = push_bit 4 (l_dataSeq s AND 0xFFF)
     in (h @ [WLAN_CATEGORY_BACK, WLAN_ACTION_ADDBA_REQ, l_baDialog s, lo8 param, hi8 param, 0, 0,
              lo8 ssc, hi8 ssc], s))"

definition sendAddbaResponse :: "u8 \<Rightarrow> u8 \<Rightarrow> u16 \<Rightarrow> u16 \<Rightarrow> ('f, 'm) link_scheme \<Rightarrow>
    bytes \<times> ('f, 'm) link_scheme" where
  "sendAddbaResponse tid dialog req_param ba_timeout s =
    (let h = action_hdr s;
         s = s\<lparr>l_txSeq := l_txSeq s + 1\<rparr>;
         param = (req_param AND 0x0001) OR push_bit 1 1 OR push_bit 2 (ucast (tid AND 0xf)) OR
           push_bit 6 (l_baBufSize s AND 0x3ff)
     in (h @ [WLAN_CATEGORY_BACK, WLAN_ACTION_ADDBA_RESP, dialog, 0, 0, lo8 param, hi8 param,
              lo8 ba_timeout, hi8 ba_timeout], s))"

definition startTxAggregation :: "('f, 'm) link_scheme \<Rightarrow> bytes list \<times> ('f, 'm) link_scheme" where
  "startTxAggregation s =
    (if l_txBaActive s then ([], s)
     else if \<not> htAllowed s then ([], s)
     else case l_sta s of
       None \<Rightarrow> ([], s)
     | Some sta \<Rightarrow>
         if \<not> ht_supported (st_ht sta) then ([], s)
         else let (f, s) = sendAddbaRequest (l_baTid s) s in ([f], s))"

definition le16_rd :: "bytes \<Rightarrow> nat \<Rightarrow> u16 option" where
  "le16_rd b i = do { x \<leftarrow> rd b i; y \<leftarrow> rd b (i + 1); Some (le16 x y) }"

text \<open>\<open>b\<close> is the action body: the frames sent, the buffered frames freed, and the new state.\<close>

definition handleBackAction :: "bool \<Rightarrow> bytes \<Rightarrow> ('f, 'm) link_scheme \<Rightarrow>
    (bytes list \<times> 'f list \<times> ('f, 'm) link_scheme) option" where
  "handleBackAction alloc_ok b s =
    (if length b < 2 then Some ([], [], s)
     else do {
       action \<leftarrow> rd b 1;
       if action = WLAN_ACTION_ADDBA_REQ then
         (if length b < 9 then Some ([], [], s)
          else do {
            dialog \<leftarrow> rd b 2;
            req_param \<leftarrow> le16_rd b 3;
            ba_to \<leftarrow> le16_rd b 5;
            ssc \<leftarrow> le16_rd b 7;
            let tid = ucast (drop_bit 2 req_param AND 0xf);
            let bufsz = drop_bit 6 req_param AND 0x3ff;
            let ssn = drop_bit 4 ssc;
            let (ba, freed) = rxBaSetup alloc_ok (unat tid) ssn bufsz (l_rxBa s);
            let s = s\<lparr>l_rxBa := ba\<rparr>;
            let (f, s) = sendAddbaResponse tid dialog req_param ba_to s;
            Some ([f], freed, s) })
       else if action = WLAN_ACTION_ADDBA_RESP then
         (if length b < 9 then Some ([], [], s)
          else do {
            status \<leftarrow> le16_rd b 3;
            param \<leftarrow> le16_rd b 5;
            let tid = ucast (drop_bit 2 param AND 0xf);
            Some ([], [], if status = 0 \<and> tid = l_baTid s then s\<lparr>l_txBaActive := True\<rparr> else s) })
       else if action = WLAN_ACTION_DELBA then
         (if length b < 6 then Some ([], [], s)
          else do {
            del_param \<leftarrow> le16_rd b 2;
            let tid = ucast (drop_bit 12 del_param AND 0xf);
            let initiator = (del_param AND push_bit 11 1 \<noteq> 0);
            let s = (if \<not> initiator \<and> tid = l_baTid s then s\<lparr>l_txBaActive := False\<rparr> else s);
            (if initiator
             then let (ba, freed) = rxBaTeardown (unat tid) (l_rxBa s) in Some ([], freed, s\<lparr>l_rxBa := ba\<rparr>)
             else Some ([], [], s)) })
       else Some ([], [], s) })"

section \<open>The operating channel, proved\<close>

lemma op_walk_ok:
  assumes "ielen \<le> length ies"
  shows "\<exists>oi'. op_walk ies ielen i oi = Some oi'"
  using assms
proof (induction ies ielen i oi rule: op_walk.induct)
  case (1 ies ielen i oi)
  show ?case
  proof (cases "i + 2 \<le> ielen \<and> i + 2 + unat (ies ! (i + 1)) \<le> ielen")
    case False
    then show ?thesis using 1(2) by (subst op_walk.simps) auto
  next
    case True
    let ?l = "ies ! (i + 1)"
    have r: "rd ies i = Some (ies ! i)" "rd ies (i + 1) = Some ?l" using True 1(2) by simp_all
    have "\<exists>oi1. op_element ies i (ies ! i) ?l oi = Some oi1"
    proof -
      have "rd ies (i + 2) = Some (ies ! (i + 2))" "rd ies (i + 2 + 1) = Some (ies ! (i + 2 + 1))" if "2 \<le> ?l"
        using that True 1(2) by (auto simp: word_le_nat_alt intro!: rd_Some)
      moreover have "2 \<le> ?l" if "3 \<le> ?l" using that by (simp add: word_le_nat_alt)
      ultimately show ?thesis by (simp add: op_element_def)
    qed
    then obtain oi1 where oi1: "op_element ies i (ies ! i) ?l oi = Some oi1" by blast
    have "op_walk ies ielen i oi = op_walk ies ielen (i + 2 + unat ?l) oi1"
      using True by (subst op_walk.simps) (simp only: r oi1 bind.bind_lunit if_True simp_thms, simp)
    moreover have "\<exists>oi'. op_walk ies ielen (i + 2 + unat ?l) oi1 = Some oi'"
      using True 1(2) by (intro 1(1)[OF _ r(1) r(2) _ oi1]) simp_all
    ultimately show ?thesis by simp
  qed
qed

text \<open>The three outcomes.\<close>

definition chandef_at :: "bool \<Rightarrow> bool \<Rightarrow> ieee80211_channel \<Rightarrow> ('f, 'm) link_scheme \<Rightarrow>
    cfg80211_chan_def \<times> ('f, 'm) link_scheme \<Rightarrow> bool" where
  "chandef_at wide vht chan s r =
    (case r of (cd, s') \<Rightarrow>
      cd_chan cd = chan \<and> s' = s\<lparr>l_connChanWidth := l_connChanWidth s'\<rparr> \<and>
      ((cd_width cd = NL80211_CHAN_WIDTH_20_NOHT \<and> l_connChanWidth s' = 20 \<and>
          cd_center_freq1 cd = ucast (ch_center_freq chan)) \<or>
       (wide \<and> cd_width cd = NL80211_CHAN_WIDTH_40 \<and> l_connChanWidth s' = 40 \<and>
          (cd_center_freq1 cd = ucast (ch_center_freq chan) + 10 \<or>
           cd_center_freq1 cd = ucast (ch_center_freq chan) - 10)) \<or>
       (wide \<and> vht \<and> cd_width cd = NL80211_CHAN_WIDTH_80 \<and> l_connChanWidth s' = 80)))"

lemma pick_chandef_at:
  assumes "cd = \<lparr>cd_chan = chan, cd_width = NL80211_CHAN_WIDTH_20_NOHT, cd_center_freq1 = ucast (ch_center_freq chan)\<rparr>"
    "chip80 \<longrightarrow> vht"
  shows "chandef_at True vht chan s (pick_chandef chip40 chip80 f oi chan (cd, s\<lparr>l_connChanWidth := 20\<rparr>))"
  using assms unfolding pick_chandef_def chandef_at_def by (simp add: Let_def)

lemma setConnectedChandef_at:
  assumes "bss_ok (l_target s)"
  shows "\<exists>r. setConnectedChandef bands device chan s = Some r \<and>
    chandef_at (b_cipher (l_target s) \<noteq> CIPHER_TKIP)
      (b_channel (l_target s) > 14 \<and> (\<exists>sb. bands NL80211_BAND_5GHZ = Some sb \<and> vht_supported (sb_vht sb) \<and>
         ht_cap (sb_ht sb) AND HT_CAP_SUP_WIDTH_20_40 \<noteq> 0)) chan s r"
proof -
  let ?s = "s\<lparr>l_connChanWidth := 20\<rparr>"
  have h: "htAllowed ?s = htAllowed s" "target_band ?s = target_band s" by (simp_all add: htAllowed_def target_band_def)
  obtain oi where oi: "op_walk (b_ies (l_target s)) (unat (b_ies_len (l_target s))) 0
                 \<lparr>oi_sco = 0, oi_htStaWidth = False, oi_vhtWidth = 0, oi_vhtSeg0 = 0\<rparr> = Some oi"
    using op_walk_ok[of "unat (b_ies_len (l_target s))" "b_ies (l_target s)"] assms unfolding bss_ok_def by fastforce
  show ?thesis
  proof (cases "htAllowed s \<and> bands (target_band s) \<noteq> None")
    case False
    then show ?thesis
      by (cases "htAllowed s"; cases "bands (target_band s)") (simp_all add: setConnectedChandef_def chandef_at_def h)
  next
    case True
    then obtain sb where sb: "bands (target_band s) = Some sb" by blast
    have w: "b_cipher (l_target s) \<noteq> CIPHER_TKIP" using True by (simp add: htAllowed_def)
    have "ht_cap (sb_ht sb) AND HT_CAP_SUP_WIDTH_20_40 \<noteq> 0 \<and> target_band s = NL80211_BAND_5GHZ \<and> vht_supported (sb_vht sb) \<longrightarrow>
      b_channel (l_target s) > 14 \<and> (\<exists>sb. bands NL80211_BAND_5GHZ = Some sb \<and> vht_supported (sb_vht sb) \<and>
         ht_cap (sb_ht sb) AND HT_CAP_SUP_WIDTH_20_40 \<noteq> 0)"
      using sb by (simp add: target_band_def split: if_splits)
    note pick_chandef_at[OF refl this, of chan s]
    then show ?thesis
      using True oi w unfolding setConnectedChandef_def Let_def h sb
      by simp
  qed
qed

text \<open>\<open>setConnectedChandef\<close> never reads outside the cached elements and settles on one of three
  widths: 20 MHz on the channel itself, 40 MHz with the centre 10 MHz off, or, on a 5 GHz channel of
  a 40 MHz and VHT chip, 80 MHz.  A TKIP link stays at 20 MHz.\<close>

theorem setConnectedChandef_widths:
  assumes "bss_ok (l_target s)"
  shows "\<exists>r. setConnectedChandef bands device chan s = Some r \<and>
    chandef_at (b_cipher (l_target s) \<noteq> CIPHER_TKIP)
      (b_channel (l_target s) > 14 \<and> (\<exists>sb. bands NL80211_BAND_5GHZ = Some sb \<and> vht_supported (sb_vht sb) \<and>
         ht_cap (sb_ht sb) AND HT_CAP_SUP_WIDTH_20_40 \<noteq> 0)) chan s r"
  using assms by (rule setConnectedChandef_at)

definition link_demo :: "nat link" where
  "link_demo = \<lparr>l_target = bss_zero\<lparr>b_channel := 36, b_cipher := CIPHER_CCMP, b_group_cipher := CIPHER_CCMP\<rparr>,
     l_mac = [7, 8, 9, 10, 11, 12], l_sta = None, l_txSeq = 5, l_dataSeq = 4097, l_txBaActive = False,
     l_baTid = 0, l_baDialog = 255, l_baBufSize = 64, l_connChanWidth = 20, l_rxBa = replicate 8 None\<rparr>"

definition band_demo :: ieee80211_supported_band where
  "band_demo = \<lparr>sb_channels = [], sb_ht = \<lparr>ht_cap = 0x1062, ht_supported = True, ht_ampdu_factor = 3,
     ht_ampdu_density = 5, ht_rx_mask = replicate 10 255, ht_rx_highest = 300, ht_tx_params = 1\<rparr>,
     sb_vht = \<lparr>vht_supported = True, vht_cap = 0, vht_rx_mcs_map = 0, vht_rx_highest = 0, vht_tx_mcs_map = 0,
     vht_tx_highest = 0\<rparr>, sb_band = NL80211_BAND_5GHZ\<rparr>"

lemma bss_demo_ok: "bss_ok (l_target link_demo)"
  by (simp add: link_demo_def bss_ok_def bss_zero_def elements_Nil)

lemma setConnectedChandef_widths_witness:
  "let bands = (\<lambda>_. Some band_demo); chan = \<lparr>ch_band = NL80211_BAND_5GHZ, ch_center_freq = 5180, ch_hw_value = 36, ch_flags = 0\<rparr> in
   \<exists>r. setConnectedChandef bands None chan link_demo = Some r \<and>
    chandef_at (b_cipher (l_target link_demo) \<noteq> CIPHER_TKIP)
      (b_channel (l_target link_demo) > 14 \<and> (\<exists>sb. bands NL80211_BAND_5GHZ = Some sb \<and> vht_supported (sb_vht sb) \<and>
         ht_cap (sb_ht sb) AND HT_CAP_SUP_WIDTH_20_40 \<noteq> 0)) chan link_demo r"
  unfolding Let_def by (rule setConnectedChandef_widths[OF bss_demo_ok])

section \<open>Building frames, proved\<close>

text \<open>An array of \<open>n\<close> bytes that starts with the bytes \<open>acc\<close>, written so far.\<close>

definition built :: "bytes \<times> nat \<Rightarrow> nat \<Rightarrow> bytes \<Rightarrow> bool" where
  "built bp n acc \<longleftrightarrow> length (fst bp) = n \<and> snd bp = length acc \<and> length acc \<le> n \<and> take (length acc) (fst bp) = acc"

lemma built_start: "built (replicate n 0, 0) n []"
  by (simp add: built_def)

lemma built_put:
  assumes "built bp n acc" "length acc + length d \<le> n"
  shows "\<exists>bp'. put d bp = Some bp' \<and> built bp' n (acc @ d)"
proof -
  obtain buf pos where bp: "bp = (buf, pos)" by force
  have "pos + length d \<le> length buf" using assms by (simp add: built_def bp)
  from wr_extend[OF this] assms show ?thesis by (simp add: put_def bp built_def)
qed

text \<open>An element that may be missing.\<close>

definition opt :: "bytes option \<Rightarrow> bytes" where
  "opt x = (case x of None \<Rightarrow> [] | Some d \<Rightarrow> d)"

definition put_opt :: "bytes option \<Rightarrow> bytes \<times> nat \<Rightarrow> (bytes \<times> nat) option" where
  "put_opt x bp = (case x of None \<Rightarrow> Some bp | Some d \<Rightarrow> put d bp)"

lemma built_put_opt:
  assumes "built bp n acc" "length acc + length (opt x) \<le> n"
  shows "\<exists>bp'. put_opt x bp = Some bp' \<and> built bp' n (acc @ opt x)"
  using assms built_put[of bp n acc] by (cases x) (simp_all add: put_opt_def opt_def)

text \<open>A frame that is put together from pieces, some of which may be missing.\<close>

primrec put_all :: "bytes option list \<Rightarrow> bytes \<times> nat \<Rightarrow> (bytes \<times> nat) option" where
  "put_all [] bp = Some bp"
| "put_all (x # xs) bp = Option.bind (put_opt x bp) (put_all xs)"

lemma put_opt_simps [simp]:
  "put_opt None bp = Some bp" "put_opt (Some d) bp = put d bp"
  "put_opt (if c then Some d else None) bp = (if c then put d bp else Some bp)"
  by (simp_all add: put_opt_def)

lemma opt_simps [simp]: "opt None = []" "opt (Some d) = d" "opt (if c then Some d else None) = (if c then d else [])"
  by (simp_all add: opt_def)

lemma built_put_all:
  assumes "built bp n acc" "length acc + length (concat (map opt xs)) \<le> n"
  shows "\<exists>bp'. put_all xs bp = Some bp' \<and> built bp' n (acc @ concat (map opt xs))"
  using assms
proof (induction xs arbitrary: bp acc)
  case (Cons x xs)
  obtain bp1 where "put_opt x bp = Some bp1" "built bp1 n (acc @ opt x)"
    using built_put_opt[OF Cons(2), of x] Cons(3) by auto
  then show ?case using Cons(1)[of bp1 "acc @ opt x"] Cons(3) by simp
qed simp

text \<open>The elements of the association request.\<close>

definition assoc_elements :: "(nl80211_band \<Rightarrow> ieee80211_supported_band option) \<Rightarrow> bool \<Rightarrow>
    ('f, 'm) link_scheme \<Rightarrow> (u8 \<times> bytes) list" where
  "assoc_elements bands wpa2 s =
    (let t = l_target s; five = (b_channel t > 14)
     in [(WLAN_EID_SSID, take (unat (b_ssid_len t)) (b_ssid t)),
         (WLAN_EID_SUPP_RATES, if five then rates_5g else rates_2g)] @
        (if five then [] else [(WLAN_EID_EXT_SUPP_RATES, ext_rates_2g)]) @
        (case bands (target_band s) of None \<Rightarrow> []
         | Some sb \<Rightarrow>
            (if htAllowed s \<and> ht_supported (sb_ht sb)
             then [(WLAN_EID_HT_CAPABILITY, drop 2 (ht_element (l_connChanWidth s) (sb_ht sb)))] else []) @
            (if htAllowed s \<and> five \<and> vht_supported (sb_vht sb)
             then [(WLAN_EID_VHT_CAPABILITY, drop 2 (vht_element (sb_vht sb)))] else [])) @
        [(WLAN_EID_VENDOR_SPECIFIC, [0x00, 0x50, 0xf2, 0x02, 0x00, 0x01, 0x00])] @
        (if wpa2 then [(WLAN_EID_RSN, drop 2 (rtw88BuildSelectedRsnIe (b_group_cipher t)))] else []))"

lemma encode_append: "encode_kdes (xs @ ys) = encode_kdes xs @ encode_kdes ys"
  by (simp add: encode_kdes_def)

lemma encode_simps: "encode_kdes [] = []" "encode_kdes [(i, b)] = i # of_nat (length b) # b"
  "encode_kdes ((i, b) # ks) = (i # of_nat (length b) # b) @ encode_kdes ks"
  by (simp_all add: encode_kdes_def)

definition assoc_pieces :: "(nl80211_band \<Rightarrow> ieee80211_supported_band option) \<Rightarrow> bool \<Rightarrow>
    ('f, 'm) link_scheme \<Rightarrow> bytes option list" where
  "assoc_pieces bands wpa2 s =
    (let t = l_target s; sb = bands (target_band s)
     in [Some (hdr_3addr IEEE80211_STYPE_ASSOC_REQ 0 (b_bssid t) (l_mac s) (b_bssid t) (push_bit 4 (l_txSeq s))),
         Some [0x31, 0x04, 10, 0],
         Some (encode_kdes [(WLAN_EID_SSID, take (unat (b_ssid_len t)) (b_ssid t))]),
         Some (encode_kdes [(WLAN_EID_SUPP_RATES, if b_channel t > 14 then rates_5g else rates_2g)]),
         if b_channel t \<le> 14 then Some (encode_kdes [(WLAN_EID_EXT_SUPP_RATES, ext_rates_2g)]) else None,
         if sb \<noteq> None \<and> htAllowed s \<and> ht_supported (sb_ht (the sb))
         then Some (ht_element (l_connChanWidth s) (sb_ht (the sb))) else None,
         if sb \<noteq> None \<and> htAllowed s \<and> b_channel t > 14 \<and> vht_supported (sb_vht (the sb))
         then Some (vht_element (sb_vht (the sb))) else None,
         Some wme_info,
         if wpa2 then Some (rtw88BuildSelectedRsnIe (b_group_cipher t)) else None])"

lemma buildAssocReq_pieces:
  assumes "bss_ok (l_target s)"
  shows "buildAssocReq bands wpa2 buf s =
    Option.bind (put_all (assoc_pieces bands wpa2 s) (buf, 0)) (\<lambda>(buf, len). Some (buf, len, s\<lparr>l_txSeq := l_txSeq s + 1\<rparr>))"
proof -
  let ?t = "l_target s"
  have ssid: "rds (b_ssid ?t) 0 (unat (b_ssid_len ?t)) = Some (take (unat (b_ssid_len ?t)) (b_ssid ?t))"
    "length (take (unat (b_ssid_len ?t)) (b_ssid ?t)) = unat (b_ssid_len ?t)"
    using assms by (simp_all add: bss_ok_def rds_def)
  have cap: "[lo8 (if wpa2 then 0x0431 OR 0x0010 else 0x0431), hi8 (if wpa2 then 0x0431 OR 0x0010 else 0x0431), 10, 0] = [0x31, 0x04, 10, 0 :: u8]"
    by (simp add: lo8_def hi8_def)
  have s: "htAllowed (s\<lparr>l_txSeq := x\<rparr>) = htAllowed s" "target_band (s\<lparr>l_txSeq := x\<rparr>) = target_band s" for x
    by (simp_all add: htAllowed_def target_band_def)
  have band: "target_band s = NL80211_BAND_5GHZ \<longleftrightarrow> b_channel ?t > 14" by (simp add: target_band_def)
  have h: "IEEE80211_FTYPE_MGMT OR IEEE80211_STYPE_ASSOC_REQ = IEEE80211_STYPE_ASSOC_REQ" by (simp add: fc_defs)
  show ?thesis
    unfolding buildAssocReq_def Let_def ssid(1) cap h
    by (cases "bands (target_band s)")
      (simp_all add: assoc_pieces_def encode_simps ssid s band Let_def del: length_take cong: if_cong)
qed


lemma length_concat_le: "list_all2 (\<lambda>x n. length x \<le> n) xs ns \<Longrightarrow> length (concat xs) \<le> sum_list ns"
  by (induction rule: list_all2_induct) simp_all

lemma assoc_pieces_length:
  assumes "bss_ok (l_target s)" "length (l_mac s) = 6"
    "\<And>sb. bands (target_band s) = Some sb \<Longrightarrow> length (ht_rx_mask (sb_ht sb)) = 10"
  shows "length (concat (map opt (assoc_pieces bands wpa2 s))) \<le> 151"
proof -
  have "length (b_bssid (l_target s)) = 6" "unat (b_ssid_len (l_target s)) \<le> 32"
    using assms(1) by (simp_all add: bss_ok_def)
  then have "list_all2 (\<lambda>x n. length x \<le> n) (map opt (assoc_pieces bands wpa2 s)) [24, 4, 34, 10, 6, 28, 14, 9, 22]"
    using assms(2,3)
    by (auto simp: assoc_pieces_def Let_def encode_simps rates_2g_def rates_5g_def ext_rates_2g_def wme_info_def
      rtw88BuildSelectedRsnIe_def rtw88WriteSuite_def ht_element_def vht_element_def le32_bytes_def)
  from length_concat_le[OF this] show ?thesis by simp
qed

lemma element_encode:
  "length (ht_rx_mask h) = 10 \<Longrightarrow> ht_element w h = encode_kdes [(WLAN_EID_HT_CAPABILITY, drop 2 (ht_element w h))]"
  "vht_element v = encode_kdes [(WLAN_EID_VHT_CAPABILITY, drop 2 (vht_element v))]"
  "wme_info = encode_kdes [(WLAN_EID_VENDOR_SPECIFIC, [0x00, 0x50, 0xf2, 0x02, 0x00, 0x01, 0x00])]"
  "rtw88BuildSelectedRsnIe g = encode_kdes [(WLAN_EID_RSN, drop 2 (rtw88BuildSelectedRsnIe g))]"
  by (simp_all add: encode_simps ht_element_def vht_element_def le32_bytes_def wme_info_def Let_def
    rtw88BuildSelectedRsnIe_def rtw88WriteSuite_def WLAN_EID_RSN_def WLAN_EID_VENDOR_SPECIFIC_def)

lemma assoc_pieces_encode:
  assumes "\<And>sb. bands (target_band s) = Some sb \<Longrightarrow> length (ht_rx_mask (sb_ht sb)) = 10"
  shows "concat (map opt (assoc_pieces bands wpa2 s)) =
    hdr_3addr IEEE80211_STYPE_ASSOC_REQ 0 (b_bssid (l_target s)) (l_mac s) (b_bssid (l_target s)) (push_bit 4 (l_txSeq s)) @
    [0x31, 0x04, 10, 0] @ encode_kdes (assoc_elements bands wpa2 s)"
proof -
  have split: "encode_kdes (p # q # xs) = encode_kdes [p] @ encode_kdes (q # xs)" for p q xs
    using encode_append[of "[p]" "q # xs"] by simp
  have ht: "encode_kdes [(WLAN_EID_HT_CAPABILITY, drop 2 (ht_element w (sb_ht sb)))] = ht_element w (sb_ht sb)"
    if "bands (target_band s) = Some sb" for w sb
    using element_encode(1)[OF assms[OF that]] by simp
  define five where "five = (b_channel (l_target s) > 14)"
  have ch: "b_channel (l_target s) > 14 \<longleftrightarrow> five" "b_channel (l_target s) \<le> 14 \<longleftrightarrow> \<not> five"
    by (simp_all add: five_def not_less)
  show ?thesis unfolding assoc_pieces_def assoc_elements_def Let_def ch
    by (cases "bands (target_band s)"; cases five; cases wpa2)
      (simp_all add: encode_append split ht encode_simps(1) if_distrib[of encode_kdes] flip: element_encode(2-4))
qed

lemma buildAssocReq_ok:
  assumes "bss_ok (l_target s)" "length (l_mac s) = 6"
    "\<And>sb. bands (target_band s) = Some sb \<Longrightarrow> length (ht_rx_mask (sb_ht sb)) = 10"
  shows "\<exists>buf len. buildAssocReq bands wpa2 (replicate 256 0) s = Some (buf, len, s\<lparr>l_txSeq := l_txSeq s + 1\<rparr>) \<and>
    len \<le> 151 \<and> take len buf =
      hdr_3addr IEEE80211_STYPE_ASSOC_REQ 0 (b_bssid (l_target s)) (l_mac s) (b_bssid (l_target s)) (push_bit 4 (l_txSeq s)) @
      [0x31, 0x04, 10, 0] @ encode_kdes (assoc_elements bands wpa2 s)"
proof -
  let ?ps = "assoc_pieces bands wpa2 s"
  have l: "length (concat (map opt ?ps)) \<le> 151" using assms by (rule assoc_pieces_length)
  then obtain buf len where p: "put_all ?ps (replicate 256 0, 0) = Some (buf, len)" "built (buf, len) 256 (concat (map opt ?ps))"
    using built_put_all[OF built_start, of ?ps 256] by auto
  then have "len = length (concat (map opt ?ps))" "take len buf = concat (map opt ?ps)" by (simp_all add: built_def)
  with l p(1) have "len \<le> 151" "take len buf = concat (map opt ?ps)"
    "buildAssocReq bands wpa2 (replicate 256 0) s = Some (buf, len, s\<lparr>l_txSeq := l_txSeq s + 1\<rparr>)"
    using buildAssocReq_pieces[OF assms(1), of bands wpa2 "replicate 256 0"] by simp_all
  moreover note assoc_pieces_encode[of bands s wpa2, OF assms(3), simplified]
  ultimately show ?thesis by auto
qed

text \<open>\<open>buildAssocReq\<close> fits its 256-byte array for every access point the scan can file (it writes
  at most 151 bytes) and builds a header to the access point, the capabilities and a sequence of
  complete elements: the SSID and rates, HT and VHT capabilities exactly when the link and the chip
  have them, and an RSN element exactly for WPA2.\<close>

theorem buildAssocReq_elements:
  assumes "bss_ok (l_target s)" "length (l_mac s) = 6"
    "\<And>sb. bands (target_band s) = Some sb \<Longrightarrow> length (ht_rx_mask (sb_ht sb)) = 10"
  shows "\<exists>buf len. buildAssocReq bands wpa2 (replicate 256 0) s = Some (buf, len, s\<lparr>l_txSeq := l_txSeq s + 1\<rparr>) \<and>
    len \<le> 151 \<and> take len buf =
      hdr_3addr IEEE80211_STYPE_ASSOC_REQ 0 (b_bssid (l_target s)) (l_mac s) (b_bssid (l_target s)) (push_bit 4 (l_txSeq s)) @
      [0x31, 0x04, 10, 0] @ encode_kdes (assoc_elements bands wpa2 s)"
  using assms by (rule buildAssocReq_ok)

lemma buildAssocReq_elements_witness:
  "\<exists>buf len. buildAssocReq (\<lambda>_. Some band_demo) True (replicate 256 0) link_demo =
      Some (buf, len, link_demo\<lparr>l_txSeq := l_txSeq link_demo + 1\<rparr>) \<and>
    len \<le> 151 \<and> take len buf =
      hdr_3addr IEEE80211_STYPE_ASSOC_REQ 0 (b_bssid (l_target link_demo)) (l_mac link_demo)
        (b_bssid (l_target link_demo)) (push_bit 4 (l_txSeq link_demo)) @
      [0x31, 0x04, 10, 0] @ encode_kdes (assoc_elements (\<lambda>_. Some band_demo) True link_demo)"
  by (rule buildAssocReq_elements[OF bss_demo_ok]) (auto simp: link_demo_def band_demo_def)

section \<open>Block-ack agreements, proved\<close>

text \<open>The fields of the block-ack parameter set.\<close>

definition addba_param :: "u16 \<Rightarrow> u8 \<Rightarrow> u16 \<Rightarrow> u16" where
  "addba_param a tid bs = (a AND 0x0001) OR push_bit 1 1 OR push_bit 2 (ucast (tid AND 0xf)) OR push_bit 6 (bs AND 0x3ff)"

lemma addba_param_tid: "drop_bit 2 (addba_param a tid bs) AND 0xf = ucast (tid AND 0xf)"
  unfolding addba_param_def u16_eq_iff
  by (simp add: bit_and_iff bit_or_iff bit_push_bit_iff bit_drop_bit_eq bit_ucast_iff)

lemma addba_param_bs: "drop_bit 6 (addba_param a tid bs) AND 0x3ff = bs AND 0x3ff"
  unfolding addba_param_def u16_eq_iff
  by (simp add: bit_and_iff bit_or_iff bit_push_bit_iff bit_drop_bit_eq bit_ucast_iff bit_imp_le_length)

lemma ssc_ssn: "drop_bit 4 (push_bit 4 (x AND 0xFFF)) = (x AND 0xFFF :: u16)"
  unfolding u16_eq_iff by (simp add: bit_and_iff bit_push_bit_iff bit_drop_bit_eq)

lemma tid_cast: "tid \<le> 15 \<Longrightarrow> ucast (ucast (tid AND 0xf) :: u16) = (tid :: u8)"
proof -
  assume "tid \<le> 15"
  then have "unat tid \<le> 15" by (simp add: word_le_nat_alt)
  then have "unat (tid AND mask 4) = unat tid" unfolding unat_and_mask by simp
  then have "tid AND 0xf = tid" by (simp add: mask_eq_exp_minus_1 word_unat_eq_iff)
  then show ?thesis by (intro bit_word_eqI) (simp add: bit_ucast_iff)
qed

lemma drop_action_hdr:
  "length (b_bssid (l_target s)) = 6 \<Longrightarrow> length (l_mac s) = 6 \<Longrightarrow> drop 24 (action_hdr s @ r) = r"
  by (simp add: action_hdr_def Let_def)

text \<open>C19. Two stations that run this code agree on aggregation: the peer answers the ADDBA request by
  standing up a receive window for that TID that starts at the sender's next data sequence number
  and has the size offered (64 when the offer is empty or larger), and its response switches the
  sender's aggregation on.\<close>

theorem addba_handshake:
  assumes "l_baTid a \<le> 7" "length (l_rxBa b) = 8"
    "length (b_bssid (l_target a)) = 6" "length (l_mac a) = 6"
    "length (b_bssid (l_target b)) = 6" "length (l_mac b) = 6"
  shows "case sendAddbaRequest (l_baTid a) a of (req, a1) \<Rightarrow>
    \<exists>resp freed b'. handleBackAction True (drop 24 req) b = Some ([resp], freed, b') \<and>
      (\<exists>r. l_rxBa b' ! unat (l_baTid a) = Some r \<and> ba_active r \<and> headSn r = l_dataSeq a AND 0xFFF \<and>
         ba_stored r = 0 \<and>
         bufSize r = (let n = l_baBufSize a AND 0x3ff in if n = 0 \<or> n > 64 then 64 else n)) \<and>
      handleBackAction False (drop 24 resp) a1 = Some ([], [], a1\<lparr>l_txBaActive := True\<rparr>)"
proof -
  define tid where "tid = l_baTid a"
  define dlg where "dlg = (if l_baDialog a + 1 = 0 then 1 else l_baDialog a + 1)"
  define p where "p = addba_param 0 tid (l_baBufSize a)"
  define ssc where "ssc = push_bit 4 (l_dataSeq a AND 0xFFF)"
  define a1 where "a1 = a\<lparr>l_txSeq := l_txSeq a + 1, l_baDialog := dlg\<rparr>"
  have t15: "tid \<le> 15" "unat tid < 8"
    using assms(1) order_trans[of tid 7 15] by (simp_all add: tid_def word_le_nat_alt)
  have req: "sendAddbaRequest (l_baTid a) a =
      (action_hdr a @ [3, 0, dlg, lo8 p, hi8 p, 0, 0, lo8 ssc, hi8 ssc], a1)"
    by (simp add: sendAddbaRequest_def Let_def eid_defs a1_def dlg_def ssc_def p_def addba_param_def tid_def)
  let ?b = "[3, 0, dlg, lo8 p, hi8 p, 0, 0, lo8 ssc, hi8 ssc]"
  have tid: "ucast (drop_bit 2 p AND 0xf) = tid" unfolding p_def addba_param_tid using t15(1) by (rule tid_cast)
  have bs: "drop_bit 6 p AND 0x3ff = l_baBufSize a AND 0x3ff" unfolding p_def by (rule addba_param_bs)
  have ssn: "drop_bit 4 ssc = l_dataSeq a AND 0xFFF" unfolding ssc_def by (rule ssc_ssn)
  obtain ba freed where su: "rxBaSetup True (unat tid) (drop_bit 4 ssc) (drop_bit 6 p AND 0x3ff) (l_rxBa b) = (ba, freed)"
    by force
  define b1 where "b1 = b\<lparr>l_rxBa := ba\<rparr>"
  define q where "q = addba_param p tid (l_baBufSize b1)"
  define resp where "resp = action_hdr b1 @ [3, 1, dlg, 0, 0, lo8 q, hi8 q, 0, 0]"
  have z: "le16 0 0 = 0" by (simp add: le16_def)
  have lohi0: "lo8 0 = 0" "hi8 0 = 0" by (simp_all add: lo8_def hi8_def)
  have rs: "sendAddbaResponse tid dlg p 0 b1 = (resp, b1\<lparr>l_txSeq := l_txSeq b1 + 1\<rparr>)"
    unfolding sendAddbaResponse_def Let_def eid_defs resp_def q_def addba_param_def prod.inject lohi0
    by (simp add: action_hdr_def)
  have h1: "handleBackAction True ?b b = Some ([resp], freed, b1\<lparr>l_txSeq := l_txSeq b1 + 1\<rparr>)"
    using rs su by (simp add: handleBackAction_def le16_rd_def eid_defs Let_def tid b1_def z)
  have "\<exists>r. ba ! unat tid = Some r \<and> ba_active r \<and> headSn r = (drop_bit 4 ssc) AND 0xFFF \<and> ba_stored r = 0 \<and>
      bufSize r = (let n = l_baBufSize a AND 0x3ff in if n = 0 \<or> n > 64 then 64 else n)"
    using su t15(2) assms(2) unfolding bs
    by (auto simp: rxBaSetup_def Let_def split: option.splits)
  then have h2: "\<exists>r. l_rxBa (b1\<lparr>l_txSeq := l_txSeq b1 + 1\<rparr>) ! unat tid = Some r \<and> ba_active r \<and>
      headSn r = l_dataSeq a AND 0xFFF \<and> ba_stored r = 0 \<and>
      bufSize r = (let n = l_baBufSize a AND 0x3ff in if n = 0 \<or> n > 64 then 64 else n)"
    by (simp add: b1_def ssn and.assoc)
  have qt: "ucast (drop_bit 2 q AND 0xf) = tid" unfolding q_def addba_param_tid using t15(1) by (rule tid_cast)
  have "drop 24 resp = [3, 1, dlg, 0, 0, lo8 q, hi8 q, 0, 0]"
    unfolding resp_def by (rule drop_action_hdr) (use assms in \<open>simp_all add: b1_def\<close>)
  then have h3: "handleBackAction False (drop 24 resp) a1 = Some ([], [], a1\<lparr>l_txBaActive := True\<rparr>)"
    by (simp add: handleBackAction_def le16_rd_def eid_defs Let_def qt z) (simp add: a1_def tid_def)
  have d: "drop 24 (action_hdr a @ ?b) = ?b" by (rule drop_action_hdr) (use assms in simp_all)
  show ?thesis unfolding req prod.case d using h1 h2 h3 unfolding tid_def by blast
qed

lemma addba_handshake_witness:
  "case sendAddbaRequest (l_baTid link_demo) link_demo of (req, a1) \<Rightarrow>
    \<exists>resp freed b'. handleBackAction True (drop 24 req) link_demo = Some ([resp], freed, b') \<and>
      (\<exists>r. l_rxBa b' ! unat (l_baTid link_demo) = Some r \<and> ba_active r \<and> headSn r = l_dataSeq link_demo AND 0xFFF \<and>
         ba_stored r = 0 \<and>
         bufSize r = (let n = l_baBufSize link_demo AND 0x3ff in if n = 0 \<or> n > 64 then 64 else n)) \<and>
      handleBackAction False (drop 24 resp) a1 = Some ([], [], a1\<lparr>l_txBaActive := True\<rparr>)"
  by (rule addba_handshake) (simp_all add: link_demo_def bss_zero_def)

end
