(* ===== verification/Mlme.thy ===== *)
theory Mlme
  imports Mgmt Datapath Keywrap
begin

text \<open>
  The state machine of \<open>src/kext/RTW88IEEE80211.cpp\<close>: scanning, connecting, the four-way handshake,
  disconnecting, power, timeouts and received frames, as functions on the driver's state.  Each
  call into the hardware driver, the network stack and the timer is recorded in order in \<open>m_out\<close>.
  What these calls answer, the random nonce and the capabilities of the chip are the record
  \<open>hw_io\<close> that each operation takes.  A read outside a received frame is \<open>None\<close>.
\<close>

section \<open>State\<close>

datatype rtw88_state = RTW88_STATE_IDLE | RTW88_STATE_SCANNING | RTW88_STATE_AUTHENTICATING
  | RTW88_STATE_ASSOCIATING | RTW88_STATE_HANDSHAKING | RTW88_STATE_CONNECTED | RTW88_STATE_DISCONNECTING

record ieee80211_key_conf =
  kc_cipher :: u32
  kc_icv_len :: u8
  kc_iv_len :: u8
  kc_keyidx :: u8
  kc_flags :: u16
  kc_keylen :: u8
  kc_key :: bytes

definition KEY_FLAG_GENERATE_IV :: u16 where "KEY_FLAG_GENERATE_IV = push_bit 1 1"
definition KEY_FLAG_GENERATE_MMIC :: u16 where "KEY_FLAG_GENERATE_MMIC = push_bit 2 1"
definition KEY_FLAG_PAIRWISE :: u16 where "KEY_FLAG_PAIRWISE = push_bit 3 1"

definition kc_pairwise :: "ieee80211_key_conf \<Rightarrow> bool" where
  "kc_pairwise k \<longleftrightarrow> kc_flags k AND KEY_FLAG_PAIRWISE \<noteq> 0"

text \<open>The part of the interface the driver shares with the hardware driver: \<open>vif->bss_conf\<close> and
  \<open>vif->cfg\<close>.\<close>

record ieee80211_bss_conf =
  bc_bssid :: bytes
  bc_assoc :: bool
  bc_aid :: u16
  bc_qos :: bool

record ieee80211_vif_cfg =
  vc_assoc :: bool
  vc_aid :: u16

text \<open>What the driver asks of its surroundings.\<close>

datatype hw_call =
    TxMgmt bytes
  | TxNull bytes
  | TxData tx_frame
  | SetKey ieee80211_key_conf
  | DisableKey ieee80211_key_conf
  | StaAdd ieee80211_sta
  | StaRemove
  | BssInfoChanged bool
  | ConnectHwSetup bytes
  | RestoreConnectedHw bytes
  | HwScan "ieee80211_channel list"
  | CancelHwScan
  | SwScanStart
  | SwScanSwitch ieee80211_channel
  | SwScanComplete
  | AddInterface bytes
  | RemoveInterface
  | HwStart
  | HwStop
  | PciRemove
  | EnterConnectTC
  | EnterManualScanTC
  | ArmTimer nat
  | CancelTimer
  | ArmReorderTimer
  | LinkStatus bool
  | InjectRx bytes

record hw_io =
  io_tx :: bool
  io_set_key :: bool
  io_sta_add :: bool
  io_sta_remove :: bool
  io_bss_info :: bool
  io_cancel_scan :: bool
  io_hw_scan :: bool
  io_add_interface :: bool
  io_remove_interface :: bool
  io_start :: bool
  io_stop :: bool
  io_scan_supported :: bool
  io_alloc :: bool
  io_set_key_ok :: "ieee80211_key_conf \<Rightarrow> bool"
  io_scan_ok :: bool
  io_start_ok :: bool
  io_random :: bytes
  io_inject_ok :: "nat \<Rightarrow> bool"
  io_manual_tc :: bool
  io_connect_tc :: bool
  io_bands :: "nl80211_band \<Rightarrow> ieee80211_supported_band option"
  io_device :: "u16 option"
  io_junk :: "nat \<Rightarrow> u8"
  io_scan_stops :: bool
  io_abort_at :: "nat \<Rightarrow> bool"

record mlme = "bytes link" +
  m_state :: rtw88_state
  m_scanReturn :: rtw88_state
  m_powered :: bool
  m_hw :: bool
  m_vif :: bool
  m_db :: scan_db
  m_manualChannels :: "ieee80211_channel list"
  m_manualAbort :: bool
  m_onHome :: bool
  m_password :: bytes
  m_pmk :: bytes
  m_ptk :: bytes
  m_ptkConf :: "ieee80211_key_conf option"
  m_gtkConf :: "ieee80211_key_conf option"
  m_anonce :: bytes
  m_snonce :: bytes
  m_replayCtr :: bytes
  m_ccmpTxPn :: bytes
  m_wpa2 :: bool
  m_assocAID :: u16
  m_rssi :: u8
  m_rxFrameCount :: u32
  m_bssConf :: ieee80211_bss_conf
  m_vifCfg :: ieee80211_vif_cfg
  m_chandef :: "cfg80211_chan_def option"
  m_out :: "hw_call list"

definition emit :: "hw_call \<Rightarrow> mlme \<Rightarrow> mlme" where
  "emit c s = s\<lparr>m_out := m_out s @ [c]\<rparr>"

section \<open>Keys and the station\<close>

definition clearKeys :: "hw_io \<Rightarrow> mlme \<Rightarrow> mlme" where
  "clearKeys io s =
    (let s = (if m_powered s \<and> m_hw s \<and> io_set_key io
              then let s = (case m_ptkConf s of Some k \<Rightarrow> emit (DisableKey k) s | None \<Rightarrow> s)
                   in (case m_gtkConf s of Some k \<Rightarrow> emit (DisableKey k) s | None \<Rightarrow> s)
              else s)
     in s\<lparr>m_ptk := replicate 64 0, m_ptkConf := None, m_gtkConf := None, m_ccmpTxPn := replicate 6 0\<rparr>)"

definition releaseSta :: "hw_io \<Rightarrow> mlme \<Rightarrow> mlme" where
  "releaseSta io s =
    (if l_sta s = None then s
     else let s = (if m_hw s \<and> io_sta_remove io \<and> m_vif s then emit StaRemove s else s)
          in s\<lparr>l_sta := None, l_dataSeq := 0, l_txBaActive := False, l_rxBa := fst (rxBaTeardownAll (l_rxBa s))\<rparr>)"

text \<open>The slot is \<open>_ptkConf\<close> for a pairwise key, \<open>_gtkConf\<close> otherwise.\<close>

definition installKey :: "hw_io \<Rightarrow> bool \<Rightarrow> u8 \<Rightarrow> u32 \<Rightarrow> bytes \<Rightarrow> u8 \<Rightarrow> mlme \<Rightarrow> bool \<times> mlme" where
  "installKey io pw keyidx cipher tk tk_len s =
    (if \<not> m_hw s \<or> \<not> io_set_key io \<or> tk_len = 0 \<or> tk_len > 32 then (False, s)
     else if cipher \<noteq> CIPHER_CCMP \<and> cipher \<noteq> CIPHER_TKIP then (False, s)
     else if cipher = CIPHER_CCMP \<and> tk_len \<noteq> 16 then (False, s)
     else if cipher = CIPHER_TKIP \<and> tk_len \<noteq> 32 then (False, s)
     else
       let s = (case (if pw then m_ptkConf s else m_gtkConf s) of
              Some k \<Rightarrow> (let s = emit (DisableKey k) s
                        in if pw then s\<lparr>m_ptkConf := None\<rparr> else s\<lparr>m_gtkConf := None\<rparr>)
            | None \<Rightarrow> s)
       in if \<not> io_alloc io then (False, s)
       else let key = \<lparr>kc_cipher = cipher, kc_icv_len = (if cipher = CIPHER_TKIP then 4 else 8), kc_iv_len = 8,
                       kc_keyidx = keyidx,
                       kc_flags = (if pw then KEY_FLAG_PAIRWISE else 0) OR KEY_FLAG_GENERATE_IV OR
                         (if cipher = CIPHER_TKIP then KEY_FLAG_GENERATE_MMIC else 0),
                       kc_keylen = tk_len, kc_key = take (unat tk_len) tk\<rparr>;
                s = emit (SetKey key) s
       in if \<not> io_set_key_ok io key then (False, s)
       else if pw then (True, s\<lparr>m_ptkConf := Some key, m_ccmpTxPn := replicate 6 0\<rparr>)
       else (True, s\<lparr>m_gtkConf := Some key\<rparr>))"

section \<open>Sending\<close>

definition mlme_txMgmt :: "hw_io \<Rightarrow> bytes \<Rightarrow> mlme \<Rightarrow> mlme" where
  "mlme_txMgmt io f s = (if m_hw s \<and> io_tx io \<and> io_alloc io then emit (TxMgmt f) s else s)"

definition mlme_tx_ctx :: "mlme \<Rightarrow> tx_ctx" where
  "mlme_tx_ctx s =
    \<lparr>tc_bssid = b_bssid (l_target s), tc_mac = l_mac s, tc_channel = b_channel (l_target s), tc_ht = htAllowed s,
     tc_wpa2 = m_wpa2 s, tc_ptk = map_option kc_keyidx (m_ptkConf s), tc_ba_active = l_txBaActive s,
     tc_ba_tid = l_baTid s, tc_data_seq = l_dataSeq s, tc_tx_seq = l_txSeq s, tc_pn = m_ccmpTxPn s\<rparr>"

definition mlme_txData :: "hw_io \<Rightarrow> bytes \<Rightarrow> mlme \<Rightarrow> (bool \<times> mlme) option" where
  "mlme_txData io p s = do {
     (r, c) \<leftarrow> txDataFrame (m_hw s \<and> io_tx io \<and> m_vif s \<and> l_sta s \<noteq> None) (io_alloc io) (io_junk io)
                 (length p) (rds p) (mlme_tx_ctx s);
     let s = s\<lparr>l_txSeq := tc_tx_seq c, l_dataSeq := tc_data_seq c, m_ccmpTxPn := tc_pn c\<rparr>;
     Some (case r of None \<Rightarrow> (False, s) | Some tf \<Rightarrow> (True, emit (TxData tf) s)) }"

definition sendEAPOLKey :: "hw_io \<Rightarrow> nat \<Rightarrow> bytes \<Rightarrow> bool \<Rightarrow> bool \<Rightarrow> bool \<Rightarrow> mlme \<Rightarrow> mlme option" where
  "sendEAPOLKey io step rc inst ack mic s =
    (let f = sendEAPOLKey_frame kern_hmac_sha1 step rc inst ack mic (b_bssid (l_target s)) (l_mac s)
               (m_snonce s) (m_ptk s) (b_group_cipher (l_target s))
     in map_option snd (mlme_txData io f s))"

text \<open>\<open>outputPacket\<close>: a packet \<open>p\<close> from the network stack; \<open>True\<close> when it was handed on.\<close>

definition outputPacket :: "hw_io \<Rightarrow> bytes \<Rightarrow> mlme \<Rightarrow> (bool \<times> mlme) option" where
  "outputPacket io p s =
    (let connected = (m_state s = RTW88_STATE_CONNECTED \<or>
           (m_state s = RTW88_STATE_SCANNING \<and> m_scanReturn s = RTW88_STATE_CONNECTED \<and>
            (m_manualChannels s = [] \<or> m_onHome s)))
     in if \<not> connected \<or> \<not> m_hw s \<or> \<not> m_vif s \<or> l_sta s = None then Some (False, s)
        else mlme_txData io p s)"

definition mlme_startTxAggregation :: "hw_io \<Rightarrow> mlme \<Rightarrow> mlme" where
  "mlme_startTxAggregation io s = (let (fs, s) = startTxAggregation s in fold (mlme_txMgmt io) fs s)"

section \<open>Scanning\<close>

definition all_bands :: "nl80211_band list" where
  "all_bands = [NL80211_BAND_2GHZ, NL80211_BAND_5GHZ, NL80211_BAND_60GHZ]"

text \<open>The channel of the target in the tables of the chip, with its band filled in.\<close>

definition target_channel :: "hw_io \<Rightarrow> mlme \<Rightarrow> ieee80211_channel option" where
  "target_channel io s =
    (case concat (map (\<lambda>b. case io_bands io b of None \<Rightarrow> []
        | Some sb \<Rightarrow> map (\<lambda>c. c\<lparr>ch_band := sb_band sb\<rparr>)
            (filter (\<lambda>c. ch_hw_value c = ucast (b_channel (l_target s))) (sb_channels sb))) all_bands) of
       [] \<Rightarrow> None | c # _ \<Rightarrow> Some c)"

definition tune :: "hw_io \<Rightarrow> mlme \<Rightarrow> mlme option" where
  "tune io s =
    (case target_channel io s of
       None \<Rightarrow> Some s
     | Some chan \<Rightarrow> do {
         (cd, s) \<leftarrow> setConnectedChandef (io_bands io) (io_device io) chan s;
         Some (s\<lparr>m_chandef := Some cd\<rparr>) })"

definition restoreConnectedChannel :: "hw_io \<Rightarrow> mlme \<Rightarrow> mlme option" where
  "restoreConnectedChannel io s =
    (if m_scanReturn s \<noteq> RTW88_STATE_CONNECTED \<or> \<not> m_hw s \<or> \<not> m_vif s then Some s
     else do {
       s \<leftarrow> tune io s;
       let s = emit (RestoreConnectedHw (b_bssid (l_target s))) s;
       let s = s\<lparr>m_bssConf := (m_bssConf s)\<lparr>bc_bssid := b_bssid (l_target s), bc_assoc := True, bc_aid := m_assocAID s\<rparr>\<rparr>;
       Some (s\<lparr>m_vifCfg := \<lparr>vc_assoc = True, vc_aid = m_assocAID s\<rparr>\<rparr>) })"

definition scanDone :: "hw_io \<Rightarrow> bool \<Rightarrow> mlme \<Rightarrow> mlme option" where
  "scanDone io aborted s = do {
     let eff = (if m_state s = RTW88_STATE_SCANNING then m_scanReturn s else m_state s);
     let target = (if eff = RTW88_STATE_CONNECTED \<or> eff = RTW88_STATE_HANDSHAKING
                   then Some (b_bssid (l_target s)) else None);
     let s = s\<lparr>m_db := scanDone_expire aborted target (m_db s)\<rparr>;
     (if m_state s = RTW88_STATE_SCANNING
      then do {
        let returnState = m_scanReturn s;
        s \<leftarrow> (if returnState = RTW88_STATE_CONNECTED \<and> m_manualChannels s \<noteq> []
              then restoreConnectedChannel io s else Some s);
        Some (s\<lparr>m_state := returnState, m_scanReturn := RTW88_STATE_IDLE, m_onHome := False\<rparr>) }
      else Some s) }"

text \<open>\<open>abortActiveScan\<close>; \<open>io_scan_stops\<close>: the scan ends within the two seconds of waiting.\<close>

definition abortActiveScan :: "hw_io \<Rightarrow> bool \<Rightarrow> mlme \<Rightarrow> (bool \<times> mlme) option" where
  "abortActiveScan io waitForIdle s =
    (if m_state s \<noteq> RTW88_STATE_SCANNING then Some (True, s)
     else do {
       let returnState = m_scanReturn s;
       let s = (if m_manualChannels s \<noteq> [] then s\<lparr>m_manualAbort := True\<rparr>
                else if m_hw s \<and> io_cancel_scan io then emit CancelHwScan s else s);
       (if \<not> waitForIdle then Some (True, s)
        else do {
          s \<leftarrow> (if io_scan_stops io then scanDone io True s else Some s);
          (if m_state s = RTW88_STATE_SCANNING
           then (if m_manualChannels s \<noteq> [] then Some (False, s)
                 else do {
                   s \<leftarrow> (if returnState = RTW88_STATE_CONNECTED then restoreConnectedChannel io s else Some s);
                   Some (True, s\<lparr>m_state := returnState, m_scanReturn := RTW88_STATE_IDLE,
                                 m_manualChannels := [], m_onHome := False\<rparr>) })
           else Some (True, s)) }) })"

definition scan_channels :: "hw_io \<Rightarrow> ieee80211_channel list" where
  "scan_channels io =
    take 256 (concat (map (\<lambda>b. case io_bands io b of None \<Rightarrow> []
      | Some sb \<Rightarrow> map (\<lambda>c. c\<lparr>ch_band := sb_band sb\<rparr>)
          (filter (\<lambda>c. ch_flags c AND 1 = 0) (sb_channels sb))) all_bands))"

text \<open>Starting the passive scan on its thread.\<close>

definition manual_start :: "ieee80211_channel list \<Rightarrow> mlme \<Rightarrow> mlme" where
  "manual_start chans s =
    (let s = s\<lparr>m_manualChannels := chans, m_manualAbort := False, m_onHome := False, m_rxFrameCount := 0\<rparr>;
         s = emit EnterManualScanTC s
     in emit (ArmTimer (if m_scanReturn s = RTW88_STATE_CONNECTED then 30000 else 12000)) s)"

definition cmdScan :: "hw_io \<Rightarrow> mlme \<Rightarrow> IOReturn \<times> mlme" where
  "cmdScan io s =
    (if m_state s \<noteq> RTW88_STATE_IDLE then (kIOReturnBusy, s)
     else if \<not> m_hw s then (kIOReturnNotReady, s)
     else
       let returnState = m_state s;
           s = s\<lparr>m_db := scan_generation (m_db s)\<rparr>;
           s = s\<lparr>m_state := RTW88_STATE_SCANNING,
                 m_scanReturn := (if returnState = RTW88_STATE_CONNECTED then returnState else RTW88_STATE_IDLE)\<rparr>;
           chans = scan_channels io;
           failed = s\<lparr>m_state := returnState, m_scanReturn := RTW88_STATE_IDLE\<rparr>
       in if chans = [] then (kIOReturnNotReady, failed)
       else if \<not> io_hw_scan io \<or> \<not> io_scan_supported io
       then (if \<not> io_manual_tc io then (kIOReturnNotReady, failed)
             else (kIOReturnSuccess, manual_start chans s))
       else
         let s = emit (HwScan chans) (s\<lparr>m_rxFrameCount := 0\<rparr>)
         in if \<not> io_scan_ok io
            then (if io_manual_tc io then (kIOReturnSuccess, manual_start chans s)
                  else (kIOReturnError, s\<lparr>m_state := returnState, m_scanReturn := RTW88_STATE_IDLE\<rparr>))
            else (kIOReturnSuccess, emit (ArmTimer 10000) s))"

text \<open>The passive scan; \<open>io_abort_at i\<close>: another thread has asked for its end before channel \<open>i\<close>.\<close>

definition mlme_txNull :: "hw_io \<Rightarrow> bool \<Rightarrow> mlme \<Rightarrow> mlme" where
  "mlme_txNull io ps s =
    (let (f, s) = txNullFunc (m_hw s \<and> io_tx io \<and> m_vif s \<and> io_alloc io) ps s
     in case f of None \<Rightarrow> s | Some f \<Rightarrow> emit (TxNull f) s)"

definition manual_visit :: "hw_io \<Rightarrow> bool \<Rightarrow> ieee80211_channel \<Rightarrow> mlme \<Rightarrow> mlme option" where
  "manual_visit io connectedScan chan s = do {
     let s = s\<lparr>m_onHome := False\<rparr>;
     s \<leftarrow> (if connectedScan
           then do { s \<leftarrow> restoreConnectedChannel io s; Some (mlme_txNull io True s) } else Some s);
     let s = s\<lparr>m_chandef := Some \<lparr>cd_chan = chan, cd_width = NL80211_CHAN_WIDTH_20_NOHT,
                                 cd_center_freq1 = ucast (ch_center_freq chan)\<rparr>\<rparr>;
     let s = emit (SwScanSwitch chan) s;
     s \<leftarrow> (if ch_flags chan AND 0x82 = 0 \<and> m_hw s \<and> io_tx io
           then do { (f, s) \<leftarrow> txProbeRequest (Some (ch_band chan)) s; Some (mlme_txMgmt io f s) } else Some s);
     (if connectedScan \<and> \<not> m_manualAbort s
      then do {
        s \<leftarrow> restoreConnectedChannel io s;
        Some ((mlme_txNull io False s)\<lparr>m_onHome := True\<rparr>) }
      else Some s) }"

fun manual_loop :: "hw_io \<Rightarrow> bool \<Rightarrow> nat \<Rightarrow> ieee80211_channel list \<Rightarrow> mlme \<Rightarrow> mlme option" where
  "manual_loop io conn i [] s = Some s"
| "manual_loop io conn i (c # cs) s =
    (let s = (if io_abort_at io i then s\<lparr>m_manualAbort := True\<rparr> else s)
     in if m_manualAbort s then Some s
        else do { s \<leftarrow> manual_visit io conn c s; manual_loop io conn (i + 1) cs s })"

definition runManualScan :: "hw_io \<Rightarrow> mlme \<Rightarrow> mlme option" where
  "runManualScan io s =
    (if \<not> m_hw s \<or> \<not> m_vif s
     then do { s \<leftarrow> scanDone io True s; Some (s\<lparr>m_manualChannels := []\<rparr>) }
     else do {
       let connectedScan = (m_scanReturn s = RTW88_STATE_CONNECTED);
       let s = emit SwScanStart s;
       s \<leftarrow> manual_loop io connectedScan 0 (take 256 (m_manualChannels s)) s;
       let s = emit SwScanComplete (s\<lparr>m_onHome := False\<rparr>);
       s \<leftarrow> (if connectedScan
             then do { s \<leftarrow> restoreConnectedChannel io s; Some (mlme_txNull io False s) } else Some s);
       s \<leftarrow> scanDone io (m_manualAbort s) s;
       Some (s\<lparr>m_manualChannels := [], m_manualAbort := False\<rparr>) })"

section \<open>Connecting\<close>

text \<open>The C string in a buffer.\<close>

definition cstring :: "bytes \<Rightarrow> bytes" where
  "cstring b = takeWhile (\<lambda>c. c \<noteq> 0) b"

definition cmdConnect :: "hw_io \<Rightarrow> bytes option \<Rightarrow> bytes option \<Rightarrow> mlme \<Rightarrow> (IOReturn \<times> mlme) option" where
  "cmdConnect io ssid password s = do {
     (go, s) \<leftarrow> (if m_state s = RTW88_STATE_SCANNING then abortActiveScan io True s else Some (True, s));
     (if \<not> go then Some (kIOReturnBusy, s)
      else if m_state s \<noteq> RTW88_STATE_IDLE then Some (kIOReturnBusy, s)
      else case ssid of
        None \<Rightarrow> Some (kIOReturnBadArgument, s)
      | Some ssid \<Rightarrow>
         (let s = releaseSta io (clearKeys io s)
          in case bss_find (cstring ssid) (sd_list (m_db s)) of
               None \<Rightarrow> Some (kIOReturnNotFound, s)
             | Some target \<Rightarrow>
                 let s = s\<lparr>l_target := target\<rparr>;
                     s = s\<lparr>m_password := (case password of None \<Rightarrow> [] | Some p \<Rightarrow> take 63 (cstring p))\<rparr>;
                     s = s\<lparr>m_wpa2 := (b_cipher target = CIPHER_CCMP)\<rparr>;
                     s = s\<lparr>m_state := RTW88_STATE_AUTHENTICATING\<rparr>
                 in Some (kIOReturnSuccess, if io_connect_tc io then emit EnterConnectTC s else s))) }"

definition doAuthenticate :: "hw_io \<Rightarrow> mlme \<Rightarrow> mlme option" where
  "doAuthenticate io s =
    (if \<not> m_hw s \<or> \<not> m_vif s then Some s
     else do {
       s \<leftarrow> tune io s;
       let s = emit (ConnectHwSetup (b_bssid (l_target s))) s;
       let s = s\<lparr>m_bssConf := (m_bssConf s)\<lparr>bc_bssid := b_bssid (l_target s), bc_assoc := False, bc_aid := 0\<rparr>\<rparr>;
       (auth, authlen, s) \<leftarrow> buildAuthReq (replicate 30 0) s;
       let s = mlme_txMgmt io (take authlen auth) s;
       let s = s\<lparr>m_state := RTW88_STATE_AUTHENTICATING\<rparr>;
       Some (emit (ArmTimer 3000) s) })"

definition doAssociate :: "hw_io \<Rightarrow> mlme \<Rightarrow> mlme option" where
  "doAssociate io s =
    (if \<not> m_hw s \<or> \<not> m_vif s then Some s
     else do {
       (assoc, assoclen, s) \<leftarrow> buildAssocReq (io_bands io) (m_wpa2 s) (replicate 256 0) s;
       let s = mlme_txMgmt io (take assoclen assoc) s;
       let s = s\<lparr>m_state := RTW88_STATE_ASSOCIATING\<rparr>;
       Some (emit (ArmTimer 3000) s) })"

text \<open>The peer of the link, with the capabilities the request advertised.\<close>

definition make_sta :: "hw_io \<Rightarrow> u16 \<Rightarrow> mlme \<Rightarrow> ieee80211_sta" where
  "make_sta io aid s =
    (let none_ht = \<lparr>ht_cap = 0, ht_supported = False, ht_ampdu_factor = 0, ht_ampdu_density = 0,
           ht_rx_mask = replicate 10 0, ht_rx_highest = 0, ht_tx_params = 0\<rparr>;
         none_vht = \<lparr>vht_supported = False, vht_cap = 0, vht_rx_mcs_map = 0, vht_rx_highest = 0,
           vht_tx_mcs_map = 0, vht_tx_highest = 0\<rparr>;
         bw = (if l_connChanWidth s = 80 then 80 else if l_connChanWidth s = 40 then 40 else 20);
         sta = \<lparr>st_addr = b_bssid (l_target s), st_aid = aid, st_wme = True, st_supp_rates = [0xFFF, 0xFF, 0], st_bandwidth = bw, st_ht = none_ht, st_vht = none_vht\<rparr>
     in case io_bands io (target_band s) of
          Some sb \<Rightarrow>
            if htAllowed s
            then let ht = sb_ht sb;
                     ht = (if l_connChanWidth s < 40
                           then ht\<lparr>ht_cap := ht_cap ht AND NOT (HT_CAP_SUP_WIDTH_20_40 OR HT_CAP_SGI_40 OR HT_CAP_DSSSCCK40)\<rparr>
                           else ht\<lparr>ht_cap := ht_cap ht OR HT_CAP_SGI_40\<rparr>);
                     sta = sta\<lparr>st_ht := ht\<rparr>
                 in if target_band s = NL80211_BAND_5GHZ then sta\<lparr>st_vht := sb_vht sb\<rparr> else sta
            else sta
        | None \<Rightarrow> sta)"

text \<open>\<open>f\<close> is the received frame; the length of its body is computed in 32 bits, as the code does.\<close>

definition processAssocResponse :: "hw_io \<Rightarrow> bytes \<Rightarrow> mlme \<Rightarrow> mlme option" where
  "processAssocResponse io f s = do {
     a3 \<leftarrow> addr3 f;
     (if a3 \<noteq> b_bssid (l_target s) then Some s
      else do {
        let bodylen = (word_of_nat (length f) - 24 :: u32);
        (if bodylen < 6 then Some (s\<lparr>m_state := RTW88_STATE_IDLE\<rparr>)
         else do {
           status \<leftarrow> le16_rd f 26;
           aid \<leftarrow> le16_rd f 28;
           let aid = aid AND 0x3FFF;
           (if status \<noteq> 0 then Some (s\<lparr>m_state := RTW88_STATE_IDLE\<rparr>)
            else do {
              let s = s\<lparr>m_assocAID := aid\<rparr>;
              let s = (if l_sta s = None \<and> io_sta_add io \<and> io_alloc io
                       then let sta = make_sta io aid s in emit (StaAdd sta) (s\<lparr>l_sta := Some sta\<rparr>) else s);
              let s = (if io_bss_info io
                       then emit (BssInfoChanged True)
                              (s\<lparr>m_bssConf := \<lparr>bc_bssid = b_bssid (l_target s), bc_assoc = True, bc_aid = aid, bc_qos = True\<rparr>,
                                 m_vifCfg := \<lparr>vc_assoc = True, vc_aid = aid\<rparr>\<rparr>)
                       else s);
              (if m_wpa2 s
               then let s = s\<lparr>m_state := RTW88_STATE_HANDSHAKING\<rparr>;
                        s = s\<lparr>m_pmk := derivePMK (m_password s)
                                (take (unat (b_ssid_len (l_target s))) (b_ssid (l_target s)))\<rparr>
                    in Some (emit (ArmTimer 8000) s)
               else let s = emit (LinkStatus True) (s\<lparr>m_state := RTW88_STATE_CONNECTED\<rparr>)
                    in Some (emit CancelTimer (mlme_startTxAggregation io s))) }) }) }) }"

section \<open>Disconnecting and power\<close>

definition doDisconnect :: "hw_io \<Rightarrow> mlme \<Rightarrow> mlme" where
  "doDisconnect io s =
    (if \<not> m_hw s \<or> \<not> m_vif s then s\<lparr>m_state := RTW88_STATE_IDLE, m_scanReturn := RTW88_STATE_IDLE\<rparr>
     else
       let s = clearKeys io s;
           s = mlme_txMgmt io (buildDeauth s) s;
           s = s\<lparr>m_bssConf := (m_bssConf s)\<lparr>bc_assoc := False\<rparr>\<rparr>;
           s = (if io_bss_info io then emit (BssInfoChanged False) s else s);
           s = releaseSta io s;
           s = s\<lparr>m_state := RTW88_STATE_IDLE, m_scanReturn := RTW88_STATE_IDLE\<rparr>
       in emit (LinkStatus False) (emit CancelTimer s))"

definition cmdDisconnect :: "hw_io \<Rightarrow> mlme \<Rightarrow> IOReturn \<times> mlme" where
  "cmdDisconnect io s =
    (if m_state s = RTW88_STATE_IDLE then (kIOReturnSuccess, s) else (kIOReturnSuccess, doDisconnect io s))"

definition powerOn :: "hw_io \<Rightarrow> mlme \<Rightarrow> IOReturn \<times> mlme" where
  "powerOn io s =
    (if m_powered s then (kIOReturnSuccess, s)
     else if \<not> m_hw s \<or> \<not> io_start io then (kIOReturnNotReady, s)
     else let s = emit HwStart s
          in if \<not> io_start_ok io then (kIOReturnError, s) else (kIOReturnSuccess, s\<lparr>m_powered := True\<rparr>))"

definition powerOff :: "hw_io \<Rightarrow> mlme \<Rightarrow> mlme" where
  "powerOff io s =
    (if \<not> m_powered s then s
     else (if m_hw s \<and> io_stop io then emit HwStop s else s)\<lparr>m_powered := False\<rparr>)"

definition cmdPowerOn :: "hw_io \<Rightarrow> mlme \<Rightarrow> IOReturn \<times> mlme" where
  "cmdPowerOn io s =
    (let (ret, s) = powerOn io s
     in (ret, if ret = kIOReturnSuccess \<and> m_state s = RTW88_STATE_DISCONNECTING
              then s\<lparr>m_state := RTW88_STATE_IDLE\<rparr> else s))"

definition cmdPowerOff :: "hw_io \<Rightarrow> mlme \<Rightarrow> (IOReturn \<times> mlme) option" where
  "cmdPowerOff io s = do {
     (r, s) \<leftarrow> (if m_state s = RTW88_STATE_SCANNING then abortActiveScan io True s else Some (True, s));
     let s = (if m_state s \<in> {RTW88_STATE_CONNECTED, RTW88_STATE_AUTHENTICATING, RTW88_STATE_ASSOCIATING,
                RTW88_STATE_HANDSHAKING}
              then doDisconnect io s else releaseSta io (clearKeys io s));
     let s = powerOff io s;
     let s = s\<lparr>m_state := RTW88_STATE_IDLE, m_scanReturn := RTW88_STATE_IDLE\<rparr>;
     Some (kIOReturnSuccess, emit (LinkStatus False) s) }"

definition mlme_stop :: "hw_io \<Rightarrow> mlme \<Rightarrow> mlme" where
  "mlme_stop io s =
    (let s = emit CancelTimer s;
         s = (if (m_state s = RTW88_STATE_CONNECTED \<or>
                  (m_state s = RTW88_STATE_SCANNING \<and> m_scanReturn s = RTW88_STATE_CONNECTED)) \<and> m_powered s
              then doDisconnect io s else releaseSta io (clearKeys io s));
         s = (if m_vif s \<and> m_hw s
              then (if m_powered s \<and> io_stop io then (emit HwStop s)\<lparr>m_powered := False\<rparr> else s)
              else s);
         s = (if m_vif s \<and> m_hw s
              then (if io_remove_interface io then emit RemoveInterface s else s)\<lparr>m_vif := False\<rparr> else s);
         s = emit PciRemove s
     in s\<lparr>m_state := RTW88_STATE_IDLE, m_scanReturn := RTW88_STATE_IDLE, m_hw := False\<rparr>)"

section \<open>The four-way handshake\<close>

text \<open>\<open>data\<close> is the EAPOL packet as delivered, with whatever trails it.\<close>

definition eapol_m1 :: "hw_io \<Rightarrow> bytes \<Rightarrow> mlme \<Rightarrow> mlme option" where
  "eapol_m1 io data s = do {
     anonce \<leftarrow> rds data 17 32;
     let s = s\<lparr>m_anonce := anonce\<rparr>;
     let s = s\<lparr>m_snonce := io_random io\<rparr>;
     let s = s\<lparr>m_ptk := derivePTK (m_pmk s) (m_anonce s) (m_snonce s) (l_mac s) (b_bssid (l_target s))\<rparr>;
     rc \<leftarrow> rds data 9 8;
     let s = s\<lparr>m_replayCtr := rc\<rparr>;
     s \<leftarrow> sendEAPOLKey io 2 (m_replayCtr s) False False True s;
     Some (emit (ArmTimer 5000) s) }"

text \<open>The group key in the key data: \<open>None\<close> inside when the message must be dropped.\<close>

definition m3_gtk :: "bytes \<Rightarrow> u16 \<Rightarrow> bytes \<Rightarrow> nat \<Rightarrow> (bytes \<times> u8 \<times> u8) option option" where
  "m3_gtk ptk key_info key_data key_data_len =
    (let none = (replicate 32 0, 0, 0)
     in if key_data_len = 0 then Some (Some none)
        else do {
          kd \<leftarrow> (if key_info AND 0x1000 \<noteq> 0
                 then aes_unwrap_128 (slice 16 16 ptk) key_data key_data_len
                 else Some (Some (key_data, key_data_len)));
          (case kd of
             None \<Rightarrow> Some None
           | Some (kd, kd_len) \<Rightarrow> do {
               g \<leftarrow> extract_gtk_from_kde kd kd_len;
               Some (Some (case g of None \<Rightarrow> none | Some g \<Rightarrow> g)) }) })"

definition eapol_m3 :: "hw_io \<Rightarrow> bytes \<Rightarrow> u16 \<Rightarrow> nat \<Rightarrow> nat \<Rightarrow> mlme \<Rightarrow> mlme option" where
  "eapol_m3 io data key_info eapol_len key_data_len s = do {
     ok \<leftarrow> eapol_mic_ok (io_alloc io) (m_ptk s) data eapol_len;
     (if \<not> ok then Some s
      else if 99 + key_data_len > eapol_len then Some s
      else do {
        g \<leftarrow> m3_gtk (m_ptk s) key_info (drop 99 data) key_data_len;
        (case g of
           None \<Rightarrow> Some s
         | Some (gtk, gtk_len, gtk_idx) \<Rightarrow> do {
             rc \<leftarrow> rds data 9 8;
             let s = s\<lparr>m_replayCtr := rc\<rparr>;
             let (r, s) = installKey io True 0 CIPHER_CCMP (drop 32 (m_ptk s)) 16 s;
             (if \<not> r then Some s
              else do {
                let groupCipher = (if b_group_cipher (l_target s) = CIPHER_TKIP then CIPHER_TKIP else CIPHER_CCMP);
                let (r, s) = (if gtk_len \<noteq> 0 then installKey io False gtk_idx groupCipher gtk gtk_len s else (True, s));
                (if \<not> r then Some s
                 else do {
                   s \<leftarrow> sendEAPOLKey io 4 (m_replayCtr s) False False True s;
                   let s = s\<lparr>m_state := RTW88_STATE_CONNECTED\<rparr>;
                   let s = emit (LinkStatus True) (emit CancelTimer s);
                   Some (mlme_startTxAggregation io s) }) }) }) }) }"

definition handleEAPOL :: "hw_io \<Rightarrow> bytes \<Rightarrow> mlme \<Rightarrow> mlme option" where
  "handleEAPOL io data s =
    (if length data < 99 then Some s
     else do {
       typ \<leftarrow> rd data 1;
       if typ \<noteq> 3 then Some s
       else do {
         body_len \<leftarrow> be16_rd data 2;
         let eapol_len = 4 + unat body_len;
         if eapol_len > length data \<or> eapol_len < 99 then Some s
         else do {
           key_info \<leftarrow> be16_rd data 5;
           let is_m1 = (key_info AND 0x0088 = 0x0088 \<and> key_info AND 0x0100 = 0);
           let is_m3 = (key_info AND 0x01c8 = 0x01c8);
           kdl \<leftarrow> be16_rd data 97;
           if is_m1 then eapol_m1 io data s
           else if is_m3 then eapol_m3 io data key_info eapol_len (unat kdl) s
           else Some s } } })"

section \<open>Received frames\<close>

fun rx_actions :: "hw_io \<Rightarrow> rx_action list \<Rightarrow> mlme \<Rightarrow> mlme option" where
  "rx_actions io [] s = Some s"
| "rx_actions io (Deliver p # as) s = rx_actions io as (emit (InjectRx p) s)"
| "rx_actions io (Eapol d # as) s = do { s \<leftarrow> handleEAPOL io d s; rx_actions io as s }"

definition mlme_deliver :: "hw_io \<Rightarrow> bytes \<Rightarrow> mlme \<Rightarrow> mlme option" where
  "mlme_deliver io f s = do {
     as \<leftarrow> deliverDataFrame (io_inject_ok io) (m_state s = RTW88_STATE_HANDSHAKING) f;
     rx_actions io as s }"

fun mlme_deliver_all :: "hw_io \<Rightarrow> bytes list \<Rightarrow> mlme \<Rightarrow> mlme option" where
  "mlme_deliver_all io [] s = Some s"
| "mlme_deliver_all io (f # fs) s = do { s \<leftarrow> mlme_deliver io f s; mlme_deliver_all io fs s }"

definition processRxData :: "hw_io \<Rightarrow> bytes \<Rightarrow> mlme \<Rightarrow> mlme option" where
  "processRxData io f s =
    (let connected = (m_state s = RTW88_STATE_CONNECTED \<or> m_state s = RTW88_STATE_HANDSHAKING \<or>
           (m_state s = RTW88_STATE_SCANNING \<and> m_scanReturn s = RTW88_STATE_CONNECTED))
     in if \<not> connected then Some s
        else do {
          fc \<leftarrow> frame_control f;
          hdrlen \<leftarrow> ieee80211_get_hdrlen_from_skb f;
          tid \<leftarrow> (if ieee80211_is_data_qos fc \<and> length f \<ge> hdrlen
                  then do { q \<leftarrow> rd f (hdrlen - 2); Some (unat (q AND 0x0f)) } else Some kRxBaNumTid);
          (if tid < kRxBaNumTid \<and> (case l_rxBa s ! tid of Some r \<Rightarrow> ba_active r | None \<Rightarrow> False)
           then do {
             seq \<leftarrow> seq_ctrl f;
             let sn = drop_bit 4 (seq AND 0xFFF0);
             let (ba, out) = rxReorderInput tid f sn (l_rxBa s);
             s \<leftarrow> mlme_deliver_all io (ro_delivered out) (s\<lparr>l_rxBa := ba\<rparr>);
             Some (if ro_timer out then emit ArmReorderTimer s else s) }
           else mlme_deliver io f s) })"

text \<open>The reorder timer.\<close>

definition mlme_reorder_flush :: "hw_io \<Rightarrow> mlme \<Rightarrow> mlme option" where
  "mlme_reorder_flush io s =
    (let (ba, out) = rxReorderFlushStale (l_rxBa s)
     in do {
       s \<leftarrow> mlme_deliver_all io (ro_delivered out) (s\<lparr>l_rxBa := ba\<rparr>);
       Some (if ro_timer out then emit ArmReorderTimer s else s) })"

definition rx_auth :: "hw_io \<Rightarrow> bytes \<Rightarrow> mlme \<Rightarrow> mlme option" where
  "rx_auth io f s =
    (if m_state s \<noteq> RTW88_STATE_AUTHENTICATING then Some s
     else do {
       a3 \<leftarrow> addr3 f;
       (if a3 \<noteq> b_bssid (l_target s) then Some s
        else do {
          let body_len = (word_of_nat (length f) - 24 :: u32);
          (if body_len \<ge> 6
           then do {
             status \<leftarrow> le16_rd f 28;
             (if status = 0 then doAssociate io s else Some (s\<lparr>m_state := RTW88_STATE_IDLE\<rparr>)) }
           else doAssociate io s) }) })"

definition rx_deauth :: "hw_io \<Rightarrow> bytes \<Rightarrow> mlme \<Rightarrow> mlme option" where
  "rx_deauth io f s =
    (if m_state s = RTW88_STATE_CONNECTED \<or> m_state s = RTW88_STATE_HANDSHAKING \<or>
        (m_state s = RTW88_STATE_SCANNING \<and> m_scanReturn s = RTW88_STATE_CONNECTED)
     then do {
       a1 \<leftarrow> addr1 f; a2 \<leftarrow> addr2 f; a3 \<leftarrow> addr3 f;
       let fromTarget = (a3 = b_bssid (l_target s) \<or> a2 = b_bssid (l_target s));
       let addressedToUs = (a1 = l_mac s \<or> is_broadcast_ether_addr a1);
       (if \<not> fromTarget \<or> \<not> addressedToUs then Some s
        else do {
          let s = clearKeys io s;
          let s = s\<lparr>l_txBaActive := False, l_rxBa := fst (rxBaTeardownAll (l_rxBa s))\<rparr>;
          let s = s\<lparr>m_state := RTW88_STATE_IDLE, m_scanReturn := RTW88_STATE_IDLE\<rparr>;
          Some (emit (LinkStatus False) s) }) }
     else Some s)"

definition rx_action_frame :: "hw_io \<Rightarrow> bytes \<Rightarrow> mlme \<Rightarrow> mlme option" where
  "rx_action_frame io f s =
    (if m_state s \<noteq> RTW88_STATE_CONNECTED then Some s
     else let b = drop 24 f
          in if length b < 2 then Some s
             else do {
               cat \<leftarrow> rd b 0;
               a3 \<leftarrow> addr3 f;
               (if cat = WLAN_CATEGORY_BACK \<and> a3 = b_bssid (l_target s)
                then do {
                  (fs, freed, s) \<leftarrow> handleBackAction (io_alloc io) b s;
                  Some (fold (mlme_txMgmt io) fs s) }
                else Some s) })"

text \<open>\<open>signal\<close> and \<open>freq\<close> come from the receive status.\<close>

definition processRxMgmt :: "hw_io \<Rightarrow> bytes \<Rightarrow> u8 \<Rightarrow> u16 \<Rightarrow> mlme \<Rightarrow> mlme option" where
  "processRxMgmt io f signal freq s = do {
     fc \<leftarrow> frame_control f;
     let stype = fc AND 0x00f0;
     (if stype = 0x0080 \<or> stype = 0x0050
      then (if m_state s = RTW88_STATE_SCANNING
            then do { db \<leftarrow> processScanResult (io_alloc io) f signal freq (m_db s); Some (s\<lparr>m_db := db\<rparr>) }
            else Some s)
      else if stype = 0x00B0 then rx_auth io f s
      else if stype = 0x0010 \<or> stype = 0x0030
      then (if m_state s = RTW88_STATE_ASSOCIATING then processAssocResponse io f s else Some s)
      else if stype = 0x00A0 \<or> stype = 0x00C0 then rx_deauth io f s
      else if stype = 0x00D0 then rx_action_frame io f s
      else Some s) }"

definition rxFrame :: "hw_io \<Rightarrow> bytes \<Rightarrow> u8 \<Rightarrow> u16 \<Rightarrow> mlme \<Rightarrow> mlme option" where
  "rxFrame io f signal freq s = do {
     let s = s\<lparr>m_rssi := signal\<rparr>;
     fc \<leftarrow> frame_control f;
     let s = s\<lparr>m_rxFrameCount := m_rxFrameCount s + 1\<rparr>;
     (if ieee80211_is_mgmt fc then processRxMgmt io f signal freq s
      else if ieee80211_is_data fc then processRxData io f s
      else Some s) }"

section \<open>Timeouts\<close>

definition onTimer :: "hw_io \<Rightarrow> mlme \<Rightarrow> mlme option" where
  "onTimer io s =
    (case m_state s of
       RTW88_STATE_SCANNING \<Rightarrow>
         (if m_manualChannels s \<noteq> [] then Some (s\<lparr>m_manualAbort := True\<rparr>)
          else do {
            let s = (if m_hw s \<and> io_cancel_scan io then emit CancelHwScan s else s);
            let returnState = m_scanReturn s;
            s \<leftarrow> (if returnState = RTW88_STATE_CONNECTED then restoreConnectedChannel io s else Some s);
            Some (s\<lparr>m_state := returnState, m_scanReturn := RTW88_STATE_IDLE\<rparr>) })
     | RTW88_STATE_AUTHENTICATING \<Rightarrow> doAuthenticate io s
     | RTW88_STATE_ASSOCIATING \<Rightarrow> Some (s\<lparr>m_state := RTW88_STATE_IDLE\<rparr>)
     | RTW88_STATE_HANDSHAKING \<Rightarrow> Some (doDisconnect io s)
     | _ \<Rightarrow> Some s)"

section \<open>The life of the driver\<close>

text \<open>The object before \<open>start\<close>.\<close>

definition bss_conf_zero :: ieee80211_bss_conf where
  "bss_conf_zero = \<lparr>bc_bssid = replicate 6 0, bc_assoc = False, bc_aid = 0, bc_qos = False\<rparr>"

definition mlme_init :: mlme where
  "mlme_init =
    \<lparr>l_target = bss_zero, l_mac = replicate 6 0, l_sta = None, l_txSeq = 0, l_dataSeq = 0, l_txBaActive = False,
     l_baTid = 0, l_baDialog = 0, l_baBufSize = 64, l_connChanWidth = 20, l_rxBa = replicate kRxBaNumTid None,
     m_state = RTW88_STATE_IDLE, m_scanReturn = RTW88_STATE_IDLE, m_powered = False, m_hw = False, m_vif = False,
     m_db = db_empty, m_manualChannels = [], m_manualAbort = False, m_onHome = False, m_password = [],
     m_pmk = replicate 32 0, m_ptk = replicate 64 0, m_ptkConf = None, m_gtkConf = None,
     m_anonce = replicate 32 0, m_snonce = replicate 32 0, m_replayCtr = replicate 8 0,
     m_ccmpTxPn = replicate 6 0, m_wpa2 = False, m_assocAID = 0, m_rssi = -100, m_rxFrameCount = 0,
     m_bssConf = bss_conf_zero, m_vifCfg = \<lparr>vc_assoc = False, vc_aid = 0\<rparr>, m_chandef = None, m_out = []\<rparr>"

text \<open>\<open>start\<close>: \<open>chip\<close> and \<open>probe_ok\<close> tell whether the chip is known and probed, \<open>mac\<close> is its address,
  when there is a hardware handle.\<close>

definition mlme_start :: "hw_io \<Rightarrow> bool \<Rightarrow> bool \<Rightarrow> bytes option \<Rightarrow> mlme \<Rightarrow> IOReturn \<times> mlme" where
  "mlme_start io chip probe_ok mac s =
    (if \<not> chip then (kIOReturnUnsupported, s)
     else if \<not> probe_ok then (kIOReturnError, s)
     else
       let s = (case mac of
              None \<Rightarrow> s\<lparr>m_hw := False\<rparr>
            | Some a \<Rightarrow>
                let s = s\<lparr>l_mac := a, m_hw := True\<rparr>;
                    s = (if io_alloc io
                         then let s = s\<lparr>m_vif := True, m_bssConf := bss_conf_zero, m_vifCfg := \<lparr>vc_assoc = False, vc_aid = 0\<rparr>\<rparr>
                              in if io_add_interface io then emit (AddInterface a) s else s
                         else s\<lparr>m_vif := False\<rparr>)
                in if io_start io
                   then let s = emit HwStart s in if io_start_ok io then s\<lparr>m_powered := True\<rparr> else s
                   else s)
       in (kIOReturnSuccess, s\<lparr>m_state := RTW88_STATE_IDLE, m_scanReturn := RTW88_STATE_IDLE\<rparr>))"

text \<open>One step: a command from user space, a thread call that was entered, an event of the hardware, a
  timer or a packet.\<close>

inductive mlme_step :: "mlme \<Rightarrow> mlme \<Rightarrow> bool" where
  st_start: "mlme_step s (snd (mlme_start io chip probe_ok mac s))"
| st_scan: "mlme_step s (snd (cmdScan io s))"
| st_connect: "cmdConnect io ssid password s = Some (r, s') \<Longrightarrow> mlme_step s s'"
| st_connectTC: "EnterConnectTC \<in> set (m_out s) \<Longrightarrow> doAuthenticate io s = Some s' \<Longrightarrow> mlme_step s s'"
| st_manualTC: "EnterManualScanTC \<in> set (m_out s) \<Longrightarrow> runManualScan io s = Some s' \<Longrightarrow> mlme_step s s'"
| st_scanDone: "scanDone io aborted s = Some s' \<Longrightarrow> mlme_step s s'"
| st_disconnect: "mlme_step s (snd (cmdDisconnect io s))"
| st_powerOn: "mlme_step s (snd (cmdPowerOn io s))"
| st_powerOff: "cmdPowerOff io s = Some (r, s') \<Longrightarrow> mlme_step s s'"
| st_stop: "mlme_step s (mlme_stop io s)"
| st_timer: "onTimer io s = Some s' \<Longrightarrow> mlme_step s s'"
| st_reorder: "mlme_reorder_flush io s = Some s' \<Longrightarrow> mlme_step s s'"
| st_rx: "rxFrame io f signal freq s = Some s' \<Longrightarrow> mlme_step s s'"
| st_output: "outputPacket io p s = Some (b, s') \<Longrightarrow> mlme_step s s'"

inductive_cases mlme_stepE: "mlme_step s s'"

inductive mlme_reach :: "mlme \<Rightarrow> bool" where
  reach_init: "mlme_reach mlme_init"
| reach_step: "mlme_reach s \<Longrightarrow> mlme_step s s' \<Longrightarrow> mlme_reach s'"

end
