(* ===== verification/MlmeInv.thy ===== *)
theory MlmeInv
  imports Mlme
begin

text \<open>
  The reachable states of the state machine of \<open>Mlme\<close>, and what holds in all of them.
\<close>

section \<open>What the helpers leave alone\<close>

definition core :: "mlme \<Rightarrow> rtw88_state \<times> rtw88_state \<times> bool \<times> ieee80211_key_conf option \<times> bytes" where
  "core s = (m_state s, m_scanReturn s, m_wpa2 s, m_ptkConf s, m_ptk s)"

named_theorems core_simps "calls that keep the core of the state"

lemma core_more: "link.more s' = link.more s \<Longrightarrow> core s' = core s"
  by (cases s; cases s') (simp add: core_def)

lemma core_emit [core_simps, simp]: "core (emit c s) = core s"
  by (simp add: core_def emit_def)

lemma core_upd [core_simps, simp]:
  "core (s\<lparr>l_txSeq := a\<rparr>) = core s" "core (s\<lparr>l_dataSeq := a\<rparr>) = core s" "core (s\<lparr>l_sta := b\<rparr>) = core s"
  "core (s\<lparr>l_txBaActive := c\<rparr>) = core s" "core (s\<lparr>l_rxBa := d\<rparr>) = core s"
  "core (s\<lparr>l_connChanWidth := e\<rparr>) = core s" "core (s\<lparr>l_target := f\<rparr>) = core s"
  "core (s\<lparr>m_bssConf := p\<rparr>) = core s" "core (s\<lparr>m_vifCfg := q\<rparr>) = core s" "core (s\<lparr>m_chandef := h\<rparr>) = core s"
  "core (s\<lparr>m_ccmpTxPn := i\<rparr>) = core s" "core (s\<lparr>m_db := j\<rparr>) = core s" "core (s\<lparr>m_onHome := g\<rparr>) = core s"
  "core (s\<lparr>m_manualAbort := g\<rparr>) = core s" "core (s\<lparr>m_manualChannels := k\<rparr>) = core s"
  "core (s\<lparr>m_rxFrameCount := l\<rparr>) = core s" "core (s\<lparr>m_rssi := m\<rparr>) = core s"
  "core (s\<lparr>m_replayCtr := i\<rparr>) = core s" "core (s\<lparr>m_anonce := i\<rparr>) = core s" "core (s\<lparr>m_snonce := i\<rparr>) = core s"
  "core (s\<lparr>m_gtkConf := o'\<rparr>) = core s" "core (s\<lparr>m_pmk := i\<rparr>) = core s" "core (s\<lparr>m_assocAID := a\<rparr>) = core s"
  "core (s\<lparr>m_powered := g\<rparr>) = core s" "core (s\<lparr>m_vif := g\<rparr>) = core s" "core (s\<lparr>m_hw := g\<rparr>) = core s"
  "core (s\<lparr>m_password := i\<rparr>) = core s"
  by (simp_all add: core_def)

lemma core_txMgmt [core_simps, simp]: "core (mlme_txMgmt io f s) = core s"
  by (simp add: mlme_txMgmt_def)

lemma core_fold_txMgmt [core_simps, simp]: "core (fold (mlme_txMgmt io) fs s) = core s"
  by (induction fs arbitrary: s) simp_all

lemma core_txData: "mlme_txData io p s = Some (b, s') \<Longrightarrow> core s' = core s"
  by (auto simp: mlme_txData_def Let_def split: Option.bind_splits option.splits)

lemma core_sendEAPOLKey: "sendEAPOLKey io st rc i a m s = Some s' \<Longrightarrow> core s' = core s"
  by (auto simp: sendEAPOLKey_def Let_def dest: core_txData)

lemma more_startTx: "startTxAggregation s = (fs, s') \<Longrightarrow> link.more s' = link.more s"
  by (auto simp: startTxAggregation_def sendAddbaRequest_def Let_def split: if_splits option.splits)

lemma core_startTx [core_simps, simp]: "core (mlme_startTxAggregation io s) = core s"
  using more_startTx[of s] by (auto simp: mlme_startTxAggregation_def split: prod.split intro: core_more)

lemma chandef_width: "setConnectedChandef b d c s = Some (cd, s') \<Longrightarrow> link.more s' = link.more s"
  by (auto simp: setConnectedChandef_def pick_chandef_def Let_def split: if_splits option.splits Option.bind_splits)

lemma core_tune: "tune io s = Some s' \<Longrightarrow> core s' = core s"
  by (auto simp: tune_def split: option.splits Option.bind_splits dest!: chandef_width core_more)

lemma core_auth: "buildAuthReq b s = Some (f, n, s') \<Longrightarrow> core s' = core s"
  by (auto simp: buildAuthReq_def Let_def split: Option.bind_splits)

lemma more_assoc: "buildAssocReq bands w b s = Some (f, n, s') \<Longrightarrow> s' = s\<lparr>l_txSeq := l_txSeq s + 1\<rparr>"
  by (auto simp: buildAssocReq_def Let_def split: Option.bind_splits)

lemma more_back: "handleBackAction al b s = Some (fs, fr, s') \<Longrightarrow> link.more s' = link.more s"
  by (auto simp: handleBackAction_def sendAddbaResponse_def Let_def split: if_splits Option.bind_splits prod.splits)

lemma core_txNull [core_simps, simp]: "core (mlme_txNull io ps s) = core s"
  by (auto simp: mlme_txNull_def txNullFunc_def Let_def)

lemma core_probe: "txProbeRequest b s = Some (f, s') \<Longrightarrow> core s' = core s"
  by (auto simp: txProbeRequest_def Let_def split: Option.bind_splits)

lemma core_restore: "restoreConnectedChannel io s = Some s' \<Longrightarrow> core s' = core s"
  by (auto simp: restoreConnectedChannel_def Let_def split: if_splits Option.bind_splits dest!: core_tune)

lemma core_releaseSta [core_simps, simp]: "core (releaseSta io s) = core s"
  by (simp add: releaseSta_def Let_def)

lemma core_visit: "manual_visit io cs c s = Some s' \<Longrightarrow> core s' = core s"
  by (auto simp: manual_visit_def Let_def split: if_splits Option.bind_splits dest!: core_restore core_probe)

lemma core_manual_loop: "manual_loop io cs i l s = Some s' \<Longrightarrow> core s' = core s"
  by (induction io cs i l s rule: manual_loop.induct)
    (auto simp: Let_def split: if_splits Option.bind_splits dest!: core_visit)

section \<open>The invariant\<close>

text \<open>The scan never has anything to return to, the disconnecting state is never used, and a WPA2
  link is up only with the pairwise CCMP key of the handshake.\<close>

definition core_ok :: "rtw88_state \<times> rtw88_state \<times> bool \<times> ieee80211_key_conf option \<times> bytes \<Rightarrow> bool" where
  "core_ok c = (case c of (st, ret, wpa2, key, ptk) \<Rightarrow>
    ret = RTW88_STATE_IDLE \<and> st \<noteq> RTW88_STATE_DISCONNECTING \<and>
    (st = RTW88_STATE_CONNECTED \<and> wpa2 \<longrightarrow>
      (\<exists>k. key = Some k \<and> kc_cipher k = CIPHER_CCMP \<and> kc_pairwise k \<and> kc_key k = take 16 (drop 32 ptk))))"

abbreviation ok :: "mlme \<Rightarrow> bool" where "ok s \<equiv> core_ok (core s)"

lemma ok_state:
  "core_ok (core (s\<lparr>m_state := RTW88_STATE_IDLE\<rparr>)) \<longleftrightarrow> m_scanReturn s = RTW88_STATE_IDLE"
  "core_ok (core (s\<lparr>m_state := st, m_scanReturn := RTW88_STATE_IDLE\<rparr>)) \<longleftrightarrow>
    (st \<noteq> RTW88_STATE_DISCONNECTING \<and> (st = RTW88_STATE_CONNECTED \<and> m_wpa2 s \<longrightarrow>
      (\<exists>k. m_ptkConf s = Some k \<and> kc_cipher k = CIPHER_CCMP \<and> kc_pairwise k \<and> kc_key k = take 16 (drop 32 (m_ptk s)))))"
  by (auto simp: core_ok_def core_def)

lemma ok_D: "ok s \<Longrightarrow> m_scanReturn s = RTW88_STATE_IDLE" "ok s \<Longrightarrow> m_state s \<noteq> RTW88_STATE_DISCONNECTING"
  by (simp_all add: core_ok_def core_def)

lemma ok_away:
  "st \<notin> {RTW88_STATE_CONNECTED, RTW88_STATE_DISCONNECTING} \<Longrightarrow>
   core_ok (core (s\<lparr>m_state := st\<rparr>)) \<longleftrightarrow> m_scanReturn s = RTW88_STATE_IDLE"
  by (auto simp: core_ok_def core_def)

lemma core_fields:
  assumes "core s' = core s"
  shows "m_state s' = m_state s" "m_scanReturn s' = m_scanReturn s" "m_wpa2 s' = m_wpa2 s"
    "m_ptkConf s' = m_ptkConf s" "m_ptk s' = m_ptk s"
  using assms by (simp_all add: core_def)

lemma emit_fields [simp]:
  "m_state (emit c s) = m_state s" "m_scanReturn (emit c s) = m_scanReturn s" "m_wpa2 (emit c s) = m_wpa2 s"
  "m_ptkConf (emit c s) = m_ptkConf s" "m_ptk (emit c s) = m_ptk s"
  by (simp_all add: emit_def)

lemma clearKeys_fields [simp]:
  "m_state (clearKeys io s) = m_state s" "m_scanReturn (clearKeys io s) = m_scanReturn s"
  "m_wpa2 (clearKeys io s) = m_wpa2 s" "m_ptkConf (clearKeys io s) = None" "m_ptk (clearKeys io s) = replicate 64 0"
  by (auto simp: clearKeys_def emit_def Let_def split: option.splits)

lemmas release_fields [simp] = core_fields[OF core_releaseSta]
lemmas txMgmt_fields [simp] = core_fields[OF core_txMgmt]
lemmas startTx_fields [simp] = core_fields[OF core_startTx]

lemma doDisconnect_fields [simp]:
  "m_state (doDisconnect io s) = RTW88_STATE_IDLE" "m_scanReturn (doDisconnect io s) = RTW88_STATE_IDLE"
  by (simp_all add: doDisconnect_def Let_def)

lemma ok_doDisconnect [simp]: "ok (doDisconnect io s)"
  by (simp add: core_ok_def core_def[of "doDisconnect io s"])

lemma ok_core: "ok s \<Longrightarrow> core s' = core s \<Longrightarrow> ok s'"
  by simp

lemma scanDone_ok': "scanDone io ab s = Some s' \<Longrightarrow> ok s \<Longrightarrow> ok s'"
  by (auto simp: scanDone_def Let_def ok_state ok_D split: if_splits Option.bind_splits)

lemma restore_idle: "m_scanReturn s = RTW88_STATE_IDLE \<Longrightarrow> restoreConnectedChannel io s = Some s"
  by (simp add: restoreConnectedChannel_def)

lemma ok_idle:
  "m_scanReturn s = RTW88_STATE_IDLE \<Longrightarrow> m_state s = RTW88_STATE_IDLE \<Longrightarrow> ok s"
  by (simp add: core_ok_def core_def)

lemma abort_ok: "abortActiveScan io w s = Some (b, s') \<Longrightarrow> ok s \<Longrightarrow> ok s'"
  by (auto simp: abortActiveScan_def Let_def ok_D ok_state ok_idle restore_idle split: if_splits Option.bind_splits
      dest!: scanDone_ok')

lemma cmdScan_ok: "ok s \<Longrightarrow> ok (snd (cmdScan io s))"
  by (auto simp: cmdScan_def manual_start_def Let_def ok_state)

lemma abort_ok2: "abortActiveScan io w s = Some (b, s') \<Longrightarrow> ok s \<Longrightarrow> ok s' \<and> m_scanReturn s' = RTW88_STATE_IDLE"
  using abort_ok ok_D(1) by blast

lemma ok_clearKeys:
  "core_ok (core (clearKeys io s)) \<longleftrightarrow> m_scanReturn s = RTW88_STATE_IDLE \<and> m_state s \<noteq> RTW88_STATE_DISCONNECTING \<and>
    \<not> (m_state s = RTW88_STATE_CONNECTED \<and> m_wpa2 s)"
  by (auto simp: core_ok_def core_def)

lemma cmdConnect_ok: "cmdConnect io ssid pw s = Some (r, s') \<Longrightarrow> ok s \<Longrightarrow> ok s'"
  by (auto simp: cmdConnect_def Let_def ok_D ok_away ok_clearKeys split: if_splits Option.bind_splits option.splits
      dest!: abort_ok2)

lemma doAuthenticate_ok: "doAuthenticate io s = Some s' \<Longrightarrow> ok s \<Longrightarrow> ok s'"
  by (auto simp: doAuthenticate_def Let_def ok_away split: if_splits Option.bind_splits dest!: core_tune core_auth core_fields(2) ok_D(1))

lemma doAssociate_ok: "doAssociate io s = Some s' \<Longrightarrow> ok s \<Longrightarrow> ok s'"
  by (auto simp: doAssociate_def Let_def ok_away ok_D split: if_splits Option.bind_splits dest!: more_assoc)

lemma runManualScan_ok: "runManualScan io s = Some s' \<Longrightarrow> ok s \<Longrightarrow> ok s'"
  by (auto simp: runManualScan_def Let_def split: if_splits Option.bind_splits dest!: core_manual_loop core_restore scanDone_ok')

lemma assocResponse_ok: "processAssocResponse io f s = Some s' \<Longrightarrow> ok s \<Longrightarrow> ok s'"
  by (auto simp: processAssocResponse_def Let_def ok_away ok_D split: if_splits Option.bind_splits)
    (auto simp: core_ok_def core_def)

text \<open>Keys.\<close>

lemma core_eqD:
  "core s' = core s \<Longrightarrow> m_state s' = m_state s \<and> m_scanReturn s' = m_scanReturn s \<and> m_wpa2 s' = m_wpa2 s \<and>
    m_ptkConf s' = m_ptkConf s \<and> m_ptk s' = m_ptk s"
  by (simp add: core_def)

lemma installKey_group:
  "installKey io False idx c tk n s = (r, s') \<Longrightarrow> core s' = core s"
  by (auto simp: installKey_def Let_def split: if_splits option.splits)

lemma pairwise_flag [simp]: "KEY_FLAG_PAIRWISE \<noteq> 0"
  by (simp add: KEY_FLAG_PAIRWISE_def)

lemma installKey_pairwise:
  "installKey io True idx c tk n s = (r, s') \<Longrightarrow>
   m_state s' = m_state s \<and> m_scanReturn s' = m_scanReturn s \<and> m_wpa2 s' = m_wpa2 s \<and> m_ptk s' = m_ptk s \<and>
   (r \<longrightarrow> (\<exists>k. m_ptkConf s' = Some k \<and> kc_cipher k = c \<and> kc_pairwise k \<and> kc_key k = take (unat n) tk))"
  by (auto simp: installKey_def Let_def kc_pairwise_def or.assoc split: if_splits option.splits)

lemma eapol_m1_keeps:
  assumes "eapol_m1 io d s = Some s'"
  shows "m_state s' = m_state s" "m_scanReturn s' = m_scanReturn s"
  using assms by (auto simp: eapol_m1_def Let_def split: Option.bind_splits dest!: core_sendEAPOLKey core_eqD)

lemma eapol_m3_cases:
  assumes "eapol_m3 io d ki el kl s = Some s'"
  shows "(m_state s' = m_state s \<and> m_scanReturn s' = m_scanReturn s) \<or>
    (m_state s' = RTW88_STATE_CONNECTED \<and> m_scanReturn s' = m_scanReturn s \<and>
     (\<exists>k. m_ptkConf s' = Some k \<and> kc_cipher k = CIPHER_CCMP \<and> kc_pairwise k \<and>
       kc_key k = take 16 (drop 32 (m_ptk s'))))"
  using assms unfolding eapol_m3_def Let_def
  by (auto split: if_splits Option.bind_splits option.splits prod.splits
      dest!: installKey_pairwise installKey_group core_sendEAPOLKey core_eqD)

lemma handleEAPOL_ok:
  assumes "handleEAPOL io d s = Some s'" "ok s" "m_state s = RTW88_STATE_HANDSHAKING"
  shows "ok s'"
proof -
  have r: "m_scanReturn s = RTW88_STATE_IDLE" using assms(2) by (rule ok_D)
  have m1: "ok t" if "eapol_m1 io d s = Some t" for t
    using eapol_m1_keeps[OF that] assms(3) r by (simp add: core_ok_def core_def)
  have m3: "ok t" if "eapol_m3 io d ki el kl s = Some t" for t ki el kl
    using eapol_m3_cases[OF that] assms(3) r by (auto simp: core_ok_def core_def)
  show ?thesis using assms(1,2) m1 m3 unfolding handleEAPOL_def Let_def
    by (auto split: if_splits Option.bind_splits)
qed

text \<open>An EAPOL packet is handed to the state machine alone, and only during the handshake.\<close>

lemma deAmsdu_from_delivers: "deAmsdu_from okf d pos = Some as \<Longrightarrow> Eapol x \<notin> set as"
proof (induction okf d pos arbitrary: as rule: deAmsdu_from.induct)
  case (1 okf data pos)
  have "Eapol x \<notin> set (deliverEthernet okf da sa et pl)" for da sa et pl by (simp add: deliverEthernet_def)
  then show ?case using 1(1) 1(2)[unfolded deAmsdu_from.simps[of okf data pos]]
    by (auto simp: Let_def split: if_splits Option.bind_splits)
qed

lemma deliver_eapol:
  assumes "deliverDataFrame okf hs f = Some as" "Eapol x \<in> set as"
  shows "hs \<and> as = [Eapol x]"
  using assms deAmsdu_from_delivers
  by (auto simp: deliverDataFrame_def deAmsdu_def deliverEthernet_def Let_def split: if_splits Option.bind_splits)

lemma rx_actions_inject: "(\<forall>x. Eapol x \<notin> set as) \<Longrightarrow> rx_actions io as s = Some s' \<Longrightarrow> core s' = core s"
  by (induction io as s rule: rx_actions.induct) auto

lemma mlme_deliver_ok:
  assumes "mlme_deliver io f s = Some s'" "ok s"
  shows "ok s'"
proof -
  obtain as where as: "deliverDataFrame (io_inject_ok io) (m_state s = RTW88_STATE_HANDSHAKING) f = Some as"
    "rx_actions io as s = Some s'"
    using assms(1) by (auto simp: mlme_deliver_def split: Option.bind_splits)
  show ?thesis
  proof (cases "\<exists>x. Eapol x \<in> set as")
    case False
    then have "core s' = core s" using rx_actions_inject as(2) by blast
    then show ?thesis using assms(2) by simp
  next
    case True
    then obtain x where "m_state s = RTW88_STATE_HANDSHAKING" "as = [Eapol x]" using deliver_eapol[OF as(1)] by blast
    then show ?thesis using as(2) handleEAPOL_ok[OF _ assms(2)] by (auto split: Option.bind_splits)
  qed
qed

lemma mlme_deliver_all_ok: "mlme_deliver_all io fs s = Some s' \<Longrightarrow> ok s \<Longrightarrow> ok s'"
  by (induction io fs s rule: mlme_deliver_all.induct) (auto split: Option.bind_splits dest: mlme_deliver_ok)

lemma processRxData_ok: "processRxData io f s = Some s' \<Longrightarrow> ok s \<Longrightarrow> ok s'"
  by (auto simp: processRxData_def Let_def split: if_splits Option.bind_splits prod.splits
      dest!: mlme_deliver_all_ok dest: mlme_deliver_ok)

lemma reorder_flush_ok: "mlme_reorder_flush io s = Some s' \<Longrightarrow> ok s \<Longrightarrow> ok s'"
  by (auto simp: mlme_reorder_flush_def Let_def split: if_splits Option.bind_splits prod.splits dest!: mlme_deliver_all_ok)

lemma rx_auth_ok: "rx_auth io f s = Some s' \<Longrightarrow> ok s \<Longrightarrow> ok s'"
  by (auto simp: rx_auth_def Let_def ok_state ok_D split: if_splits Option.bind_splits dest: doAssociate_ok)

lemma rx_deauth_ok: "rx_deauth io f s = Some s' \<Longrightarrow> ok s \<Longrightarrow> ok s'"
  by (auto simp: rx_deauth_def Let_def ok_state split: if_splits Option.bind_splits)

lemma rx_action_ok: "rx_action_frame io f s = Some s' \<Longrightarrow> ok s \<Longrightarrow> ok s'"
  by (auto simp: rx_action_frame_def Let_def split: if_splits Option.bind_splits dest!: more_back core_more)

lemma processRxMgmt_ok: "processRxMgmt io f sg fq s = Some s' \<Longrightarrow> ok s \<Longrightarrow> ok s'"
  by (auto simp: processRxMgmt_def Let_def split: if_splits Option.bind_splits
      dest: rx_auth_ok rx_deauth_ok rx_action_ok assocResponse_ok)

lemma rxFrame_ok: "rxFrame io f sg fq s = Some s' \<Longrightarrow> ok s \<Longrightarrow> ok s'"
  by (auto simp: rxFrame_def Let_def split: if_splits Option.bind_splits dest!: processRxMgmt_ok processRxData_ok)

lemma onTimer_ok: "onTimer io s = Some s' \<Longrightarrow> ok s \<Longrightarrow> ok s'"
  by (auto simp: onTimer_def Let_def ok_state ok_D split: rtw88_state.splits if_splits Option.bind_splits
      dest: doAuthenticate_ok)

lemma powerOff_core [simp]: "core (powerOff io s) = core s"
  by (simp add: powerOff_def)

lemma powerOn_core: "core (snd (powerOn io s)) = core s"
  by (simp add: powerOn_def Let_def)

lemma cmdPowerOn_ok: "ok s \<Longrightarrow> ok (snd (cmdPowerOn io s))"
  using powerOn_core[of io s] core_fields(2)[OF powerOn_core[of io s]]
  by (auto simp: cmdPowerOn_def Let_def ok_state ok_D split: prod.splits)

lemma step_ok: "mlme_step s s' \<Longrightarrow> ok s \<Longrightarrow> ok s'"
proof (induction rule: mlme_step.induct)
  case (st_start s io chip probe_ok mac)
  then show ?case by (auto simp: mlme_start_def Let_def ok_state split: option.splits)
next
  case (st_powerOff io s r s')
  then show ?case by (auto simp: cmdPowerOff_def Let_def ok_state split: Option.bind_splits prod.splits)
next
  case (st_stop s io)
  then show ?case by (auto simp: mlme_stop_def Let_def core_ok_def core_def)
next
  case (st_output io p s b s')
  then show ?case by (auto simp: outputPacket_def Let_def split: if_splits dest!: core_txData)
next
  case (st_disconnect s io)
  then show ?case by (auto simp: cmdDisconnect_def)
qed (auto dest: cmdScan_ok cmdConnect_ok doAuthenticate_ok runManualScan_ok scanDone_ok' cmdPowerOn_ok onTimer_ok
    reorder_flush_ok rxFrame_ok)

lemma reach_ok: "mlme_reach s \<Longrightarrow> ok s"
  by (induction rule: mlme_reach.induct) (auto simp: core_ok_def core_def mlme_init_def dest: step_ok)

end
