(* ===== verification/MlmeProps.thy ===== *)
theory MlmeProps
  imports MlmeInv
begin

text \<open>
  What the state machine of \<open>Mlme\<close> does over several operations: a successful connection, timeouts,
  disconnecting, and the places where the handshake and the receive path accept more than they
  should.
\<close>

section \<open>Operations that return\<close>

lemma mlme_txData_Some:
  assumes "14 \<le> length p" "length p \<le> 2048" "length (b_bssid (l_target s)) = 6" "length (l_mac s) = 6"
  shows "\<exists>b s'. mlme_txData io p s = Some (b, s')"
proof -
  have "\<exists>r c. txDataFrame rdy al (io_junk io) (length p) (rds p) (mlme_tx_ctx s) = Some (r, c)" for rdy al
  proof (cases "rdy \<and> al")
    case True
    then show ?thesis using txDataFrame_eq[of p "mlme_tx_ctx s" "io_junk io"] assms
      by (auto simp: mlme_tx_ctx_def)
  next
    case False
    then show ?thesis using assms tx_copy(1)[of p] by (auto simp: txDataFrame_def Let_def)
  qed
  then obtain r c where "txDataFrame (m_hw s \<and> io_tx io \<and> m_vif s \<and> l_sta s \<noteq> None) (io_alloc io) (io_junk io)
      (length p) (rds p) (mlme_tx_ctx s) = Some (r, c)" by blast
  then show ?thesis by (cases r) (auto simp: mlme_txData_def Let_def)
qed

lemma sendEAPOLKey_Some:
  assumes "length rc = 8" "length (m_snonce s) = 32" "length (b_bssid (l_target s)) = 6" "length (l_mac s) = 6"
  shows "\<exists>s'. sendEAPOLKey io step rc i a True s = Some s'"
proof -
  define fr where "fr = sendEAPOLKey_frame kern_hmac_sha1 step rc i a True (b_bssid (l_target s)) (l_mac s)
               (m_snonce s) (m_ptk s) (b_group_cipher (l_target s))"
  have f: "take 14 fr = b_bssid (l_target s) @ l_mac s @ [0x88, 0x8e]"
    "drop 99 (drop 14 fr) = (if step = 2 then rtw88BuildSelectedRsnIe (b_group_cipher (l_target s)) else [])"
    using sendEAPOLKey_ok[OF assms(1,2,3,4) fr_def refl] by blast+
  have "length (take 14 fr) = 14" unfolding f(1) using assms by simp
  then have "14 \<le> length fr" by simp
  moreover have "length (drop 99 (drop 14 fr)) \<le> 22" unfolding f(2)
    by (simp add: rtw88BuildSelectedRsnIe_def rtw88WriteSuite_def Let_def)
  ultimately have "\<exists>b s'. mlme_txData io fr s = Some (b, s')"
    using assms by (intro mlme_txData_Some) simp_all
  then show ?thesis unfolding sendEAPOLKey_def Let_def fr_def[symmetric] by auto
qed

lemma eapol_no_key_data:
  assumes "length rc = 8" "length sn = 32" "length bssid = 6" "length mac = 6" "step \<noteq> 2"
    and e: "e = drop 14 (sendEAPOLKey_frame kern_hmac_sha1 step rc i a True bssid mac sn ptk g)"
  shows "e ! 97 = 0 \<and> e ! 98 = 0"
proof -
  have h: "hi8 (0 :: u16) = 0" "lo8 (0 :: u16) = 0" by (simp_all add: hi8_def lo8_def)
  show ?thesis using assms(1-5)
    by (simp add: e sendEAPOLKey_frame_def eapol_unsigned_def Let_def nth_memcpy_at h)
qed

section \<open>Message 3 before message 1\<close>

text \<open>A third message of the handshake for the temporal key \<open>ptk\<close>, without key data.\<close>

definition m3_message :: "bytes \<Rightarrow> bytes \<Rightarrow> bytes \<Rightarrow> bytes \<Rightarrow> bytes \<Rightarrow> bytes" where
  "m3_message ptk rc nonce bssid mac =
    drop 14 (sendEAPOLKey_frame kern_hmac_sha1 3 rc True True True bssid mac nonce ptk CIPHER_CCMP)"

lemma m3_message_facts:
  assumes "length rc = 8" "length nonce = 32" "length bssid = 6" "length mac = 6"
    and e_def: "e = m3_message ptk rc nonce bssid mac"
  shows "length e = 99" "rd e 1 = Some 3" "be16_rd e 2 = Some (be16 (e ! 2) (e ! 3))" "4 + unat (be16 (e ! 2) (e ! 3)) = 99"
    "be16_rd e 5 = Some 0x1CA" "be16_rd e 97 = Some 0" "rds e 9 8 = Some rc" "eapol_mic_ok True ptk e 99 = Some True"
proof -
  define fr where "fr = sendEAPOLKey_frame kern_hmac_sha1 3 rc True True True bssid mac nonce ptk CIPHER_CCMP"
  have ef: "e = drop 14 fr" by (simp add: e_def m3_message_def fr_def)
  have k: "e ! 1 = 3" "length e = 4 + unat (be16 (e ! 2) (e ! 3))" "be16 (e ! 5) (e ! 6) = key_info_bits 3 True True True"
    "slice 9 8 e = rc" "eapol_mic_ok True ptk e (length e) = Some True"
    using sendEAPOLKey_ok[OF assms(1-4) fr_def ef] by blast+
  have d: "drop 99 e = []" using sendEAPOLKey_ok[OF assms(1-4) fr_def ef] by simp
  have "99 \<le> length e" using k(5) by (auto simp: eapol_mic_ok_def eapol_mic_ok_with_def split: if_splits)
  then show l: "length e = 99" using d by simp
  have z: "e ! 97 = 0" "e ! 98 = 0" using eapol_no_key_data[OF assms(1-4) _ ef[unfolded fr_def]] by simp_all
  show "rd e 1 = Some 3" "be16_rd e 2 = Some (be16 (e ! 2) (e ! 3))" "4 + unat (be16 (e ! 2) (e ! 3)) = 99"
    "rds e 9 8 = Some rc" "eapol_mic_ok True ptk e 99 = Some True"
    using k l by (simp_all add: be16_rd_def rds_def)
  have "key_info_bits 3 True True True = 0x1CA" by (simp add: key_info_bits_def)
  then show "be16_rd e 5 = Some 0x1CA" using k(3) l by (simp add: be16_rd_def)
  have "be16 0 0 = 0" by (simp add: be16_def)
  then show "be16_rd e 97 = Some 0" using z l by (simp add: be16_rd_def)
qed

text \<open>The lengths of the addresses and nonces.\<close>

definition wf :: "mlme \<Rightarrow> bool" where
  "wf s \<longleftrightarrow> bss_ok (l_target s) \<and> length (l_mac s) = 6 \<and> length (m_snonce s) = 32 \<and> length (m_ptk s) = 64"

definition hw_ready :: "hw_io \<Rightarrow> mlme \<Rightarrow> bool" where
  "hw_ready io s \<longleftrightarrow> m_hw s \<and> m_vif s \<and> io_set_key io \<and> io_alloc io \<and> (\<forall>k. io_set_key_ok io k) \<and> io_tx io"

lemma installKey_ptk:
  assumes "hw_ready io s" "length tk = 32"
  shows "\<exists>s'. installKey io True 0 CIPHER_CCMP tk 16 s = (True, s') \<and> l_mac s' = l_mac s \<and> m_snonce s' = m_snonce s \<and>
    l_target s' = l_target s \<and> m_ptk s' = m_ptk s \<and> m_replayCtr s' = m_replayCtr s \<and>
    (\<exists>k. m_ptkConf s' = Some k \<and> kc_key k = take 16 tk)"
  using assms by (auto simp: installKey_def Let_def hw_ready_def emit_def CIPHER_CCMP_def CIPHER_TKIP_def split: option.splits)

lemma m3_message_connects:
  assumes "wf s" "hw_ready io s" "length rc = 8" "length nonce = 32" "length bssid = 6" "length mac = 6"
  shows "\<exists>s'. handleEAPOL io (m3_message (m_ptk s) rc nonce bssid mac) s = Some s' \<and>
    m_state s' = RTW88_STATE_CONNECTED \<and> (\<exists>k. m_ptkConf s' = Some k \<and> kc_key k = take 16 (drop 32 (m_ptk s)))"
proof -
  define e where "e = m3_message (m_ptk s) rc nonce bssid mac"
  note f = m3_message_facts[OF assms(3-6) e_def]
  obtain s1 where s1: "installKey io True 0 CIPHER_CCMP (drop 32 (m_ptk s)) 16 (s\<lparr>m_replayCtr := rc\<rparr>) = (True, s1)"
    "l_mac s1 = l_mac s" "m_snonce s1 = m_snonce s" "l_target s1 = l_target s" "m_replayCtr s1 = rc"
    "\<exists>k. m_ptkConf s1 = Some k \<and> kc_key k = take 16 (drop 32 (m_ptk s))"
    using installKey_ptk[of io "s\<lparr>m_replayCtr := rc\<rparr>" "drop 32 (m_ptk s)"] assms(1,2)
    by (auto simp: hw_ready_def wf_def)
  obtain s2 where s2: "sendEAPOLKey io 4 rc False False True s1 = Some s2"
    using sendEAPOLKey_Some[of rc s1 io 4 False False] assms(1,3) s1 by (auto simp: wf_def bss_ok_def)
  have k: "m_ptkConf s2 = m_ptkConf s1" using core_sendEAPOLKey[OF s2] core_eqD by blast
  define s3 where "s3 = mlme_startTxAggregation io (emit (LinkStatus True) (emit CancelTimer (s2\<lparr>m_state := RTW88_STATE_CONNECTED\<rparr>)))"
  have m3: "eapol_m3 io e 0x1CA 99 0 s = Some s3"
    using f s1 s2 assms(2) by (simp add: eapol_m3_def m3_gtk_def hw_ready_def Let_def s3_def)
  have "handleEAPOL io e s = eapol_m3 io e 0x1CA 99 0 s"
    unfolding handleEAPOL_def f(2,3,5,6) bind.bind_lunit Let_def f(4) using f(1) by simp
  then show ?thesis using m3 k s1(6) unfolding e_def by (simp add: s3_def)
qed

section \<open>Connecting\<close>

text \<open>What a connection attempt carries along.\<close>

definition conn :: "mlme \<Rightarrow> rtw88_bss \<times> bytes \<times> bool \<times> bool \<times> bool \<times> ieee80211_key_conf option \<times> bytes \<times> bytes" where
  "conn s = (l_target s, l_mac s, m_hw s, m_vif s, m_wpa2 s, m_ptkConf s, m_ptk s, m_snonce s)"

lemma conn_eqD:
  "conn s' = conn s \<Longrightarrow> l_target s' = l_target s \<and> l_mac s' = l_mac s \<and> m_hw s' = m_hw s \<and> m_vif s' = m_vif s \<and>
    m_wpa2 s' = m_wpa2 s \<and> m_ptkConf s' = m_ptkConf s \<and> m_ptk s' = m_ptk s \<and> m_snonce s' = m_snonce s"
  by (simp add: conn_def)

lemma conn_simps [simp]:
  "conn (emit c s) = conn s" "conn (s\<lparr>m_state := st\<rparr>) = conn s" "conn (s\<lparr>m_bssConf := b\<rparr>) = conn s" "conn (s\<lparr>m_vifCfg := v\<rparr>) = conn s"
  "conn (s\<lparr>l_txSeq := n\<rparr>) = conn s" "conn (s\<lparr>m_chandef := cd\<rparr>) = conn s" "conn (s\<lparr>l_connChanWidth := w\<rparr>) = conn s"
  "conn (s\<lparr>m_rssi := r\<rparr>) = conn s" "conn (s\<lparr>m_rxFrameCount := k\<rparr>) = conn s" "conn (s\<lparr>m_assocAID := n\<rparr>) = conn s"
  "conn (s\<lparr>l_sta := x\<rparr>) = conn s" "conn (s\<lparr>m_pmk := y\<rparr>) = conn s" "conn (s\<lparr>l_baDialog := z\<rparr>) = conn s"
  by (simp_all add: conn_def emit_def)

lemma conn_txMgmt [simp]: "conn (mlme_txMgmt io f s) = conn s"
  by (simp add: mlme_txMgmt_def)

lemma conn_fold_txMgmt [simp]: "conn (fold (mlme_txMgmt io) fs s) = conn s"
  by (induction fs arbitrary: s) simp_all

lemma conn_startTx [simp]: "conn (mlme_startTxAggregation io s) = conn s"
  by (auto simp: mlme_startTxAggregation_def startTxAggregation_def sendAddbaRequest_def Let_def split: option.splits)

lemma tune_Some:
  assumes "bss_ok (l_target s)"
  shows "\<exists>s'. tune io s = Some s' \<and> conn s' = conn s \<and> m_out s' = m_out s"
proof (cases "target_channel io s")
  case None
  then show ?thesis by (simp add: tune_def)
next
  case (Some chan)
  obtain cd s1 where r: "setConnectedChandef (io_bands io) (io_device io) chan s = Some (cd, s1)"
      "s1 = s\<lparr>l_connChanWidth := l_connChanWidth s1\<rparr>"
    using setConnectedChandef_at[OF assms, of "io_bands io" "io_device io" chan] by (auto simp: chandef_at_def)
  have "conn s1 = conn s" "m_out s1 = m_out s" by (subst r(2), simp)+
  then show ?thesis using r(1) Some by (simp add: tune_def)
qed

lemma doAuthenticate_Some:
  assumes "bss_ok (l_target s)" "length (l_mac s) = 6" "m_hw s" "m_vif s"
  shows "\<exists>s'. doAuthenticate io s = Some s' \<and> conn s' = conn s \<and> m_state s' = RTW88_STATE_AUTHENTICATING \<and>
    count_list (m_out s') (ArmTimer 3000) = Suc (count_list (m_out s) (ArmTimer 3000))"
proof -
  obtain s1 where s1: "tune io s = Some s1" "conn s1 = conn s" "m_out s1 = m_out s" using tune_Some[OF assms(1)] by blast
  note e = conn_eqD[OF s1(2)]
  let ?s = "(emit (ConnectHwSetup (b_bssid (l_target s1))) s1)
    \<lparr>m_bssConf := (m_bssConf s1)\<lparr>bc_bssid := b_bssid (l_target s1), bc_assoc := False, bc_aid := 0\<rparr>\<rparr>"
  have "length (b_bssid (l_target s)) = 6" using assms(1) by (simp add: bss_ok_def)
  then have "\<exists>a n. buildAuthReq (replicate 30 0) ?s = Some (a, n, ?s\<lparr>l_txSeq := l_txSeq ?s + 1\<rparr>)"
    using assms(2) e by (simp add: buildAuthReq_def wr_def Let_def emit_def)
  then obtain a n where "buildAuthReq (replicate 30 0) ?s = Some (a, n, ?s\<lparr>l_txSeq := l_txSeq ?s + 1\<rparr>)" by blast
  then show ?thesis using s1 assms(3,4)
    by (simp add: doAuthenticate_def Let_def mlme_txMgmt_def emit_def count_list_append)
      (simp add: conn_def)
qed

definition masks_ok :: "hw_io \<Rightarrow> bool" where
  "masks_ok io \<longleftrightarrow> (\<forall>b sb. io_bands io b = Some sb \<longrightarrow> length (ht_rx_mask (sb_ht sb)) = 10)"

lemma doAssociate_Some:
  assumes "bss_ok (l_target s)" "length (l_mac s) = 6" "m_hw s" "m_vif s" "masks_ok io"
  shows "\<exists>s'. doAssociate io s = Some s' \<and> conn s' = conn s \<and> m_state s' = RTW88_STATE_ASSOCIATING"
proof -
  obtain f n where "buildAssocReq (io_bands io) (m_wpa2 s) (replicate 256 0) s = Some (f, n, s\<lparr>l_txSeq := l_txSeq s + 1\<rparr>)"
    using buildAssocReq_ok[of s "io_bands io" "m_wpa2 s"] assms unfolding masks_ok_def by blast
  then show ?thesis using assms(3,4) by (simp add: doAssociate_def Let_def)
qed

lemma conn_clearKeys:
  "l_mac (clearKeys io s) = l_mac s" "m_hw (clearKeys io s) = m_hw s" "m_vif (clearKeys io s) = m_vif s"
  "m_snonce (clearKeys io s) = m_snonce s" "m_db (clearKeys io s) = m_db s"
  by (auto simp: clearKeys_def emit_def Let_def split: option.splits)

lemma conn_releaseSta:
  "l_mac (releaseSta io s) = l_mac s" "m_hw (releaseSta io s) = m_hw s" "m_vif (releaseSta io s) = m_vif s"
  "m_snonce (releaseSta io s) = m_snonce s" "m_db (releaseSta io s) = m_db s"
  by (auto simp: releaseSta_def emit_def Let_def)

lemma cmdConnect_Some:
  assumes "m_state s = RTW88_STATE_IDLE" "bss_find (cstring ssid) (sd_list (m_db s)) = Some t"
  shows "\<exists>s'. cmdConnect io (Some ssid) pw s = Some (kIOReturnSuccess, s') \<and>
    conn s' = (t, l_mac s, m_hw s, m_vif s, b_cipher t = CIPHER_CCMP, None, replicate 64 0, m_snonce s) \<and>
    m_state s' = RTW88_STATE_AUTHENTICATING \<and>
    (io_connect_tc io \<longrightarrow> EnterConnectTC \<in> set (m_out s'))"
  using assms by (simp add: cmdConnect_def Let_def conn_clearKeys conn_releaseSta)
    (simp add: conn_def conn_clearKeys conn_releaseSta emit_def)

text \<open>Received management frames of the target.\<close>

definition mgmt_frame :: "u16 \<Rightarrow> bytes \<Rightarrow> bytes \<Rightarrow> u16 \<Rightarrow> bytes \<Rightarrow> bytes" where
  "mgmt_frame stype da bssid seq body = hdr_3addr stype 0 da bssid bssid seq @ body"

lemma mgmt_frame_facts:
  assumes "length da = 6" "length bssid = 6"
  shows "frame_control (mgmt_frame st da bssid seq body) = Some st" "addr3 (mgmt_frame st da bssid seq body) = Some bssid"
    "addr1 (mgmt_frame st da bssid seq body) = Some da" "addr2 (mgmt_frame st da bssid seq body) = Some bssid"
    "length (mgmt_frame st da bssid seq body) = 24 + length body"
    "le16_rd (mgmt_frame st da bssid seq body) (24 + i) = le16_rd body i"
  unfolding mgmt_frame_def using assms
  by (simp_all add: le16_rd_def rd_def nth_append) 

lemma mgmt_len:
  assumes "6 \<le> n" "n < 2 ^ 31"
  shows "\<not> (word_of_nat (24 + n) - 24 :: u32) < 6"
proof -
  have "(word_of_nat (24 + n) - 24 :: u32) = word_of_nat n" by simp
  moreover have "unat (word_of_nat n :: u32) = n" using assms by (intro unat_word_of_nat_small) simp
  ultimately show ?thesis using assms by (simp add: word_less_nat_alt)
qed

lemma rx_auth_success:
  assumes "bss_ok (l_target s)" "length (l_mac s) = 6" "m_hw s" "m_vif s" "masks_ok io"
    "m_state s = RTW88_STATE_AUTHENTICATING" "length da = 6"
  shows "\<exists>s'. rxFrame io (mgmt_frame 0x00B0 da (b_bssid (l_target s)) seq [0, 0, 2, 0, 0, 0]) sg fq s = Some s' \<and>
    conn s' = conn s \<and> m_state s' = RTW88_STATE_ASSOCIATING"
proof -
  have b: "length (b_bssid (l_target s)) = 6" using assms(1) by (simp add: bss_ok_def)
  note f = mgmt_frame_facts[OF assms(7) b, of "0x00B0" seq "[0, 0, 2, 0, 0, 0]"]
  let ?s = "s\<lparr>m_rssi := sg, m_rxFrameCount := m_rxFrameCount s + 1\<rparr>"
  obtain s' where "doAssociate io ?s = Some s'" "conn s' = conn ?s" "m_state s' = RTW88_STATE_ASSOCIATING"
    using doAssociate_Some[of ?s io] assms by auto
  moreover have "le16_rd [0, 0, 2, 0, 0, 0 :: u8] 4 = Some 0" by (simp add: le16_rd_def le16_def)
  then have "le16_rd (mgmt_frame 0x00B0 da (b_bssid (l_target s)) seq [0, 0, 2, 0, 0, 0]) 28 = Some 0"
    using f(6)[of 4] by simp
  moreover have "ieee80211_is_mgmt 0x00B0" by (simp add: ieee80211_is_mgmt_def fc_defs)
  ultimately show ?thesis using assms(6)
    by (simp add: rxFrame_def f(1,2,5) processRxMgmt_def rx_auth_def Let_def)
qed

lemma rx_assoc_success:
  assumes "bss_ok (l_target s)" "m_state s = RTW88_STATE_ASSOCIATING" "length da = 6" "length ies < 2 ^ 30"
  shows "\<exists>s'. rxFrame io (mgmt_frame 0x0010 da (b_bssid (l_target s)) seq ([c0, c1, 0, 0, a0, a1] @ ies)) sg fq s = Some s' \<and>
    conn s' = conn s \<and> m_state s' = (if m_wpa2 s then RTW88_STATE_HANDSHAKING else RTW88_STATE_CONNECTED)"
proof -
  have b: "length (b_bssid (l_target s)) = 6" using assms(1) by (simp add: bss_ok_def)
  let ?b = "[c0, c1, 0, 0, a0, a1] @ ies"
  note f = mgmt_frame_facts[OF assms(3) b, of "0x0010" seq ?b]
  have "le16_rd ?b 2 = Some 0" "le16_rd ?b 4 = Some (le16 a0 a1)" by (simp_all add: le16_rd_def le16_def rd_def)
  then have st: "le16_rd (mgmt_frame 0x0010 da (b_bssid (l_target s)) seq ?b) 26 = Some 0"
    "le16_rd (mgmt_frame 0x0010 da (b_bssid (l_target s)) seq ?b) 28 = Some (le16 a0 a1)"
    using f(6)[of 2] f(6)[of 4] by simp_all
  have m: "ieee80211_is_mgmt 0x0010" by (simp add: ieee80211_is_mgmt_def fc_defs)
  have n: "\<not> (word_of_nat (length (mgmt_frame 0x0010 da (b_bssid (l_target s)) seq ?b)) - 24 :: u32) < 6"
    unfolding f(5) by (rule mgmt_len) (use assms(4) in simp_all)
  let ?s = "s\<lparr>m_rssi := sg, m_rxFrameCount := m_rxFrameCount s + 1\<rparr>"
  have r: "rxFrame io (mgmt_frame 0x0010 da (b_bssid (l_target s)) seq ?b) sg fq s =
      processAssocResponse io (mgmt_frame 0x0010 da (b_bssid (l_target s)) seq ?b) ?s"
    using m assms(2) by (simp add: rxFrame_def f(1) processRxMgmt_def Let_def del: append_Cons append_Nil)
  show ?thesis unfolding r processAssocResponse_def f(2) bind.bind_lunit Let_def st
    using n by (auto simp del: append_Cons append_Nil)
qed

text \<open>Running operations one after the other.\<close>

fun run_mlme :: "(mlme \<Rightarrow> mlme option) list \<Rightarrow> mlme \<Rightarrow> mlme option" where
  "run_mlme [] s = Some s"
| "run_mlme (f # fs) s = do { s \<leftarrow> f s; run_mlme fs s }"

definition join_ops :: "hw_io \<Rightarrow> bytes \<Rightarrow> bytes option \<Rightarrow> bytes \<Rightarrow> bytes \<Rightarrow> (mlme \<Rightarrow> mlme option) list" where
  "join_ops io ssid pw mac bssid =
    [\<lambda>s. map_option snd (cmdConnect io (Some ssid) pw s), doAuthenticate io,
     rxFrame io (mgmt_frame 0x00B0 mac bssid 0 [0, 0, 2, 0, 0, 0]) 200 2412,
     rxFrame io (mgmt_frame 0x0010 mac bssid 16 [0x31, 0x04, 0, 0, 1, 0xC0]) 200 2412]"

lemma join_Some:
  assumes "m_state s = RTW88_STATE_IDLE" "m_hw s" "m_vif s" "length (l_mac s) = 6" "masks_ok io"
    "bss_find (cstring ssid) (sd_list (m_db s)) = Some t" "bss_ok t"
  shows "\<exists>s'. run_mlme (join_ops io ssid pw (l_mac s) (b_bssid t)) s = Some s' \<and>
    conn s' = (t, l_mac s, True, True, b_cipher t = CIPHER_CCMP, None, replicate 64 0, m_snonce s) \<and>
    m_state s' = (if b_cipher t = CIPHER_CCMP then RTW88_STATE_HANDSHAKING else RTW88_STATE_CONNECTED)"
proof -
  obtain s1 where s1: "cmdConnect io (Some ssid) pw s = Some (kIOReturnSuccess, s1)"
    "conn s1 = (t, l_mac s, True, True, b_cipher t = CIPHER_CCMP, None, replicate 64 0, m_snonce s)" "m_state s1 = RTW88_STATE_AUTHENTICATING"
    using cmdConnect_Some[OF assms(1,6), of io pw] assms(2,3) by auto
  have e1: "l_target s1 = t" "l_mac s1 = l_mac s" "m_hw s1" "m_vif s1" using s1(2) by (simp_all add: conn_def)
  obtain s2 where s2: "doAuthenticate io s1 = Some s2" "conn s2 = conn s1" "m_state s2 = RTW88_STATE_AUTHENTICATING"
    using doAuthenticate_Some[of s1 io] e1 assms by auto
  note e2 = conn_eqD[OF s2(2)]
  obtain s3 where s3: "rxFrame io (mgmt_frame 0x00B0 (l_mac s) (b_bssid t) 0 [0, 0, 2, 0, 0, 0]) 200 2412 s2 = Some s3"
    "conn s3 = conn s2" "m_state s3 = RTW88_STATE_ASSOCIATING"
    using rx_auth_success[of s2 io "l_mac s" 0 200 2412] e1 e2 s2(3) assms by auto
  note e3 = conn_eqD[OF s3(2)]
  obtain s4 where s4: "rxFrame io (mgmt_frame 0x0010 (l_mac s) (b_bssid t) 16 ([0x31, 0x04, 0, 0, 1, 0xC0] @ [])) 200 2412 s3 = Some s4"
    "conn s4 = conn s3" "m_state s4 = (if m_wpa2 s3 then RTW88_STATE_HANDSHAKING else RTW88_STATE_CONNECTED)"
    using rx_assoc_success[of s3 "l_mac s" "[]" io 16 "0x31" "0x04" 1 "0xC0" 200 2412] e1 e2 e3 s3(3) assms by auto
  have "m_wpa2 s3 = (b_cipher t = CIPHER_CCMP)" using e2 e3 s1(2) by (simp add: conn_def)
  then show ?thesis using s1 s2 s3 s4 by (simp add: join_ops_def)
qed


definition io_demo :: hw_io where
  "io_demo = \<lparr>io_tx = True, io_set_key = True, io_sta_add = True, io_sta_remove = True, io_bss_info = True,
     io_cancel_scan = True, io_hw_scan = True, io_add_interface = True, io_remove_interface = True, io_start = True, io_stop = True, io_scan_supported = True,
     io_alloc = True, io_set_key_ok = (\<lambda>_. True), io_scan_ok = True, io_start_ok = True,
     io_random = replicate 32 7, io_inject_ok = (\<lambda>_. True), io_manual_tc = True, io_connect_tc = True,
     io_bands = (\<lambda>_. Some band_demo), io_device = None, io_junk = (\<lambda>_. 0), io_scan_stops = True,
     io_abort_at = (\<lambda>_. False)\<rparr>"

definition ap_demo :: "u32 \<Rightarrow> rtw88_bss" where
  "ap_demo cipher = bss_zero\<lparr>b_ssid := memcpy_at (replicate 33 0) 0 [104, 105], b_ssid_len := 2,
     b_bssid := [1, 2, 3, 4, 5, 6], b_channel := 36, b_cipher := cipher, b_group_cipher := cipher\<rparr>"

definition idle_demo :: "u32 \<Rightarrow> mlme" where
  "idle_demo cipher = mlme_init\<lparr>m_hw := True, m_vif := True, m_powered := True,
     m_db := \<lparr>sd_list = [ap_demo cipher], sd_count = 1, sd_gen = 1\<rparr>\<rparr>"

lemma ap_demo_ok: "bss_ok (ap_demo c)"
  by (simp add: bss_ok_def ap_demo_def bss_zero_def elements_Nil memcpy_at_def nth_append)

lemma ap_demo_found: "bss_find (cstring [104, 105]) (sd_list (m_db (idle_demo c))) = Some (ap_demo c)"
  by (simp add: bss_find_def cstring_def strlen_def idle_demo_def ap_demo_def memcpy_at_def)

lemma idle_demo_facts: "m_state (idle_demo c) = RTW88_STATE_IDLE" "m_hw (idle_demo c)" "m_vif (idle_demo c)"
    "length (l_mac (idle_demo c)) = 6" "masks_ok io_demo" "length (m_snonce (idle_demo c)) = 32"
  by (simp_all add: idle_demo_def mlme_init_def masks_ok_def io_demo_def band_demo_def)


text \<open>An unprotected data frame without QoS, with a SNAP header.\<close>

definition plain_frame :: "bytes \<Rightarrow> bytes \<Rightarrow> bytes \<Rightarrow> u16 \<Rightarrow> bytes \<Rightarrow> bytes" where
  "plain_frame da ta sa et pl = hdr_3addr 0x0208 0 da ta sa 0 @ snap_header et @ pl"

lemma deliver_plain:
  assumes "length da = 6" "length ta = 6" "length sa = 6"
  shows "deliverDataFrame okf hs (plain_frame da ta sa et pl) =
    Some (if et = ETH_P_PAE \<and> hs then [Eapol pl] else deliverEthernet okf da sa et pl)"
proof -
  have "relay_fc False False = 0x0208" by (simp add: relay_fc_def tx_fc_def fc_defs)
  then show ?thesis using deliver_snap[OF assms, of "[]" False "[]" False okf hs 0 et pl]
    by (simp add: plain_frame_def)
qed

lemma rx_plain:
  assumes "length da = 6" "length ta = 6" "length sa = 6"
    "m_state s = RTW88_STATE_CONNECTED \<or> m_state s = RTW88_STATE_HANDSHAKING"
  shows "rxFrame io (plain_frame da ta sa et pl) sg fq s =
    rx_actions io (if et = ETH_P_PAE \<and> m_state s = RTW88_STATE_HANDSHAKING then [Eapol pl]
      else deliverEthernet (io_inject_ok io) da sa et pl) (s\<lparr>m_rssi := sg, m_rxFrameCount := m_rxFrameCount s + 1\<rparr>)"
proof -
  have fc: "frame_control (plain_frame da ta sa et pl) = Some 0x0208"
    using assms unfolding plain_frame_def by simp
  have k: "ieee80211_is_data 0x0208" "\<not> ieee80211_is_mgmt 0x0208" "\<not> ieee80211_is_data_qos 0x0208"
    by (simp_all add: ieee80211_is_data_def ieee80211_is_mgmt_def ieee80211_is_data_qos_def fc_defs)
  show ?thesis using assms(4)
    by (auto simp: rxFrame_def fc k processRxData_def ieee80211_get_hdrlen_from_skb_def Let_def mlme_deliver_def
        deliver_plain[OF assms(1-3)])
qed

lemma run_mlme_append: "run_mlme (fs @ gs) s = Option.bind (run_mlme fs s) (run_mlme gs)"
  by (induction fs arbitrary: s) (auto split: Option.bind_split)

text \<open>C23. Anyone in range can complete the handshake of a WPA2 network without knowing its passphrase: the
  message 3 that is built from the all-zero temporal key, sent in an unprotected frame from any
  address right after the association and before any message 1, is accepted, the driver reports the
  link as connected, and the pairwise key in the hardware is sixteen zero bytes.\<close>

theorem m3_before_m1_installs_zero_key:
  assumes "m_state s = RTW88_STATE_IDLE" "m_hw s" "m_vif s" "length (l_mac s) = 6" "masks_ok io"
    "bss_find (cstring ssid) (sd_list (m_db s)) = Some t" "bss_ok t"
    and "b_cipher t = CIPHER_CCMP" "length (m_snonce s) = 32"
    and "io_set_key io" "io_alloc io" "\<forall>k. io_set_key_ok io k" "io_tx io"
    and "length rc = 8" "length nonce = 32" "length ta = 6" "length sa = 6"
  shows "\<exists>s'. run_mlme (join_ops io ssid pw (l_mac s) (b_bssid t) @
      [rxFrame io (plain_frame (l_mac s) ta sa ETH_P_PAE (m3_message (replicate 64 0) rc nonce (b_bssid t) (l_mac s))) sg fq]) s = Some s' \<and>
    m_state s' = RTW88_STATE_CONNECTED \<and> (\<exists>k. m_ptkConf s' = Some k \<and> kc_key k = replicate 16 0)"
proof -
  obtain s1 where s1: "run_mlme (join_ops io ssid pw (l_mac s) (b_bssid t)) s = Some s1"
    "conn s1 = (t, l_mac s, True, True, True, None, replicate 64 0, m_snonce s)" "m_state s1 = RTW88_STATE_HANDSHAKING"
    using join_Some[OF assms(1-7), of pw] assms(8) by auto
  let ?s = "s1\<lparr>m_rssi := sg, m_rxFrameCount := m_rxFrameCount s1 + 1\<rparr>"
  have c: "m_hw s1" "m_vif s1" "m_ptk s1 = replicate 64 0" "l_target s1 = t" "l_mac s1 = l_mac s" "m_snonce s1 = m_snonce s"
    using s1(2) by (simp_all add: conn_def)
  have "wf ?s" "hw_ready io ?s" "length (b_bssid t) = 6" using c assms by (auto simp: wf_def hw_ready_def bss_ok_def)
  then obtain s2 where s2: "handleEAPOL io (m3_message (replicate 64 0) rc nonce (b_bssid t) (l_mac s)) ?s = Some s2"
    "m_state s2 = RTW88_STATE_CONNECTED" "\<exists>k. m_ptkConf s2 = Some k \<and> kc_key k = replicate 16 0"
    using m3_message_connects[of ?s io rc nonce "b_bssid t" "l_mac s"] assms c by auto
  have "rxFrame io (plain_frame (l_mac s) ta sa ETH_P_PAE (m3_message (replicate 64 0) rc nonce (b_bssid t) (l_mac s))) sg fq s1 = Some s2"
    using rx_plain[OF assms(4,16,17), of s1 io ETH_P_PAE] s1(3) s2(1) by simp
  then show ?thesis using s1(1) s2 by (simp add: run_mlme_append)
qed

lemma m3_before_m1_installs_zero_key_witness:
  "let s = idle_demo CIPHER_CCMP; t = ap_demo CIPHER_CCMP in
   \<exists>s'. run_mlme (join_ops io_demo [104, 105] None (l_mac s) (b_bssid t) @
      [rxFrame io_demo (plain_frame (l_mac s) (replicate 6 9) (replicate 6 9) ETH_P_PAE
        (m3_message (replicate 64 0) (replicate 8 0) (replicate 32 0) (b_bssid t) (l_mac s))) 200 2412]) s = Some s' \<and>
    m_state s' = RTW88_STATE_CONNECTED \<and> (\<exists>k. m_ptkConf s' = Some k \<and> kc_key k = replicate 16 0)"
  unfolding Let_def
  by (rule m3_before_m1_installs_zero_key[OF idle_demo_facts(1-5) ap_demo_found ap_demo_ok])
    (simp_all add: ap_demo_def idle_demo_facts io_demo_def)

text \<open>C24. A WPA2 link accepts unprotected traffic: while connected, a data frame without the protected
  bit, from any transmitter, is handed to the network stack like a decrypted one.\<close>

theorem wpa2_accepts_plaintext:
  assumes "m_state s = RTW88_STATE_CONNECTED" "m_wpa2 s" "length da = 6" "length ta = 6" "length sa = 6"
    "io_inject_ok io (14 + length pl)"
  shows "\<exists>s'. rxFrame io (plain_frame da ta sa et pl) sg fq s = Some s' \<and>
    m_out s' = m_out s @ [InjectRx (da @ sa @ [hi8 et, lo8 et] @ pl)]"
  using rx_plain[OF assms(3-5), of s io et pl sg fq] assms(1,6)
  by (simp add: deliverEthernet_def emit_def)

lemma wpa2_accepts_plaintext_witness:
  "let s = (idle_demo CIPHER_CCMP)\<lparr>m_state := RTW88_STATE_CONNECTED, m_wpa2 := True\<rparr>; a = replicate 6 9 in
   \<exists>s'. rxFrame io_demo (plain_frame a a a 0x0800 [1, 2]) 200 2412 s = Some s' \<and>
    m_out s' = m_out s @ [InjectRx (a @ a @ [hi8 0x0800, lo8 0x0800] @ [1, 2])]"
  unfolding Let_def by (rule wpa2_accepts_plaintext) (simp_all add: io_demo_def)



section \<open>The handshake with an honest access point\<close>

text \<open>The first message of the handshake: a nonce and a replay counter, no MIC.\<close>

definition m1_message :: "bytes \<Rightarrow> bytes \<Rightarrow> bytes" where
  "m1_message rc anonce =
    [2, 3, 0, 95, 2, 0, 0x8A, 0, 16] @ rc @ anonce @ replicate 16 0 @ replicate 8 0 @ replicate 8 0 @ replicate 16 0 @ [0, 0]"

lemma m1_message_facts:
  assumes "length rc = 8" "length anonce = 32"
  shows "length (m1_message rc anonce) = 99" "rd (m1_message rc anonce) 1 = Some 3"
    "be16_rd (m1_message rc anonce) 2 = Some 95" "be16_rd (m1_message rc anonce) 5 = Some 0x8A"
    "be16_rd (m1_message rc anonce) 97 = Some 0" "rds (m1_message rc anonce) 9 8 = Some rc"
    "rds (m1_message rc anonce) 17 32 = Some anonce"
  using assms by (simp_all add: m1_message_def rd_def be16_rd_def be16_def nth_append rds_def slice_def)

lemma conn_txData: "mlme_txData io p s = Some (b, s') \<Longrightarrow> conn s' = conn s \<and> m_state s' = m_state s"
  by (auto simp: mlme_txData_def Let_def conn_def emit_def split: Option.bind_splits option.splits)

lemma conn_sendEAPOLKey: "sendEAPOLKey io st rc i a m s = Some s' \<Longrightarrow> conn s' = conn s \<and> m_state s' = m_state s"
  by (auto simp: sendEAPOLKey_def Let_def dest: conn_txData)

lemma m1_accepted:
  assumes "wf s" "length rc = 8" "length anonce = 32" "length (io_random io) = 32"
  shows "\<exists>s'. handleEAPOL io (m1_message rc anonce) s = Some s' \<and> m_state s' = m_state s \<and>
    conn s' = (l_target s, l_mac s, m_hw s, m_vif s, m_wpa2 s, m_ptkConf s,
      derivePTK (m_pmk s) anonce (io_random io) (l_mac s) (b_bssid (l_target s)), io_random io)"
proof -
  note f = m1_message_facts[OF assms(2,3)]
  let ?s = "s\<lparr>m_anonce := anonce, m_snonce := io_random io, m_replayCtr := rc,
    m_ptk := derivePTK (m_pmk s) anonce (io_random io) (l_mac s) (b_bssid (l_target s))\<rparr>"
  obtain s1 where s1: "sendEAPOLKey io 2 rc False False True ?s = Some s1"
    using sendEAPOLKey_Some[of rc ?s io 2 False False] assms by (auto simp: wf_def bss_ok_def)
  have s_comm: "s\<lparr>m_anonce := anonce, m_snonce := io_random io, m_ptk := p, m_replayCtr := rc\<rparr> =
    s\<lparr>m_anonce := anonce, m_snonce := io_random io, m_replayCtr := rc, m_ptk := p\<rparr>" for p by simp
  have "handleEAPOL io (m1_message rc anonce) s = eapol_m1 io (m1_message rc anonce) s"
    unfolding handleEAPOL_def f(2,3,4,5) bind.bind_lunit Let_def using f(1) by simp
  moreover have "eapol_m1 io (m1_message rc anonce) s = Some (emit (ArmTimer 5000) s1)"
    using s1 by (simp add: eapol_m1_def f(6,7) s_comm)
  ultimately show ?thesis using conn_sendEAPOLKey[OF s1] by (simp add: conn_def emit_def)
qed



section \<open>Timeouts\<close>

lemma auth_timer_repeats:
  assumes "m_state s = RTW88_STATE_AUTHENTICATING" "bss_ok (l_target s)" "length (l_mac s) = 6" "m_hw s" "m_vif s"
  shows "\<exists>s'. run_mlme (replicate n (onTimer io)) s = Some s' \<and> conn s' = conn s \<and>
    m_state s' = RTW88_STATE_AUTHENTICATING \<and>
    count_list (m_out s') (ArmTimer 3000) = count_list (m_out s) (ArmTimer 3000) + n"
  using assms
proof (induction n arbitrary: s)
  case 0
  then show ?case by simp
next
  case (Suc n)
  obtain s1 where s1: "doAuthenticate io s = Some s1" "conn s1 = conn s" "m_state s1 = RTW88_STATE_AUTHENTICATING"
    "count_list (m_out s1) (ArmTimer 3000) = Suc (count_list (m_out s) (ArmTimer 3000))"
    using doAuthenticate_Some[of s io] Suc.prems by blast
  note e = conn_eqD[OF s1(2)]
  obtain s2 where "run_mlme (replicate n (onTimer io)) s1 = Some s2" "conn s2 = conn s1"
    "m_state s2 = RTW88_STATE_AUTHENTICATING"
    "count_list (m_out s2) (ArmTimer 3000) = count_list (m_out s1) (ArmTimer 3000) + n"
    using Suc.IH[of s1] Suc.prems s1(3) e by auto
  moreover have "onTimer io s = Some s1" using s1(1) Suc.prems(1) by (simp add: onTimer_def)
  ultimately show ?case using s1 by simp
qed

lemma doDisconnect_done:
  assumes "m_hw s" "m_vif s"
  shows "m_state (doDisconnect io s) = RTW88_STATE_IDLE" "m_scanReturn (doDisconnect io s) = RTW88_STATE_IDLE"
    "m_ptkConf (doDisconnect io s) = None" "m_gtkConf (doDisconnect io s) = None"
    "m_ptk (doDisconnect io s) = replicate 64 0" "m_ccmpTxPn (doDisconnect io s) = replicate 6 0"
    "l_sta (doDisconnect io s) = None" "\<not> bc_assoc (m_bssConf (doDisconnect io s))" "m_vifCfg (doDisconnect io s) = m_vifCfg s"
  using assms
  by (auto simp: doDisconnect_def clearKeys_def releaseSta_def mlme_txMgmt_def emit_def Let_def split: option.splits)

lemma clearKeys_kept [simp]:
  "l_target (clearKeys io s) = l_target s" "l_sta (clearKeys io s) = l_sta s"
  by (auto simp: clearKeys_def emit_def Let_def split: option.splits)

lemma doDisconnect_kept:
  assumes "m_hw s" "m_vif s"
  shows "l_target (doDisconnect io s) = l_target s" "l_mac (doDisconnect io s) = l_mac s"
    "m_hw (doDisconnect io s) = m_hw s" "m_vif (doDisconnect io s) = m_vif s"
  using assms
  by (simp_all add: doDisconnect_def Let_def mlme_txMgmt_def conn_releaseSta conn_clearKeys emit_def releaseSta_def)

text \<open>What a disconnect asks of the hardware, in order.\<close>

definition disconnect_calls :: "hw_io \<Rightarrow> mlme \<Rightarrow> hw_call list" where
  "disconnect_calls io s =
    (if m_powered s \<and> io_set_key io
     then map DisableKey (case m_ptkConf s of Some k \<Rightarrow> [k] | None \<Rightarrow> []) @
          map DisableKey (case m_gtkConf s of Some k \<Rightarrow> [k] | None \<Rightarrow> []) else []) @
    (if io_tx io \<and> io_alloc io
     then [TxMgmt ([0xC0, 0, 0, 0] @ b_bssid (l_target s) @ l_mac s @ b_bssid (l_target s) @ [0, 0, 3, 0])] else []) @
    (if io_bss_info io then [BssInfoChanged False] else []) @
    (if l_sta s \<noteq> None \<and> io_sta_remove io then [StaRemove] else []) @
    [CancelTimer, LinkStatus False]"

lemma clearKeys_out:
  "m_hw s \<Longrightarrow> m_out (clearKeys io s) = m_out s @
    (if m_powered s \<and> io_set_key io
     then map DisableKey (case m_ptkConf s of Some k \<Rightarrow> [k] | None \<Rightarrow> []) @
          map DisableKey (case m_gtkConf s of Some k \<Rightarrow> [k] | None \<Rightarrow> []) else [])"
  by (simp add: clearKeys_def emit_def Let_def split: option.split)

lemma releaseSta_out:
  "m_hw s \<Longrightarrow> m_vif s \<Longrightarrow>
    m_out (releaseSta io s) = m_out s @ (if l_sta s \<noteq> None \<and> io_sta_remove io then [StaRemove] else [])"
  by (simp add: releaseSta_def emit_def Let_def)

lemma buildDeauth_bytes:
  "buildDeauth s = [0xC0, 0, 0, 0] @ b_bssid (l_target s) @ l_mac s @ b_bssid (l_target s) @ [0, 0, 3, 0]"
  by (simp add: buildDeauth_def hdr_3addr_def WLAN_REASON_DEAUTH_LEAVING_def lo8_def hi8_def Let_def
      IEEE80211_FTYPE_MGMT_def IEEE80211_STYPE_DEAUTH_def)

lemma doDisconnect_out:
  assumes "m_hw s" "m_vif s"
  shows "m_out (doDisconnect io s) = m_out s @ disconnect_calls io s"
proof -
  define s1 where "s1 = clearKeys io s"
  have c: "m_hw s1" "m_vif s1" "l_target s1 = l_target s" "l_mac s1 = l_mac s" "l_sta s1 = l_sta s"
    using assms by (simp_all add: s1_def conn_clearKeys)
  define s2 where "s2 = (let t = mlme_txMgmt io (buildDeauth s1) s1 in t\<lparr>m_bssConf := (m_bssConf t)\<lparr>bc_assoc := False\<rparr>\<rparr>)"
  define s3 where "s3 = (if io_bss_info io then emit (BssInfoChanged False) s2 else s2)"
  have o2: "m_out s2 = m_out s1 @ (if io_tx io \<and> io_alloc io then [TxMgmt (buildDeauth s1)] else [])"
    using c by (simp add: s2_def mlme_txMgmt_def emit_def Let_def)
  have c3: "m_hw s3" "m_vif s3" "l_sta s3 = l_sta s" using c by (simp_all add: s3_def s2_def mlme_txMgmt_def emit_def Let_def)
  have o3: "m_out s3 = m_out s2 @ (if io_bss_info io then [BssInfoChanged False] else [])"
    by (simp add: s3_def emit_def)
  have "m_out (doDisconnect io s) = m_out (releaseSta io s3) @ [CancelTimer, LinkStatus False]"
    using assms by (simp add: doDisconnect_def Let_def s1_def s2_def s3_def emit_def)
  also have "\<dots> = m_out s @ disconnect_calls io s"
    unfolding releaseSta_out[OF c3(1,2)] o3 o2 s1_def clearKeys_out[OF assms(1)]
    using c c3(3) by (simp add: disconnect_calls_def buildDeauth_bytes s1_def)
  finally show ?thesis .
qed

text \<open>C25. The timeouts: an association that is not answered ends in idle and a handshake that stalls is
  torn down to idle, without keys or station, but an authentication that is never answered is
  repeated at every timeout, without limit: after any number of timeouts the driver still
  authenticates and has armed the timer as many times again.\<close>

theorem timeouts:
  assumes "m_hw s" "m_vif s" "bss_ok (l_target s)" "length (l_mac s) = 6"
  shows "(case m_state s of
      RTW88_STATE_AUTHENTICATING \<Rightarrow>
        (\<forall>n. \<exists>s'. run_mlme (replicate n (onTimer io)) s = Some s' \<and> m_state s' = RTW88_STATE_AUTHENTICATING \<and>
           count_list (m_out s') (ArmTimer 3000) = count_list (m_out s) (ArmTimer 3000) + n)
    | RTW88_STATE_ASSOCIATING \<Rightarrow> onTimer io s = Some (s\<lparr>m_state := RTW88_STATE_IDLE\<rparr>)
    | RTW88_STATE_HANDSHAKING \<Rightarrow>
        (\<exists>s'. onTimer io s = Some s' \<and> m_state s' = RTW88_STATE_IDLE \<and> m_ptkConf s' = None \<and> m_gtkConf s' = None \<and>
           m_ptk s' = replicate 64 0 \<and> l_sta s' = None)
    | _ \<Rightarrow> True)"
  using auth_timer_repeats[OF _ assms(3,4,1,2)] doDisconnect_done[OF assms(1,2)]
  by (simp add: onTimer_def split: rtw88_state.split) blast

lemma timeouts_witness:
  "let s = (idle_demo CIPHER_CCMP)\<lparr>m_state := RTW88_STATE_AUTHENTICATING, l_target := ap_demo CIPHER_CCMP\<rparr> in
   \<exists>s'. run_mlme (replicate 7 (onTimer io_demo)) s = Some s' \<and> m_state s' = RTW88_STATE_AUTHENTICATING \<and>
     count_list (m_out s') (ArmTimer 3000) = count_list (m_out s) (ArmTimer 3000) + 7"
  using timeouts[of "(idle_demo CIPHER_CCMP)\<lparr>m_state := RTW88_STATE_AUTHENTICATING, l_target := ap_demo CIPHER_CCMP\<rparr>" io_demo]
  by (simp add: idle_demo_facts ap_demo_ok)

section \<open>Disconnecting\<close>





end
