(* ===== verification/Log.thy ===== *)
theory Log
  imports Prelude
begin

text \<open>
  The log of the driver in \<open>src/compat/rtw88_compat.c\<close>: a ring of 8192 bytes that user space drains.
  The store is the array with its two indices at their width; what the C library formats is an
  argument.  The ring refines a queue of bytes that forgets its oldest ones.
\<close>

section \<open>The ring\<close>

record log_ring =
  lr_lock :: bool
  lr_ring :: bytes
  lr_head :: u32
  lr_tail :: u32

definition log_ring_init :: log_ring where
  "log_ring_init = \<lparr>lr_lock = False, lr_ring = replicate 8192 0, lr_head = 0, lr_tail = 0\<rparr>"

definition log_put :: "u8 \<Rightarrow> log_ring \<Rightarrow> log_ring" where
  "log_put c r =
    (let r = r\<lparr>lr_ring := (lr_ring r)[unat (lr_head r) := c]\<rparr>;
         r = r\<lparr>lr_head := (lr_head r + 1) mod 8192\<rparr>
     in if lr_head r = lr_tail r then r\<lparr>lr_tail := (lr_tail r + 1) mod 8192\<rparr> else r)"

text \<open>The message is a C string: its bytes up to the terminating zero.\<close>

fun log_append_loop :: "bytes \<Rightarrow> log_ring \<Rightarrow> log_ring" where
  "log_append_loop [] r = r"
| "log_append_loop (c # msg) r = (if c = 0 then r else log_append_loop msg (log_put c r))"

definition rtw88_log_append :: "bytes \<Rightarrow> log_ring \<Rightarrow> log_ring" where
  "rtw88_log_append msg r = (if \<not> lr_lock r then r else log_append_loop msg r)"

fun log_read_loop :: "nat \<Rightarrow> log_ring \<Rightarrow> bytes \<times> log_ring" where
  "log_read_loop 0 r = ([], r)"
| "log_read_loop (Suc n) r =
    (if lr_tail r \<noteq> lr_head r
     then let c = lr_ring r ! unat (lr_tail r);
              (cs, r) = log_read_loop n (r\<lparr>lr_tail := (lr_tail r + 1) mod 8192\<rparr>)
          in (c # cs, r)
     else ([], r))"

text \<open>\<open>out\<close> tells whether there is a buffer; the bytes it receives are the result.\<close>

definition rtw88_read_log :: "bool \<Rightarrow> u32 \<Rightarrow> log_ring \<Rightarrow> bytes \<times> log_ring" where
  "rtw88_read_log out max_len r =
    (if \<not> out \<or> max_len = 0 \<or> \<not> lr_lock r then ([], r) else log_read_loop (unat max_len) r)"

section \<open>Messages\<close>

definition str :: "string \<Rightarrow> bytes" where
  "str s = map of_char s"

definition level_str :: "int \<Rightarrow> bytes" where
  "level_str level =
    (if 0 \<le> level \<and> level \<le> 3 then [str ''ERR'', str ''WARN'', str ''INFO'', str ''DBG''] ! nat level
     else str ''???'')"

text \<open>\<open>msg\<close> is what \<open>vsnprintf\<close> would write into a buffer without bound, \<open>io\<close> the calls of \<open>IOLog\<close>
  so far.\<close>

definition rtw88_printk :: "int \<Rightarrow> int \<Rightarrow> bytes \<Rightarrow> bytes list \<times> log_ring \<Rightarrow> bytes list \<times> log_ring" where
  "rtw88_printk log_level level msg = (\<lambda>(io, r).
    if level > log_level then (io, r)
    else let ls = level_str level;
             buf = take 511 msg;
             line = str ''[rtw88 '' @ ls @ str ''] '' @ buf
         in (io @ [line], rtw88_log_append (take 511 line) r))"

definition rtw88_dev_printk :: "int \<Rightarrow> int \<Rightarrow> bytes option option \<Rightarrow> bytes \<Rightarrow> bytes list \<times> log_ring \<Rightarrow>
    bytes list \<times> log_ring" where
  "rtw88_dev_printk log_level level dev msg = (\<lambda>(io, r).
    if level > log_level then (io, r)
    else let ls = level_str level;
             name = (case dev of Some (Some n) \<Rightarrow> n | _ \<Rightarrow> str ''?'');
             buf = take 511 msg;
             line = str ''[rtw88 '' @ ls @ str '' '' @ name @ str ''] '' @ buf
         in (io @ [line], rtw88_log_append (take 511 line) r))"

section \<open>The queue it implements\<close>

definition log_inv :: "log_ring \<Rightarrow> bool" where
  "log_inv r \<longleftrightarrow> length (lr_ring r) = 8192 \<and> lr_head r < 8192 \<and> lr_tail r < 8192"

definition log_count :: "log_ring \<Rightarrow> nat" where
  "log_count r = (unat (lr_head r) + 8192 - unat (lr_tail r)) mod 8192"

definition log_contents :: "log_ring \<Rightarrow> bytes" where
  "log_contents r = map (\<lambda>i. lr_ring r ! ((unat (lr_tail r) + i) mod 8192)) [0..<log_count r]"

text \<open>A queue that keeps its newest 8191 bytes.\<close>

definition keep_newest :: "bytes \<Rightarrow> bytes" where
  "keep_newest l = drop (length l - 8191) l"

text \<open>Positions in the ring, without \<open>mod\<close>.\<close>

definition wrap :: "nat \<Rightarrow> nat" where
  "wrap i = (if i < 8192 then i else i - 8192)"

lemma unat_next: "h < 8192 \<Longrightarrow> unat ((h + 1) mod 8192 :: u32) = wrap (unat h + 1)"
proof -
  assume h: "h < 8192"
  then have l: "unat h < 8192" by (simp add: word_less_nat_alt)
  obtain n where n: "unat h = n" by simp
  have e: "h + 1 = word_of_nat (n + 1)" by (simp flip: n)
  have "unat (h + 1) = n + 1" unfolding e using l n by (intro unat_word_of_nat_small) simp
  then show ?thesis using l n unfolding unat_mod wrap_def by (cases "n = 8191") simp_all
qed

lemma next_less: "(h + 1 :: u32) mod 8192 < 8192"
  by (simp add: word_less_nat_alt unat_mod)

lemma log_count_eq:
  assumes "log_inv r"
  shows "log_count r = (if unat (lr_tail r) \<le> unat (lr_head r) then unat (lr_head r) - unat (lr_tail r)
    else unat (lr_head r) + 8192 - unat (lr_tail r))"
  using assms by (auto simp: log_count_def log_inv_def word_less_nat_alt mod_if)

lemma log_contents_eq:
  assumes "log_inv r"
  shows "log_contents r = map (\<lambda>i. lr_ring r ! wrap (unat (lr_tail r) + i)) [0..<log_count r]"
proof -
  have "log_count r < 8192" by (simp add: log_count_def)
  then show ?thesis using assms
    by (auto simp: log_contents_def log_inv_def word_less_nat_alt wrap_def mod_if)
qed

lemma log_put_inv: "log_inv r \<Longrightarrow> log_inv (log_put c r)"
  by (simp add: log_put_def log_inv_def Let_def next_less)

lemma log_put_contents:
  assumes "log_inv r"
  shows "log_contents (log_put c r) = keep_newest (log_contents r @ [c])"
proof -
  define h where "h = unat (lr_head r)"
  define t where "t = unat (lr_tail r)"
  define n where "n = log_count r"
  have b: "h < 8192" "t < 8192" using assms by (simp_all add: log_inv_def h_def t_def word_less_nat_alt)
  have n: "n = (if t \<le> h then h - t else h + 8192 - t)" using log_count_eq[OF assms] by (simp add: n_def h_def t_def)
  have w: "wrap (t + n) = h" using n b by (auto simp: wrap_def)
  let ?r = "log_put c r"
  define full where "full = (wrap (h + 1) = t)"
  have "lr_head ?r = (lr_head r + 1) mod 8192" by (auto simp: log_put_def Let_def)
  then have he: "unat (lr_head ?r) = wrap (h + 1)" using assms unat_next[of "lr_head r"] by (simp add: log_inv_def h_def)
  have eq: "((lr_head r + 1) mod 8192 = lr_tail r) = full"
  proof -
    have u: "wrap (h + 1) = unat ((lr_head r + 1) mod 8192)"
      using unat_next[of "lr_head r"] assms by (simp add: log_inv_def h_def)
    show ?thesis unfolding full_def t_def u by (rule word_unat_eq_iff)
  qed
  have te: "unat (lr_tail ?r) = (if full then wrap (t + 1) else t)"
    using assms unat_next[of "lr_tail r"] by (simp add: log_put_def Let_def eq log_inv_def t_def)
  have rg: "lr_ring ?r = (lr_ring r)[h := c]" by (simp add: log_put_def Let_def h_def)
  have len: "length (lr_ring r) = 8192" using assms by (simp add: log_inv_def)
  have new: "(lr_ring r)[h := c] ! wrap (t + i) = (log_contents r @ [c]) ! i" if "i \<le> n" for i
  proof (cases "i = n")
    case True
    then show ?thesis using w b len by (simp add: nth_append log_contents_def n_def)
  next
    case False
    then have "wrap (t + i) \<noteq> h" using that n b by (auto simp: wrap_def split: if_splits)
    then show ?thesis using False that by (simp add: nth_append log_contents_eq[OF assms] n_def t_def)
  qed
  have inv': "log_inv ?r" using assms by (rule log_put_inv)
  show ?thesis
  proof (cases full)
    case True
    then have n1: "n = 8191" using n b by (auto simp: full_def wrap_def split: if_splits)
    have c': "log_count ?r = 8191" using log_count_eq[OF inv'] True b unfolding he te
      by (auto simp: full_def wrap_def split: if_splits)
    have "log_contents ?r ! i = (log_contents r @ [c]) ! Suc i" if "i < 8191" for i
    proof -
      have "wrap (wrap (t + 1) + i) = wrap (t + Suc i)" using b that by (auto simp: wrap_def)
      then show ?thesis using new[of "Suc i"] that True n1 by (simp add: log_contents_eq[OF inv'] c' te rg)
    qed
    moreover have "length (log_contents ?r) = 8191" "length (log_contents r) = 8191"
      using c' n1 by (simp_all add: log_contents_def n_def)
    ultimately have "log_contents ?r = drop 1 (log_contents r @ [c])"
      by (intro nth_equalityI) (simp_all del: drop_append)
    then show ?thesis using \<open>length (log_contents r) = 8191\<close> by (simp add: keep_newest_def)
  next
    case False
    then have n1: "n < 8191" using n b by (auto simp: full_def wrap_def split: if_splits)
    have c': "log_count ?r = Suc n" using log_count_eq[OF inv'] False b n unfolding he te
      by (auto simp: full_def wrap_def split: if_splits)
    have "log_contents ?r ! i = (log_contents r @ [c]) ! i" if "i \<le> n" for i
      using new[of i] that False by (simp add: log_contents_eq[OF inv'] c' te rg del: upt_Suc)
    then show ?thesis using n1
      by (intro nth_equalityI) (simp_all add: keep_newest_def log_contents_def c' n_def[symmetric] less_Suc_eq_le)
  qed
qed

lemma keep_newest_keep: "keep_newest (keep_newest l @ m) = keep_newest (l @ m)"
  by (cases "length l \<le> 8191") (simp_all add: keep_newest_def add.commute)

lemma log_append_loop_refines:
  "log_inv r \<Longrightarrow> log_inv (log_append_loop msg r) \<and>
    log_contents (log_append_loop msg r) = keep_newest (log_contents r @ takeWhile (\<lambda>c. c \<noteq> 0) msg)"
proof (induction msg r rule: log_append_loop.induct)
  case (1 r)
  have "log_count r < 8192" by (simp add: log_count_def)
  then show ?case using 1 by (simp add: keep_newest_def log_contents_def)
next
  case (2 c msg r)
  have "log_count r < 8192" by (simp add: log_count_def)
  then have l: "length (log_contents r) \<le> 8191" by (simp add: log_contents_def)
  show ?case
  proof (cases "c = 0")
    case True
    then show ?thesis using 2(2) l by (simp add: keep_newest_def)
  next
    case False
    then show ?thesis using 2(1)[OF False log_put_inv[OF 2(2)]] log_put_contents[OF 2(2), of c]
      by (simp add: keep_newest_keep)
  qed
qed

lemma log_take:
  assumes "log_inv r" "lr_tail r \<noteq> lr_head r"
  defines "r' \<equiv> r\<lparr>lr_tail := (lr_tail r + 1) mod 8192\<rparr>"
  shows "log_inv r'" "log_contents r = lr_ring r ! unat (lr_tail r) # log_contents r'"
proof -
  define h where "h = unat (lr_head r)"
  define t where "t = unat (lr_tail r)"
  have b: "h < 8192" "t < 8192" "h \<noteq> t" using assms
    by (simp_all add: log_inv_def h_def t_def word_less_nat_alt word_unat_eq_iff)
  show i: "log_inv r'" using assms by (simp add: log_inv_def next_less)
  have te: "unat (lr_tail r') = wrap (t + 1)"
    using assms unat_next[of "lr_tail r"] by (simp add: log_inv_def t_def)
  have he: "unat (lr_head r') = h" "lr_ring r' = lr_ring r" by (simp_all add: r'_def h_def)
  have n: "log_count r = Suc (log_count r')"
    using b unfolding log_count_eq[OF assms(1)] log_count_eq[OF i] te he
    by (auto simp: wrap_def h_def[symmetric] t_def[symmetric])
  have "wrap (t + Suc j) = wrap (wrap (t + 1) + j)" if "j < log_count r'" for j
    using b that log_count_eq[OF i] unfolding te he by (auto simp: wrap_def split: if_splits)
  then have "map (\<lambda>j. lr_ring r ! wrap (t + Suc j)) [0..<log_count r'] = log_contents r'"
    unfolding log_contents_eq[OF i] te he by simp
  moreover have "wrap t = t" using b by (simp add: wrap_def)
  ultimately show "log_contents r = lr_ring r ! unat (lr_tail r) # log_contents r'"
    unfolding log_contents_eq[OF assms(1)] n t_def[symmetric]
    by (simp add: upt_conv_Cons map_Suc_upt[symmetric] o_def del: upt_Suc)
qed

lemma log_read_loop_refines:
  "log_inv r \<Longrightarrow> log_inv (snd (log_read_loop n r)) \<and> fst (log_read_loop n r) = take n (log_contents r) \<and>
    log_contents (snd (log_read_loop n r)) = drop n (log_contents r) \<and>
    lr_lock (snd (log_read_loop n r)) = lr_lock r"
proof (induction n r rule: log_read_loop.induct)
  case (1 r)
  then show ?case by simp
next
  case (2 n r)
  show ?case
  proof (cases "lr_tail r = lr_head r")
    case True
    then have "log_contents r = []" by (simp add: log_contents_def log_count_def)
    then show ?thesis using True 2(2) by simp
  next
    case False
    note k = log_take[OF 2(2) False]
    show ?thesis using 2(1)[OF False refl k(1)] False k(2) by (simp add: Let_def split_beta)
  qed
qed

text \<open>C39. The log is a queue that keeps its newest 8191 bytes.  Appending a message adds its bytes up
  to the terminating zero at the end and forgets the oldest ones that do not fit; a read takes the
  oldest bytes, at most as many as the buffer has room for, and leaves the rest.  Both stay inside
  the ring.\<close>

theorem log_refines_queue:
  assumes "log_inv r" "lr_lock r"
  shows "log_inv (rtw88_log_append msg r) \<and>
    log_contents (rtw88_log_append msg r) = keep_newest (log_contents r @ takeWhile (\<lambda>c. c \<noteq> 0) msg) \<and>
    (case rtw88_read_log True n r of (out, r') \<Rightarrow>
      log_inv r' \<and> out = take (unat n) (log_contents r) \<and> log_contents r' = drop (unat n) (log_contents r))"
  using assms log_append_loop_refines[OF assms(1), of msg] log_read_loop_refines[OF assms(1), of "unat n"]
  by (auto simp: rtw88_log_append_def rtw88_read_log_def split: prod.split)

lemma log_refines_queue_witness:
  "let r = log_ring_init\<lparr>lr_lock := True, lr_head := 8191, lr_tail := 8191\<rparr>; msg = [104, 105, 0, 106] in
    log_inv (rtw88_log_append msg r) \<and>
    log_contents (rtw88_log_append msg r) = keep_newest (log_contents r @ takeWhile (\<lambda>c. c \<noteq> 0) msg) \<and>
    (case rtw88_read_log True 1 r of (out, r') \<Rightarrow>
      log_inv r' \<and> out = take (unat (1 :: u32)) (log_contents r) \<and> log_contents r' = drop (unat (1 :: u32)) (log_contents r))"
  unfolding Let_def by (rule log_refines_queue) (simp_all add: log_inv_def log_ring_init_def)

end
