(* ===== verification/Slab.thy ===== *)
theory Slab
  imports Prelude
begin

text \<open>
  The allocator of \<open>src/compat/linux/slab.h\<close>.  \<open>IOFree\<close> needs the size that was given to
  \<open>IOMalloc\<close>, so each object is preceded by a header that holds its size.  The heap is the set of
  live \<open>IOMalloc\<close> blocks and a memory of bytes; addresses are natural numbers, sizes are 64-bit
  words that wrap.  \<open>IOFree\<close> of anything but a live block with its size is \<open>None\<close>.
  \<open>IOMalloc\<close> itself is an argument.
\<close>

section \<open>Memory\<close>

record kheap =
  kh_blocks :: "nat \<rightharpoonup> nat"
  kh_mem :: "nat \<Rightarrow> u8"

definition store :: "nat \<Rightarrow> bytes \<Rightarrow> (nat \<Rightarrow> u8) \<Rightarrow> nat \<Rightarrow> u8" where
  "store a bs m = (\<lambda>x. if a \<le> x \<and> x < a + length bs then bs ! (x - a) else m x)"

definition load :: "nat \<Rightarrow> nat \<Rightarrow> (nat \<Rightarrow> u8) \<Rightarrow> bytes" where
  "load a n m = map m [a..<a + n]"

text \<open>A 64-bit word in memory, least significant byte first.\<close>

fun bytes_le :: "nat \<Rightarrow> u64 \<Rightarrow> bytes" where
  "bytes_le 0 w = []"
| "bytes_le (Suc k) w = ucast w # bytes_le k (drop_bit 8 w)"

fun word_le :: "bytes \<Rightarrow> u64" where
  "word_le [] = 0"
| "word_le (b # bs) = push_bit 8 (word_le bs) OR ucast b"

lemma length_bytes_le [simp]: "length (bytes_le k w) = k"
  by (induction k arbitrary: w) simp_all

lemma word_le_bytes_le: "word_le (bytes_le k w) = take_bit (8 * k) w"
proof (induction k arbitrary: w)
  case 0
  then show ?case by simp
next
  case (Suc k)
  have "bit (word_le (bytes_le (Suc k) w)) n = bit (take_bit (8 * Suc k) w) n" if "n < 64" for n
    using that by (cases "n < 8") (auto simp: Suc bit_simps not_less le_add_diff_inverse)
  then show ?case by (intro bit_word_eqI) simp
qed

definition store64 :: "nat \<Rightarrow> u64 \<Rightarrow> (nat \<Rightarrow> u8) \<Rightarrow> nat \<Rightarrow> u8" where
  "store64 a w m = store a (bytes_le 8 w) m"

definition load64 :: "nat \<Rightarrow> (nat \<Rightarrow> u8) \<Rightarrow> u64" where
  "load64 a m = word_le (load a 8 m)"

section \<open>The allocator underneath\<close>

type_synonym io_malloc = "kheap \<Rightarrow> nat \<Rightarrow> nat option"

definition IOMalloc :: "io_malloc \<Rightarrow> nat \<Rightarrow> kheap \<Rightarrow> (nat \<times> kheap) option" where
  "IOMalloc alloc n h = map_option (\<lambda>a. (a, h\<lparr>kh_blocks := (kh_blocks h)(a \<mapsto> n)\<rparr>)) (alloc h n)"

definition IOFree :: "nat \<Rightarrow> nat \<Rightarrow> kheap \<Rightarrow> kheap option" where
  "IOFree a n h = (if kh_blocks h a = Some n then Some (h\<lparr>kh_blocks := (kh_blocks h)(a := None)\<rparr>) else None)"

section \<open>The operations\<close>

definition GFP_ZERO :: u32 where "GFP_ZERO = 1"

definition kmalloc :: "io_malloc \<Rightarrow> u64 \<Rightarrow> u32 \<Rightarrow> kheap \<Rightarrow> nat option \<times> kheap" where
  "kmalloc alloc sz flags h =
    (let total_sz = sz + 8
     in case IOMalloc alloc (unat total_sz) h of
          None \<Rightarrow> (None, h)
        | Some (block, h) \<Rightarrow>
            let h = h\<lparr>kh_mem := store64 block sz (kh_mem h)\<rparr>;
                h = (if flags AND GFP_ZERO \<noteq> 0
                     then h\<lparr>kh_mem := store (block + 8) (replicate (unat sz) 0) (kh_mem h)\<rparr> else h)
            in (Some (block + 8), h))"

definition kzalloc :: "io_malloc \<Rightarrow> u64 \<Rightarrow> u32 \<Rightarrow> kheap \<Rightarrow> nat option \<times> kheap" where
  "kzalloc alloc sz flags h = kmalloc alloc sz (flags OR GFP_ZERO) h"

definition kcalloc :: "io_malloc \<Rightarrow> u64 \<Rightarrow> u64 \<Rightarrow> u32 \<Rightarrow> kheap \<Rightarrow> nat option \<times> kheap" where
  "kcalloc alloc n sz flags h = kzalloc alloc (n * sz) flags h"

definition kmalloc_array :: "io_malloc \<Rightarrow> u64 \<Rightarrow> u64 \<Rightarrow> u32 \<Rightarrow> kheap \<Rightarrow> nat option \<times> kheap" where
  "kmalloc_array alloc n sz flags h = kmalloc alloc (n * sz) flags h"

text \<open>Address 0 is the null pointer.\<close>

definition kfree :: "nat \<Rightarrow> kheap \<Rightarrow> kheap option" where
  "kfree ptr h =
    (if ptr = 0 then Some h
     else if ptr < 0xffff000000000000 then Some h
     else let block = ptr - 8
          in IOFree block (unat (load64 block (kh_mem h) + 8)) h)"

definition kfree_const :: "nat \<Rightarrow> kheap \<Rightarrow> kheap option" where
  "kfree_const ptr h = kfree ptr h"

definition krealloc :: "io_malloc \<Rightarrow> nat \<Rightarrow> u64 \<Rightarrow> u32 \<Rightarrow> kheap \<Rightarrow> (nat option \<times> kheap) option" where
  "krealloc alloc ptr new_sz flags h =
    (if ptr = 0 then Some (kmalloc alloc new_sz flags h)
     else let old_sz = load64 (ptr - 8) (kh_mem h)
          in case kmalloc alloc new_sz flags h of
               (None, h) \<Rightarrow> Some (None, h)
             | (Some newp, h) \<Rightarrow>
                 let copy = (if old_sz < new_sz then old_sz else new_sz);
                     h = h\<lparr>kh_mem := store newp (load ptr (unat copy) (kh_mem h)) (kh_mem h)\<rparr>
                 in map_option (\<lambda>h. (Some newp, h)) (kfree ptr h))"

definition kmemdup :: "io_malloc \<Rightarrow> nat \<Rightarrow> u64 \<Rightarrow> u32 \<Rightarrow> kheap \<Rightarrow> nat option \<times> kheap" where
  "kmemdup alloc src len flags h =
    (case kmalloc alloc len flags h of
       (None, h) \<Rightarrow> (None, h)
     | (Some p, h) \<Rightarrow> (Some p, h\<lparr>kh_mem := store p (load src (unat len) (kh_mem h)) (kh_mem h)\<rparr>))"

text \<open>\<open>s\<close> is the string at \<open>src\<close>, without its terminating zero.\<close>

definition kstrdup :: "io_malloc \<Rightarrow> bytes \<Rightarrow> u32 \<Rightarrow> kheap \<Rightarrow> nat option \<times> kheap" where
  "kstrdup alloc s flags h =
    (let len = word_of_nat (length s) + 1
     in case kmalloc alloc len flags h of
          (None, h) \<Rightarrow> (None, h)
        | (Some p, h) \<Rightarrow> (Some p, h\<lparr>kh_mem := store p (s @ [0]) (kh_mem h)\<rparr>))"

record kmem_cache =
  kc_obj_size :: u64
  kc_name :: bytes

definition kmem_cache_alloc :: "io_malloc \<Rightarrow> kmem_cache \<Rightarrow> u32 \<Rightarrow> kheap \<Rightarrow> nat option \<times> kheap" where
  "kmem_cache_alloc alloc c flags h = kzalloc alloc (kc_obj_size c) flags h"

definition kmem_cache_free :: "kmem_cache \<Rightarrow> nat \<Rightarrow> kheap \<Rightarrow> kheap option" where
  "kmem_cache_free c obj h = kfree obj h"

section \<open>Loads and stores\<close>

lemma load_store_same [simp]: "n = length bs \<Longrightarrow> load a n (store a bs m) = bs"
  by (auto simp: load_def store_def intro: nth_equalityI)

lemma load_store_other: "a + n \<le> b \<or> b + length bs \<le> a \<Longrightarrow> load a n (store b bs m) = load a n m"
  by (auto simp: load_def store_def)

lemma load64_store64 [simp]: "load64 a (store64 a w m) = w"
  by (simp add: load64_def store64_def word_le_bytes_le take_bit_word_eq_self)

lemma load64_store: "a + 8 \<le> b \<or> b + length bs \<le> a \<Longrightarrow> load64 a (store b bs m) = load64 a m"
  by (simp add: load64_def load_store_other)

lemma load64_store64_other: "a + 8 \<le> b \<or> b + 8 \<le> a \<Longrightarrow> load64 a (store64 b w m) = load64 a m"
  by (simp add: store64_def load64_store)

lemma load_store64_other: "a + n \<le> b \<or> b + 8 \<le> a \<Longrightarrow> load a n (store64 b w m) = load a n m"
  by (simp add: store64_def load_store_other)

section \<open>The invariant\<close>

text \<open>What \<open>IOMalloc\<close> promises: kernel addresses, away from every live block.\<close>

definition io_malloc_ok :: "io_malloc \<Rightarrow> bool" where
  "io_malloc_ok alloc \<longleftrightarrow> (\<forall>h n a. alloc h n = Some a \<longrightarrow>
    0xffff000000000000 \<le> a \<and> a + n \<le> 2 ^ 64 \<and>
    (\<forall>b m. kh_blocks h b = Some m \<longrightarrow> a + n \<le> b \<or> b + m \<le> a))"

text \<open>Every block starts with a header that tells the rest of its size, and blocks are disjoint.\<close>

definition heap_ok :: "kheap \<Rightarrow> bool" where
  "heap_ok h \<longleftrightarrow>
    (\<forall>a n. kh_blocks h a = Some n \<longrightarrow>
      0xffff000000000000 \<le> a \<and> 8 \<le> n \<and> n < 2 ^ 64 \<and> load64 a (kh_mem h) = word_of_nat (n - 8)) \<and>
    (\<forall>a n b m. kh_blocks h a = Some n \<longrightarrow> kh_blocks h b = Some m \<longrightarrow> a \<noteq> b \<longrightarrow> a + n \<le> b \<or> b + m \<le> a)"

text \<open>The size of the object at \<open>p\<close>.\<close>

definition obj :: "kheap \<Rightarrow> nat \<Rightarrow> nat option" where
  "obj h p = (if p < 8 then None else map_option (\<lambda>n. n - 8) (kh_blocks h (p - 8)))"

lemma objD:
  assumes "heap_ok h" "obj h p = Some n"
  shows "kh_blocks h (p - 8) = Some (n + 8)" "0xffff000000000000 \<le> p - 8" "n + 8 < 2 ^ 64"
    "load64 (p - 8) (kh_mem h) = word_of_nat n" "p = p - 8 + 8"
proof -
  obtain z where z: "8 \<le> p" "kh_blocks h (p - 8) = Some z" "n = z - 8"
    using assms(2) by (auto simp: obj_def split: if_splits)
  have b: "0xffff000000000000 \<le> p - 8" "8 \<le> z" "z < 2 ^ 64" "load64 (p - 8) (kh_mem h) = word_of_nat (z - 8)"
    using assms(1) z(2) unfolding heap_ok_def by blast+
  show "kh_blocks h (p - 8) = Some (n + 8)" "0xffff000000000000 \<le> p - 8" "n + 8 < 2 ^ 64"
    "load64 (p - 8) (kh_mem h) = word_of_nat n" "p = p - 8 + 8"
    using z b by simp_all
qed

lemma header_total:
  assumes "n + 8 < 2 ^ 64"
  shows "unat (word_of_nat n + 8 :: u64) = n + 8"
proof -
  have e: "(word_of_nat n + 8 :: u64) = word_of_nat (n + 8)" by simp
  show ?thesis unfolding e unat_of_nat using assms by (intro mod_less) simp
qed

lemma kfree_obj:
  assumes "heap_ok h" "obj h p = Some n"
  shows "kfree p h = Some (h\<lparr>kh_blocks := (kh_blocks h)(p - 8 := None)\<rparr>)"
proof -
  note o = objD[OF assms]
  have "p \<noteq> 0" "\<not> p < 0xffff000000000000" using o(2) by linarith+
  then show ?thesis using o(1,4) header_total[OF o(3)] by (simp add: kfree_def Let_def IOFree_def)
qed

lemma heap_ok_free: "heap_ok h \<Longrightarrow> heap_ok (h\<lparr>kh_blocks := (kh_blocks h)(a := None)\<rparr>)"
  unfolding heap_ok_def by simp

lemma heap_ok_write:
  assumes "heap_ok h" "obj h p = Some n" "off + length bs \<le> n"
  shows "heap_ok (h\<lparr>kh_mem := store (p + off) bs (kh_mem h)\<rparr>)"
proof -
  note o = objD[OF assms(1,2)]
  have "load64 a (store (p + off) bs (kh_mem h)) = load64 a (kh_mem h)" if "kh_blocks h a = Some m" for a m
  proof (rule load64_store)
    show "a + 8 \<le> p + off \<or> p + off + length bs \<le> a"
    proof (cases "a = p - 8")
      case True
      then show ?thesis using o(5) by linarith
    next
      case False
      then have "a + m \<le> p - 8 \<or> p - 8 + (n + 8) \<le> a" "8 \<le> m"
        using assms(1) that o(1) unfolding heap_ok_def by blast+
      then show ?thesis using assms(3) o(5) by linarith
    qed
  qed
  then show ?thesis using assms(1) by (simp add: heap_ok_def)
qed

section \<open>The allocator keeps its promises\<close>

lemma unat_total:
  assumes "sz < - 8"
  shows "unat (sz + 8 :: u64) = unat sz + 8"
proof -
  have "unat (- 8 :: u64) = 2 ^ 64 - 8" by simp
  then have "unat sz < 2 ^ 64 - 8" using assms by (simp add: word_less_nat_alt)
  moreover have "sz + 8 = word_of_nat (unat sz + 8)" by simp
  ultimately show ?thesis unfolding unat_plus_if' by simp
qed

text \<open>A new block whose memory is written by the allocator only.\<close>

lemma heap_ok_alloc:
  assumes "heap_ok h" "io_malloc_ok alloc" "alloc h (n + 8) = Some a" "n + 8 < 2 ^ 64"
    "\<And>x. x < a \<or> a + (n + 8) \<le> x \<Longrightarrow> m x = kh_mem h x" "load64 a m = word_of_nat n"
  shows "heap_ok \<lparr>kh_blocks = (kh_blocks h)(a \<mapsto> n + 8), kh_mem = m\<rparr>" "kh_blocks h a = None"
    "\<And>q k. obj h q = Some k \<Longrightarrow> load q k m = load q k (kh_mem h)"
proof -
  have al: "0xffff000000000000 \<le> a"
    "\<And>b k. kh_blocks h b = Some k \<Longrightarrow> a + (n + 8) \<le> b \<or> b + k \<le> a"
    using assms(2,3) unfolding io_malloc_ok_def by blast+
  have keep: "m x = kh_mem h x" if "kh_blocks h b = Some k" "b \<le> x" "x < b + k" for b k x
    using al(2)[OF that(1)] that(2,3) by (intro assms(5)) linarith
  have old: "0xffff000000000000 \<le> b" "8 \<le> k" "k < 2 ^ 64" "load64 b (kh_mem h) = word_of_nat (k - 8)"
    if "kh_blocks h b = Some k" for b k using assms(1) that unfolding heap_ok_def by blast+
  have hd: "load64 b m = load64 b (kh_mem h)" if "kh_blocks h b = Some k" for b k
  proof -
    have "load b 8 m = load b 8 (kh_mem h)" using keep[OF that] old(2)[OF that] by (simp add: load_def)
    then show ?thesis by (simp add: load64_def)
  qed
  show fresh: "kh_blocks h a = None"
  proof (cases "kh_blocks h a")
    case (Some k)
    then show ?thesis using al(2)[OF Some] old(2)[OF Some] by simp
  qed
  have dis: "b + k \<le> c \<or> c + l \<le> b"
    if "kh_blocks h b = Some k" "kh_blocks h c = Some l" "b \<noteq> c" for b c k l
    using assms(1) that unfolding heap_ok_def by blast
  show "heap_ok \<lparr>kh_blocks = (kh_blocks h)(a \<mapsto> n + 8), kh_mem = m\<rparr>"
    unfolding heap_ok_def using al old hd dis assms(4,6) by auto
  show "load q k m = load q k (kh_mem h)" if "obj h q = Some k" for q k
  proof -
    note o = objD[OF assms(1) that]
    show ?thesis unfolding load_def using o(5) keep[OF o(1)] by (intro map_cong refl keep[OF o(1)]) auto
  qed
qed

lemma kmalloc_cases:
  assumes "heap_ok h" "io_malloc_ok alloc" "sz < - 8"
  shows "kmalloc alloc sz fl h = (None, h) \<or>
    (\<exists>p h'. kmalloc alloc sz fl h = (Some p, h') \<and> heap_ok h' \<and> obj h' p = Some (unat sz) \<and>
      obj h p = None \<and> 8 \<le> p \<and> kh_blocks h' = (kh_blocks h)(p - 8 \<mapsto> unat sz + 8) \<and>
      (\<forall>q k. obj h q = Some k \<longrightarrow> load q k (kh_mem h') = load q k (kh_mem h)))"
proof (cases "alloc h (unat sz + 8)")
  case None
  then show ?thesis by (simp add: kmalloc_def IOMalloc_def unat_total[OF assms(3)])
next
  case (Some a)
  define m where "m = (if fl AND GFP_ZERO \<noteq> 0
    then store (a + 8) (replicate (unat sz) 0) (store64 a sz (kh_mem h)) else store64 a sz (kh_mem h))"
  have "IOMalloc alloc (unat (sz + 8)) h = Some (a, h\<lparr>kh_blocks := (kh_blocks h)(a \<mapsto> unat sz + 8)\<rparr>)"
    using Some by (simp add: IOMalloc_def unat_total[OF assms(3)])
  then have "kmalloc alloc sz fl h = (Some (a + 8), h\<lparr>kh_blocks := (kh_blocks h)(a \<mapsto> unat sz + 8), kh_mem := m\<rparr>)"
    by (simp add: kmalloc_def Let_def m_def)
  then have k: "kmalloc alloc sz fl h = (Some (a + 8), \<lparr>kh_blocks = (kh_blocks h)(a \<mapsto> unat sz + 8), kh_mem = m\<rparr>)"
    by simp
  have m: "m x = kh_mem h x" if "x < a \<or> a + (unat sz + 8) \<le> x" for x
    using that by (auto simp: m_def store64_def store_def)
  have l: "load64 a m = word_of_nat (unat sz)" by (simp add: m_def load64_store)
  have "unat sz + 8 < 2 ^ 64" using unsigned_less[of "sz + 8", where ?'a = nat] unat_total[OF assms(3)] by simp
  note h' = heap_ok_alloc[OF assms(1,2) Some this m l]
  have "obj \<lparr>kh_blocks = (kh_blocks h)(a \<mapsto> unat sz + 8), kh_mem = m\<rparr> (a + 8) = Some (unat sz)"
    "obj h (a + 8) = None" using h'(2) by (simp_all add: obj_def)
  then show ?thesis using k h' by auto
qed

lemma obj_free:
  assumes "8 \<le> p" "p \<noteq> q"
  shows "obj (h\<lparr>kh_blocks := (kh_blocks h)(p - 8 := None)\<rparr>) q = obj h q"
  using assms by (auto simp: obj_def)

lemma krealloc_cases:
  assumes "heap_ok h" "io_malloc_ok alloc" "sz < - 8" "obj h p = Some n"
  shows "krealloc alloc p sz fl h = Some (None, h) \<or>
    (\<exists>q h'. krealloc alloc p sz fl h = Some (Some q, h') \<and> heap_ok h' \<and> obj h' p = None \<and>
      obj h' q = Some (unat sz) \<and>
      load q (min n (unat sz)) (kh_mem h') = load p (min n (unat sz)) (kh_mem h))"
proof -
  note o = objD[OF assms(1,4)]
  have p: "p \<noteq> 0" "8 \<le> p" using o(2,5) by linarith+
  have un: "unat (word_of_nat n :: u64) = n" unfolding unat_of_nat using o(3) by (intro mod_less) simp
  define copy where "copy = (if word_of_nat n < sz then word_of_nat n else sz :: u64)"
  have copy: "unat copy = min n (unat sz)" by (auto simp: copy_def un word_less_nat_alt)
  consider "kmalloc alloc sz fl h = (None, h)"
    | q h1 where "kmalloc alloc sz fl h = (Some q, h1)" "heap_ok h1" "obj h1 q = Some (unat sz)" "obj h q = None" "8 \<le> q"
        "kh_blocks h1 = (kh_blocks h)(q - 8 \<mapsto> unat sz + 8)"
        "\<And>r k. obj h r = Some k \<Longrightarrow> load r k (kh_mem h1) = load r k (kh_mem h)"
    using kmalloc_cases[OF assms(1-3), of fl] by blast
  then show ?thesis
  proof cases
    case 1
    then show ?thesis using p by (simp add: krealloc_def)
  next
    case 2
    have "q \<noteq> p" using 2(4) assms(4) by auto
    then have qp: "q - 8 \<noteq> p - 8" using p 2(5) by linarith
    have op: "obj h1 p = Some n" using assms(4) qp p by (simp add: obj_def 2(6))
    have "load p (min n (unat sz)) (kh_mem h1) = take (min n (unat sz)) (load p n (kh_mem h1))"
      by (simp add: load_def take_map min_def)
    also have "\<dots> = load p (min n (unat sz)) (kh_mem h)"
      unfolding 2(7)[OF assms(4)] by (simp add: load_def take_map min_def)
    finally have lp: "load p (min n (unat sz)) (kh_mem h1) = load p (min n (unat sz)) (kh_mem h)" .
    define h2 where "h2 = h1\<lparr>kh_mem := store q (load p (min n (unat sz)) (kh_mem h)) (kh_mem h1)\<rparr>"
    have len: "length (load p k m) = k" for k m by (simp add: load_def)
    have ok2: "heap_ok h2" using heap_ok_write[OF 2(2,3), of 0] by (simp add: h2_def len)
    have o2: "obj h2 r = obj h1 r" for r by (simp add: h2_def obj_def)
    have f: "kfree p h2 = Some (h2\<lparr>kh_blocks := (kh_blocks h2)(p - 8 := None)\<rparr>)"
      using kfree_obj[OF ok2, of p n] op o2 by simp
    define h3 where "h3 = h2\<lparr>kh_blocks := (kh_blocks h2)(p - 8 := None)\<rparr>"
    have "krealloc alloc p sz fl h = Some (Some q, h3)"
      using p f 2(1) o(4) by (simp add: krealloc_def Let_def copy_def[symmetric] copy lp h2_def[symmetric] h3_def)
    moreover have "heap_ok h3" unfolding h3_def using ok2 by (rule heap_ok_free)
    moreover have "obj h3 p = None" by (simp add: h3_def obj_def)
    moreover have "obj h3 q = Some (unat sz)" using obj_free[OF p(2), of q h2] 2(3) o2 \<open>q \<noteq> p\<close> by (simp add: h3_def)
    moreover have "load q (min n (unat sz)) (kh_mem h3) = load p (min n (unat sz)) (kh_mem h)"
      by (simp add: h3_def h2_def len)
    ultimately show ?thesis by blast
  qed
qed

text \<open>What a client that respects its objects can do.  The other allocating functions are \<open>kmalloc\<close>
  with other arguments.\<close>

inductive kstep :: "io_malloc \<Rightarrow> kheap \<Rightarrow> kheap \<Rightarrow> bool" for alloc where
  ks_malloc: "sz < - 8 \<Longrightarrow> kstep alloc h (snd (kmalloc alloc sz fl h))"
| ks_realloc: "sz < - 8 \<Longrightarrow> obj h p = Some n \<Longrightarrow> krealloc alloc p sz fl h = Some (r, h') \<Longrightarrow> kstep alloc h h'"
| ks_free: "obj h p = Some n \<Longrightarrow> kfree p h = Some h' \<Longrightarrow> kstep alloc h h'"
| ks_write: "obj h p = Some n \<Longrightarrow> off + length bs \<le> n \<Longrightarrow> kstep alloc h (h\<lparr>kh_mem := store (p + off) bs (kh_mem h)\<rparr>)"

inductive kreach :: "io_malloc \<Rightarrow> kheap \<Rightarrow> bool" for alloc where
  kr_init: "kreach alloc \<lparr>kh_blocks = Map.empty, kh_mem = m\<rparr>"
| kr_step: "kreach alloc h \<Longrightarrow> kstep alloc h h' \<Longrightarrow> kreach alloc h'"

lemma kstep_ok:
  assumes "kstep alloc h h'" "heap_ok h" "io_malloc_ok alloc"
  shows "heap_ok h'"
  using assms(1)
proof cases
  case (ks_malloc sz fl)
  then show ?thesis using kmalloc_cases[OF assms(2,3), of sz fl] assms(2) by auto
next
  case (ks_realloc sz p n fl r)
  then show ?thesis using krealloc_cases[OF assms(2,3) ks_realloc(1,2), of fl] assms(2) by auto
next
  case (ks_free p n)
  then show ?thesis using kfree_obj[OF assms(2)] heap_ok_free[OF assms(2)] by auto
next
  case (ks_write p n off bs)
  then show ?thesis using heap_ok_write[OF assms(2)] by simp
qed

lemma kreach_ok: "kreach alloc h \<Longrightarrow> io_malloc_ok alloc \<Longrightarrow> heap_ok h"
  by (induction rule: kreach.induct) (auto simp: heap_ok_def[of "\<lparr>kh_blocks = Map.empty, kh_mem = _\<rparr>"] dest: kstep_ok)


definition demo_alloc :: io_malloc where
  "demo_alloc h n = (if kh_blocks h = Map.empty \<and> n \<le> 4096 then Some 0xffff000000001000 else None)"

lemma demo_alloc_ok: "io_malloc_ok demo_alloc"
  by (auto simp: io_malloc_ok_def demo_alloc_def split: if_splits)


end
