(* ===== verification/Dma.thy ===== *)
theory Dma
  imports Slab "HOL-Library.Multiset"
begin

text \<open>
  The DMA buffers of \<open>src/kext/RTW88PCIDevice.cpp\<close> and \<open>src/compat/linux/dma-mapping.h\<close>.  Every mapping
  is bounced through a buffer below 4 GB that is tracked in a list; a buffer freed while preemption
  is disabled waits in a second list until the next drain.  A buffer is known by the descriptor
  that owns it; \<open>dm_released\<close> records the descriptors that were completed and released, in order.
  Addresses are natural numbers, 0 is null.
\<close>

section \<open>State\<close>

record dma_entry =
  de_desc :: nat
  de_virt :: nat
  de_phys :: nat
  de_size :: nat
  de_orig :: nat

record dma =
  dm_ram :: "nat \<Rightarrow> u8"
  dm_list :: "dma_entry list"
  dm_pending :: "dma_entry list"
  dm_released :: "nat list"

definition DMA_FROM_DEVICE :: nat where "DMA_FROM_DEVICE = 0"
definition DMA_TO_DEVICE :: nat where "DMA_TO_DEVICE = 1"
definition DMA_BIDIRECTIONAL :: nat where "DMA_BIDIRECTIONAL = 2"

section \<open>The device class\<close>

text \<open>\<open>buf\<close> is the answer of the memory system (descriptor, virtual and physical address), \<open>entry_ok\<close>
  that of the allocator.  The results are the virtual address and what is stored through \<open>phys\<close>,
  which starts as 0.\<close>

definition allocCoherent :: "(nat \<times> nat \<times> nat) option \<Rightarrow> bool \<Rightarrow> nat \<Rightarrow> dma \<Rightarrow> nat \<times> nat \<times> dma" where
  "allocCoherent buf entry_ok sz d =
    (case buf of
       None \<Rightarrow> (0, 0, d)
     | Some (desc, va, pa) \<Rightarrow>
         let d = d\<lparr>dm_ram := store va (replicate sz 0) (dm_ram d)\<rparr>
         in if \<not> entry_ok then (0, pa, d\<lparr>dm_released := dm_released d @ [desc]\<rparr>)
            else (va, pa, d\<lparr>dm_list := \<lparr>de_desc = desc, de_virt = va, de_phys = pa, de_size = sz, de_orig = 0\<rparr> # dm_list d\<rparr>))"

text \<open>Unlinking the first entry that matches.\<close>

fun unlink_first :: "('a \<Rightarrow> bool) \<Rightarrow> 'a list \<Rightarrow> 'a option \<times> 'a list" where
  "unlink_first P [] = (None, [])"
| "unlink_first P (e # es) =
    (if P e then (Some e, es) else (case unlink_first P es of (r, es) \<Rightarrow> (r, e # es)))"

definition dispose :: "bool \<Rightarrow> dma_entry option \<times> dma_entry list \<Rightarrow> dma \<Rightarrow> dma" where
  "dispose preemption_enabled r d =
    (case r of
       (None, _) \<Rightarrow> d
     | (Some e, es) \<Rightarrow>
         let d = d\<lparr>dm_list := es\<rparr>
         in if preemption_enabled then d\<lparr>dm_released := dm_released d @ [de_desc e]\<rparr>
            else d\<lparr>dm_pending := e # dm_pending d\<rparr>)"

definition freeCoherent :: "bool \<Rightarrow> nat \<Rightarrow> dma \<Rightarrow> dma" where
  "freeCoherent pe virt d = dispose pe (unlink_first (\<lambda>e. de_virt e = virt) (dm_list d)) d"

definition freeCoherentByPhys :: "bool \<Rightarrow> nat \<Rightarrow> dma \<Rightarrow> dma" where
  "freeCoherentByPhys pe phys d = dispose pe (unlink_first (\<lambda>e. de_phys e = phys) (dm_list d)) d"

definition drainPendingFree :: "dma \<Rightarrow> dma" where
  "drainPendingFree d = d\<lparr>dm_pending := [], dm_released := dm_released d @ map de_desc (dm_pending d)\<rparr>"

fun update_first :: "('a \<Rightarrow> bool) \<Rightarrow> ('a \<Rightarrow> 'a) \<Rightarrow> 'a list \<Rightarrow> 'a list" where
  "update_first P f [] = []"
| "update_first P f (e # es) = (if P e then f e # es else e # update_first P f es)"

definition setBounceOrigVA :: "nat \<Rightarrow> nat \<Rightarrow> dma \<Rightarrow> dma" where
  "setBounceOrigVA phys orig_va d =
    d\<lparr>dm_list := update_first (\<lambda>e. de_phys e = phys) (\<lambda>e. e\<lparr>de_orig := orig_va\<rparr>) (dm_list d)\<rparr>"

definition syncBounceForCpu :: "nat \<Rightarrow> nat \<Rightarrow> dma \<Rightarrow> dma" where
  "syncBounceForCpu dma_addr sz d =
    (case find (\<lambda>e. de_phys e = dma_addr \<and> de_orig e \<noteq> 0 \<and> de_virt e \<noteq> 0) (dm_list d) of
       None \<Rightarrow> d
     | Some e \<Rightarrow>
         let copy_len = (if sz \<le> de_size e then sz else de_size e)
         in d\<lparr>dm_ram := store (de_orig e) (load (de_virt e) copy_len (dm_ram d)) (dm_ram d)\<rparr>)"

section \<open>The operations of the compatibility layer\<close>

text \<open>\<open>inst\<close>: there is a device instance.\<close>

definition compat_dma_alloc :: "bool \<Rightarrow> (nat \<times> nat \<times> nat) option \<Rightarrow> bool \<Rightarrow> nat \<Rightarrow> dma \<Rightarrow> nat \<times> nat \<times> dma" where
  "compat_dma_alloc inst buf entry_ok sz d = (if \<not> inst then (0, 0, d) else allocCoherent buf entry_ok sz d)"

definition compat_dma_free :: "bool \<Rightarrow> bool \<Rightarrow> nat \<Rightarrow> dma \<Rightarrow> dma" where
  "compat_dma_free inst pe cpu_addr d = (if inst then freeCoherent pe cpu_addr d else d)"

definition compat_dma_map :: "bool \<Rightarrow> (nat \<times> nat \<times> nat) option \<Rightarrow> bool \<Rightarrow> nat \<Rightarrow> nat \<Rightarrow> nat \<Rightarrow> dma \<Rightarrow> nat \<times> dma" where
  "compat_dma_map inst buf entry_ok ptr sz dir d =
    (if \<not> inst \<or> ptr = 0 then (0, d)
     else let (bounce, phys, d) = allocCoherent buf entry_ok sz d
          in if bounce = 0 then (0, d)
             else let d = setBounceOrigVA phys ptr d;
                      d = (if dir = 1 \<or> dir = 2
                           then d\<lparr>dm_ram := store bounce (load ptr sz (dm_ram d)) (dm_ram d)\<rparr> else d)
                  in (phys, d))"

definition compat_dma_unmap :: "bool \<Rightarrow> bool \<Rightarrow> nat \<Rightarrow> dma \<Rightarrow> dma" where
  "compat_dma_unmap inst pe addr d = (if inst then freeCoherentByPhys pe addr d else d)"

definition compat_dma_sync_cpu :: "bool \<Rightarrow> nat \<Rightarrow> nat \<Rightarrow> nat \<Rightarrow> dma \<Rightarrow> dma" where
  "compat_dma_sync_cpu inst addr sz dir d = (if dir = 0 \<and> inst then syncBounceForCpu addr sz d else d)"

definition compat_dma_sync_dev :: "nat \<Rightarrow> nat \<Rightarrow> nat \<Rightarrow> dma \<Rightarrow> dma" where
  "compat_dma_sync_dev addr sz dir d = d"

text \<open>The interface of \<open>dma-mapping.h\<close>; \<open>ops\<close>: the operations are installed, \<open>kz\<close>: what \<open>kzalloc\<close>
  returns when they are not.\<close>

definition dma_alloc_coherent :: "bool \<Rightarrow> nat \<Rightarrow> bool \<Rightarrow> (nat \<times> nat \<times> nat) option \<Rightarrow> bool \<Rightarrow> nat \<Rightarrow> dma \<Rightarrow>
    nat \<times> nat option \<times> dma" where
  "dma_alloc_coherent ops kz inst buf entry_ok sz d =
    (if ops then (case compat_dma_alloc inst buf entry_ok sz d of (v, h, d) \<Rightarrow> (v, (if inst then Some h else None), d))
     else (kz, (if kz \<noteq> 0 then Some kz else None), d))"

definition dma_map_single :: "bool \<Rightarrow> bool \<Rightarrow> (nat \<times> nat \<times> nat) option \<Rightarrow> bool \<Rightarrow> nat \<Rightarrow> nat \<Rightarrow> nat \<Rightarrow> dma \<Rightarrow> nat \<times> dma" where
  "dma_map_single ops inst buf entry_ok ptr sz dir d =
    (if ops then compat_dma_map inst buf entry_ok ptr sz dir d else (ptr, d))"

definition dma_unmap_single :: "bool \<Rightarrow> bool \<Rightarrow> bool \<Rightarrow> nat \<Rightarrow> dma \<Rightarrow> dma" where
  "dma_unmap_single ops inst pe addr d = (if ops then compat_dma_unmap inst pe addr d else d)"

definition dma_sync_single_for_cpu :: "bool \<Rightarrow> bool \<Rightarrow> nat \<Rightarrow> nat \<Rightarrow> nat \<Rightarrow> dma \<Rightarrow> dma" where
  "dma_sync_single_for_cpu ops inst addr sz dir d = (if ops then compat_dma_sync_cpu inst addr sz dir d else d)"

definition dma_mapping_error :: "nat \<Rightarrow> bool" where
  "dma_mapping_error addr \<longleftrightarrow> addr = 0 \<or> addr = 2 ^ 64 - 1"

definition DMA_BIT_MASK :: "nat \<Rightarrow> u64" where
  "DMA_BIT_MASK n = (if n < 64 then push_bit n 1 - 1 else - 1)"

section \<open>Every descriptor is released once\<close>

text \<open>What the driver and the device can do.\<close>

datatype dma_op =
    DmaAlloc "(nat \<times> nat \<times> nat) option" bool nat
  | DmaFree bool nat
  | DmaMap "(nat \<times> nat \<times> nat) option" bool nat nat nat
  | DmaUnmap bool nat
  | DmaSync nat nat nat
  | DmaDrain
  | DeviceWrite nat bytes

fun dma_do :: "dma_op \<Rightarrow> dma \<Rightarrow> dma" where
  "dma_do (DmaAlloc buf e sz) d = snd (snd (compat_dma_alloc True buf e sz d))"
| "dma_do (DmaFree pe v) d = compat_dma_free True pe v d"
| "dma_do (DmaMap buf e p sz dir) d = snd (compat_dma_map True buf e p sz dir d)"
| "dma_do (DmaUnmap pe a) d = compat_dma_unmap True pe a d"
| "dma_do (DmaSync a sz dir) d = compat_dma_sync_cpu True a sz dir d"
| "dma_do DmaDrain d = drainPendingFree d"
| "dma_do (DeviceWrite a bs) d = d\<lparr>dm_ram := store a bs (dm_ram d)\<rparr>"

definition dma_empty :: dma where
  "dma_empty = \<lparr>dm_ram = (\<lambda>_. 0), dm_list = [], dm_pending = [], dm_released = []\<rparr>"

text \<open>The descriptors the memory system has handed out for an operation.\<close>

fun handed_out :: "dma_op \<Rightarrow> nat list" where
  "handed_out (DmaAlloc (Some (desc, _, _)) _ _) = [desc]"
| "handed_out (DmaMap (Some (desc, _, _)) _ p _ _) = (if p = 0 then [] else [desc])"
| "handed_out _ = []"

definition dma_held :: "dma \<Rightarrow> nat multiset" where
  "dma_held d = mset (map de_desc (dm_list d)) + mset (map de_desc (dm_pending d)) + mset (dm_released d)"

lemma unlink_first_mset:
  "mset es = mset (snd (unlink_first P es)) + (case fst (unlink_first P es) of None \<Rightarrow> {#} | Some e \<Rightarrow> {#e#})"
proof (induction es)
  case (Cons e es)
  then show ?case by (cases "P e") (simp_all add: split_beta)
qed simp

lemma unlink_first_descs:
  "unlink_first P es = (Some e, es') \<Longrightarrow> mset (map de_desc es) = mset (map de_desc es') + {#de_desc e#}"
  using unlink_first_mset[of es P] by simp

lemma held_dispose: "dma_held (dispose pe (unlink_first P (dm_list d)) d) = dma_held d"
proof (cases "unlink_first P (dm_list d)")
  case (Pair r es)
  then show ?thesis using unlink_first_descs[of P "dm_list d" _ es]
    by (cases r) (simp_all add: dispose_def dma_held_def Let_def)
qed

lemma update_first_desc: "(\<And>e. de_desc (f e) = de_desc e) \<Longrightarrow> map de_desc (update_first P f es) = map de_desc es"
  by (induction es) simp_all

lemma held_setOrig [simp]: "dma_held (setBounceOrigVA p v d) = dma_held d"
  by (simp add: setBounceOrigVA_def dma_held_def update_first_desc)

lemma held_ram [simp]: "dma_held (d\<lparr>dm_ram := m\<rparr>) = dma_held d"
  by (simp add: dma_held_def)

lemma held_alloc:
  "allocCoherent buf ok sz d = (v, p, d') \<Longrightarrow>
    dma_held d' = dma_held d + (case buf of None \<Rightarrow> {#} | Some (desc, _, _) \<Rightarrow> {#desc#})"
  by (auto simp: allocCoherent_def dma_held_def Let_def split: option.splits if_splits)

lemma held_do: "dma_held (dma_do x d) = dma_held d + mset (handed_out x)"
proof (cases x)
  case (DmaAlloc buf e sz)
  obtain v p d' where a: "allocCoherent buf e sz d = (v, p, d')" by (metis prod_cases3)
  show ?thesis using held_alloc[OF a] a DmaAlloc
    by (cases buf) (auto simp: compat_dma_alloc_def)
next
  case (DmaMap buf e p sz dir)
  obtain v q d' where a: "allocCoherent buf e sz d = (v, q, d')" by (metis prod_cases3)
  show ?thesis using held_alloc[OF a] a DmaMap
    by (cases buf) (auto simp: compat_dma_map_def Let_def)
next
  case DmaDrain
  then show ?thesis by (simp add: drainPendingFree_def dma_held_def ac_simps)
qed (auto simp: compat_dma_free_def freeCoherent_def compat_dma_unmap_def freeCoherentByPhys_def held_dispose
    compat_dma_sync_cpu_def syncBounceForCpu_def Let_def split: option.splits)

lemma held_run: "dma_held (fold dma_do xs d) = dma_held d + mset (concat (map handed_out xs))"
  by (induction xs arbitrary: d) (simp_all add: held_do)

text \<open>C28. However the driver allocates, maps, unmaps and frees, with preemption enabled or not, with
  allocations failing at any point, and with addresses that were never mapped or are unmapped
  twice: each descriptor that the memory system handed out is, at every moment, either in use or
  waiting to be freed or released, and in only one of these at once.  No descriptor is released twice, and
  a drain leaves none waiting.\<close>

theorem dma_buffers_released_once:
  assumes "distinct (concat (map handed_out xs))"
  defines "d \<equiv> fold dma_do xs dma_empty"
  shows "distinct (map de_desc (dm_list d) @ map de_desc (dm_pending d) @ dm_released d) \<and>
    set (map de_desc (dm_list d) @ map de_desc (dm_pending d) @ dm_released d) = set (concat (map handed_out xs)) \<and>
    dm_pending (drainPendingFree d) = []"
proof -
  have "mset (map de_desc (dm_list d) @ map de_desc (dm_pending d) @ dm_released d) = mset (concat (map handed_out xs))"
    using held_run[of xs dma_empty] by (simp add: d_def dma_held_def dma_empty_def ac_simps)
  then show ?thesis using assms(1) mset_eq_imp_distinct_iff mset_eq_setD drainPendingFree_def
    by (metis (no_types, lifting) dma.select_convs(3) dma.surjective dma.update_convs(3) dma.update_convs(4))
qed

lemma dma_buffers_released_once_witness:
  "let xs = [DmaMap (Some (1, 100, 4096)) True 500 4 0, DmaAlloc (Some (2, 200, 8192)) False 8, DmaUnmap False 4096];
       d = fold dma_do xs dma_empty in
   distinct (map de_desc (dm_list d) @ map de_desc (dm_pending d) @ dm_released d) \<and>
    set (map de_desc (dm_list d) @ map de_desc (dm_pending d) @ dm_released d) = set (concat (map handed_out xs)) \<and>
    dm_pending (drainPendingFree d) = []"
  unfolding Let_def by (rule dma_buffers_released_once) simp

section \<open>Bouncing\<close>

text \<open>Bouncing loses nothing.  After mapping a buffer for the device to write, whatever the device
  writes to the bounce buffer arrives in the buffer of the driver when it synchronises, and after
  mapping one for the device to read, the device finds the bytes of the driver.  In both
  cases the mapping can be unmapped by the address it returned, which frees its descriptor and no
  other, and no other memory is touched.\<close>

theorem dma_bounce_roundtrip:
  assumes "ptr \<noteq> 0" "va \<noteq> 0" "length bs = sz" "ptr + sz \<le> va \<or> va + sz \<le> ptr"
  shows "(case compat_dma_map True (Some (desc, va, pa)) True ptr sz DMA_FROM_DEVICE d of (addr, d1) \<Rightarrow>
      addr = pa \<and>
      (let d2 = compat_dma_sync_cpu True addr sz DMA_FROM_DEVICE (dma_do (DeviceWrite va bs) d1) in
        load ptr sz (dm_ram d2) = bs \<and>
        (\<forall>x. (x < ptr \<or> ptr + sz \<le> x) \<and> (x < va \<or> va + sz \<le> x) \<longrightarrow> dm_ram d2 x = dm_ram d x) \<and>
        compat_dma_unmap True True addr d2 = d2\<lparr>dm_list := dm_list d, dm_released := dm_released d @ [desc]\<rparr>)) \<and>
    (case compat_dma_map True (Some (desc, va, pa)) True ptr sz DMA_TO_DEVICE d of (addr, d1) \<Rightarrow>
      addr = pa \<and> load va sz (dm_ram d1) = load ptr sz (dm_ram d) \<and> load ptr sz (dm_ram d1) = load ptr sz (dm_ram d))"
proof -
  have len: "length (load a n m) = n" for a n m by (simp add: load_def)
  have z: "load ptr sz (store va (replicate sz 0) m) = load ptr sz m" for m
    using assms(4) by (intro load_store_other) simp
  have z': "load ptr sz (store va (load ptr sz m) m') = load ptr sz m'" for m m'
    using assms(4) by (intro load_store_other) (simp add: len)
  show ?thesis using assms
    by (auto simp: compat_dma_map_def allocCoherent_def setBounceOrigVA_def compat_dma_sync_cpu_def
        syncBounceForCpu_def compat_dma_unmap_def freeCoherentByPhys_def dispose_def Let_def DMA_FROM_DEVICE_def
        DMA_TO_DEVICE_def z z' len) (auto simp: store_def)
qed

lemma dma_bounce_roundtrip_witness:
  "case compat_dma_map True (Some (1, 4096, 8192)) True 100 2 DMA_TO_DEVICE dma_empty of (addr, d1) \<Rightarrow>
      addr = 8192 \<and> load 4096 2 (dm_ram d1) = load 100 2 (dm_ram dma_empty) \<and>
      load 100 2 (dm_ram d1) = load 100 2 (dm_ram dma_empty)"
  using dma_bounce_roundtrip[where ptr = 100 and va = 4096 and bs = "[1, 2]" and sz = 2 and desc = 1 and pa = 8192 and d = dma_empty] by simp

end
