(* ===== verification/Pci.thy ===== *)
theory Pci
  imports Prelude
begin

text \<open>
  PCI configuration space: the accessors of \<open>RTW88PCIDevice\<close>, the shim that hands them to the Linux
  driver, the inline functions of \<open>src/compat/linux/pci.h\<close> and the walk over the capability list.
  The accessors of \<open>IOPCIDevice\<close> are the record \<open>config_ops\<close>, over any state of the device.
\<close>

record 'c config_ops =
  cfg_read8 :: "u8 \<Rightarrow> 'c \<Rightarrow> u8"
  cfg_read16 :: "u8 \<Rightarrow> 'c \<Rightarrow> u16"
  cfg_read32 :: "u8 \<Rightarrow> 'c \<Rightarrow> u32"
  cfg_write8 :: "u8 \<Rightarrow> u8 \<Rightarrow> 'c \<Rightarrow> 'c"
  cfg_write16 :: "u8 \<Rightarrow> u16 \<Rightarrow> 'c \<Rightarrow> 'c"
  cfg_write32 :: "u8 \<Rightarrow> u32 \<Rightarrow> 'c \<Rightarrow> 'c"

section \<open>Accessors: the offset is cut to a byte\<close>

definition pciReadByte :: "'c config_ops \<Rightarrow> int \<Rightarrow> 'c \<Rightarrow> u8" where
  "pciReadByte ops offset c = cfg_read8 ops (word_of_int offset) c"

definition pciReadWord :: "'c config_ops \<Rightarrow> int \<Rightarrow> 'c \<Rightarrow> u16" where
  "pciReadWord ops offset c = cfg_read16 ops (word_of_int offset) c"

definition pciReadDword :: "'c config_ops \<Rightarrow> int \<Rightarrow> 'c \<Rightarrow> u32" where
  "pciReadDword ops offset c = cfg_read32 ops (word_of_int offset) c"

definition pciWriteByte :: "'c config_ops \<Rightarrow> int \<Rightarrow> u8 \<Rightarrow> 'c \<Rightarrow> 'c" where
  "pciWriteByte ops offset v c = cfg_write8 ops (word_of_int offset) v c"

definition pciWriteWord :: "'c config_ops \<Rightarrow> int \<Rightarrow> u16 \<Rightarrow> 'c \<Rightarrow> 'c" where
  "pciWriteWord ops offset v c = cfg_write16 ops (word_of_int offset) v c"

definition pciWriteDword :: "'c config_ops \<Rightarrow> int \<Rightarrow> u32 \<Rightarrow> 'c \<Rightarrow> 'c" where
  "pciWriteDword ops offset v c = cfg_write32 ops (word_of_int offset) v c"

section \<open>The shim\<close>

text \<open>\<open>inst\<close>: there is a device instance.  The result is the return code with the value read.\<close>

definition compat_pci_read_config_byte :: "'c config_ops \<Rightarrow> bool \<Rightarrow> int \<Rightarrow> 'c \<Rightarrow> int \<times> u8" where
  "compat_pci_read_config_byte ops inst wh c = (if \<not> inst then (-1, 0xff) else (0, pciReadByte ops wh c))"

definition compat_pci_read_config_word :: "'c config_ops \<Rightarrow> bool \<Rightarrow> int \<Rightarrow> 'c \<Rightarrow> int \<times> u16" where
  "compat_pci_read_config_word ops inst wh c = (if \<not> inst then (-1, 0xffff) else (0, pciReadWord ops wh c))"

definition compat_pci_read_config_dword :: "'c config_ops \<Rightarrow> bool \<Rightarrow> int \<Rightarrow> 'c \<Rightarrow> int \<times> u32" where
  "compat_pci_read_config_dword ops inst wh c = (if \<not> inst then (-1, 0xffffffff) else (0, pciReadDword ops wh c))"

definition compat_pci_write_config_byte :: "'c config_ops \<Rightarrow> bool \<Rightarrow> int \<Rightarrow> u8 \<Rightarrow> 'c \<Rightarrow> int \<times> 'c" where
  "compat_pci_write_config_byte ops inst wh v c = (if \<not> inst then (-1, c) else (0, pciWriteByte ops wh v c))"

definition compat_pci_write_config_word :: "'c config_ops \<Rightarrow> bool \<Rightarrow> int \<Rightarrow> u16 \<Rightarrow> 'c \<Rightarrow> int \<times> 'c" where
  "compat_pci_write_config_word ops inst wh v c = (if \<not> inst then (-1, c) else (0, pciWriteWord ops wh v c))"

definition compat_pci_write_config_dword :: "'c config_ops \<Rightarrow> bool \<Rightarrow> int \<Rightarrow> u32 \<Rightarrow> 'c \<Rightarrow> int \<times> 'c" where
  "compat_pci_write_config_dword ops inst wh v c = (if \<not> inst then (-1, c) else (0, pciWriteDword ops wh v c))"

section \<open>What the Linux driver calls\<close>

text \<open>\<open>io\<close>: the operations are installed.\<close>

definition pci_read_config_byte :: "'c config_ops \<Rightarrow> bool \<Rightarrow> bool \<Rightarrow> int \<Rightarrow> 'c \<Rightarrow> int \<times> u8" where
  "pci_read_config_byte ops io inst wh c = (if io then compat_pci_read_config_byte ops inst wh c else (-1, 0xff))"

definition pci_read_config_word :: "'c config_ops \<Rightarrow> bool \<Rightarrow> bool \<Rightarrow> int \<Rightarrow> 'c \<Rightarrow> int \<times> u16" where
  "pci_read_config_word ops io inst wh c = (if io then compat_pci_read_config_word ops inst wh c else (-1, 0xffff))"

definition pci_read_config_dword :: "'c config_ops \<Rightarrow> bool \<Rightarrow> bool \<Rightarrow> int \<Rightarrow> 'c \<Rightarrow> int \<times> u32" where
  "pci_read_config_dword ops io inst wh c = (if io then compat_pci_read_config_dword ops inst wh c else (-1, 0xffffffff))"

definition pci_write_config_byte :: "'c config_ops \<Rightarrow> bool \<Rightarrow> bool \<Rightarrow> int \<Rightarrow> u8 \<Rightarrow> 'c \<Rightarrow> int \<times> 'c" where
  "pci_write_config_byte ops io inst wh v c = (if io then compat_pci_write_config_byte ops inst wh v c else (-1, c))"

definition pci_write_config_word :: "'c config_ops \<Rightarrow> bool \<Rightarrow> bool \<Rightarrow> int \<Rightarrow> u16 \<Rightarrow> 'c \<Rightarrow> int \<times> 'c" where
  "pci_write_config_word ops io inst wh v c = (if io then compat_pci_write_config_word ops inst wh v c else (-1, c))"

definition pci_write_config_dword :: "'c config_ops \<Rightarrow> bool \<Rightarrow> bool \<Rightarrow> int \<Rightarrow> u32 \<Rightarrow> 'c \<Rightarrow> int \<times> 'c" where
  "pci_write_config_dword ops io inst wh v c = (if io then compat_pci_write_config_dword ops inst wh v c else (-1, c))"

definition PCI_EXP_LNKCTL :: int where "PCI_EXP_LNKCTL = 0x10"
definition PCI_EXP_DEVCTL2 :: int where "PCI_EXP_DEVCTL2 = 0x28"

definition pcie_capability_set_word :: "'c config_ops \<Rightarrow> bool \<Rightarrow> bool \<Rightarrow> int \<Rightarrow> u16 \<Rightarrow> 'c \<Rightarrow> int \<times> 'c" where
  "pcie_capability_set_word ops io inst wh bits c =
    (let (ret, v) = pci_read_config_word ops io inst (0x100 + wh) c
     in if ret \<noteq> 0 then (ret, c) else pci_write_config_word ops io inst (0x100 + wh) (v OR bits) c)"

definition pcie_capability_clear_word :: "'c config_ops \<Rightarrow> bool \<Rightarrow> bool \<Rightarrow> int \<Rightarrow> u16 \<Rightarrow> 'c \<Rightarrow> int \<times> 'c" where
  "pcie_capability_clear_word ops io inst wh bits c =
    (let (ret, v) = pci_read_config_word ops io inst (0x100 + wh) c
     in if ret \<noteq> 0 then (ret, c) else pci_write_config_word ops io inst (0x100 + wh) (v AND NOT bits) c)"

definition pcie_capability_read_word :: "'c config_ops \<Rightarrow> bool \<Rightarrow> bool \<Rightarrow> int \<Rightarrow> 'c \<Rightarrow> int \<times> u16" where
  "pcie_capability_read_word ops io inst pos c = pci_read_config_word ops io inst pos c"

lemma byte_wraps: "(256 :: u8) = 0" "(272 :: u8) = 16"
  by (simp_all add: word_unat_eq_iff)

text \<open>Setting or clearing bits of the PCI Express capability acts on the standard header instead: the
  offset \<open>0x100 + where\<close> is cut to 8 bits, so the word that is read, changed and written back is the
  one at \<open>where\<close> itself.  For the link control register that is the first base address register, at
  \<open>0x10\<close>.\<close>

theorem pcie_capability_hits_header:
  "pcie_capability_set_word ops True True wh bits c =
     pci_write_config_word ops True True wh (snd (pci_read_config_word ops True True wh c) OR bits) c \<and>
   pcie_capability_clear_word ops True True wh bits c =
     pci_write_config_word ops True True wh (snd (pci_read_config_word ops True True wh c) AND NOT bits) c \<and>
   pcie_capability_set_word ops True True PCI_EXP_LNKCTL bits c =
     (0, cfg_write16 ops 0x10 (cfg_read16 ops 0x10 c OR bits) c)"
  by (simp add: pcie_capability_set_word_def pcie_capability_clear_word_def pci_read_config_word_def
      pci_write_config_word_def compat_pci_read_config_word_def compat_pci_write_config_word_def
      pciReadWord_def pciWriteWord_def byte_wraps PCI_EXP_LNKCTL_def Let_def)

section \<open>The capability list\<close>

text \<open>\<open>rd8\<close> reads a byte of configuration space.  The loop has no bound, so it may not return.\<close>

partial_function (option) cap_walk :: "(u8 \<Rightarrow> u8) \<Rightarrow> int \<Rightarrow> u8 \<Rightarrow> int option" where
  "cap_walk rd8 cap cap_ptr =
    (if cap_ptr = 0 then Some 0
     else if uint (rd8 cap_ptr) = cap then Some (uint cap_ptr)
     else cap_walk rd8 cap (rd8 (cap_ptr + 1) AND NOT 3))"

definition pciFindCapability :: "'c config_ops \<Rightarrow> int \<Rightarrow> 'c \<Rightarrow> int option" where
  "pciFindCapability ops cap c =
    cap_walk (\<lambda>off. cfg_read8 ops off c) cap (cfg_read8 ops 0x34 c AND NOT 3)"

definition compat_pci_find_capability :: "'c config_ops \<Rightarrow> bool \<Rightarrow> int \<Rightarrow> 'c \<Rightarrow> int option" where
  "compat_pci_find_capability ops inst cap c = (if \<not> inst then Some 0 else pciFindCapability ops cap c)"

definition pci_find_capability :: "'c config_ops \<Rightarrow> bool \<Rightarrow> bool \<Rightarrow> int \<Rightarrow> 'c \<Rightarrow> int option" where
  "pci_find_capability ops io inst cap c = (if io then compat_pci_find_capability ops inst cap c else Some 0)"

text \<open>The pointers in the order of the list, and the same walk with a bound.\<close>

fun cap_ptrs :: "(u8 \<Rightarrow> u8) \<Rightarrow> u8 \<Rightarrow> nat \<Rightarrow> u8" where
  "cap_ptrs rd8 p 0 = p"
| "cap_ptrs rd8 p (Suc n) = cap_ptrs rd8 (rd8 (p + 1) AND NOT 3) n"

fun cap_search :: "(u8 \<Rightarrow> u8) \<Rightarrow> int \<Rightarrow> nat \<Rightarrow> u8 \<Rightarrow> int option" where
  "cap_search rd8 cap 0 p = None"
| "cap_search rd8 cap (Suc n) p =
    (if p = 0 then Some 0 else if uint (rd8 p) = cap then Some (uint p)
     else cap_search rd8 cap n (rd8 (p + 1) AND NOT 3))"

definition cap_stop :: "(u8 \<Rightarrow> u8) \<Rightarrow> int \<Rightarrow> u8 \<Rightarrow> bool" where
  "cap_stop rd8 cap p \<longleftrightarrow> p = 0 \<or> uint (rd8 p) = cap"

lemma cap_search_walk: "cap_search rd8 cap n p = Some r \<Longrightarrow> cap_walk rd8 cap p = Some r"
proof (induction n arbitrary: p)
  case (Suc n)
  show ?case
  proof (cases "cap_stop rd8 cap p")
    case True
    then show ?thesis using Suc.prems by (subst cap_walk.simps) (auto simp: cap_stop_def split: if_splits)
  next
    case False
    then show ?thesis using Suc.prems Suc.IH by (subst cap_walk.simps) (simp add: cap_stop_def)
  qed
qed simp

lemma cap_search_stops: "(\<exists>k<n. cap_stop rd8 cap (cap_ptrs rd8 p k)) \<Longrightarrow> \<exists>r. cap_search rd8 cap n p = Some r"
proof (induction n arbitrary: p)
  case (Suc n)
  then obtain k where k: "k < Suc n" "cap_stop rd8 cap (cap_ptrs rd8 p k)" by blast
  show ?case
  proof (cases "cap_stop rd8 cap p")
    case False
    then have "k \<noteq> 0" using k(2) by (cases k) simp_all
    then obtain j where "k = Suc j" by (cases k) simp_all
    then show ?thesis using k False Suc.IH[of "rd8 (p + 1) AND NOT 3"] by (auto simp: cap_stop_def)
  qed (auto simp: cap_stop_def)
qed simp

lemma cap_walk_stops: "cap_walk rd8 cap p = Some r \<Longrightarrow> \<exists>k. cap_stop rd8 cap (cap_ptrs rd8 p k)"
proof (rule cap_walk.raw_induct[where P = "\<lambda>rd8 cap p r. \<exists>k. cap_stop rd8 cap (cap_ptrs rd8 p k)"])
  fix f :: "(u8 \<Rightarrow> u8) \<Rightarrow> int \<Rightarrow> u8 \<Rightarrow> int option" and rd8 cap p r
  assume IH: "\<And>rd8 cap p r. f rd8 cap p = Some r \<Longrightarrow> \<exists>k. cap_stop rd8 cap (cap_ptrs rd8 p k)"
    and r: "(if p = 0 then Some 0 else if uint (rd8 p) = cap then Some (uint p)
      else f rd8 cap (rd8 (p + 1) AND NOT 3)) = Some r"
  show "\<exists>k. cap_stop rd8 cap (cap_ptrs rd8 p k)"
  proof (cases "cap_stop rd8 cap p")
    case True
    then show ?thesis by (intro exI[of _ 0]) simp
  next
    case False
    then have "f rd8 cap (rd8 (p + 1) AND NOT 3) = Some r" using r by (simp add: cap_stop_def)
    then obtain k where "cap_stop rd8 cap (cap_ptrs rd8 (rd8 (p + 1) AND NOT 3) k)" using IH by blast
    then show ?thesis by (intro exI[of _ "Suc k"]) simp
  qed
qed

lemma cap_ptrs_Suc: "cap_ptrs rd8 p (Suc n) = rd8 (cap_ptrs rd8 p n + 1) AND NOT 3"
  by (induction n arbitrary: p) simp_all

lemma cap_ptrs_repeat: "cap_ptrs rd8 p i = cap_ptrs rd8 p j \<Longrightarrow> cap_ptrs rd8 p (i + k) = cap_ptrs rd8 p (j + k)"
  by (induction k) (simp_all add: cap_ptrs_Suc del: cap_ptrs.simps(2))

text \<open>A walk that stops at all stops before it has seen more pointers than there are bytes.\<close>

lemma cap_stops_early:
  assumes "cap_stop rd8 cap (cap_ptrs rd8 p k)"
  shows "\<exists>n<256. cap_stop rd8 cap (cap_ptrs rd8 p n)"
proof -
  define N where "N = (LEAST n. cap_stop rd8 cap (cap_ptrs rd8 p n))"
  have N: "cap_stop rd8 cap (cap_ptrs rd8 p N)" unfolding N_def using assms by (rule LeastI)
  have first: "\<not> cap_stop rd8 cap (cap_ptrs rd8 p n)" if "n < N" for n
    using that unfolding N_def by (rule not_less_Least)
  have "inj_on (cap_ptrs rd8 p) {..N}"
  proof (rule linorder_inj_onI)
    fix i j assume ij: "i < j" "i \<in> {..N}" "j \<in> {..N}"
    show "cap_ptrs rd8 p i \<noteq> cap_ptrs rd8 p j"
    proof
      assume "cap_ptrs rd8 p i = cap_ptrs rd8 p j"
      then have "cap_ptrs rd8 p (i + (N - j)) = cap_ptrs rd8 p N"
        using cap_ptrs_repeat[of rd8 p i j "N - j"] ij by simp
      moreover have "i + (N - j) < N" using ij by simp
      ultimately show False using first[of "i + (N - j)"] N by simp
    qed
  qed auto
  then have "card {..N} = card (cap_ptrs rd8 p ` {..N})" by (simp add: card_image)
  also have "\<dots> \<le> card (UNIV :: u8 set)" by (intro card_mono) simp_all
  finally have "N < 256" by (simp add: card_word)
  then show ?thesis using N by blast
qed

text \<open>C40. The search for a capability returns exactly what the same search with 256 steps finds: either it
  ends within 256 steps, at the first entry of the list with the wanted number or with 0 at the end
  of the list, or it never ends, which is the case when the list is cyclic and no entry matches.\<close>

theorem pciFindCapability_ends_or_hangs:
  "pciFindCapability ops cap c = cap_search (\<lambda>off. cfg_read8 ops off c) cap 256 (cfg_read8 ops 0x34 c AND NOT 3)"
proof -
  let ?rd8 = "\<lambda>off. cfg_read8 ops off c"
  let ?p = "cfg_read8 ops 0x34 c AND NOT 3"
  show ?thesis
  proof (cases "cap_walk ?rd8 cap ?p")
    case None
    then show ?thesis using cap_search_walk[of ?rd8 cap 256 ?p]
      by (cases "cap_search ?rd8 cap 256 ?p") (simp_all add: pciFindCapability_def)
  next
    case (Some r)
    then obtain k where "cap_stop ?rd8 cap (cap_ptrs ?rd8 ?p k)" using cap_walk_stops by blast
    then obtain r' where "cap_search ?rd8 cap 256 ?p = Some r'"
      using cap_stops_early cap_search_stops by blast
    then show ?thesis using cap_search_walk[of ?rd8 cap 256 ?p r'] by (simp add: pciFindCapability_def)
  qed
qed

end
