(* ===== verification/Pcidev.thy ===== *)
theory Pcidev
  imports MlmeProps Dma Log
begin

text \<open>
  The network controller of \<open>src/kext/RTW88PCIDevice.cpp\<close> above the state machine of \<open>Mlme\<close>: starting
  and tearing down, enabling and disabling, the flow control of the output queue, received packets,
  and the interrupt glue of \<open>src/compat/rtw88_compat.c\<close>.  Calls into IOKit are recorded in order in
  \<open>pd_calls\<close>; their answers are arguments.
\<close>

section \<open>State\<close>

text \<open>\<open>pd_last\<close> is the state machine as \<open>teardown\<close> left it, before it is released; \<open>pd_instance\<close> and
  \<open>pd_ops\<close> are the global pointers of the file.\<close>

datatype pd_call =
    TxQueueStart | TxQueueStop | TxQueueFlush | TxQueueService
  | IntrEnable | IntrDisable | FreePacket | InputPacket bytes
  | DumpTxState | DebugTimerArm | DebugTimerCancel | RegisterService
  | BusMasterEnable | MemoryEnable | LatencyTimer u8 | CompatInit | CompatExit | FindFwDir | ForceWifiOnly
  | PublishMediums

text \<open>The entries of the registry: the keys of IOKit and those of the driver.\<close>

datatype prop_key =
    IOVendor | IOModel | IORevision | IOBuiltin | IOLocation | IOMACAddress | IOPrimaryInterface | KeyName string

datatype prop_val = PString string | PTrue | PData bytes

record pcidev =
  pd_mlme :: "mlme option"
  pd_last :: "mlme option"
  pd_mac :: bytes
  pd_enabled :: bool
  pd_initialized :: bool
  pd_txStalled :: bool
  pd_iface :: bool
  pd_txQueue :: bool
  pd_intrSrc :: bool
  pd_debugTimer :: bool
  pd_dma :: dma
  pd_inputPackets :: u32
  pd_calls :: "pd_call list"
  pd_instance :: bool
  pd_ops :: bool
  pd_resume_cb :: bool
  pd_pciDev :: bool
  pd_mmio :: bool
  pd_compatPciDev :: "(u16 \<times> u16) option"
  pd_name :: string
  pd_props :: "prop_key \<rightharpoonup> prop_val"
  pd_ifaceName :: string
  pd_ifaceProps :: "prop_key \<rightharpoonup> prop_val"
  pd_workLoop :: bool
  pd_cmdGate :: bool

definition call :: "pd_call \<Rightarrow> pcidev \<Rightarrow> pcidev" where
  "call c d = d\<lparr>pd_calls := pd_calls d @ [c]\<rparr>"

definition kRTW88TxStallAvail :: u32 where "kRTW88TxStallAvail = 96"
definition kRTW88TxResumeAvail :: u32 where "kRTW88TxResumeAvail = 160"

datatype output_return = kIOReturnOutputSuccess | kIOReturnOutputStall | kIOReturnOutputDropped

section \<open>Names\<close>

definition chipDisplayName :: "u16 option \<Rightarrow> string" where
  "chipDisplayName device =
    (case device of
       None \<Rightarrow> ''Realtek Wireless''
     | Some dev \<Rightarrow>
         if dev = 0xB822 then ''RTL8822BE''
         else if dev = 0xC822 \<or> dev = 0xC82F then ''RTL8822CE''
         else if dev = 0xC821 \<or> dev = 0xB821 then ''RTL8821CE''
         else if dev = 0x8821 then ''RTL8821AE''
         else if dev = 0x8812 then ''RTL8812AE''
         else if dev = 0x8813 then ''RTL8814AE''
         else if dev = 0xD723 then ''RTL8723DE''
         else ''Realtek Wireless'')"

section \<open>Output\<close>

text \<open>\<open>avail\<close> is the number of free descriptors of the ring.\<close>

definition pd_outputPacket :: "hw_io \<Rightarrow> u32 \<Rightarrow> bytes \<Rightarrow> pcidev \<Rightarrow> (output_return \<times> pcidev) option" where
  "pd_outputPacket io avail p d =
    (let d = d\<lparr>pd_dma := drainPendingFree (pd_dma d)\<rparr>
     in case pd_mlme d of
          None \<Rightarrow> Some (kIOReturnOutputDropped, call FreePacket d)
        | Some m \<Rightarrow>
            if \<not> pd_enabled d then Some (kIOReturnOutputDropped, call FreePacket d)
            else if avail < kRTW88TxStallAvail then Some (kIOReturnOutputStall, d\<lparr>pd_txStalled := True\<rparr>)
            else do {
              (sent, m) \<leftarrow> outputPacket io p m;
              Some (if sent then kIOReturnOutputSuccess else kIOReturnOutputDropped, d\<lparr>pd_mlme := Some m\<rparr>) })"

definition resumeTxIfStalled :: "u32 \<Rightarrow> pcidev \<Rightarrow> pcidev" where
  "resumeTxIfStalled avail d =
    (if pd_txStalled d \<and> avail \<ge> kRTW88TxResumeAvail
     then let d = d\<lparr>pd_txStalled := False\<rparr> in if pd_txQueue d then call TxQueueService d else d
     else d)"

text \<open>The ring is asked twice; \<open>avail'\<close> is the second answer.\<close>

definition debugTimerFired :: "u32 \<Rightarrow> u32 \<Rightarrow> pcidev \<Rightarrow> pcidev" where
  "debugTimerFired avail avail' d =
    (let d = (if pd_txStalled d \<and> avail \<ge> kRTW88TxResumeAvail then resumeTxIfStalled avail' d else d);
         d = (if pd_txStalled d \<or> avail < kRTW88TxStallAvail then call DumpTxState d else d)
     in call DebugTimerArm d)"

definition rtw88_tx_resume_trampoline :: "u32 \<Rightarrow> pcidev \<Rightarrow> pcidev" where
  "rtw88_tx_resume_trampoline avail d = (if pd_instance d then resumeTxIfStalled avail d else d)"

section \<open>Interrupts\<close>

text \<open>What the driver has registered.\<close>

record irq =
  g_irq_handler :: bool
  g_irq_thread_fn :: bool
  g_irq_dev_id :: bool
  g_irq_thread_call :: bool

datatype irq_call = IrqHandler | IrqThreadFn | IrqThreadEnter | IrqThreadCancelWait | IrqThreadFree

definition IRQ_WAKE_THREAD :: int where "IRQ_WAKE_THREAD = 2"

definition rtw88_devm_request_threaded_irq :: "bool \<Rightarrow> bool \<Rightarrow> bool \<Rightarrow> bool \<Rightarrow> irq \<Rightarrow> int \<times> irq" where
  "rtw88_devm_request_threaded_irq handler thread_fn dev_id alloc_ok q =
    (let q = q\<lparr>g_irq_handler := handler, g_irq_thread_fn := thread_fn, g_irq_dev_id := dev_id\<rparr>
     in (0, if \<not> g_irq_thread_call q then q\<lparr>g_irq_thread_call := alloc_ok\<rparr> else q))"

definition rtw88_devm_free_irq :: "irq \<Rightarrow> irq_call list \<times> irq" where
  "rtw88_devm_free_irq q =
    ((if g_irq_thread_call q then [IrqThreadCancelWait, IrqThreadFree] else []),
     \<lparr>g_irq_handler = False, g_irq_thread_fn = False, g_irq_dev_id = False, g_irq_thread_call = False\<rparr>)"

text \<open>\<open>ret\<close> is what the handler of the driver answers.\<close>

definition rtw88_trigger_interrupt :: "int \<Rightarrow> irq \<Rightarrow> irq_call list" where
  "rtw88_trigger_interrupt ret q =
    (if g_irq_handler q \<and> g_irq_dev_id q
     then [IrqHandler] @ (if ret = IRQ_WAKE_THREAD \<and> g_irq_thread_call q then [IrqThreadEnter] else [])
     else [])"

text \<open>The bottom half: the thread function of the driver, and then the hook that resumes the queue, which
  sees the descriptors that are free afterwards.\<close>

definition rtw88_be_tx_avail :: "irq \<Rightarrow> u32 \<Rightarrow> u32" where
  "rtw88_be_tx_avail q ring_avail = (if \<not> g_irq_dev_id q then 0 else ring_avail)"

definition rtw88_irq_thread_wrapper :: "irq \<Rightarrow> u32 \<Rightarrow> pcidev \<Rightarrow> irq_call list \<times> pcidev" where
  "rtw88_irq_thread_wrapper q ring_avail d =
    ((if g_irq_thread_fn q \<and> g_irq_dev_id q then [IrqThreadFn] else []),
     if pd_resume_cb d then rtw88_tx_resume_trampoline (rtw88_be_tx_avail q ring_avail) d else d)"

definition pd_handleInterrupt :: "int \<Rightarrow> irq \<Rightarrow> pcidev \<Rightarrow> irq_call list" where
  "pd_handleInterrupt ret q d = (if pd_mlme d \<noteq> None then rtw88_trigger_interrupt ret q else [])"

section \<open>Polling\<close>

record napi =
  np_poll :: bool
  np_weight :: int
  np_thread_call :: bool

definition rtw88_netif_napi_add :: "bool \<Rightarrow> bool \<Rightarrow> napi \<Rightarrow> napi" where
  "rtw88_netif_napi_add poll_fn alloc_ok n =
    (let n = n\<lparr>np_poll := poll_fn, np_weight := 64\<rparr>
     in if \<not> np_thread_call n then n\<lparr>np_thread_call := alloc_ok\<rparr> else n)"

definition rtw88_netif_napi_del :: "napi \<Rightarrow> irq_call list \<times> napi" where
  "rtw88_netif_napi_del n =
    ((if np_thread_call n then [IrqThreadCancelWait, IrqThreadFree] else []),
     n\<lparr>np_thread_call := False, np_poll := False\<rparr>)"

definition rtw88_napi_schedule :: "napi \<Rightarrow> irq_call list" where
  "rtw88_napi_schedule n = (if np_poll n \<and> np_thread_call n then [IrqThreadEnter] else [])"

text \<open>\<open>poll k\<close>: the work done with budget \<open>k\<close>; the thread enters itself again while the budget is used up.\<close>

definition rtw88_napi_thread_wrapper :: "(int \<Rightarrow> int) \<Rightarrow> napi \<Rightarrow> irq_call list" where
  "rtw88_napi_thread_wrapper poll n =
    (if np_poll n
     then let work = poll (np_weight n)
          in if work \<ge> np_weight n \<and> np_thread_call n then [IrqThreadEnter] else []
     else [])"

section \<open>Input\<close>

text \<open>A packet of the network stack has two length fields.\<close>

definition injectRxFrame :: "nat \<Rightarrow> nat \<Rightarrow> bytes \<Rightarrow> bool \<Rightarrow> pcidev \<Rightarrow> pcidev" where
  "injectRxFrame plen mlen pkt stats d =
    (let d = d\<lparr>pd_dma := drainPendingFree (pd_dma d)\<rparr>
     in if \<not> pd_iface d \<or> \<not> pd_enabled d then call FreePacket d
        else if plen < 14 \<or> plen > 4096 \<or> mlen < 14 \<or> mlen > 4096 then call FreePacket d
        else let d = call (InputPacket pkt) d
             in if stats then d\<lparr>pd_inputPackets := pd_inputPackets d + 1\<rparr> else d)"

section \<open>Enabling and disabling\<close>

definition pd_enable :: "hw_io \<Rightarrow> pcidev \<Rightarrow> IOReturn \<times> pcidev" where
  "pd_enable io d =
    (if pd_enabled d then (kIOReturnSuccess, d)
     else case pd_mlme d of
       None \<Rightarrow> (kIOReturnNotReady, d)
     | Some m \<Rightarrow>
         let (ret, m) = powerOn io m;
             d = d\<lparr>pd_mlme := Some m\<rparr>
         in if ret \<noteq> kIOReturnSuccess then (ret, d)
            else let d = (if pd_txQueue d then call TxQueueStart d else d);
                     d = (if pd_intrSrc d then call IntrEnable d else d)
                 in (kIOReturnSuccess, d\<lparr>pd_enabled := True\<rparr>))"

definition pd_disable :: "hw_io \<Rightarrow> pcidev \<Rightarrow> pcidev" where
  "pd_disable io d =
    (if \<not> pd_enabled d then d
     else let d = d\<lparr>pd_enabled := False\<rparr>;
              d = (if pd_intrSrc d then call IntrDisable d else d);
              d = (if pd_txQueue d then call TxQueueFlush (call TxQueueStop d) else d)
          in d\<lparr>pd_mlme := map_option (powerOff io) (pd_mlme d)\<rparr>)"

definition getHardwareAddress :: "pcidev \<Rightarrow> (bytes option \<times> pcidev)" where
  "getHardwareAddress d =
    (case pd_mlme d of None \<Rightarrow> (None, d) | Some m \<Rightarrow> (Some (l_mac m), d\<lparr>pd_mac := l_mac m\<rparr>))"

definition setHardwareAddress :: "bytes \<Rightarrow> pcidev \<Rightarrow> pcidev" where
  "setHardwareAddress addr d = d\<lparr>pd_mac := addr\<rparr>"

definition getMaxPacketSize :: nat where "getMaxPacketSize = 2346"

section \<open>Starting and tearing down\<close>

text \<open>What each call that \<open>start\<close> makes answers, in the order of the calls.\<close>

record start_answers =
  sa_super :: bool
  sa_pci :: bool
  sa_map :: bool
  sa_compat :: bool
  sa_ids :: "u16 \<times> u16"
  sa_workloop :: bool
  sa_gate :: bool
  sa_intr :: bool
  sa_create :: bool
  sa_chip :: bool
  sa_probe :: bool
  sa_mac :: "bytes option"
  sa_attach :: bool
  sa_medium :: bool
  sa_queue :: bool
  sa_timer :: bool

definition identity_props :: "string \<Rightarrow> (prop_key \<times> prop_val) list" where
  "identity_props chip =
    [(IOVendor, PString ''Realtek''), (IOModel, PString chip), (IORevision, PString ''rtw88''), (IOBuiltin, PTrue),
     (IOLocation, PString ''Internal''), (KeyName ''IOUserVisibleName'', PString chip),
     (KeyName ''Product Name'', PString chip), (KeyName ''Device Name'', PString chip),
     (KeyName ''Model'', PString chip), (KeyName ''Vendor'', PString ''Realtek'')]"

definition mac_prop :: "bytes \<Rightarrow> (prop_key \<times> prop_val) list" where
  "mac_prop mac = (if \<exists>c \<in> set (take 6 mac). c \<noteq> 0 then [(IOMACAddress, PData mac)] else [])"

definition publishHardwareIdentity :: "pcidev \<Rightarrow> pcidev" where
  "publishHardwareIdentity d =
    (let chip = chipDisplayName (map_option snd (pd_compatPciDev d));
         d = (case pd_mlme d of None \<Rightarrow> d | Some m \<Rightarrow> d\<lparr>pd_mac := l_mac m\<rparr>);
         d = d\<lparr>pd_name := chip, pd_props := pd_props d ++ map_of (rev (identity_props chip @ mac_prop (pd_mac d)))\<rparr>
     in if pd_iface d
        then d\<lparr>pd_ifaceName := chip,
               pd_ifaceProps := pd_ifaceProps d ++
                 map_of (rev (identity_props chip @ [(IOPrimaryInterface, PTrue)] @ mac_prop (pd_mac d)))\<rparr>
        else d)"

definition attachDevice :: "start_answers \<Rightarrow> pcidev \<Rightarrow> bool \<times> pcidev" where
  "attachDevice a d =
    (if \<not> sa_attach a then (False, d)
     else let d = publishHardwareIdentity (d\<lparr>pd_iface := True\<rparr>)
          in if \<not> sa_medium a then (False, d)
             else (True, (call PublishMediums d)\<lparr>pd_txQueue := sa_queue a\<rparr>))"

definition pd_start :: "hw_io \<Rightarrow> start_answers \<Rightarrow> pcidev \<Rightarrow> bool \<times> pcidev" where
  "pd_start io a d =
    (if \<not> sa_super a then (False, d)
     else if \<not> sa_pci a then (False, d)
     else let d = call (LatencyTimer 0x80) (call MemoryEnable (call BusMasterEnable (d\<lparr>pd_pciDev := True\<rparr>)))
     in if \<not> sa_map a then (False, d)
     else let d = call CompatInit (d\<lparr>pd_mmio := True, pd_instance := True, pd_ops := True\<rparr>)
     in if \<not> sa_compat a then (False, d)
     else let d = d\<lparr>pd_compatPciDev := Some (sa_ids a)\<rparr>
     in if \<not> sa_workloop a then (False, d)
     else let d = d\<lparr>pd_workLoop := True\<rparr>
     in if \<not> sa_gate a then (False, d)
     else let d = d\<lparr>pd_cmdGate := True\<rparr>
     in if \<not> sa_intr a then (False, d)
     else let d = call FindFwDir (d\<lparr>pd_intrSrc := True\<rparr>)
     in if \<not> sa_create a then (False, d)
     else let (ret, m) = mlme_start io (sa_chip a) (sa_probe a) (sa_mac a) mlme_init;
              d = (call ForceWifiOnly d)\<lparr>pd_mlme := Some m\<rparr>
     in if ret \<noteq> kIOReturnSuccess then (False, d)
     else let (r, d) = attachDevice a d
     in if \<not> r then (False, d)
     else let d = d\<lparr>pd_initialized := True, pd_resume_cb := True\<rparr>;
              d = (if pd_intrSrc d then call IntrEnable d else d);
              d = (if sa_timer a then call DebugTimerArm (d\<lparr>pd_debugTimer := True\<rparr>) else d)
     in (True, call RegisterService d))"

definition teardown :: "hw_io \<Rightarrow> pcidev \<Rightarrow> pcidev" where
  "teardown io d =
    (let d = d\<lparr>pd_resume_cb := False\<rparr>;
         d = (if pd_debugTimer d then call DebugTimerCancel d else d);
         d = (if pd_intrSrc d then call IntrDisable d else d);
         d = (if pd_txQueue d then call TxQueueFlush (call TxQueueStop d) else d);
         d = (if pd_enabled d then pd_disable io d else d);
         d = d\<lparr>pd_dma := drainPendingFree (pd_dma d)\<rparr>;
         d = call CompatExit (d\<lparr>pd_last := map_option (mlme_stop io) (pd_mlme d), pd_mlme := None\<rparr>);
         d = (if pd_debugTimer d then call DebugTimerCancel (d\<lparr>pd_debugTimer := False\<rparr>) else d)
     in d\<lparr>pd_intrSrc := False, pd_cmdGate := False, pd_txQueue := False, pd_iface := False, pd_workLoop := False,
          pd_mmio := False, pd_pciDev := False, pd_instance := False, pd_ops := False\<rparr>)"

definition pd_free :: "pcidev \<Rightarrow> pcidev" where
  "pd_free d = d\<lparr>pd_compatPciDev := None, pd_dma := drainPendingFree (pd_dma d)\<rparr>"

section \<open>Flow control\<close>

text \<open>What can resume the queue: the bottom half of an interrupt, or the periodic timer.\<close>

datatype tick = BottomHalf u32 | DebugTick u32 u32

fun tick_avail :: "tick \<Rightarrow> u32" where
  "tick_avail (BottomHalf a) = a"
| "tick_avail (DebugTick a b) = min a b"

fun do_tick :: "irq \<Rightarrow> tick \<Rightarrow> pcidev \<Rightarrow> pcidev" where
  "do_tick q (BottomHalf a) d = snd (rtw88_irq_thread_wrapper q a d)"
| "do_tick q (DebugTick a b) d = debugTimerFired (rtw88_be_tx_avail q a) (rtw88_be_tx_avail q b) d"

lemma call_fields [simp]:
  "pd_txStalled (call c d) = pd_txStalled d" "pd_txQueue (call c d) = pd_txQueue d"
  "pd_instance (call c d) = pd_instance d" "pd_resume_cb (call c d) = pd_resume_cb d"
  "pd_calls (call c d) = pd_calls d @ [c]" "pd_mlme (call c d) = pd_mlme d" "pd_ops (call c d) = pd_ops d"
  "pd_enabled (call c d) = pd_enabled d"
  by (simp_all add: call_def)

lemma resume_facts [simp]:
  "pd_txQueue (resumeTxIfStalled a d) = pd_txQueue d" "pd_instance (resumeTxIfStalled a d) = pd_instance d"
  "pd_resume_cb (resumeTxIfStalled a d) = pd_resume_cb d"
  "pd_txStalled (resumeTxIfStalled a d) = (pd_txStalled d \<and> a < kRTW88TxResumeAvail)"
  by (auto simp: resumeTxIfStalled_def Let_def not_le)

lemma resume_services:
  "pd_txQueue d \<Longrightarrow> count_list (pd_calls (resumeTxIfStalled a d)) TxQueueService =
    count_list (pd_calls d) TxQueueService + (if pd_txStalled d \<and> kRTW88TxResumeAvail \<le> a then 1 else 0)"
  by (simp add: resumeTxIfStalled_def Let_def count_list_append)

lemma debug_facts [simp]:
  "pd_txQueue (debugTimerFired a b d) = pd_txQueue d" "pd_instance (debugTimerFired a b d) = pd_instance d"
  "pd_resume_cb (debugTimerFired a b d) = pd_resume_cb d"
  "pd_txStalled (debugTimerFired a b d) = (pd_txStalled d \<and> (a < kRTW88TxResumeAvail \<or> b < kRTW88TxResumeAvail))"
  by (auto simp: debugTimerFired_def Let_def)

lemma debug_services:
  "pd_txQueue d \<Longrightarrow> count_list (pd_calls (debugTimerFired a b d)) TxQueueService =
    count_list (pd_calls d) TxQueueService +
    (if pd_txStalled d \<and> kRTW88TxResumeAvail \<le> a \<and> kRTW88TxResumeAvail \<le> b then 1 else 0)"
  by (auto simp: debugTimerFired_def Let_def count_list_append resume_services not_le)

lemma do_tick_fields [simp]:
  "pd_txQueue (do_tick q t d) = pd_txQueue d" "pd_instance (do_tick q t d) = pd_instance d"
  "pd_resume_cb (do_tick q t d) = pd_resume_cb d"
  by (cases t; simp add: rtw88_irq_thread_wrapper_def rtw88_tx_resume_trampoline_def)+

lemma do_tick_stalled:
  assumes "g_irq_dev_id q" "pd_txQueue d" "pd_instance d" "pd_resume_cb d"
  shows "pd_txStalled (do_tick q t d) = (pd_txStalled d \<and> tick_avail t < kRTW88TxResumeAvail)"
    "count_list (pd_calls (do_tick q t d)) TxQueueService =
      count_list (pd_calls d) TxQueueService + (if pd_txStalled d \<and> tick_avail t \<ge> kRTW88TxResumeAvail then 1 else 0)"
  using assms
  by (cases t; simp add: rtw88_irq_thread_wrapper_def rtw88_tx_resume_trampoline_def rtw88_be_tx_avail_def
      resume_services debug_services min_less_iff_disj)+


definition pd_demo :: "mlme \<Rightarrow> pcidev" where
  "pd_demo m = \<lparr>pd_mlme = Some m, pd_last = None, pd_mac = replicate 6 0, pd_enabled = True, pd_initialized = True,
     pd_txStalled = False, pd_iface = True, pd_txQueue = True, pd_intrSrc = True, pd_debugTimer = True,
     pd_dma = dma_empty, pd_inputPackets = 0, pd_calls = [], pd_instance = True, pd_ops = True, pd_resume_cb = True,
     pd_pciDev = True, pd_mmio = True, pd_compatPciDev = Some (0x10EC, 0xC822), pd_name = [],
     pd_props = Map.empty, pd_ifaceName = [], pd_ifaceProps = Map.empty, pd_workLoop = True, pd_cmdGate = True\<rparr>"

definition irq_demo :: irq where
  "irq_demo = \<lparr>g_irq_handler = True, g_irq_thread_fn = True, g_irq_dev_id = True, g_irq_thread_call = True\<rparr>"


section \<open>Disabling and failing to start\<close>

text \<open>Disabling the interface while it is connected and enabling it again stops and starts the hardware
  without telling the state machine: it still says connected, with the station and the
  keys of before, although the hardware has neither, and packets are accepted for the link.\<close>

theorem disable_enable_keeps_link:
  assumes "pd_enabled d" "pd_mlme d = Some m" "m_state m = RTW88_STATE_CONNECTED" "m_powered m" "m_hw m"
    "io_stop io" "io_start io" "io_start_ok io"
  shows "case pd_enable io (pd_disable io d) of (ret, d') \<Rightarrow>
    ret = kIOReturnSuccess \<and> pd_enabled d' \<and>
    (\<exists>m'. pd_mlme d' = Some m' \<and> m_state m' = RTW88_STATE_CONNECTED \<and> l_sta m' = l_sta m \<and>
      m_ptkConf m' = m_ptkConf m \<and> m_gtkConf m' = m_gtkConf m \<and> m_out m' = m_out m @ [HwStop, HwStart])"
  using assms
  by (simp add: pd_enable_def pd_disable_def powerOff_def powerOn_def Let_def emit_def)

lemma disable_enable_keeps_link_witness:
  "let m = mlme_init\<lparr>m_state := RTW88_STATE_CONNECTED, m_powered := True, m_hw := True\<rparr> in
   case pd_enable io_demo (pd_disable io_demo (pd_demo m)) of (ret, d') \<Rightarrow>
    ret = kIOReturnSuccess \<and> pd_enabled d' \<and>
    (\<exists>m'. pd_mlme d' = Some m' \<and> m_state m' = RTW88_STATE_CONNECTED \<and> l_sta m' = l_sta m \<and>
      m_ptkConf m' = m_ptkConf m \<and> m_gtkConf m' = m_gtkConf m \<and> m_out m' = m_out m @ [HwStop, HwStart])"
  unfolding Let_def by (rule disable_enable_keeps_link) (simp_all add: pd_demo_def io_demo_def)

text \<open>When \<open>start\<close> fails after the registers have been mapped, whatever the step that fails, the global
  instance pointer and the operations stay installed; only \<open>teardown\<close> removes them, and freeing
  the object does not.\<close>

theorem failed_start_leaves_globals:
  assumes "sa_super a" "sa_pci a" "sa_map a" "pd_start io a d = (False, d')"
  shows "pd_instance d' \<and> pd_ops d' \<and> pd_instance (pd_free d') \<and> \<not> pd_instance (teardown io d')"
proof -
  have "pd_instance d' \<and> pd_ops d'" using assms
    by (auto simp: pd_start_def attachDevice_def publishHardwareIdentity_def Let_def
        split: if_splits prod.splits option.splits)
  then show ?thesis by (simp add: pd_free_def teardown_def Let_def)
qed

definition no_workloop :: start_answers where
  "no_workloop = \<lparr>sa_super = True, sa_pci = True, sa_map = True, sa_compat = True, sa_ids = (0x10EC, 0xC822), sa_workloop = False, sa_gate = True,
     sa_intr = True, sa_create = True, sa_chip = True, sa_probe = True, sa_mac = None, sa_attach = True,
     sa_medium = True, sa_queue = True, sa_timer = True\<rparr>"

lemma failed_start_leaves_globals_witness:
  "let d' = snd (pd_start io_demo no_workloop (pd_demo mlme_init)) in
    pd_instance d' \<and> pd_ops d' \<and> pd_instance (pd_free d') \<and> \<not> pd_instance (teardown io_demo d')"
  unfolding Let_def
  by (rule failed_start_leaves_globals[of no_workloop io_demo "pd_demo mlme_init"])
    (simp_all add: no_workloop_def pd_start_def Let_def)

end
