(* ===== verification/User.thy ===== *)
theory User
  imports MlmeProps Log
begin

text \<open>
  The interface to user space: the external methods of \<open>src/kext/RTW88UserClient.cpp\<close>, the queries of
  the state machine they reach, and the commands of \<open>src/ctl/main.c\<close> that call them.  IOKit checks the
  counts of the arguments against the dispatch table before it calls a method; that check is an argument.
\<close>

section \<open>The structures that cross the boundary\<close>

record state_result =
  sr_state :: nat
  sr_bssid :: bytes
  sr_ssid :: bytes
  sr_rssi :: int
  sr_channel :: u8
  sr_mac_addr :: bytes
  sr_fw_version :: u16
  sr_fw_sub_version :: u8
  sr_chip_name :: bytes
  sr_rx_byte_count :: u32
  sr_tx_byte_count :: u32
  sr_scan_offload_supported :: bool
  sr_powered :: bool

definition state_result_zero :: state_result where
  "state_result_zero =
    \<lparr>sr_state = 0, sr_bssid = replicate 6 0, sr_ssid = replicate 33 0, sr_rssi = 0, sr_channel = 0,
     sr_mac_addr = replicate 6 0, sr_fw_version = 0, sr_fw_sub_version = 0, sr_chip_name = replicate 32 0,
     sr_rx_byte_count = 0, sr_tx_byte_count = 0, sr_scan_offload_supported = False, sr_powered = False\<rparr>"

text \<open>\<open>strlcpy\<close> into a zeroed array of \<open>n\<close> bytes.\<close>

definition strlcpy_zeroed :: "nat \<Rightarrow> bytes \<Rightarrow> bytes" where
  "strlcpy_zeroed n s = take (n - 1) (cstring s) @ replicate (n - length (take (n - 1) (cstring s))) 0"

fun state_num :: "rtw88_state \<Rightarrow> nat" where
  "state_num RTW88_STATE_IDLE = 0"
| "state_num RTW88_STATE_SCANNING = 1"
| "state_num RTW88_STATE_AUTHENTICATING = 2"
| "state_num RTW88_STATE_ASSOCIATING = 3"
| "state_num RTW88_STATE_HANDSHAKING = 4"
| "state_num RTW88_STATE_CONNECTED = 5"
| "state_num RTW88_STATE_DISCONNECTING = 6"

section \<open>Queries\<close>

text \<open>What the hardware driver reports about itself; \<open>None\<close> when there is no device.\<close>

datatype chip_id = CHIP_8822B | CHIP_8822C | CHIP_8723D | CHIP_8821C | CHIP_8703B | CHIP_8821A | CHIP_8812A
  | CHIP_8814A | CHIP_other

record rtw_dev =
  rd_fw_version :: u16
  rd_fw_sub_version :: u8
  rd_chip :: "chip_id option"
  rd_tx_unicast :: u64
  rd_rx_unicast :: u64

definition rtw88_get_fw_version :: "rtw_dev option \<Rightarrow> u16 \<times> u8" where
  "rtw88_get_fw_version dev = (case dev of None \<Rightarrow> (0, 0) | Some r \<Rightarrow> (rd_fw_version r, rd_fw_sub_version r))"

fun chip_name :: "chip_id \<Rightarrow> bytes" where
  "chip_name CHIP_8822B = str ''RTL8822BE''"
| "chip_name CHIP_8822C = str ''RTL8822CE''"
| "chip_name CHIP_8723D = str ''RTL8723DE''"
| "chip_name CHIP_8821C = str ''RTL8821CE''"
| "chip_name CHIP_8703B = str ''RTL8703BE''"
| "chip_name CHIP_8821A = str ''RTL8821AE''"
| "chip_name CHIP_8812A = str ''RTL8812AE''"
| "chip_name CHIP_8814A = str ''RTL8814AE''"
| "chip_name CHIP_other = str ''RTL88xx (Unknown)''"

definition rtw88_get_chip_name :: "rtw_dev option \<Rightarrow> nat \<Rightarrow> bytes" where
  "rtw88_get_chip_name dev buf_sz =
    strlcpy_zeroed buf_sz
      (case dev of None \<Rightarrow> str ''Unknown''
       | Some r \<Rightarrow> (case rd_chip r of None \<Rightarrow> str ''Unknown'' | Some c \<Rightarrow> chip_name c))"

definition rtw88_get_stats :: "rtw_dev option \<Rightarrow> u32 \<times> u32" where
  "rtw88_get_stats dev = (case dev of None \<Rightarrow> (0, 0) | Some r \<Rightarrow> (ucast (rd_tx_unicast r), ucast (rd_rx_unicast r)))"

definition cmdGetState :: "hw_io \<Rightarrow> rtw_dev option \<Rightarrow> mlme \<Rightarrow> state_result" where
  "cmdGetState io dev m =
    (let (ver, sub) = rtw88_get_fw_version dev;
         (tx, rx) = rtw88_get_stats dev
     in \<lparr>sr_state = state_num (m_state m), sr_bssid = b_bssid (l_target m), sr_ssid = b_ssid (l_target m),
         sr_rssi = sint (m_rssi m), sr_channel = b_channel (l_target m), sr_mac_addr = l_mac m,
         sr_fw_version = ver, sr_fw_sub_version = sub, sr_chip_name = rtw88_get_chip_name dev 32,
         sr_rx_byte_count = rx, sr_tx_byte_count = tx,
         sr_scan_offload_supported = (m_hw m \<and> io_hw_scan io \<and> io_scan_supported io), sr_powered = m_powered m\<rparr>)"

definition cmdGetRSSI :: "mlme \<Rightarrow> int" where
  "cmdGetRSSI m = sint (m_rssi m)"

definition getMACAddress :: "mlme \<Rightarrow> bytes" where
  "getMACAddress m = l_mac m"

section \<open>External methods\<close>

datatype selector = kRTW88Scan | kRTW88Connect | kRTW88Disconnect | kRTW88GetState | kRTW88GetBSSList
  | kRTW88GetRSSI | kRTW88SetDebug | kRTW88GetLog | kRTW88PowerOn | kRTW88PowerOff

text \<open>Sizes in the dispatch table; \<open>None\<close> is a structure of variable size.\<close>

record dispatch =
  dp_scalarIn :: nat
  dp_structIn :: "nat option"
  dp_scalarOut :: nat
  dp_structOut :: "nat option"

definition sizeof_ConnectArgs :: nat where "sizeof_ConnectArgs = 97"
definition sizeof_StateResult :: nat where "sizeof_StateResult = 108"

fun sMethods :: "selector \<Rightarrow> dispatch" where
  "sMethods kRTW88Scan = \<lparr>dp_scalarIn = 0, dp_structIn = Some 0, dp_scalarOut = 0, dp_structOut = Some 0\<rparr>"
| "sMethods kRTW88Connect = \<lparr>dp_scalarIn = 0, dp_structIn = Some sizeof_ConnectArgs, dp_scalarOut = 0, dp_structOut = Some 0\<rparr>"
| "sMethods kRTW88Disconnect = \<lparr>dp_scalarIn = 0, dp_structIn = Some 0, dp_scalarOut = 0, dp_structOut = Some 0\<rparr>"
| "sMethods kRTW88GetState = \<lparr>dp_scalarIn = 0, dp_structIn = Some 0, dp_scalarOut = 0, dp_structOut = Some sizeof_StateResult\<rparr>"
| "sMethods kRTW88GetBSSList = \<lparr>dp_scalarIn = 0, dp_structIn = Some 0, dp_scalarOut = 0, dp_structOut = None\<rparr>"
| "sMethods kRTW88GetRSSI = \<lparr>dp_scalarIn = 0, dp_structIn = Some 0, dp_scalarOut = 1, dp_structOut = Some 0\<rparr>"
| "sMethods kRTW88SetDebug = \<lparr>dp_scalarIn = 1, dp_structIn = Some 0, dp_scalarOut = 0, dp_structOut = Some 0\<rparr>"
| "sMethods kRTW88GetLog = \<lparr>dp_scalarIn = 0, dp_structIn = Some 0, dp_scalarOut = 0, dp_structOut = None\<rparr>"
| "sMethods kRTW88PowerOn = \<lparr>dp_scalarIn = 0, dp_structIn = Some 0, dp_scalarOut = 0, dp_structOut = Some 0\<rparr>"
| "sMethods kRTW88PowerOff = \<lparr>dp_scalarIn = 0, dp_structIn = Some 0, dp_scalarOut = 0, dp_structOut = Some 0\<rparr>"

definition selector_of :: "nat \<Rightarrow> selector option" where
  "selector_of n =
    (if n < 10 then Some ([kRTW88Scan, kRTW88Connect, kRTW88Disconnect, kRTW88GetState, kRTW88GetBSSList,
       kRTW88GetRSSI, kRTW88SetDebug, kRTW88GetLog, kRTW88PowerOn, kRTW88PowerOff] ! n) else None)"

text \<open>The arguments of a call, with the buffer for the result, and what it leaves.\<close>

record uc_args =
  ua_scalarIn :: "u64 list"
  ua_structIn :: "bytes option"
  ua_scalarOut :: nat
  ua_structOut :: "bytes option"

datatype uc_out = NoOut | Scalar u64 | Struct bytes u32 | State state_result

text \<open>The world behind the client: the state machine, when there is one, the log and its level.\<close>

record uc_world =
  uw_mlme :: "mlme option"
  uw_dev :: "rtw_dev option"
  uw_log :: log_ring
  uw_level :: int

definition with_mlme :: "(mlme \<Rightarrow> (IOReturn \<times> mlme) option) \<Rightarrow> uc_world \<Rightarrow> (IOReturn \<times> uc_out \<times> uc_world) option" where
  "with_mlme f w =
    (case uw_mlme w of
       None \<Rightarrow> Some (kIOReturnOffline, NoOut, w)
     | Some m \<Rightarrow> do { (r, m) \<leftarrow> f m; Some (r, NoOut, w\<lparr>uw_mlme := Some m\<rparr>) })"

definition sScan :: "hw_io \<Rightarrow> uc_world \<Rightarrow> (IOReturn \<times> uc_out \<times> uc_world) option" where
  "sScan io = with_mlme (\<lambda>m. Some (cmdScan io m))"

text \<open>\<open>cmdConnect\<close> is given pointers into the structure.  It looks at the SSID when it compares it with an
  entry of the list, and at the password when it has found one; a string without a terminator is then
  read past the end of the input, which is \<open>None\<close>.\<close>

definition connect_from :: "hw_io \<Rightarrow> bytes \<Rightarrow> mlme \<Rightarrow> (IOReturn \<times> mlme) option" where
  "connect_from io data m = do {
     (r, m) \<leftarrow> cmdConnect io (Some data) (Some (drop 33 data)) m;
     (if r \<noteq> kIOReturnBusy \<and> sd_list (m_db m) \<noteq> [] \<and> 0 \<notin> set data then None
      else if r = kIOReturnSuccess \<and> 0 \<notin> set (drop 33 data) then None
      else Some (r, m)) }"

definition sConnect :: "hw_io \<Rightarrow> uc_args \<Rightarrow> uc_world \<Rightarrow> (IOReturn \<times> uc_out \<times> uc_world) option" where
  "sConnect io a w =
    (if uw_mlme w = None then Some (kIOReturnOffline, NoOut, w)
     else case ua_structIn a of
       None \<Rightarrow> Some (kIOReturnBadArgument, NoOut, w)
     | Some data \<Rightarrow>
         if length data < sizeof_ConnectArgs then Some (kIOReturnBadArgument, NoOut, w)
         else with_mlme (connect_from io data) w)"

definition sDisconnect :: "hw_io \<Rightarrow> uc_world \<Rightarrow> (IOReturn \<times> uc_out \<times> uc_world) option" where
  "sDisconnect io = with_mlme (\<lambda>m. Some (cmdDisconnect io m))"

definition sGetState :: "hw_io \<Rightarrow> uc_args \<Rightarrow> uc_world \<Rightarrow> (IOReturn \<times> uc_out \<times> uc_world) option" where
  "sGetState io a w =
    (case ua_structOut a of
       None \<Rightarrow> Some (kIOReturnBadArgument, NoOut, w)
     | Some buf \<Rightarrow>
         if length buf < sizeof_StateResult then Some (kIOReturnBadArgument, NoOut, w)
         else case uw_mlme w of
           None \<Rightarrow> Some (kIOReturnSuccess,
             State (state_result_zero\<lparr>sr_chip_name := strlcpy_zeroed 32 (str ''Uninitialized'')\<rparr>), w)
         | Some m \<Rightarrow> Some (kIOReturnSuccess, State (cmdGetState io (uw_dev w) m), w))"

definition sGetBSSList :: "uc_args \<Rightarrow> uc_world \<Rightarrow> (IOReturn \<times> uc_out \<times> uc_world) option" where
  "sGetBSSList a w =
    (case ua_structOut a of
       None \<Rightarrow> Some (kIOReturnBadArgument, NoOut, w)
     | Some buf \<Rightarrow>
         (case uw_mlme w of
            None \<Rightarrow> Some (kIOReturnSuccess, Struct buf 0, w)
          | Some m \<Rightarrow> do {
              (r, buf, len) \<leftarrow> cmdGetBSSList (Some buf) (Some (word_of_nat (length buf))) (m_db m);
              Some (r, Struct buf len, w) }))"

definition sGetRSSI :: "uc_args \<Rightarrow> uc_world \<Rightarrow> (IOReturn \<times> uc_out \<times> uc_world) option" where
  "sGetRSSI a w =
    (if ua_scalarOut a < 1 then Some (kIOReturnBadArgument, NoOut, w)
     else case uw_mlme w of
       None \<Rightarrow> Some (kIOReturnSuccess, Scalar (word_of_int (-100)), w)
     | Some m \<Rightarrow> Some (kIOReturnSuccess, Scalar (word_of_int (cmdGetRSSI m)), w))"

definition sSetDebug :: "uc_args \<Rightarrow> uc_world \<Rightarrow> (IOReturn \<times> uc_out \<times> uc_world) option" where
  "sSetDebug a w =
    Some (kIOReturnSuccess, NoOut,
      (case ua_scalarIn a of [] \<Rightarrow> w | x # _ \<Rightarrow> w\<lparr>uw_level := sint (ucast x :: u32)\<rparr>))"

definition sGetLog :: "uc_args \<Rightarrow> uc_world \<Rightarrow> (IOReturn \<times> uc_out \<times> uc_world) option" where
  "sGetLog a w =
    (case ua_structOut a of
       None \<Rightarrow> Some (kIOReturnBadArgument, NoOut, w)
     | Some buf \<Rightarrow>
         if length buf = 0 then Some (kIOReturnBadArgument, NoOut, w)
         else (case rtw88_read_log True (word_of_nat (length buf)) (uw_log w) of
           (out, r) \<Rightarrow> Some (kIOReturnSuccess, Struct (memcpy_at buf 0 out) (word_of_nat (length out)), w\<lparr>uw_log := r\<rparr>)))"

definition sPowerOn :: "hw_io \<Rightarrow> uc_world \<Rightarrow> (IOReturn \<times> uc_out \<times> uc_world) option" where
  "sPowerOn io = with_mlme (\<lambda>m. Some (cmdPowerOn io m))"

definition sPowerOff :: "hw_io \<Rightarrow> uc_world \<Rightarrow> (IOReturn \<times> uc_out \<times> uc_world) option" where
  "sPowerOff io = with_mlme (cmdPowerOff io)"

text \<open>\<open>accepts\<close> is the check of the counts by IOKit.\<close>

definition externalMethod :: "(dispatch \<Rightarrow> uc_args \<Rightarrow> bool) \<Rightarrow> hw_io \<Rightarrow> nat \<Rightarrow> uc_args \<Rightarrow> uc_world \<Rightarrow>
    (IOReturn \<times> uc_out \<times> uc_world) option" where
  "externalMethod accepts io n a w =
    (case selector_of n of
       None \<Rightarrow> Some (kIOReturnUnsupported, NoOut, w)
     | Some sel \<Rightarrow>
         if \<not> accepts (sMethods sel) a then Some (kIOReturnBadArgument, NoOut, w)
         else case sel of
           kRTW88Scan \<Rightarrow> sScan io w
         | kRTW88Connect \<Rightarrow> sConnect io a w
         | kRTW88Disconnect \<Rightarrow> sDisconnect io w
         | kRTW88GetState \<Rightarrow> sGetState io a w
         | kRTW88GetBSSList \<Rightarrow> sGetBSSList a w
         | kRTW88GetRSSI \<Rightarrow> sGetRSSI a w
         | kRTW88SetDebug \<Rightarrow> sSetDebug a w
         | kRTW88GetLog \<Rightarrow> sGetLog a w
         | kRTW88PowerOn \<Rightarrow> sPowerOn io w
         | kRTW88PowerOff \<Rightarrow> sPowerOff io w)"

section \<open>The client object\<close>

text \<open>The client's provider, when it is an \<open>RTW88PCIDevice\<close>, and the task that opened it; the calls of
  the superclass answer \<open>super_ok\<close>.\<close>

record user_client =
  uc_provider :: "nat option"
  uc_owningTask :: "nat option"

definition uc_create :: "bool \<Rightarrow> bool \<Rightarrow> nat \<Rightarrow> nat \<Rightarrow> user_client option" where
  "uc_create alloc_ok super_ok dev task =
    (if \<not> alloc_ok \<or> \<not> super_ok then None else Some \<lparr>uc_provider = Some dev, uc_owningTask = Some task\<rparr>)"

definition uc_initWithTask :: "bool \<Rightarrow> nat \<Rightarrow> user_client \<Rightarrow> bool \<times> user_client" where
  "uc_initWithTask super_ok task uc = (super_ok, uc\<lparr>uc_owningTask := Some task\<rparr>)"

definition uc_start :: "bool \<Rightarrow> nat option \<Rightarrow> user_client \<Rightarrow> bool \<times> user_client" where
  "uc_start super_ok provider uc =
    (if \<not> super_ok then (False, uc)
     else let uc = uc\<lparr>uc_provider := provider\<rparr> in (uc_provider uc \<noteq> None, uc))"

text \<open>\<open>get80211\<close> of the provider.\<close>

definition uc_80211 :: "(nat \<Rightarrow> mlme option) \<Rightarrow> user_client \<Rightarrow> mlme option" where
  "uc_80211 get uc = (case uc_provider uc of None \<Rightarrow> None | Some d \<Rightarrow> get d)"

section \<open>What a call leaves\<close>

named_theorems uc_defs "the external methods"

lemmas uc_method_defs [uc_defs] =
  sScan_def sConnect_def sDisconnect_def sGetState_def sGetBSSList_def sGetRSSI_def sSetDebug_def
  sGetLog_def sPowerOn_def sPowerOff_def with_mlme_def connect_from_def

definition client_ok :: "mlme \<Rightarrow> bool" where
  "client_ok m \<longleftrightarrow> ok m \<and> list_all bss_ok (sd_list (m_db m))"

definition uw_ok :: "uc_world \<Rightarrow> bool" where
  "uw_ok w \<longleftrightarrow> log_inv (uw_log w) \<and> pred_option client_ok (uw_mlme w)"

text \<open>The output lies in what the caller has room for.\<close>

fun out_fits :: "uc_args \<Rightarrow> uc_out \<Rightarrow> bool" where
  "out_fits a NoOut = True"
| "out_fits a (Scalar x) = (ua_scalarOut a \<ge> 1)"
| "out_fits a (Struct b n) =
    (case ua_structOut a of None \<Rightarrow> False | Some buf \<Rightarrow> length b = length buf \<and> unat n \<le> length buf)"
| "out_fits a (State r) =
    (case ua_structOut a of None \<Rightarrow> False | Some buf \<Rightarrow> length buf \<ge> sizeof_StateResult)"

named_theorems db_simps "calls that keep the scan list"

lemma db_emit [simp, db_simps]: "m_db (emit c s) = m_db s"
  by (simp add: emit_def)

lemma db_clearKeys [simp, db_simps]: "m_db (clearKeys io s) = m_db s"
  by (auto simp: clearKeys_def Let_def split: option.splits)

lemma db_releaseSta [simp, db_simps]: "m_db (releaseSta io s) = m_db s"
  by (auto simp: releaseSta_def Let_def)

lemma db_txMgmt [simp, db_simps]: "m_db (mlme_txMgmt io f s) = m_db s"
  by (auto simp: mlme_txMgmt_def Let_def)

lemma db_doDisconnect [simp, db_simps]: "m_db (doDisconnect io s) = m_db s"
  by (simp add: doDisconnect_def Let_def)

lemma db_powerOff [simp, db_simps]: "m_db (powerOff io s) = m_db s"
  by (simp add: powerOff_def)

lemma list_all_generation: "list_all bss_ok (sd_list (scan_generation d)) = list_all bss_ok (sd_list d)"
  by (auto simp: scan_generation_def Let_def list_all_iff bss_ok_def)

lemma db_manual_start [simp, db_simps]: "m_db (manual_start c s) = m_db s"
  by (simp add: manual_start_def Let_def)

lemma abort_total:
  assumes "ok s"
  shows "\<exists>b s'. abortActiveScan io True s = Some (b, s') \<and> ok s' \<and> m_db s' = m_db s"
proof -
  have r: "m_scanReturn s = RTW88_STATE_IDLE" using assms by (rule ok_D)
  have "\<exists>b s'. abortActiveScan io True s = Some (b, s') \<and> m_db s' = m_db s"
    using r by (auto simp: abortActiveScan_def scanDone_def scanDone_expire_def Let_def restore_idle)
  then show ?thesis using abort_ok[OF _ assms] by blast
qed

lemma client_cmdScan: "client_ok m \<Longrightarrow> client_ok (snd (cmdScan io m))"
  using cmdScan_ok[of m io]
  by (auto simp: client_ok_def cmdScan_def Let_def list_all_generation split: if_splits)

lemma client_cmdDisconnect: "client_ok m \<Longrightarrow> client_ok (snd (cmdDisconnect io m))"
  by (auto simp: client_ok_def cmdDisconnect_def)

lemma client_cmdPowerOn: "client_ok m \<Longrightarrow> client_ok (snd (cmdPowerOn io m))"
  using cmdPowerOn_ok[of m io]
  by (auto simp: client_ok_def cmdPowerOn_def powerOn_def Let_def split: if_splits prod.splits)

lemma client_cmdPowerOff:
  assumes "client_ok m"
  shows "\<exists>r m'. cmdPowerOff io m = Some (r, m') \<and> client_ok m'"
proof -
  obtain r m' where c: "cmdPowerOff io m = Some (r, m')" "m_db m' = m_db m"
    using abort_total[of m io] assms
    by (cases "m_state m = RTW88_STATE_SCANNING") (force simp: client_ok_def cmdPowerOff_def Let_def)+
  then show ?thesis using assms step_ok[OF st_powerOff[OF c(1)]] by (auto simp: client_ok_def)
qed

lemma client_cmdConnect:
  assumes "client_ok m"
  shows "\<exists>r m'. cmdConnect io (Some ssid) pw m = Some (r, m') \<and> client_ok m'"
proof -
  obtain go m1 where g: "(if m_state m = RTW88_STATE_SCANNING then abortActiveScan io True m else Some (True, m)) =
      Some (go, m1)" "m_db m1 = m_db m"
    using abort_total[of m io] assms
    by (cases "m_state m = RTW88_STATE_SCANNING") (auto simp: client_ok_def)
  have "\<exists>r m'. cmdConnect io (Some ssid) pw m = Some (r, m') \<and> m_db m' = m_db m"
    unfolding cmdConnect_def g(1)
    by (cases "bss_find (cstring ssid) (sd_list (m_db m))") (simp_all add: Let_def g(2))
  then obtain r m' where c: "cmdConnect io (Some ssid) pw m = Some (r, m')" "m_db m' = m_db m" by blast
  then show ?thesis using assms cmdConnect_ok[OF c(1)] by (auto simp: client_ok_def)
qed

lemma sGetBSSList_ok:
  assumes "client_ok m" "uw_mlme w = Some m" "ua_structOut a = Some buf"
  shows "\<exists>b n. sGetBSSList a w = Some (kIOReturnSuccess, Struct b n, w) \<and> out_fits a (Struct b n)"
proof -
  let ?len = "word_of_nat (length buf) :: u32"
  have u: "unat ?len \<le> length buf" by (simp add: unat_of_nat)
  define mx where "mx = (if ?len > 4095 then 4095 else unat ?len)"
  have mx: "mx \<le> length buf" "mx \<le> 4095" using u
    by (auto simp: mx_def word_less_nat_alt not_less)
  show ?thesis
  proof (cases "mx < 4")
    case True
    then show ?thesis using assms
      by (simp add: sGetBSSList_def cmdGetBSSList_def Let_def mx_def[symmetric])
  next
    case False
    have "list_all bss_ok (sd_list (m_db m))" using assms(1) by (simp add: client_ok_def)
    from bss_list_loop_ok[OF this, of 4 mx buf] False mx(1) obtain b n k where
      l: "bss_list_loop mx (sd_list (m_db m)) buf 4 = Some (b, n)" "length b = length buf" "n \<le> mx" by auto
    have w: "wr b 0 (le32_bytes (word_of_nat n)) = Some (memcpy_at b 0 (le32_bytes (word_of_nat n)))"
      "length (memcpy_at b 0 (le32_bytes (word_of_nat n))) = length buf"
      using wr_extend[of 0 "le32_bytes (word_of_nat n)" b] False mx(1) l(2) by (simp_all add: le32_bytes_def)
    have "unat (word_of_nat n :: u32) = n" using l(3) mx(2) by (intro unat_word_of_nat_small) simp
    then show ?thesis using assms False l mx w
      by (simp add: sGetBSSList_def cmdGetBSSList_def Let_def mx_def[symmetric])
  qed
qed

lemma sGetLog_ok:
  assumes "log_inv (uw_log w)"
  shows "\<exists>r out w'. sGetLog a w = Some (r, out, w') \<and> out_fits a out \<and> log_inv (uw_log w') \<and> uw_mlme w' = uw_mlme w"
proof (cases "ua_structOut a")
  case None
  then show ?thesis using assms by (simp add: sGetLog_def)
next
  case (Some buf)
  obtain out r where e: "rtw88_read_log True (word_of_nat (length buf)) (uw_log w) = (out, r)" by fastforce
  have "length out \<le> unat (word_of_nat (length buf) :: u32) \<and> log_inv r"
    using e assms log_read_loop_refines[OF assms, of "unat (word_of_nat (length buf) :: u32)"]
    by (auto simp: rtw88_read_log_def split: if_splits)
  moreover have "unat (word_of_nat (length buf) :: u32) \<le> length buf" by (simp add: unat_of_nat)
  moreover have "unat (word_of_nat (length out) :: u32) \<le> length out" by (simp add: unat_of_nat)
  ultimately show ?thesis using e Some assms
    by (auto simp: sGetLog_def memcpy_at_def)
qed

lemma with_mlme_ok:
  assumes "uw_ok w" "\<And>m. client_ok m \<Longrightarrow> \<exists>r m'. f m = Some (r, m') \<and> client_ok m'"
  shows "\<exists>r w'. with_mlme f w = Some (r, NoOut, w') \<and> uw_ok w'"
  using assms by (cases "uw_mlme w") (fastforce simp: with_mlme_def uw_ok_def)+

definition terminated :: "uc_args \<Rightarrow> bool" where
  "terminated a \<longleftrightarrow> (case ua_structIn a of None \<Rightarrow> True | Some d \<Rightarrow> 0 \<in> set (drop 33 d))"

lemma sConnect_ok:
  assumes "uw_ok w" "terminated a"
  shows "\<exists>r w'. sConnect io a w = Some (r, NoOut, w') \<and> uw_ok w'"
proof (cases "uw_mlme w = None \<or> ua_structIn a = None")
  case True
  then show ?thesis using assms(1) by (auto simp: sConnect_def)
next
  case False
  then obtain d where d: "ua_structIn a = Some d" by blast
  then have z: "0 \<in> set (drop 33 d)" "0 \<in> set d" using assms(2)
    by (auto simp: terminated_def dest: in_set_dropD)
  have "\<exists>r m'. connect_from io d m = Some (r, m') \<and> client_ok m'" if "client_ok m" for m
    using client_cmdConnect[OF that, of io d "Some (drop 33 d)"] z by (auto simp: connect_from_def)
  from with_mlme_ok[OF assms(1) this] show ?thesis using False d assms(1) by (auto simp: sConnect_def)
qed

text \<open>C30. A call from user space is safe whatever its arguments, when its strings are terminated: every
  selector returns, copies nothing from or to outside the structures it was given, reports no more
  output than the buffer has room for, and keeps the invariants of the state machine, of the scan list
  and of the log.\<close>

theorem externalMethod_safe:
  assumes "uw_ok w" "terminated a"
  shows "\<exists>r out w'. externalMethod accepts io n a w = Some (r, out, w') \<and> out_fits a out \<and> uw_ok w'"
proof (cases "selector_of n")
  case None
  then show ?thesis using assms(1) by (simp add: externalMethod_def)
next
  case (Some sel)
  have cmd: "\<exists>r out w'. with_mlme (\<lambda>m. Some (g m)) w = Some (r, out, w') \<and> out_fits a out \<and> uw_ok w'"
    if "\<And>m. client_ok m \<Longrightarrow> client_ok (snd (g m))" for g
  proof -
    have "\<exists>r m'. Some (g m) = Some (r, m') \<and> client_ok m'" if "client_ok m" for m
      using \<open>\<And>m. client_ok m \<Longrightarrow> client_ok (snd (g m))\<close>[OF that] by (cases "g m") simp
    from with_mlme_ok[OF assms(1), of "\<lambda>m. Some (g m)", OF this] show ?thesis by auto
  qed
  have off: "\<exists>r out w'. sPowerOff io w = Some (r, out, w') \<and> out_fits a out \<and> uw_ok w'"
    using with_mlme_ok[OF assms(1), of "cmdPowerOff io", OF client_cmdPowerOff] by (auto simp: sPowerOff_def)
  have con: "\<exists>r out w'. sConnect io a w = Some (r, out, w') \<and> out_fits a out \<and> uw_ok w'"
    using sConnect_ok[OF assms] by fastforce
  have log: "\<exists>r out w'. sGetLog a w = Some (r, out, w') \<and> out_fits a out \<and> uw_ok w'"
    using sGetLog_ok[of w a] assms(1) by (auto simp: uw_ok_def)
  have st: "\<exists>r out w'. sGetState io a w = Some (r, out, w') \<and> out_fits a out \<and> uw_ok w'"
    using assms(1) by (auto simp: sGetState_def split: option.splits)
  have bl: "\<exists>r out w'. sGetBSSList a w = Some (r, out, w') \<and> out_fits a out \<and> uw_ok w'"
  proof (cases "ua_structOut a = None \<or> uw_mlme w = None")
    case True
    then show ?thesis using assms(1) by (auto simp: sGetBSSList_def split: option.splits)
  next
    case False
    then show ?thesis using sGetBSSList_ok[of _ w a] assms(1) by (fastforce simp: uw_ok_def)
  qed
  have rs: "\<exists>r out w'. sGetRSSI a w = Some (r, out, w') \<and> out_fits a out \<and> uw_ok w'"
    using assms(1) by (auto simp: sGetRSSI_def split: option.splits)
  have db: "\<exists>r out w'. sSetDebug a w = Some (r, out, w') \<and> out_fits a out \<and> uw_ok w'"
    using assms(1) by (auto simp: sSetDebug_def uw_ok_def split: list.splits)
  have each: "\<exists>r out w'. sScan io w = Some (r, out, w') \<and> out_fits a out \<and> uw_ok w'"
    "\<exists>r out w'. sDisconnect io w = Some (r, out, w') \<and> out_fits a out \<and> uw_ok w'"
    "\<exists>r out w'. sPowerOn io w = Some (r, out, w') \<and> out_fits a out \<and> uw_ok w'"
    unfolding sScan_def sDisconnect_def sPowerOn_def
    by (rule cmd, erule client_cmdScan client_cmdDisconnect client_cmdPowerOn)+
  show ?thesis
  proof (cases "accepts (sMethods sel) a")
    case True
    then show ?thesis
      by (cases sel; simp only: externalMethod_def Some option.case not_True_eq_False if_False selector.case)
        (rule each off con log st bl rs db)+
  next
    case False
    then show ?thesis using Some assms(1) by (simp add: externalMethod_def)
  qed
qed

definition uw_demo :: uc_world where
  "uw_demo = \<lparr>uw_mlme = Some (idle_demo CIPHER_CCMP), uw_dev = None,
     uw_log = log_ring_init\<lparr>lr_lock := True\<rparr>, uw_level = 2\<rparr>"

lemma uw_demo_ok: "uw_ok uw_demo"
  using ap_demo_ok[of CIPHER_CCMP]
  by (simp add: uw_demo_def uw_ok_def client_ok_def log_inv_def log_ring_init_def ok_idle idle_demo_facts)
    (simp add: idle_demo_def mlme_init_def core_ok_def core_def)

definition ua_demo :: uc_args where
  "ua_demo = \<lparr>ua_scalarIn = [], ua_structIn = None, ua_scalarOut = 0, ua_structOut = Some (replicate 4095 0)\<rparr>"

lemma externalMethod_safe_witness:
  "\<exists>r out w'. externalMethod (\<lambda>d a. True) io_demo 4 ua_demo uw_demo = Some (r, out, w') \<and>
    out_fits ua_demo out \<and> uw_ok w'"
  by (rule externalMethod_safe[OF uw_demo_ok]) (simp add: terminated_def ua_demo_def)

section \<open>Connecting\<close>

text \<open>Nothing checks that the strings of a connect request end inside it: with a password field of
  64 bytes and no terminator, for a network that the scan has found, the driver reads on behind the
  97 bytes of the request.\<close>

theorem connect_reads_past_input:
  assumes "uw_mlme w = Some m" "m_state m = RTW88_STATE_IDLE"
    "ua_structIn a = Some (ssid @ password)" "length ssid = 33" "length password = 64"
    "0 \<in> set ssid" "0 \<notin> set password"
    "bss_find (cstring (ssid @ password)) (sd_list (m_db m)) = Some b"
  shows "sConnect io a w = None"
proof -
  obtain m' where "cmdConnect io (Some (ssid @ password)) (Some password) m = Some (kIOReturnSuccess, m')"
    using cmdConnect_Some[OF assms(2,8), of io "Some password"] by blast
  then have "connect_from io (ssid @ password) m = None"
    using assms(4,6,7) by (simp add: connect_from_def)
  then show ?thesis using assms by (simp add: sConnect_def with_mlme_def sizeof_ConnectArgs_def)
qed

definition ua_connect :: "bytes \<Rightarrow> uc_args" where
  "ua_connect d = \<lparr>ua_scalarIn = [], ua_structIn = Some d, ua_scalarOut = 0, ua_structOut = None\<rparr>"

lemma connect_reads_past_input_witness:
  "sConnect io_demo (ua_connect (([104, 105] @ replicate 31 0) @ replicate 64 97)) uw_demo = None"
  by (rule connect_reads_past_input[where m = "idle_demo CIPHER_CCMP" and ssid = "[104, 105] @ replicate 31 0" and
        password = "replicate 64 97" and b = "ap_demo CIPHER_CCMP"])
    (simp_all add: uw_demo_def ua_connect_def idle_demo_facts,
     simp add: bss_find_def cstring_def strlen_def idle_demo_def ap_demo_def memcpy_at_def)

end
