(* ===== verification/Ctl.thy ===== *)
theory Ctl
  imports User
begin

text \<open>
  The command line tool, \<open>src/ctl/main.c\<close>.  What the kernel extension answers to each call is a record
  of answers; a command gives the lines it prints and its exit status.  The last section puts the tool
  and the user client of \<open>User\<close> together.
\<close>

section \<open>Answers and output\<close>

text \<open>\<open>ka_state i\<close> is the answer to the \<open>i\<close>-th query of the state, \<open>None\<close> when the call fails; the list
  and the log come with the buffer as the call left it and the length it reports.\<close>

record kext_answers =
  ka_open :: bool
  ka_scan :: IOReturn
  ka_connect :: "bytes \<Rightarrow> IOReturn"
  ka_disconnect :: IOReturn
  ka_state :: "nat \<Rightarrow> state_result option"
  ka_list :: "bytes \<Rightarrow> IOReturn \<times> bytes \<times> nat"
  ka_log :: "bytes \<Rightarrow> IOReturn \<times> bytes \<times> nat"
  ka_debug :: "u64 \<Rightarrow> IOReturn"
  ka_power :: "bool \<Rightarrow> IOReturn"

datatype ctl_line = Failed bytes | Usage | Scanning nat | StillRunning int | Table "list_line list"
  | Connecting bytes | Polled nat bytes | Connected int | ConnectionFailed | ConnectionTimedOut
  | Disconnected | Status bytes state_result | LinkLines state_result | Log bytes | DebugLevel int | Power bool

type_synonym ctl_result = "ctl_line list \<times> int"

definition state_name :: "nat \<Rightarrow> bytes" where
  "state_name s =
    (if s = 0 then str ''idle'' else if s = 1 then str ''scanning'' else if s = 2 then str ''authenticating''
     else if s = 3 then str ''associating'' else if s = 4 then str ''handshaking''
     else if s = 5 then str ''connected'' else if s = 6 then str ''disconnecting'' else str ''unknown'')"

section \<open>Commands\<close>

definition ctl_list :: "kext_answers \<Rightarrow> ctl_result option" where
  "ctl_list k =
    (case ka_list k (replicate 4095 0) of (kr, buf, len) \<Rightarrow>
       if kr \<noteq> kIOReturnSuccess then Some ([Failed (str ''get BSS list failed'')], 1)
       else do { rows \<leftarrow> cmd_list buf len; Some ([Table rows], 0) })"

text \<open>Whether the scan was seen to end, and after how many seconds.\<close>

fun scan_poll :: "(nat \<Rightarrow> state_result option) \<Rightarrow> nat list \<Rightarrow> nat \<Rightarrow> bool \<times> nat" where
  "scan_poll ans [] n = (False, n)"
| "scan_poll ans (i # is) n =
    (case ans i of
       Some r \<Rightarrow> if sr_state r \<noteq> 1 then (True, n + 1) else scan_poll ans is (n + 1)
     | None \<Rightarrow> scan_poll ans is (n + 1))"

definition ctl_scan :: "kext_answers \<Rightarrow> int \<Rightarrow> ctl_result option" where
  "ctl_scan k wait_secs =
    (if ka_scan k \<noteq> kIOReturnSuccess then Some ([Failed (str ''scan failed'')], 1)
     else let (finished, n) = scan_poll (ka_state k) [0..<nat wait_secs] 0
          in do {
            (out, ret) \<leftarrow> ctl_list k;
            Some (Scanning n # (if finished then [] else [StillRunning wait_secs]) @ out, ret) })"

definition connect_args :: "bytes \<Rightarrow> bytes option \<Rightarrow> bytes" where
  "connect_args ssid pass =
    strlcpy_zeroed 33 ssid @ (case pass of None \<Rightarrow> replicate 64 0 | Some p \<Rightarrow> strlcpy_zeroed 64 p)"

fun connect_poll :: "(nat \<Rightarrow> state_result option) \<Rightarrow> nat list \<Rightarrow> ctl_result" where
  "connect_poll ans [] = ([ConnectionTimedOut], 1)"
| "connect_poll ans (i # is) =
    (case ans i of
       None \<Rightarrow> connect_poll ans is
     | Some r \<Rightarrow>
         let line = Polled (i + 1) (state_name (sr_state r))
         in if sr_state r = 5 then ([line, Connected (sr_rssi r)], 0)
            else if sr_state r = 0 \<and> i > 3 then ([line, ConnectionFailed], 1)
            else let (out, ret) = connect_poll ans is in (line # out, ret))"

definition ctl_connect :: "kext_answers \<Rightarrow> bytes \<Rightarrow> bytes option \<Rightarrow> ctl_result" where
  "ctl_connect k ssid pass =
    (if ka_connect k (connect_args ssid pass) \<noteq> kIOReturnSuccess then ([Failed (str ''connect failed'')], 1)
     else let (out, ret) = connect_poll (ka_state k) [0..<30] in (Connecting ssid # out, ret))"

definition ctl_disconnect :: "kext_answers \<Rightarrow> ctl_result" where
  "ctl_disconnect k =
    (if ka_disconnect k \<noteq> kIOReturnSuccess then ([Failed (str ''disconnect failed'')], 1) else ([Disconnected], 0))"

definition ctl_status :: "kext_answers \<Rightarrow> ctl_result" where
  "ctl_status k =
    (case ka_state k 0 of
       None \<Rightarrow> ([Failed (str ''get state failed'')], 1)
     | Some r \<Rightarrow> (Status (state_name (sr_state r)) r # (if sr_state r = 5 then [LinkLines r] else []), 0))"

definition ctl_log :: "kext_answers \<Rightarrow> ctl_result option" where
  "ctl_log k =
    (case ka_log k (replicate 4096 0) of (kr, buf, sz) \<Rightarrow>
       if kr \<noteq> kIOReturnSuccess then Some ([Failed (str ''get log failed'')], 1)
       else do { text \<leftarrow> rds buf 0 sz; Some ([Log text], 0) })"

definition ctl_debug :: "kext_answers \<Rightarrow> int \<Rightarrow> ctl_result" where
  "ctl_debug k level =
    (if ka_debug k (word_of_int level) \<noteq> kIOReturnSuccess then ([Failed (str ''set debug failed'')], 1)
     else ([DebugLevel level], 0))"

definition ctl_power :: "kext_answers \<Rightarrow> bool \<Rightarrow> ctl_result" where
  "ctl_power k on =
    (if ka_power k on \<noteq> kIOReturnSuccess then ([Failed (str ''power failed'')], 1) else ([Power on], 0))"

section \<open>The command line\<close>

text \<open>\<open>atoi\<close>: leading white space, a sign, decimal digits; \<open>strtol\<close> stops at the ends of a 64-bit
  \<open>long\<close>, and the conversion to \<open>int\<close> keeps the low 32 bits.\<close>

fun digits_val :: "bytes \<Rightarrow> int \<Rightarrow> int" where
  "digits_val [] acc = acc"
| "digits_val (c # cs) acc = (if 48 \<le> c \<and> c \<le> 57 then digits_val cs (acc * 10 + (uint c - 48)) else acc)"

definition atoi :: "bytes \<Rightarrow> int" where
  "atoi s =
    (let s = dropWhile (\<lambda>c. c = 32 \<or> (9 \<le> c \<and> c \<le> 13)) s;
         (neg, s) = (case s of c # cs \<Rightarrow> if c = 45 then (True, cs) else if c = 43 then (False, cs) else (False, s)
                     | [] \<Rightarrow> (False, s));
         v = digits_val s 0;
         v = (if neg then max (- (2 ^ 63)) (- v) else min (2 ^ 63 - 1) v)
     in sint (word_of_int v :: u32))"

text \<open>\<open>getopt\<close> with the options \<open>w:\<close>: the arguments given to \<open>-w\<close>, in order.  It stops at the first
  argument that is no option and after \<open>--\<close>; other letters are reported and skipped.\<close>

fun getopt_cluster :: "bytes \<Rightarrow> bytes list \<Rightarrow> bytes option \<times> bytes list" where
  "getopt_cluster [] as = (None, as)"
| "getopt_cluster (c # cs) as =
    (if c = 119
     then (if cs \<noteq> [] then (Some cs, as) else case as of [] \<Rightarrow> (None, []) | a # as \<Rightarrow> (Some a, as))
     else getopt_cluster cs as)"

lemma getopt_cluster_length: "length (snd (getopt_cluster cs as)) \<le> length as"
  by (induction cs as rule: getopt_cluster.induct) (auto split: list.splits)

lemma getopt_cluster_rest: "(x, y) = getopt_cluster cs as \<Longrightarrow> length y \<le> length as"
  using getopt_cluster_length[of cs as] by (cases "getopt_cluster cs as") simp

function getopt_w :: "bytes list \<Rightarrow> bytes list" where
  "getopt_w [] = []"
| "getopt_w (a # as) =
    (if take 1 a \<noteq> [45] \<or> length a = 1 \<or> a = [45, 45] then []
     else case getopt_cluster (drop 1 a) as of
       (None, as') \<Rightarrow> getopt_w as'
     | (Some w, as') \<Rightarrow> w # getopt_w as')"
  by pat_completeness auto
termination
  by (relation "measure length") (auto dest!: getopt_cluster_rest simp: less_Suc_eq_le)

definition ctl_main :: "kext_answers \<Rightarrow> bytes list \<Rightarrow> ctl_result option" where
  "ctl_main k argv =
    (if length argv < 2 then Some ([Usage], 1)
     else if \<not> ka_open k then Some ([], 1)
     else let cmd = argv ! 1
          in if cmd = str ''scan''
             then ctl_scan k (fold (\<lambda>w _. atoi w) (getopt_w (drop 2 argv)) 10)
             else if cmd = str ''list'' then ctl_list k
             else if cmd = str ''connect''
             then Some (if length argv < 3 then ([Failed (str ''connect requires SSID'')], 1)
                        else ctl_connect k (argv ! 2) (if length argv \<ge> 4 then Some (argv ! 3) else None))
             else if cmd = str ''disconnect'' then Some (ctl_disconnect k)
             else if cmd = str ''power''
             then Some (if length argv < 3 \<or> (argv ! 2 \<noteq> str ''on'' \<and> argv ! 2 \<noteq> str ''off'')
                        then ([Failed (str ''power requires on or off'')], 1)
                        else ctl_power k (argv ! 2 = str ''on''))
             else if cmd = str ''status'' then Some (ctl_status k)
             else if cmd = str ''log'' then ctl_log k
             else if cmd = str ''debug''
             then Some (if length argv < 3 then ([Failed (str ''debug requires level'')], 1)
                        else ctl_debug k (atoi (argv ! 2)))
             else Some ([Failed (str ''unknown command''), Usage], 1))"

section \<open>What arrives in the driver\<close>

lemma strlcpy_zeroed_length: "n > 0 \<Longrightarrow> length (strlcpy_zeroed n s) = n"
  by (simp add: strlcpy_zeroed_def)

lemma cstring_zero: "(\<And>c. c \<in> set t \<Longrightarrow> c \<noteq> 0) \<Longrightarrow> cstring (t @ 0 # r) = t"
  by (simp add: cstring_def takeWhile_append2)

lemma cstring_strlcpy: "0 < n \<Longrightarrow> cstring (strlcpy_zeroed n s @ r) = take (n - 1) (cstring s)"
proof -
  assume n: "0 < n"
  let ?t = "take (n - 1) (cstring s)"
  obtain k where "n - length ?t = Suc k" using n by (cases "n - length ?t") auto
  then have "strlcpy_zeroed n s @ r = ?t @ 0 # replicate k 0 @ r" by (simp add: strlcpy_zeroed_def)
  moreover have "c \<noteq> 0" if "c \<in> set ?t" for c
    using that by (auto simp: cstring_def dest!: in_set_takeD set_takeWhileD)
  ultimately show ?thesis by (simp only:) (rule cstring_zero)
qed

lemma cstring_take: "cstring (take n (cstring s)) = take n (cstring s)"
proof -
  have "c \<noteq> 0" if "c \<in> set (take n (cstring s))" for c
    using that by (auto simp: cstring_def dest!: in_set_takeD set_takeWhileD)
  then show ?thesis unfolding cstring_def[of "take n (cstring s)"] by (simp add: takeWhile_eq_all_conv)
qed

text \<open>The strings count up to their terminator, the password up to 63 bytes.\<close>

lemma cmdConnect_strings:
  assumes "cstring a = cstring a'" "take 63 (cstring p) = take 63 (cstring p')"
  shows "cmdConnect io (Some a) (Some p) m = cmdConnect io (Some a') (Some p') m"
  by (simp only: cmdConnect_def option.case assms)

lemma zero_strlcpy: "0 < n \<Longrightarrow> 0 \<in> set (strlcpy_zeroed n s)"
  by (cases "cstring s") (auto simp: strlcpy_zeroed_def set_replicate_conv_if)

text \<open>The names that a user types reach the state machine: the structure that \<open>rtw88ctl connect\<close>
  builds is, through the connect method, a call of \<open>cmdConnect\<close> with the first 32 bytes of the network
  name and the first 63 bytes of the password, both terminated.\<close>

theorem connect_args_arrive:
  assumes "uw_mlme w = Some m" "accepts (sMethods kRTW88Connect) a"
    "ua_structIn a = Some (connect_args ssid (Some pass))"
  shows "externalMethod accepts io 1 a w =
    map_option (\<lambda>(r, m'). (r, NoOut, w\<lparr>uw_mlme := Some m'\<rparr>))
      (cmdConnect io (Some (take 32 (cstring ssid))) (Some (take 63 (cstring pass))) m)"
proof -
  let ?d = "connect_args ssid (Some pass)"
  have d: "?d = strlcpy_zeroed 33 ssid @ strlcpy_zeroed 64 pass" "length ?d = 97"
    "drop 33 ?d = strlcpy_zeroed 64 pass @ []"
    by (simp_all add: connect_args_def strlcpy_zeroed_length)
  have z: "0 \<in> set ?d" "0 \<in> set (drop 33 ?d)"
    unfolding d(1,3) using zero_strlcpy[of 33 ssid] zero_strlcpy[of 64 pass] by (simp_all add: strlcpy_zeroed_length)
  have "cmdConnect io (Some ?d) (Some (drop 33 ?d)) m =
      cmdConnect io (Some (take 32 (cstring ssid))) (Some (take 63 (cstring pass))) m"
    by (rule cmdConnect_strings) (simp_all only: d(3), simp_all add: d(1) cstring_strlcpy cstring_strlcpy[of _ _ "[]", simplified] cstring_take)
  then have "connect_from io ?d m = cmdConnect io (Some (take 32 (cstring ssid))) (Some (take 63 (cstring pass))) m"
    using z by (cases "cmdConnect io (Some ?d) (Some (drop 33 ?d)) m") (auto simp: connect_from_def)
  moreover have "selector_of 1 = Some kRTW88Connect" by (simp add: selector_of_def)
  ultimately show ?thesis using assms d(2)
    by (auto simp: externalMethod_def sConnect_def with_mlme_def sizeof_ConnectArgs_def split: option.splits Option.bind_split)
qed

section \<open>Waiting for the link\<close>

definition saw_connected :: "(nat \<Rightarrow> state_result option) \<Rightarrow> nat \<Rightarrow> bool" where
  "saw_connected ans i = (case ans i of None \<Rightarrow> False | Some r \<Rightarrow> sr_state r = 5)"

definition saw_failure :: "(nat \<Rightarrow> state_result option) \<Rightarrow> nat \<Rightarrow> bool" where
  "saw_failure ans i = (3 < i \<and> (case ans i of None \<Rightarrow> False | Some r \<Rightarrow> sr_state r = 0))"

lemma connect_poll_step:
  "snd (connect_poll ans (i # is)) = 0 \<longleftrightarrow>
    saw_connected ans i \<or> (\<not> saw_failure ans i \<and> snd (connect_poll ans is) = 0)"
  by (auto simp: Let_def saw_connected_def saw_failure_def split: option.splits prod.splits)

lemma connect_poll_status:
  "snd (connect_poll ans [k..<n]) = 0 \<longleftrightarrow>
    (\<exists>i. k \<le> i \<and> i < n \<and> saw_connected ans i \<and> (\<forall>j. k \<le> j \<and> j < i \<longrightarrow> \<not> saw_failure ans j))"
proof (induction "n - k" arbitrary: k)
  case 0
  then show ?case by auto
next
  case (Suc d)
  then have u: "[k..<n] = k # [Suc k..<n]" by (simp add: upt_conv_Cons)
  have split: "(\<forall>j. k \<le> j \<and> j < i \<longrightarrow> \<not> saw_failure ans j) \<longleftrightarrow>
      (k < i \<longrightarrow> \<not> saw_failure ans k) \<and> (\<forall>j. Suc k \<le> j \<and> j < i \<longrightarrow> \<not> saw_failure ans j)" for i
  proof -
    have "k \<le> j \<and> j < i \<longleftrightarrow> (j = k \<and> k < i) \<or> (Suc k \<le> j \<and> j < i)" for j by auto
    then show ?thesis by auto
  qed
  have IH: "snd (connect_poll ans [Suc k..<n]) = 0 \<longleftrightarrow> (\<exists>i. Suc k \<le> i \<and> i < n \<and> saw_connected ans i \<and>
      (\<forall>j. Suc k \<le> j \<and> j < i \<longrightarrow> \<not> saw_failure ans j))"
    using Suc(1)[of "Suc k"] Suc(2) by simp
  show ?case
  proof
    assume "snd (connect_poll ans [k..<n]) = 0"
    then consider "saw_connected ans k" | "\<not> saw_failure ans k" "snd (connect_poll ans [Suc k..<n]) = 0"
      unfolding u connect_poll_step by blast
    then show "\<exists>i. k \<le> i \<and> i < n \<and> saw_connected ans i \<and> (\<forall>j. k \<le> j \<and> j < i \<longrightarrow> \<not> saw_failure ans j)"
    proof cases
      case 1
      then show ?thesis using Suc(2) by (intro exI[of _ k]) auto
    next
      case 2
      then obtain i where "Suc k \<le> i" "i < n" "saw_connected ans i"
        "\<forall>j. Suc k \<le> j \<and> j < i \<longrightarrow> \<not> saw_failure ans j" unfolding IH by blast
      then show ?thesis using 2(1) unfolding split by (intro exI[of _ i]) auto
    qed
  next
    assume "\<exists>i. k \<le> i \<and> i < n \<and> saw_connected ans i \<and> (\<forall>j. k \<le> j \<and> j < i \<longrightarrow> \<not> saw_failure ans j)"
    then obtain i where i: "k \<le> i" "i < n" "saw_connected ans i" "k < i \<longrightarrow> \<not> saw_failure ans k"
      "\<forall>j. Suc k \<le> j \<and> j < i \<longrightarrow> \<not> saw_failure ans j" unfolding split by blast
    show "snd (connect_poll ans [k..<n]) = 0"
    proof (cases "i = k")
      case False
      then have "Suc k \<le> i" using i(1) by simp
      with i have "snd (connect_poll ans [Suc k..<n]) = 0" unfolding IH by blast
      then show ?thesis unfolding u connect_poll_step using i(1,4) False by simp
    qed (use i u in \<open>simp add: connect_poll_step del: connect_poll.simps\<close>)
  qed
qed

text \<open>\<open>rtw88ctl connect\<close> ends with success just when the driver took the request and, within thirty
  polls, reported a link before it reported an idle state after the fourth poll; in every other case
  the status is 1.\<close>

theorem ctl_connect_status:
  "snd (ctl_connect k ssid pass) =
    (if ka_connect k (connect_args ssid pass) = kIOReturnSuccess \<and>
        (\<exists>i < 30. saw_connected (ka_state k) i \<and> (\<forall>j. j < i \<longrightarrow> \<not> saw_failure (ka_state k) j))
     then 0 else 1)"
proof -
  have one: "snd (connect_poll ans is) \<noteq> 0 \<Longrightarrow> snd (connect_poll ans is) = 1" for ans "is"
    by (induction "is") (auto simp: Let_def split: option.splits prod.splits if_splits)
  have "snd (connect_poll (ka_state k) [0..<30]) = 0 \<longleftrightarrow>
      (\<exists>i < 30. saw_connected (ka_state k) i \<and> (\<forall>j. j < i \<longrightarrow> \<not> saw_failure (ka_state k) j))"
    using connect_poll_status[of "ka_state k" 0 30] by auto
  then show ?thesis using one[of "ka_state k" "[0..<30]"]
    by (auto simp: ctl_connect_def Let_def split: prod.splits)
qed

definition ua_args_demo :: uc_args where
  "ua_args_demo = ua_connect (connect_args [104, 105] (Some [112, 119]))"

lemma connect_args_arrive_witness:
  "externalMethod (\<lambda>d a. True) io_demo 1 ua_args_demo uw_demo =
    map_option (\<lambda>(r, m'). (r, NoOut, uw_demo\<lparr>uw_mlme := Some m'\<rparr>))
      (cmdConnect io_demo (Some (take 32 (cstring [104, 105]))) (Some (take 63 (cstring [112, 119]))) (idle_demo CIPHER_CCMP))"
  by (rule connect_args_arrive) (simp_all add: uw_demo_def ua_args_demo_def ua_connect_def)

end
