(* ===== verification/Fw.thy ===== *)
theory Fw
  imports Slab "HOL-Library.Monad_Syntax"
begin

text \<open>
  Firmware, \<open>src/compat/rtw88_firmware.c\<close>: the images are embedded in the binary, compressed, and are
  found by the last part of their name.  The table of images is generated and zlib is a library, so both
  are arguments; of zlib the model has the memory it asks for, in order, the answers of its three
  functions and the bytes it produces.  Memory is that of \<open>Slab\<close>: releasing anything but a live block
  with its size is \<open>None\<close>.
\<close>

section \<open>The allocator for zlib\<close>

definition store32 :: "nat \<Rightarrow> u32 \<Rightarrow> (nat \<Rightarrow> u8) \<Rightarrow> nat \<Rightarrow> u8" where
  "store32 a w m = store a (bytes_le 4 (ucast w)) m"

definition load32 :: "nat \<Rightarrow> (nat \<Rightarrow> u8) \<Rightarrow> u32" where
  "load32 a m = ucast (word_le (load a 4 m))"

text \<open>The size that is asked for has room for a pointer in front of the data, the header is 4 bytes.\<close>

definition rtw88_zcalloc :: "io_malloc \<Rightarrow> u32 \<Rightarrow> u32 \<Rightarrow> kheap \<Rightarrow> nat \<times> kheap" where
  "rtw88_zcalloc alloc items sz h =
    (let n = items * sz + 8
     in case IOMalloc alloc (unat n) h of
          None \<Rightarrow> (0, h)
        | Some (zm, h) \<Rightarrow> (zm + 4, h\<lparr>kh_mem := store32 zm n (kh_mem h)\<rparr>))"

definition rtw88_zcfree :: "nat \<Rightarrow> kheap \<Rightarrow> kheap option" where
  "rtw88_zcfree ptr h =
    (if ptr = 0 then Some h
     else let zm = ptr - 4 in IOFree zm (unat (load32 zm (kh_mem h))) h)"

section \<open>Decompression\<close>

text \<open>A run of zlib on an input with a given room for the output: what \<open>inflateInit\<close> and \<open>inflate\<close> ask
  for, and what \<open>inflateInit\<close>, \<open>inflate\<close> and \<open>inflateEnd\<close> answer when they got it.\<close>

record zrun =
  zr_state :: "u32 \<times> u32"
  zr_init :: int
  zr_requests :: "(u32 \<times> u32) list"
  zr_inflate :: int
  zr_out :: bytes
  zr_end :: int

definition Z_OK :: int where "Z_OK = 0"
definition Z_STREAM_END :: int where "Z_STREAM_END = 1"
definition Z_MEM_ERROR :: int where "Z_MEM_ERROR = - 4"

text \<open>The requests in order, most recent block first, until one fails.\<close>

fun zallocs :: "io_malloc \<Rightarrow> (u32 \<times> u32) list \<Rightarrow> nat list \<Rightarrow> kheap \<Rightarrow> bool \<times> nat list \<times> kheap" where
  "zallocs alloc [] ps h = (True, ps, h)"
| "zallocs alloc ((n, sz) # rs) ps h =
    (case rtw88_zcalloc alloc n sz h of (p, h) \<Rightarrow>
       if p = 0 then (False, ps, h) else zallocs alloc rs (p # ps) h)"

fun zfrees :: "nat list \<Rightarrow> kheap \<Rightarrow> kheap option" where
  "zfrees [] h = Some h"
| "zfrees (p # ps) h = do { h \<leftarrow> rtw88_zcfree p h; zfrees ps h }"

text \<open>The result is the error, the length of the output and the heap.\<close>

definition rtw88_decompress :: "io_malloc \<Rightarrow> (bytes \<Rightarrow> u32 \<Rightarrow> zrun) \<Rightarrow> nat \<Rightarrow> u32 \<Rightarrow> bytes \<Rightarrow> kheap \<Rightarrow>
    (int \<times> u32 \<times> kheap) option" where
  "rtw88_decompress alloc zlib dest dest_len src h =
    (let z = zlib src dest_len
     in case zallocs alloc [zr_state z] [] h of
       (False, ps, h) \<Rightarrow> Some (Z_MEM_ERROR, dest_len, h)
     | (True, ps, h) \<Rightarrow>
         if zr_init z \<noteq> Z_OK then do { h \<leftarrow> zfrees ps h; Some (zr_init z, dest_len, h) }
         else
           (case zallocs alloc (zr_requests z) ps h of (ok, ps, h) \<Rightarrow>
              let err = (if ok then zr_inflate z else Z_MEM_ERROR);
                  h = h\<lparr>kh_mem := store dest (zr_out z) (kh_mem h)\<rparr>
              in if err \<noteq> Z_STREAM_END then do { h \<leftarrow> zfrees ps h; Some (err, dest_len, h) }
                 else do {
                   h \<leftarrow> zfrees ps h;
                   Some (if zr_end z = Z_OK then 0 else zr_end z, word_of_nat (length (zr_out z)), h) }))"

section \<open>Finding and loading an image\<close>

record fw_blob =
  fb_name :: bytes
  fb_data :: bytes
  fb_original_size :: nat

text \<open>A \<open>struct firmware\<close>: size, data and the size of the allocation, each 8 bytes.\<close>

definition sizeof_firmware :: nat where "sizeof_firmware = 24"

definition load_fw_from_blob :: "io_malloc \<Rightarrow> (bytes \<Rightarrow> u32 \<Rightarrow> zrun) \<Rightarrow> fw_blob list \<Rightarrow> bytes \<Rightarrow> kheap \<Rightarrow>
    (nat \<times> kheap) option" where
  "load_fw_from_blob alloc zlib blobs base h =
    (case find (\<lambda>b. fb_name b = base) blobs of
       None \<Rightarrow> Some (0, h)
     | Some b \<Rightarrow>
         let alloc_sz = word_of_nat (length (fb_data b)) * 4 :: u64
         in case IOMalloc alloc (unat alloc_sz) h of
              None \<Rightarrow> Some (0, h)
            | Some (buf, h) \<Rightarrow> do {
                (err, out_len, h) \<leftarrow> rtw88_decompress alloc zlib buf (ucast alloc_sz) (fb_data b) h;
                (if err \<noteq> 0 then do { h \<leftarrow> IOFree buf (unat alloc_sz) h; Some (0, h) }
                 else case IOMalloc alloc sizeof_firmware h of
                   None \<Rightarrow> do { h \<leftarrow> IOFree buf (unat alloc_sz) h; Some (0, h) }
                 | Some (fw, h) \<Rightarrow>
                     let m = store64 (fw + 8) (word_of_nat buf) (kh_mem h);
                         m = store64 fw (ucast out_len) m;
                         m = store64 (fw + 16) alloc_sz m
                     in Some (fw, h\<lparr>kh_mem := m\<rparr>)) })"

fun base_loop :: "bytes \<Rightarrow> bytes \<Rightarrow> bytes" where
  "base_loop base [] = base"
| "base_loop base (c # cs) = base_loop (if c = 47 then cs else base) cs"

definition load_fw :: "io_malloc \<Rightarrow> (bytes \<Rightarrow> u32 \<Rightarrow> zrun) \<Rightarrow> fw_blob list \<Rightarrow> bytes \<Rightarrow> kheap \<Rightarrow> (nat \<times> kheap) option" where
  "load_fw alloc zlib blobs name h = load_fw_from_blob alloc zlib blobs (base_loop name name) h"

text \<open>\<open>cont\<close>: there is a continuation; the third component is what it is called with.\<close>

definition request_firmware_nowait :: "io_malloc \<Rightarrow> (bytes \<Rightarrow> u32 \<Rightarrow> zrun) \<Rightarrow> fw_blob list \<Rightarrow> bytes \<Rightarrow> bool \<Rightarrow> kheap \<Rightarrow>
    (int \<times> nat option \<times> kheap) option" where
  "request_firmware_nowait alloc zlib blobs name cont h =
    (if \<not> cont then Some (- 22, None, h)
     else do { (fw, h) \<leftarrow> load_fw alloc zlib blobs name h; Some (0, Some fw, h) })"

definition release_firmware :: "nat \<Rightarrow> kheap \<Rightarrow> kheap option" where
  "release_firmware fw h =
    (if fw = 0 then Some h
     else do {
       let buf = load64 (fw + 8) (kh_mem h);
       h \<leftarrow> (if buf \<noteq> 0 then IOFree (unat buf) (unat (load64 (fw + 16) (kh_mem h))) h else Some h);
       IOFree fw sizeof_firmware h })"

definition rtw88_load_firmware_sync :: "io_malloc \<Rightarrow> (bytes \<Rightarrow> u32 \<Rightarrow> zrun) \<Rightarrow> fw_blob list \<Rightarrow> bytes \<Rightarrow> kheap \<Rightarrow>
    (int \<times> nat \<times> kheap) option" where
  "rtw88_load_firmware_sync alloc zlib blobs name h = do {
     (fw, h) \<leftarrow> load_fw alloc zlib blobs name h;
     Some (if fw \<noteq> 0 then 0 else - 2, fw, h) }"

definition request_firmware :: "io_malloc \<Rightarrow> (bytes \<Rightarrow> u32 \<Rightarrow> zrun) \<Rightarrow> fw_blob list \<Rightarrow> bytes \<Rightarrow> kheap \<Rightarrow>
    (int \<times> nat \<times> kheap) option" where
  "request_firmware alloc zlib blobs name h = rtw88_load_firmware_sync alloc zlib blobs name h"

definition firmware_request_nowarn :: "io_malloc \<Rightarrow> (bytes \<Rightarrow> u32 \<Rightarrow> zrun) \<Rightarrow> fw_blob list \<Rightarrow> bytes \<Rightarrow> kheap \<Rightarrow>
    (int \<times> nat \<times> kheap) option" where
  "firmware_request_nowarn alloc zlib blobs name h = request_firmware alloc zlib blobs name h"

section \<open>Blocks stay apart\<close>

lemma base_loop_eq: "base_loop base name = (if 47 \<in> set name then rev (takeWhile (\<lambda>c. c \<noteq> 47) (rev name)) else base)"
proof (induction name arbitrary: base)
  case (Cons c cs)
  show ?case
  proof (cases "47 \<in> set cs")
    case True
    then have "takeWhile (\<lambda>c. c \<noteq> 47) (rev cs @ [c]) = takeWhile (\<lambda>c. c \<noteq> 47) (rev cs)"
      by (intro takeWhile_append1[of 47]) auto
    then show ?thesis using True Cons by simp
  next
    case False
    have "takeWhile (\<lambda>c. c \<noteq> 47) (rev cs @ [c]) = rev cs @ takeWhile (\<lambda>c. c \<noteq> 47) [c]"
      by (rule takeWhile_append2) (use False in auto)
    then show ?thesis using False Cons[of "if c = 47 then cs else base"] by (auto simp del: takeWhile.simps) simp
  qed
qed simp

lemma load32_store32 [simp]: "load32 a (store32 a w m) = w"
  by (simp add: load32_def store32_def word_le_bytes_le) (rule bit_word_eqI, simp add: bit_simps)

lemma load32_mem: "(\<And>x. a \<le> x \<Longrightarrow> x < a + 4 \<Longrightarrow> m' x = m x) \<Longrightarrow> load32 a m' = load32 a m"
proof -
  assume a: "\<And>x. a \<le> x \<Longrightarrow> x < a + 4 \<Longrightarrow> m' x = m x"
  have "map m' [a..<a + 4] = map m [a..<a + 4]" by (rule map_cong) (auto intro: a)
  then show ?thesis by (simp only: load32_def load_def)
qed

definition apart :: "kheap \<Rightarrow> bool" where
  "apart h \<longleftrightarrow> (\<forall>a n. kh_blocks h a = Some n \<longrightarrow> 0 < a \<and> 0 < n) \<and>
    (\<forall>a n b k. kh_blocks h a = Some n \<longrightarrow> kh_blocks h b = Some k \<longrightarrow> a \<noteq> b \<longrightarrow> a + n \<le> b \<or> b + k \<le> a)"

lemma apart_new:
  assumes "apart h" "io_malloc_ok alloc" "alloc h n = Some a" "0 < n"
  shows "kh_blocks h a = None" "apart (h\<lparr>kh_blocks := (kh_blocks h)(a \<mapsto> n)\<rparr>)" "0 < a" "a + n \<le> 2 ^ 64"
proof -
  have al: "0xffff000000000000 \<le> a" "a + n \<le> 2 ^ 64"
    "\<And>b k. kh_blocks h b = Some k \<Longrightarrow> a + n \<le> b \<or> b + k \<le> a"
    using assms(2,3) unfolding io_malloc_ok_def by blast+
  show "0 < a" "a + n \<le> 2 ^ 64" using al(1,2) by simp_all
  show f: "kh_blocks h a = None"
  proof (cases "kh_blocks h a")
    case (Some k)
    moreover have "0 < k" using Some assms(1) unfolding apart_def by blast
    ultimately show ?thesis using al(3)[OF Some] assms(4) by simp
  qed
  show "apart (h\<lparr>kh_blocks := (kh_blocks h)(a \<mapsto> n)\<rparr>)"
    using assms(1,4) al(1,3) unfolding apart_def by (auto split: if_splits) 
qed

lemma apart_free: "apart h \<Longrightarrow> apart (h\<lparr>kh_blocks := (kh_blocks h)(a := None)\<rparr>)"
  unfolding apart_def by (auto split: if_splits)

text \<open>The blocks of zlib, most recent first, on top of the blocks \<open>B\<close>.\<close>

fun zlive :: "(nat \<rightharpoonup> nat) \<Rightarrow> nat list \<Rightarrow> kheap \<Rightarrow> bool" where
  "zlive B [] h = (kh_blocks h = B)"
| "zlive B (p # ps) h =
    (4 < p \<and> B (p - 4) = None \<and> 8 \<le> unat (load32 (p - 4) (kh_mem h)) \<and>
     kh_blocks h (p - 4) = Some (unat (load32 (p - 4) (kh_mem h))) \<and>
     zlive B ps (h\<lparr>kh_blocks := (kh_blocks h)(p - 4 := None)\<rparr>))"

lemma zfrees_live: "zlive B ps h \<Longrightarrow> zfrees ps h = Some (h\<lparr>kh_blocks := B\<rparr>)"
proof (induction ps arbitrary: h)
  case (Cons p ps)
  then have "rtw88_zcfree p h = Some (h\<lparr>kh_blocks := (kh_blocks h)(p - 4 := None)\<rparr>)"
    by (simp add: rtw88_zcfree_def IOFree_def Let_def)
  then show ?case using Cons by simp
qed simp

lemma zlive_blocks: "zlive B ps h \<Longrightarrow> B a = Some n \<Longrightarrow> kh_blocks h a = Some n"
  by (induction ps arbitrary: h) (fastforce split: if_splits)+

text \<open>Writing outside the blocks of zlib.\<close>

lemma zlive_mem:
  assumes "zlive B ps h" "\<And>a n x. kh_blocks h a = Some n \<Longrightarrow> B a = None \<Longrightarrow> a \<le> x \<Longrightarrow> x < a + n \<Longrightarrow> m x = kh_mem h x"
  shows "zlive B ps (h\<lparr>kh_mem := m\<rparr>)"
  using assms
proof (induction ps arbitrary: h)
  case (Cons p ps)
  let ?n = "unat (load32 (p - 4) (kh_mem h))"
  have p: "B (p - 4) = None" "8 \<le> ?n" "kh_blocks h (p - 4) = Some ?n" using Cons(2) by simp_all
  have "load32 (p - 4) m = load32 (p - 4) (kh_mem h)"
    by (rule load32_mem) (use p in \<open>auto intro: Cons(3)\<close>)
  moreover have "zlive B ps ((h\<lparr>kh_blocks := (kh_blocks h)(p - 4 := None)\<rparr>)\<lparr>kh_mem := m\<rparr>)"
    by (rule Cons(1)) (use Cons(2,3) in \<open>auto split: if_splits\<close>)
  ultimately show ?case using Cons(2) by (cases h) simp
qed simp

definition z_ok :: "u32 \<times> u32 \<Rightarrow> bool" where
  "z_ok r \<longleftrightarrow> unat (fst r) * unat (snd r) + 8 < 2 ^ 32"

lemma z_size: "z_ok (n, sz) \<Longrightarrow> unat (n * sz + 8) = unat n * unat sz + 8"
proof -
  assume "z_ok (n, sz)"
  then have l: "unat n * unat sz + 8 < 2 ^ 32" by (simp add: z_ok_def)
  have "n * sz + 8 = word_of_nat (unat n * unat sz + 8)" by simp
  then show ?thesis using l by (simp only:) (rule unat_word_of_nat_small, simp)
qed

lemma zcalloc_live:
  assumes "zlive B ps h" "apart h" "io_malloc_ok alloc" "z_ok (n, sz)" "rtw88_zcalloc alloc n sz h = (p, h')"
  shows "(p = 0 \<and> h' = h) \<or>
    (p \<noteq> 0 \<and> zlive B (p # ps) h' \<and> apart h' \<and>
     (\<forall>a k x. kh_blocks h a = Some k \<longrightarrow> a \<le> x \<and> x < a + k \<longrightarrow> kh_mem h' x = kh_mem h x) \<and>
     (\<forall>a k. kh_blocks h a = Some k \<longrightarrow> kh_blocks h' a = Some k))"
proof (cases "alloc h (unat (n * sz + 8))")
  case None
  then show ?thesis using assms(5) by (simp add: rtw88_zcalloc_def IOMalloc_def)
next
  case (Some a)
  let ?n = "unat (n * sz + 8)"
  let ?m = "store32 a (n * sz + 8) (kh_mem h)"
  have n: "8 \<le> ?n" using z_size[OF assms(4)] by simp
  note new = apart_new[OF assms(2,3) Some]
  have h': "p = a + 4" "h' = \<lparr>kh_blocks = (kh_blocks h)(a \<mapsto> ?n), kh_mem = ?m\<rparr>"
    using assms(5) Some by (auto simp: rtw88_zcalloc_def IOMalloc_def Let_def)
  have al: "\<And>b k. kh_blocks h b = Some k \<Longrightarrow> a + ?n \<le> b \<or> b + k \<le> a"
    using assms(3) Some unfolding io_malloc_ok_def by blast
  have mem: "?m x = kh_mem h x" if "kh_blocks h b = Some k" "b \<le> x" "x < b + k" for b k x
    using al[OF that(1)] that(2,3) n by (auto simp: store32_def store_def)
  have f: "kh_blocks h a = None" using new(1) n by simp
  have undo: "(kh_blocks h)(a := None) = kh_blocks h" using f by auto
  have "zlive B ps (h\<lparr>kh_mem := ?m\<rparr>)" by (rule zlive_mem[OF assms(1)]) (auto intro: mem)
  then have "zlive B ps \<lparr>kh_blocks = kh_blocks h, kh_mem = ?m\<rparr>" by (cases h) simp
  moreover have "B a = None" using zlive_blocks[OF assms(1), of a] f by (cases "B a") auto
  moreover have "apart h'" using new(2) n by (simp add: apart_def h')
  ultimately show ?thesis using n new(3) mem f by (auto simp: h' undo)
qed

lemma zallocs_live:
  assumes "zlive B ps h" "apart h" "io_malloc_ok alloc" "\<forall>r \<in> set rs. z_ok r" "zallocs alloc rs ps h = (ok, ps', h')"
  shows "zlive B ps' h' \<and> apart h' \<and>
    (\<forall>a k x. kh_blocks h a = Some k \<longrightarrow> a \<le> x \<and> x < a + k \<longrightarrow> kh_mem h' x = kh_mem h x) \<and>
    (\<forall>a k. kh_blocks h a = Some k \<longrightarrow> kh_blocks h' a = Some k)"
  using assms
proof (induction alloc rs ps h rule: zallocs.induct)
  case (2 alloc n sz rs ps h)
  obtain p h1 where e: "rtw88_zcalloc alloc n sz h = (p, h1)" by fastforce
  show ?case
  proof (cases "p = 0")
    case True
    then show ?thesis using 2 e zcalloc_live[OF 2(2,3,4) _ e] by auto
  next
    case False
    then have l: "zlive B (p # ps) h1" "apart h1"
      "\<And>a k x. kh_blocks h a = Some k \<Longrightarrow> a \<le> x \<Longrightarrow> x < a + k \<Longrightarrow> kh_mem h1 x = kh_mem h x"
      "\<And>a k. kh_blocks h a = Some k \<Longrightarrow> kh_blocks h1 a = Some k"
      using zcalloc_live[OF 2(2,3,4) _ e] 2(5) by auto
    have z: "zallocs alloc rs (p # ps) h1 = (ok, ps', h')" using 2(6) e False by simp
    have "zlive B ps' h' \<and> apart h' \<and>
      (\<forall>a k x. kh_blocks h1 a = Some k \<longrightarrow> a \<le> x \<and> x < a + k \<longrightarrow> kh_mem h' x = kh_mem h1 x) \<and>
      (\<forall>a k. kh_blocks h1 a = Some k \<longrightarrow> kh_blocks h' a = Some k)"
      by (rule 2(1)[OF e[symmetric] _ l(1,2) 2(4) _ z]) (use False 2(5) in simp_all)
    then show ?thesis using l(3,4) by metis
  qed
qed auto

text \<open>What is documented of zlib: it asks for less than 4 GB, writes no more than there is room for, and
  \<open>inflate\<close> with \<open>Z_FINISH\<close> ends the stream or fails.\<close>

definition zlib_ok :: "(bytes \<Rightarrow> u32 \<Rightarrow> zrun) \<Rightarrow> bool" where
  "zlib_ok zlib \<longleftrightarrow> (\<forall>src n. z_ok (zr_state (zlib src n)) \<and> (\<forall>r \<in> set (zr_requests (zlib src n)). z_ok r) \<and>
    zr_inflate (zlib src n) \<noteq> Z_OK \<and> length (zr_out (zlib src n)) \<le> unat n)"

text \<open>Decompression leaves only the output behind.\<close>

lemma rtw88_decompress_ok:
  assumes "apart h" "io_malloc_ok alloc" "zlib_ok zlib" "kh_blocks h dest = Some k" "unat len \<le> k"
  shows "\<exists>err n h'. rtw88_decompress alloc zlib dest len src h = Some (err, n, h') \<and> kh_blocks h' = kh_blocks h \<and>
    (\<forall>a j x. kh_blocks h a = Some j \<longrightarrow> a \<noteq> dest \<longrightarrow> a \<le> x \<and> x < a + j \<longrightarrow> kh_mem h' x = kh_mem h x) \<and>
    (err = 0 \<longrightarrow> n = word_of_nat (length (zr_out (zlib src len))) \<and>
      load dest (length (zr_out (zlib src len))) (kh_mem h') = zr_out (zlib src len))"
proof -
  let ?z = "zlib src len"
  let ?B = "kh_blocks h"
  have z: "\<forall>r \<in> set [zr_state ?z]. z_ok r" "\<forall>r \<in> set (zr_requests ?z). z_ok r" "length (zr_out ?z) \<le> k"
      "zr_inflate ?z \<noteq> 0"
    using assms(3,5) by (auto simp: zlib_ok_def Z_OK_def intro: le_trans)
  obtain ok1 ps1 h1 where e1: "zallocs alloc [zr_state ?z] [] h = (ok1, ps1, h1)" by (metis prod_cases3)
  have l1: "zlive ?B ps1 h1" "apart h1"
    "\<And>a j x. ?B a = Some j \<Longrightarrow> a \<le> x \<Longrightarrow> x < a + j \<Longrightarrow> kh_mem h1 x = kh_mem h x"
    using zallocs_live[OF _ assms(1,2) z(1) e1, of ?B] by auto
  obtain ok2 ps2 h2 where e2: "zallocs alloc (zr_requests ?z) ps1 h1 = (ok2, ps2, h2)" by (metis prod_cases3)
  have l2: "zlive ?B ps2 h2" "apart h2"
    "\<And>a j x. ?B a = Some j \<Longrightarrow> a \<le> x \<Longrightarrow> x < a + j \<Longrightarrow> kh_mem h2 x = kh_mem h x"
  proof -
    note l = zallocs_live[OF l1(1,2) assms(2) z(2) e2]
    show "zlive ?B ps2 h2" "apart h2" using l by blast+
    show "kh_mem h2 x = kh_mem h x" if "?B a = Some j" "a \<le> x" "x < a + j" for a j x
      using l l1(3)[OF that] zlive_blocks[OF l1(1) that(1)] that(2,3) by metis
  qed
  define h3 where "h3 = h2\<lparr>kh_mem := store dest (zr_out ?z) (kh_mem h2)\<rparr>"
  have "kh_blocks h2 dest = Some k" using zlive_blocks[OF l2(1) assms(4)] .
  then have apart2: "a + n \<le> dest \<or> dest + k \<le> a" if "kh_blocks h2 a = Some n" "a \<noteq> dest" for a n
    using l2(2) that unfolding apart_def by blast
  have "zlive ?B ps2 h3" unfolding h3_def
  proof (rule zlive_mem[OF l2(1)])
    fix a n x
    assume a: "kh_blocks h2 a = Some n" "?B a = None" "a \<le> x" "x < a + n"
    then have "a \<noteq> dest" using assms(4) by auto
    then show "store dest (zr_out ?z) (kh_mem h2) x = kh_mem h2 x"
      using apart2[OF a(1)] a(3,4) z(3) by (auto simp: store_def)
  qed
  note free = zfrees_live[OF this] zfrees_live[OF l1(1)]
  have mem: "kh_mem h3 x = kh_mem h x" if "?B a = Some j" "a \<noteq> dest" "a \<le> x" "x < a + j" for a j x
    using apart2[OF zlive_blocks[OF l2(1) that(1)] that(2)] that z(3) l2(3)[OF that(1,3,4)]
    by (auto simp: h3_def store_def)
  have out: "load dest (length (zr_out ?z)) (kh_mem h3) = zr_out ?z" by (simp add: h3_def)
  show ?thesis
  proof (cases "ok1 \<and> zr_init ?z = Z_OK")
    case False
    show ?thesis
    proof (cases ok1)
      case True
      then show ?thesis using False e1 free(2) l1(3) by (simp add: rtw88_decompress_def Z_OK_def)
    next
      case no: False
      then have "ps1 = [] \<and> h1 = h" using e1 zcalloc_live[OF _ assms(1,2) _, of ?B "[]"] z(1)
        by (cases "zr_state ?z") (fastforce split: prod.splits if_splits)
      then show ?thesis using no e1 by (simp add: rtw88_decompress_def Z_MEM_ERROR_def)
    qed
  next
    case True
    then show ?thesis using e1 e2 free(1) mem out z(4)
      by (auto simp: rtw88_decompress_def Let_def h3_def[symmetric] Z_MEM_ERROR_def Z_STREAM_END_def Z_OK_def)
  qed
qed

lemma fw_sizes:
  assumes "L < 2 ^ 30"
  shows "unat (word_of_nat L * 4 :: u64) = 4 * L" "unat (word_of_nat L * 4 :: u32) = 4 * L"
    "ucast (word_of_nat L * 4 :: u64) = (word_of_nat L * 4 :: u32)"
proof -
  have w: "(word_of_nat L * 4 :: u64) = word_of_nat (4 * L)" "(word_of_nat L * 4 :: u32) = word_of_nat (4 * L)"
    by simp_all
  have "take_bit 64 (4 * L) = 4 * L" "take_bit 32 (4 * L) = 4 * L"
    using assms by (auto intro!: take_bit_nat_eq_self)
  then show "unat (word_of_nat L * 4 :: u64) = 4 * L" "unat (word_of_nat L * 4 :: u32) = 4 * L"
    "ucast (word_of_nat L * 4 :: u64) = (word_of_nat L * 4 :: u32)"
    unfolding w by (simp_all add: unsigned_of_nat del: of_nat_mult)
qed

text \<open>The three stores that fill a \<open>struct firmware\<close>.\<close>

definition fw_fill :: "nat \<Rightarrow> nat \<Rightarrow> u32 \<Rightarrow> u64 \<Rightarrow> (nat \<Rightarrow> u8) \<Rightarrow> nat \<Rightarrow> u8" where
  "fw_fill fw buf n sz m = store64 (fw + 16) sz (store64 fw (ucast n) (store64 (fw + 8) (word_of_nat buf) m))"

lemma fw_fill_fields [simp]:
  "load64 fw (fw_fill fw buf n sz m) = ucast n" "load64 (fw + 8) (fw_fill fw buf n sz m) = word_of_nat buf"
  "load64 (fw + 16) (fw_fill fw buf n sz m) = sz"
  by (simp_all add: fw_fill_def load64_store64_other)

lemma fw_fill_other: "fw + 24 \<le> a \<or> a + n \<le> fw \<Longrightarrow> load a n (fw_fill fw buf k sz m) = load a n m"
  by (auto simp: fw_fill_def load_store64_other)

lemma release_firmware_ok:
  assumes "kh_blocks h = B(buf \<mapsto> k, fw \<mapsto> 24)" "B buf = None" "B fw = None" "fw \<noteq> buf" "0 < fw" "0 < buf" "buf < 2 ^ 64"
    "load64 (fw + 8) (kh_mem h) = word_of_nat buf" "unat (load64 (fw + 16) (kh_mem h)) = k"
  shows "release_firmware fw h = Some (h\<lparr>kh_blocks := B\<rparr>)"
proof -
  have ub: "unat (word_of_nat buf :: u64) = buf" using assms(7) by (simp add: unat_of_nat)
  then have "(word_of_nat buf :: u64) \<noteq> 0" using assms(6) by (metis less_numeral_extra(3) unat_0)
  moreover have "(B(buf \<mapsto> k, fw \<mapsto> 24))(buf := None, fw := None) = B" using assms(2,3) by auto
  ultimately show ?thesis using assms ub by (simp add: release_firmware_def IOFree_def sizeof_firmware_def)
qed

text \<open>Loading an image that is in the table: nothing, with the blocks as before, or a filled structure on
  top of a buffer with the output, both new.\<close>

lemma load_fw_from_blob_cases:
  fixes b zlib
  defines "L \<equiv> length (fb_data b)" and "out \<equiv> zr_out (zlib (fb_data b) (word_of_nat (length (fb_data b)) * 4))"
  assumes "apart h" "io_malloc_ok alloc" "zlib_ok zlib" "find (\<lambda>b. fb_name b = base) blobs = Some b" "0 < L" "L < 2 ^ 30"
  obtains h' where "load_fw_from_blob alloc zlib blobs base h = Some (0, h')" "kh_blocks h' = kh_blocks h"
  | fw buf m where "load_fw_from_blob alloc zlib blobs base h = Some (fw,
      \<lparr>kh_blocks = (kh_blocks h)(buf \<mapsto> 4 * L, fw \<mapsto> 24),
       kh_mem = fw_fill fw buf (word_of_nat (length out)) (word_of_nat L * 4) m\<rparr>)"
    "load buf (length out) m = out" "kh_blocks h buf = None" "kh_blocks h fw = None" "0 < buf" "buf < 2 ^ 64" "0 < fw"
    "fw + 24 \<le> buf \<or> buf + 4 * L \<le> fw"
proof (cases "alloc h (4 * L)")
  case None
  then show ?thesis using assms(6) that(1)
    by (simp add: load_fw_from_blob_def IOMalloc_def fw_sizes[OF assms(8)] flip: L_def)
next
  case a: (Some buf)
  define h1 where "h1 = h\<lparr>kh_blocks := (kh_blocks h)(buf \<mapsto> 4 * L)\<rparr>"
  have new: "kh_blocks h buf = None" "apart h1" "0 < buf" "buf < 2 ^ 64"
    using apart_new[OF assms(3,4) a] assms(7) by (simp_all add: h1_def)
  have m1: "IOMalloc alloc (4 * L) h = Some (buf, h1)" using a by (simp add: IOMalloc_def h1_def)
  obtain err n h2 where d: "rtw88_decompress alloc zlib buf (word_of_nat L * 4) (fb_data b) h1 = Some (err, n, h2)"
    "kh_blocks h2 = kh_blocks h1" "err = 0 \<Longrightarrow> n = word_of_nat (length out)" "err = 0 \<Longrightarrow> load buf (length out) (kh_mem h2) = out"
    using rtw88_decompress_ok[OF new(2) assms(4,5), of buf "4 * L" "word_of_nat L * 4" "fb_data b"] fw_sizes(2)[OF assms(8)]
    by (auto simp: h1_def out_def L_def)
  have f1: "IOFree buf (4 * L) h2 = Some (h2\<lparr>kh_blocks := kh_blocks h\<rparr>)"
    using d(2) new(1) by (simp add: IOFree_def h1_def fun_upd_idem)
  note load = load_fw_from_blob_def assms(6) m1 d(1) fw_sizes[OF assms(8)] f1 fw_fill_def
  consider "err \<noteq> 0" | "err = 0" "alloc h2 24 = None" | fw where "err = 0" "alloc h2 24 = Some fw" by fastforce
  then show ?thesis
  proof cases
    case 1
    then show ?thesis using that(1) by (simp add: load flip: L_def)
  next
    case 2
    then show ?thesis using that(1) by (simp add: load IOMalloc_def[of _ 24] sizeof_firmware_def flip: L_def)
  next
    case 3
    have "apart h2" using new(2) d(2) by (simp add: apart_def)
    note nf = apart_new[OF this assms(4) 3(2), simplified]
    have "fw + 24 \<le> buf \<or> buf + 4 * L \<le> fw"
      using assms(4) 3(2) d(2) unfolding io_malloc_ok_def by (simp add: h1_def)
    moreover have "kh_blocks h fw = None" using nf(1) d(2) by (auto simp: h1_def split: if_splits)
    moreover have "load_fw_from_blob alloc zlib blobs base h = Some (fw,
      \<lparr>kh_blocks = (kh_blocks h)(buf \<mapsto> 4 * L, fw \<mapsto> 24),
       kh_mem = fw_fill fw buf (word_of_nat (length out)) (word_of_nat L * 4) (kh_mem h2)\<rparr>)"
      using 3 d(2) d(3)[OF 3(1)]
      by (simp add: load IOMalloc_def[of _ 24] sizeof_firmware_def Let_def flip: L_def) (simp add: h1_def)
    ultimately show ?thesis using that(2)[of fw buf "kh_mem h2"] new nf(3) d(4)[OF 3(1)] by blast
  qed
qed


definition blob_demo :: fw_blob where
  "blob_demo = \<lparr>fb_name = [102, 119], fb_data = [1, 2, 3], fb_original_size = 5\<rparr>"

definition zlib_demo :: "bytes \<Rightarrow> u32 \<Rightarrow> zrun" where
  "zlib_demo src n = \<lparr>zr_state = (1, 100), zr_init = 0, zr_requests = [(256, 1)], zr_inflate = 1,
     zr_out = take (unat n) [9, 8, 7, 6, 5], zr_end = 0\<rparr>"

text \<open>An allocator with five places for blocks of at most 4096 bytes.\<close>

definition slot_alloc :: io_malloc where
  "slot_alloc h n =
    (if n \<le> 4096
     then find (\<lambda>a. \<forall>b k. kh_blocks h b = Some k \<longrightarrow> a + n \<le> b \<or> b + k \<le> a)
       [0xffff000000001000, 0xffff000000002000, 0xffff000000003000, 0xffff000000004000, 0xffff000000005000]
     else None)"

lemma slot_alloc_ok: "io_malloc_ok slot_alloc"
  by (auto simp: io_malloc_ok_def slot_alloc_def split: if_splits)

lemma zlib_demo_ok: "zlib_ok zlib_demo"
  by (auto simp: zlib_ok_def zlib_demo_def z_ok_def Z_OK_def)


end
