(* ===== verification/Kern.thy ===== *)
theory Kern
  imports Sync Slab
begin

text \<open>
  The small kernel interfaces of \<open>src/compat/linux\<close>: error pointers, division and the size macros of
  \<open>kernel.h\<close>, the polling loops of \<open>kernel.h\<close> and \<open>iopoll.h\<close>, the delays of \<open>delay.h\<close>, the locks of
  \<open>spinlock.h\<close>, tasklets of \<open>interrupt.h\<close>, \<open>vmalloc.h\<close>, and \<open>atomic_dec_if_positive\<close> and
  \<open>get_random_mask_addr\<close> of \<open>rtw88_compat.c\<close>.
\<close>

section \<open>Numbers and error pointers\<close>

definition div_u64 :: "u64 \<Rightarrow> u32 \<Rightarrow> u32 option" where
  "div_u64 dividend divisor = (if divisor = 0 then None else Some (ucast (dividend div ucast divisor)))"

definition IS_ERR_VALUE :: "u64 \<Rightarrow> bool" where "IS_ERR_VALUE x \<longleftrightarrow> x \<ge> - 4095"
definition ERR_PTR :: "u64 \<Rightarrow> u64" where "ERR_PTR e = e"
definition PTR_ERR :: "u64 \<Rightarrow> u64" where "PTR_ERR p = p"
definition IS_ERR :: "u64 \<Rightarrow> bool" where "IS_ERR p \<longleftrightarrow> IS_ERR_VALUE p"
definition IS_ERR_OR_NULL :: "u64 \<Rightarrow> bool" where "IS_ERR_OR_NULL p \<longleftrightarrow> p = 0 \<or> IS_ERR p"

definition ALIGN_DOWN :: "u64 \<Rightarrow> u64 \<Rightarrow> u64" where "ALIGN_DOWN x a = x AND NOT (a - 1)"
definition DIV_ROUND_UP :: "u32 \<Rightarrow> u32 \<Rightarrow> u32" where "DIV_ROUND_UP n d = (n + d - 1) div d"
definition round_up :: "u32 \<Rightarrow> u32 \<Rightarrow> u32" where "round_up x y = ((x + y - 1) div y) * y"
definition round_down :: "u32 \<Rightarrow> u32 \<Rightarrow> u32" where "round_down x y = (x div y) * y"
definition abs_diff :: "u32 \<Rightarrow> u32 \<Rightarrow> u32" where "abs_diff a b = (if a > b then a - b else b - a)"

text \<open>\<open>n\<close> is replaced by the quotient, the remainder is the value.\<close>

definition do_div :: "u64 \<Rightarrow> u32 \<Rightarrow> u32 \<times> u64" where
  "do_div n base = (ucast (n mod ucast base), n div ucast base)"

section \<open>Delays\<close>

text \<open>What the delays call, with its argument.\<close>

datatype delay_call = IODelay u32 | IOSleep u32

function udelay :: "u64 \<Rightarrow> delay_call list" where
  "udelay usecs =
    (if usecs > 1000 then IODelay 1000 # udelay (usecs - 1000)
     else if usecs \<noteq> 0 then [IODelay (ucast usecs)] else [])"
  by pat_completeness auto
termination
  by (relation "measure unat") (auto simp: word_less_nat_alt unat_sub_if')

declare udelay.simps [simp del]

definition ndelay :: "u64 \<Rightarrow> delay_call list" where "ndelay nsecs = udelay ((nsecs + 999) div 1000)"
definition mdelay :: "u64 \<Rightarrow> delay_call list" where "mdelay msecs = udelay (msecs * 1000)"

definition usleep_range :: "u64 \<Rightarrow> u64 \<Rightarrow> delay_call list" where
  "usleep_range min_us max_us =
    (let avg = (min_us + max_us) div 2
     in if avg \<ge> 1000 then [IOSleep (ucast (avg div 1000))] else [IODelay (ucast avg)])"

definition msleep :: "u32 \<Rightarrow> delay_call list" where "msleep msecs = [IOSleep msecs]"
definition ssleep :: "u32 \<Rightarrow> delay_call list" where "ssleep secs = [IOSleep (secs * 1000)]"

definition fsleep :: "u64 \<Rightarrow> delay_call list" where
  "fsleep us = (if us < 1000 then [IODelay (ucast us)] else [IOSleep (ucast (us div 1000) + 1)])"

text \<open>Microseconds that a call waits.\<close>

fun delay_us :: "delay_call \<Rightarrow> nat" where
  "delay_us (IODelay us) = unat us"
| "delay_us (IOSleep ms) = 1000 * unat ms"

definition waited :: "delay_call list \<Rightarrow> nat" where
  "waited cs = sum_list (map delay_us cs)"

lemma udelay_waits: "waited (udelay us) = unat us \<and> (\<forall>c \<in> set (udelay us). delay_us c \<le> 1000)"
proof (induction us rule: udelay.induct)
  case (1 us)
  show ?case
  proof (cases "us > 1000")
    case True
    then have "unat (us - 1000) = unat us - 1000" "1000 < unat us"
      by (simp_all add: word_less_nat_alt unat_sub_if')
    then show ?thesis using 1 True by (subst (1 2) udelay.simps) (simp add: waited_def)
  next
    case False
    then have l: "unat us \<le> 1000" by (simp add: word_less_nat_alt)
    then have "take_bit 32 (unat us) = unat us" by (intro take_bit_nat_eq_self) simp
    then have "unat (ucast us :: u32) = unat us" by (simp add: unsigned_ucast_eq)
    then show ?thesis using False l by (subst (1 2) udelay.simps) (auto simp: waited_def)
  qed
qed

section \<open>Polling\<close>

definition ETIMEDOUT :: int where "ETIMEDOUT = 110"

text \<open>The \<open>i\<close>-th read gives \<open>vals i\<close>; \<open>jif i\<close> is the clock when it is looked at after that read.  The
  result is the return code with the last value read.\<close>

partial_function (option) poll_loop ::
    "(nat \<Rightarrow> 'v) \<Rightarrow> ('v \<Rightarrow> bool) \<Rightarrow> (nat \<Rightarrow> u64) \<Rightarrow> u32 \<Rightarrow> u64 \<Rightarrow> nat \<Rightarrow> (int \<times> 'v) option" where
  "poll_loop vals cond jif timeout_us deadline i =
    (if cond (vals i) then Some (0, vals i)
     else if timeout_us \<noteq> 0 \<and> time_after (jif i) deadline
     then (if cond (vals (i + 1)) then Some (0, vals (i + 1)) else Some (- ETIMEDOUT, vals (i + 1)))
     else poll_loop vals cond jif timeout_us deadline (i + 1))"

definition read_poll_timeout :: "(nat \<Rightarrow> 'v) \<Rightarrow> ('v \<Rightarrow> bool) \<Rightarrow> (nat \<Rightarrow> u64) \<Rightarrow> u64 \<Rightarrow> u32 \<Rightarrow> (int \<times> 'v) option" where
  "read_poll_timeout vals cond jif start timeout_us =
    poll_loop vals cond jif timeout_us (start + usecs_to_jiffies timeout_us) 0"

definition readx_poll_timeout :: "(nat \<Rightarrow> 'v) \<Rightarrow> ('v \<Rightarrow> bool) \<Rightarrow> (nat \<Rightarrow> u64) \<Rightarrow> u64 \<Rightarrow> u32 \<Rightarrow> (int \<times> 'v) option" where
  "readx_poll_timeout vals cond jif start timeout_us = read_poll_timeout vals cond jif start timeout_us"

text \<open>The atomic variant looks at the absolute time; it evaluates the condition once more at the end.\<close>

partial_function (option) poll_loop_atomic ::
    "(nat \<Rightarrow> 'v) \<Rightarrow> ('v \<Rightarrow> bool) \<Rightarrow> (nat \<Rightarrow> u64) \<Rightarrow> u64 \<Rightarrow> nat \<Rightarrow> (int \<times> 'v) option" where
  "poll_loop_atomic vals cond now deadline i =
    (if cond (vals i) then Some (0, vals i)
     else if now i \<ge> deadline
     then Some (if cond (vals (i + 1)) then 0 else - ETIMEDOUT, vals (i + 1))
     else poll_loop_atomic vals cond now deadline (i + 1))"

definition read_poll_timeout_atomic :: "(nat \<Rightarrow> 'v) \<Rightarrow> ('v \<Rightarrow> bool) \<Rightarrow> (nat \<Rightarrow> u64) \<Rightarrow> u64 \<Rightarrow> u64 \<Rightarrow> (int \<times> 'v) option" where
  "read_poll_timeout_atomic vals cond now start timeout_us =
    poll_loop_atomic vals cond now (start + timeout_us * 1000) 0"

section \<open>Spin locks\<close>

text \<open>A recursive lock: the thread that holds it and how many times.  Taking a lock that another thread
  holds is \<open>None\<close>: the caller waits.  Giving back a lock one does not hold is \<open>None\<close> too: the kernel
  panics.\<close>

type_synonym spinlock = "(nat \<times> nat) option"

definition spin_lock_init :: spinlock where "spin_lock_init = None"

definition spin_lock :: "nat \<Rightarrow> spinlock \<Rightarrow> spinlock option" where
  "spin_lock t l =
    (case l of None \<Rightarrow> Some (Some (t, 1))
     | Some (o', n) \<Rightarrow> if o' = t then Some (Some (t, n + 1)) else None)"

definition spin_unlock :: "nat \<Rightarrow> spinlock \<Rightarrow> spinlock option" where
  "spin_unlock t l =
    (case l of None \<Rightarrow> None
     | Some (o', n) \<Rightarrow> if o' \<noteq> t then None else Some (if n = 1 then None else Some (t, n - 1)))"

text \<open>The reader-writer lock is a plain lock.\<close>

definition read_lock :: "bool \<Rightarrow> bool option" where "read_lock l = IOLockLock l"
definition write_lock :: "bool \<Rightarrow> bool option" where "write_lock l = IOLockLock l"
definition read_unlock :: "bool \<Rightarrow> bool" where "read_unlock l = False"
definition write_unlock :: "bool \<Rightarrow> bool" where "write_unlock l = False"

section \<open>Tasklets\<close>

record 's tasklet =
  tk_func :: "(u64 \<Rightarrow> 's \<Rightarrow> 's) option"
  tk_data :: u64

definition tasklet_init :: "(u64 \<Rightarrow> 's \<Rightarrow> 's) option \<Rightarrow> u64 \<Rightarrow> 's tasklet" where
  "tasklet_init f d = \<lparr>tk_func = f, tk_data = d\<rparr>"

definition tasklet_schedule :: "'s tasklet \<Rightarrow> 's \<Rightarrow> 's" where
  "tasklet_schedule t s = (case tk_func t of None \<Rightarrow> s | Some f \<Rightarrow> f (tk_data t) s)"

section \<open>Memory and numbers of the compatibility layer\<close>

definition vmalloc :: "io_malloc \<Rightarrow> u64 \<Rightarrow> kheap \<Rightarrow> nat option \<times> kheap" where "vmalloc alloc sz h = kmalloc alloc sz 0 h"
definition vzalloc :: "io_malloc \<Rightarrow> u64 \<Rightarrow> kheap \<Rightarrow> nat option \<times> kheap" where "vzalloc alloc sz h = kzalloc alloc sz 0 h"
definition vfree :: "nat \<Rightarrow> kheap \<Rightarrow> kheap option" where "vfree p h = kfree p h"

definition devm_kmemdup :: "io_malloc \<Rightarrow> bytes \<Rightarrow> kheap \<Rightarrow> nat option \<times> kheap" where
  "devm_kmemdup alloc src h =
    (case kmalloc alloc (word_of_nat (length src)) 0 h of
       (None, h) \<Rightarrow> (None, h)
     | (Some p, h) \<Rightarrow> (Some p, h\<lparr>kh_mem := store p src (kh_mem h)\<rparr>))"

text \<open>\<open>rand\<close> is what \<open>read_random\<close> delivers.\<close>

definition get_random_mask_addr :: "bytes \<Rightarrow> bytes \<Rightarrow> bytes \<Rightarrow> bytes" where
  "get_random_mask_addr rand addr msk =
    map (\<lambda>i. (addr ! i AND NOT (msk ! i)) OR (rand ! i AND msk ! i)) [0..<6]"

text \<open>The loop of \<open>atomic_dec_if_positive\<close>: \<open>seen\<close> are the values of the counter at its compare-and-swap
  operations, which other threads may have changed; the result is the return value with the last
  value seen and what is there then.  \<open>None\<close>: it is still trying.\<close>

fun dec_if_positive_loop :: "u32 \<Rightarrow> u32 list \<Rightarrow> (u32 \<times> u32 \<times> u32) option" where
  "dec_if_positive_loop c seen =
    (if sint c \<le> 0 then Some (c - 1, c, c)
     else case seen of
       [] \<Rightarrow> None
     | v # vs \<Rightarrow> (case atomic_cmpxchg c (c - 1) v of (old, v') \<Rightarrow>
         if old = c then Some (c - 1, old, v') else dec_if_positive_loop old vs))"

definition atomic_dec_if_positive :: "u32 \<Rightarrow> u32 list \<Rightarrow> (u32 \<times> u32 \<times> u32) option" where
  "atomic_dec_if_positive c seen = dec_if_positive_loop c seen"

section \<open>What they promise\<close>

lemma ERR_PTR_roundtrip: "1 \<le> e \<Longrightarrow> e \<le> 4095 \<Longrightarrow> IS_ERR (ERR_PTR (- e)) \<and> PTR_ERR (ERR_PTR (- e)) = - e"
  by (auto simp: IS_ERR_def IS_ERR_VALUE_def ERR_PTR_def PTR_ERR_def word_le_def uint_word_ariths zmod_zminus1_eq_if)

text \<open>The quotient keeps only 32 bits.\<close>

lemma div_u64_truncates: "div_u64 (2 ^ 32) 1 = Some 0"
  by (simp add: div_u64_def word_unat_eq_iff)

text \<open>A sleep may be shorter than its lower bound.\<close>

lemma usleep_range_short: "waited (usleep_range 1900 2000) = 1000"
  by (simp add: usleep_range_def waited_def Let_def)

lemma dec_if_positive_atomic:
  "atomic_dec_if_positive c seen = Some (r, v, v') \<Longrightarrow>
    r = v - 1 \<and> v' = (if 0 < sint v then v - 1 else v)"
  unfolding atomic_dec_if_positive_def
proof (induction c seen rule: dec_if_positive_loop.induct)
  case (1 c seen)
  show ?case
  proof (cases "sint c \<le> 0")
    case True
    then show ?thesis using 1(2) by (subst (asm) dec_if_positive_loop.simps) auto
  next
    case False
    then obtain w ws where s: "seen = w # ws" using 1(2) by (subst (asm) dec_if_positive_loop.simps) (cases seen, auto)
    show ?thesis
    proof (cases "w = c")
      case True
      then show ?thesis using 1(2) False s by (subst (asm) dec_if_positive_loop.simps) (auto simp: atomic_cmpxchg_def)
    next
      case no: False
      have "dec_if_positive_loop w ws = Some (r, v, v')"
        using 1(2) False s no by (subst (asm) dec_if_positive_loop.simps) (simp add: atomic_cmpxchg_def)
      then show ?thesis using 1(1)[OF False s _ no] s by (simp add: atomic_cmpxchg_def no)
    qed
  qed
qed

declare dec_if_positive_loop.simps [simp del]

text \<open>When polling ends.\<close>

definition poll_stop :: "(nat \<Rightarrow> 'v) \<Rightarrow> ('v \<Rightarrow> bool) \<Rightarrow> (nat \<Rightarrow> u64) \<Rightarrow> u32 \<Rightarrow> u64 \<Rightarrow> nat \<Rightarrow> bool" where
  "poll_stop vals cond jif timeout_us deadline i \<longleftrightarrow>
    cond (vals i) \<or> (timeout_us \<noteq> 0 \<and> time_after (jif i) deadline)"

definition poll_result :: "(nat \<Rightarrow> 'v) \<Rightarrow> ('v \<Rightarrow> bool) \<Rightarrow> nat \<Rightarrow> int \<times> 'v" where
  "poll_result vals cond n =
    (if cond (vals n) then (0, vals n)
     else if cond (vals (n + 1)) then (0, vals (n + 1)) else (- ETIMEDOUT, vals (n + 1)))"

lemma poll_loop_stops:
  assumes "poll_stop vals cond jif to dl n" "i \<le> n" "\<And>j. i \<le> j \<Longrightarrow> j < n \<Longrightarrow> \<not> poll_stop vals cond jif to dl j"
  shows "poll_loop vals cond jif to dl i = Some (poll_result vals cond n)"
  using assms
proof (induction "n - i" arbitrary: i)
  case 0
  then have "i = n" by simp
  then show ?case using 0(2) by (subst poll_loop.simps) (auto simp: poll_stop_def poll_result_def)
next
  case (Suc d)
  have n: "\<not> poll_stop vals cond jif to dl i" "d = n - Suc i" "Suc i \<le> n" using Suc(2,5) by auto
  have "poll_loop vals cond jif to dl (Suc i) = Some (poll_result vals cond n)"
    using Suc(1)[OF n(2)] Suc(3,5) n(3) by simp
  moreover have "poll_loop vals cond jif to dl i = poll_loop vals cond jif to dl (Suc i)"
    using n(1) by (subst poll_loop.simps) (auto simp: poll_stop_def)
  ultimately show ?case by simp
qed

lemma poll_loop_returns:
  "poll_loop vals cond jif to dl i = Some r \<Longrightarrow> \<exists>n. poll_stop vals cond jif to dl n"
proof (rule poll_loop.raw_induct[where P = "\<lambda>vals cond jif to dl i r. \<exists>n. poll_stop vals cond jif to dl n"])
  fix f :: "(nat \<Rightarrow> 'v) \<Rightarrow> ('v \<Rightarrow> bool) \<Rightarrow> (nat \<Rightarrow> u64) \<Rightarrow> u32 \<Rightarrow> u64 \<Rightarrow> nat \<Rightarrow> (int \<times> 'v) option"
    and vals cond jif to dl i r
  assume IH: "\<And>vals cond jif to dl i r. f vals cond jif to dl i = Some r \<Longrightarrow> \<exists>n. poll_stop vals cond jif to dl n"
    and r: "(if cond (vals i) then Some (0, vals i)
     else if to \<noteq> 0 \<and> time_after (jif i) dl
     then (if cond (vals (i + 1)) then Some (0, vals (i + 1)) else Some (- ETIMEDOUT, vals (i + 1)))
     else f vals cond jif to dl (i + 1)) = Some r"
  show "\<exists>n. poll_stop vals cond jif to dl n"
  proof (cases "poll_stop vals cond jif to dl i")
    case False
    then have "f vals cond jif to dl (i + 1) = Some r" using r by (auto simp: poll_stop_def)
    then show ?thesis by (rule IH)
  qed blast
qed

text \<open>A poll returns just when a read fulfils the condition or the clock is past the deadline after a
  read.  It then ends at the first such read, after one more read when the condition did not hold, with
  the value it read last, and reports a timeout exactly when that value does not fulfil the
  condition.  Otherwise it never returns.\<close>

theorem poll_timeout_decides:
  "read_poll_timeout vals cond jif start to =
    (let stop = poll_stop vals cond jif to (start + usecs_to_jiffies to)
     in if \<exists>n. stop n then Some (poll_result vals cond (LEAST n. stop n)) else None)"
proof (cases "\<exists>n. poll_stop vals cond jif to (start + usecs_to_jiffies to) n")
  case True
  let ?s = "poll_stop vals cond jif to (start + usecs_to_jiffies to)"
  have "?s (LEAST n. ?s n)" using True by (rule LeastI_ex)
  then have "poll_loop vals cond jif to (start + usecs_to_jiffies to) 0 = Some (poll_result vals cond (LEAST n. ?s n))"
    by (rule poll_loop_stops) (auto dest: not_less_Least)
  then show ?thesis using True by (simp add: read_poll_timeout_def Let_def)
next
  case False
  then show ?thesis using poll_loop_returns[of vals cond jif to "start + usecs_to_jiffies to" 0]
    by (cases "poll_loop vals cond jif to (start + usecs_to_jiffies to) 0") (auto simp: read_poll_timeout_def Let_def)
qed

section \<open>Mutual exclusion\<close>

text \<open>Threads take and give back a lock; \<open>c t\<close> is how often thread \<open>t\<close> has taken it and not given
  it back.\<close>

inductive lock_reach :: "spinlock \<Rightarrow> (nat \<Rightarrow> nat) \<Rightarrow> bool" where
  lr_init: "lock_reach spin_lock_init (\<lambda>_. 0)"
| lr_lock: "lock_reach l c \<Longrightarrow> spin_lock t l = Some l' \<Longrightarrow> lock_reach l' (c(t := c t + 1))"
| lr_unlock: "lock_reach l c \<Longrightarrow> 0 < c t \<Longrightarrow> spin_unlock t l = Some l' \<Longrightarrow> lock_reach l' (c(t := c t - 1))"

definition lock_inv :: "spinlock \<Rightarrow> (nat \<Rightarrow> nat) \<Rightarrow> bool" where
  "lock_inv l c \<longleftrightarrow> (case l of None \<Rightarrow> \<forall>u. c u = 0 | Some (t, n) \<Rightarrow> 0 < n \<and> c t = n \<and> (\<forall>u. u \<noteq> t \<longrightarrow> c u = 0))"

lemma lock_reach_inv: "lock_reach l c \<Longrightarrow> lock_inv l c"
  by (induction rule: lock_reach.induct)
    (auto simp: lock_inv_def spin_lock_init_def spin_lock_def spin_unlock_def split: option.splits if_splits)

text \<open>Spin locks exclude and nest.  In every state that threads reach by taking the lock and giving
  back what they took, at most one thread is inside; that thread gets the lock again and can give it
  back; every other thread has to wait; and the lock is free exactly when nobody is inside.\<close>

theorem spin_lock_excludes:
  assumes "lock_reach l c"
  shows "(\<forall>t u. 0 < c t \<and> 0 < c u \<longrightarrow> t = u) \<and> (l = None \<longleftrightarrow> (\<forall>t. c t = 0)) \<and>
    (\<forall>t. 0 < c t \<longrightarrow> spin_lock t l \<noteq> None \<and> spin_unlock t l \<noteq> None \<and> (\<forall>u. u \<noteq> t \<longrightarrow> spin_lock u l = None))"
proof (cases l)
  case None
  then show ?thesis using lock_reach_inv[OF assms] by (simp add: lock_inv_def)
next
  case (Some p)
  then obtain t0 n where l: "l = Some (t0, n)" by (cases p) simp
  then have i: "0 < n" "c t0 = n" "\<And>u. u \<noteq> t0 \<Longrightarrow> c u = 0"
    using lock_reach_inv[OF assms] by (auto simp: lock_inv_def)
  then have "0 < c t \<longleftrightarrow> t = t0" for t by (cases "t = t0") simp_all
  then show ?thesis using l i by (auto simp: spin_lock_def spin_unlock_def)
qed

lemma spin_lock_excludes_witness:
  "let c = (\<lambda>_::nat. 0::nat)(3 := 1); l = Some (3, 1) in
    (\<forall>t u. 0 < c t \<and> 0 < c u \<longrightarrow> t = u) \<and> (l = None \<longleftrightarrow> (\<forall>t. c t = 0)) \<and>
    (\<forall>t. 0 < c t \<longrightarrow> spin_lock t l \<noteq> None \<and> spin_unlock t l \<noteq> None \<and> (\<forall>u. u \<noteq> t \<longrightarrow> spin_lock u l = None))"
proof -
  have "lock_reach (Some (3, 1)) ((\<lambda>_. 0)(3 := 0 + 1))"
    by (rule lr_lock[OF lr_init]) (simp add: spin_lock_def spin_lock_init_def)
  then have "lock_reach (Some (3, 1)) ((\<lambda>_. 0)(3 := 1))" by simp
  from spin_lock_excludes[OF this] show ?thesis unfolding Let_def .
qed

end
