(* ===== verification/Owned.thy ===== *)
theory Owned
  imports Prelude "HOL-Library.Monad_Syntax"
begin

text \<open>
  Resources that an object takes and gives back, as a log of events with the rules the events keep: what
  is released is held and not attached to a work loop; an event source is added to a loop, and removed
  from it, while the loop is held.  Loops that belong to somebody else (\<open>ext\<close>) are always there.
\<close>

datatype 'r life_event = Acquire 'r | Release 'r | AddSource 'r 'r | RemoveSource 'r 'r

fun life_step :: "('r \<Rightarrow> bool) \<Rightarrow> 'r life_event \<Rightarrow> 'r list \<times> ('r \<times> 'r) list \<Rightarrow> ('r list \<times> ('r \<times> 'r) list) option"
where
  "life_step ext (Acquire r) (live, att) = Some (r # live, att)"
| "life_step ext (Release r) (live, att) =
    (if r \<in> set live \<and> (\<forall>(s, l) \<in> set att. s \<noteq> r \<and> l \<noteq> r) then Some (remove1 r live, att) else None)"
| "life_step ext (AddSource s l) (live, att) =
    (if s \<in> set live \<and> (ext l \<or> l \<in> set live) then Some (live, (s, l) # att) else None)"
| "life_step ext (RemoveSource s l) (live, att) =
    (if (s, l) \<in> set att \<and> (ext l \<or> l \<in> set live) then Some (live, remove1 (s, l) att) else None)"

fun life_run :: "('r \<Rightarrow> bool) \<Rightarrow> 'r life_event list \<Rightarrow> 'r list \<times> ('r \<times> 'r) list \<Rightarrow> ('r list \<times> ('r \<times> 'r) list) option" where
  "life_run ext [] s = Some s"
| "life_run ext (e # es) s = do { s \<leftarrow> life_step ext e s; life_run ext es s }"

definition balanced_log :: "('r \<Rightarrow> bool) \<Rightarrow> 'r life_event list \<Rightarrow> bool" where
  "balanced_log ext es \<longleftrightarrow> life_run ext es ([], []) = Some ([], [])"

lemma life_run_append: "life_run ext (es @ fs) s = do { s \<leftarrow> life_run ext es s; life_run ext fs s }"
proof (induction es arbitrary: s)
  case (Cons e es)
  then show ?case by (cases "life_step ext e s") simp_all
qed simp

lemma life_run_acquire: "life_run ext (replicate n (Acquire r)) (live, att) = Some (replicate n r @ live, att)"
proof (induction n arbitrary: live)
  case (Suc n)
  have "replicate n r @ r # live = r # replicate n r @ live" by (induction n) simp_all
  with Suc show ?case by simp
qed simp

lemma life_run_release:
  "\<forall>(s, l) \<in> set att. s \<noteq> r \<and> l \<noteq> r \<Longrightarrow> life_run ext (replicate n (Release r)) (replicate n r @ live, att) = Some (live, att)"
  by (induction n) simp_all

end
