(* ===== verification/Compat.thy ===== *)
theory Compat
  imports Timers Slab
begin

text \<open>
  The mac80211 side of the compatibility layer (\<open>src/compat/rtw88_compat.c\<close>, \<open>net/mac80211.h\<close>): the
  hardware object that the driver allocates, the callbacks through which the driver hands frames and
  finished scans to the station, and the small helpers.  The hardware object lives in the memory of
  \<open>Slab\<close>: an access outside a live object is \<open>None\<close>.  A pointer to anything else is its address,
  0 is NULL; \<open>cg_stations\<close> are the station objects that have not been freed, and calling into a
  freed one is \<open>None\<close>.
\<close>

section \<open>Objects in memory\<close>

definition rd_obj :: "nat \<Rightarrow> nat \<Rightarrow> nat \<Rightarrow> kheap \<Rightarrow> bytes option" where
  "rd_obj base off n h =
    (case obj h base of None \<Rightarrow> None | Some m \<Rightarrow> if off + n \<le> m then Some (load (base + off) n (kh_mem h)) else None)"

definition wr_obj :: "nat \<Rightarrow> nat \<Rightarrow> bytes \<Rightarrow> kheap \<Rightarrow> kheap option" where
  "wr_obj base off bs h =
    (case obj h base of None \<Rightarrow> None
     | Some m \<Rightarrow> if off + length bs \<le> m then Some (h\<lparr>kh_mem := store (base + off) bs (kh_mem h)\<rparr>) else None)"

definition rd64 :: "nat \<Rightarrow> nat \<Rightarrow> kheap \<Rightarrow> u64 option" where
  "rd64 base off h = map_option word_le (rd_obj base off 8 h)"

definition wr64 :: "nat \<Rightarrow> nat \<Rightarrow> u64 \<Rightarrow> kheap \<Rightarrow> kheap option" where
  "wr64 base off v h = wr_obj base off (bytes_le 8 v) h"

section \<open>State\<close>

text \<open>\<open>struct rtw88_hw_callbacks\<close>: which of its three pointers are set.  They point to
  \<open>compat_rx_frame\<close>, \<open>compat_tx_status\<close> and \<open>compat_scan_done\<close> of the station.\<close>

record hw_callbacks =
  cb_rx_frame :: bool
  cb_tx_status :: bool
  cb_scan_done :: bool

text \<open>What happened to socket buffers and scans: a station got them, or they were freed.\<close>

datatype compat_event = RxFrame nat nat | KfreeSkb nat | ScanDone nat bool

record compat =
  cg_cbs :: "hw_callbacks option"
  cg_kext_hw :: nat
  cg_hw :: nat
  cg_vif :: nat
  cg_heap :: kheap
  cg_stations :: "nat list"
  cg_events :: "compat_event list"

definition happened :: "compat_event \<Rightarrow> compat \<Rightarrow> compat" where
  "happened e w = w\<lparr>cg_events := cg_events w @ [e]\<rparr>"

section \<open>The hardware object\<close>

text \<open>Offsets in \<open>struct ieee80211_hw\<close> (128 bytes) and \<open>struct wiphy\<close> (120 bytes).\<close>

definition sizeof_hw :: nat where "sizeof_hw = 128"
definition sizeof_wiphy :: nat where "sizeof_wiphy = 120"
definition HW_PRIV :: nat where "HW_PRIV = 0"
definition HW_WIPHY :: nat where "HW_WIPHY = 8"
definition HW_OPS :: nat where "HW_OPS = 16"
definition HW_CHANDEF_CHAN :: nat where "HW_CHANDEF_CHAN = 96"
definition HW_CHANDEF_WIDTH :: nat where "HW_CHANDEF_WIDTH = 104"
definition HW_KEXT_HW :: nat where "HW_KEXT_HW = 120"
definition WIPHY_DEV :: nat where "WIPHY_DEV = 0"

lemmas hw_layout = sizeof_hw_def sizeof_wiphy_def HW_PRIV_def HW_WIPHY_def HW_OPS_def HW_CHANDEF_CHAN_def
  HW_CHANDEF_WIDTH_def HW_KEXT_HW_def WIPHY_DEV_def

definition rtw88_register_hw :: "nat \<Rightarrow> compat \<Rightarrow> compat" where "rtw88_register_hw hw w = w\<lparr>cg_hw := hw\<rparr>"
definition rtw88_get_hw :: "compat \<Rightarrow> nat" where "rtw88_get_hw w = cg_hw w"

text \<open>\<open>s_default_chan\<close> is the address of the static fallback channel.\<close>

definition ieee80211_alloc_hw :: "io_malloc \<Rightarrow> u64 \<Rightarrow> u64 \<Rightarrow> u64 \<Rightarrow> compat \<Rightarrow> (nat \<times> compat) option" where
  "ieee80211_alloc_hw alloc priv_data_len ops s_default_chan w =
    (case kzalloc alloc (word_of_nat sizeof_hw + priv_data_len) 0 (cg_heap w) of
       (None, h) \<Rightarrow> Some (0, w\<lparr>cg_heap := h\<rparr>)
     | (Some hw, h) \<Rightarrow> do {
         h \<leftarrow> wr64 hw HW_PRIV (word_of_nat (hw + sizeof_hw)) h;
         (case kzalloc alloc (word_of_nat sizeof_wiphy) 0 h of
            (None, h) \<Rightarrow> do {
              h \<leftarrow> wr64 hw HW_WIPHY 0 h;
              h \<leftarrow> kfree hw h;
              Some (0, w\<lparr>cg_heap := h\<rparr>) }
          | (Some wiphy, h) \<Rightarrow> do {
              h \<leftarrow> wr64 hw HW_WIPHY (word_of_nat wiphy) h;
              priv \<leftarrow> rd64 hw HW_PRIV h;
              h \<leftarrow> wr64 wiphy WIPHY_DEV priv h;
              h \<leftarrow> wr64 hw HW_OPS ops h;
              h \<leftarrow> wr64 hw HW_CHANDEF_CHAN s_default_chan h;
              h \<leftarrow> wr_obj hw HW_CHANDEF_WIDTH (bytes_le 4 0) h;
              Some (hw, rtw88_register_hw hw (w\<lparr>cg_heap := h\<rparr>)) }) })"

definition ieee80211_free_hw :: "nat \<Rightarrow> compat \<Rightarrow> compat option" where
  "ieee80211_free_hw hw w = do {
     h \<leftarrow> (if hw \<noteq> 0 then do { wiphy \<leftarrow> rd64 hw HW_WIPHY (cg_heap w); kfree (unat wiphy) (cg_heap w) }
           else Some (cg_heap w));
     h \<leftarrow> kfree hw h;
     Some (w\<lparr>cg_heap := h\<rparr>) }"

definition wiphy_to_ieee80211_hw :: "nat \<Rightarrow> compat \<Rightarrow> nat" where
  "wiphy_to_ieee80211_hw wiphy w = (if wiphy = 0 then cg_hw w else wiphy)"

text \<open>The private data is in the object of \<open>hw\<close>.  \<open>btcoex\<close> is the offset of \<open>efuse.btcoex\<close> in it.\<close>

definition rtw88_force_wifi_only :: "nat \<Rightarrow> compat \<Rightarrow> compat option" where
  "rtw88_force_wifi_only btcoex w =
    (let hw = cg_hw w
     in if hw = 0 then Some w
        else do {
          priv \<leftarrow> rd64 hw HW_PRIV (cg_heap w);
          if priv = 0 then Some w
          else do {
            let off = unat priv - hw + btcoex;
            b \<leftarrow> rd_obj hw off 1 (cg_heap w);
            (if b \<noteq> [0] then do { h \<leftarrow> wr_obj hw off [0] (cg_heap w); Some (w\<lparr>cg_heap := h\<rparr>) } else Some w) } })"

section \<open>Callbacks\<close>

definition rtw88_set_hw_callbacks :: "hw_callbacks option \<Rightarrow> nat \<Rightarrow> compat \<Rightarrow> compat option" where
  "rtw88_set_hw_callbacks cbs kext_hw w =
    (let w = w\<lparr>cg_cbs := cbs, cg_kext_hw := kext_hw\<rparr>
     in if cg_hw w \<noteq> 0
        then do { h \<leftarrow> wr64 (cg_hw w) HW_KEXT_HW (word_of_nat kext_hw) (cg_heap w); Some (w\<lparr>cg_heap := h\<rparr>) }
        else Some w)"

definition compat_rx_frame :: "nat \<Rightarrow> nat \<Rightarrow> compat \<Rightarrow> compat option" where
  "compat_rx_frame self skb w =
    (if self = 0 then Some w
     else if self \<in> set (cg_stations w) then Some (happened (RxFrame self skb) w) else None)"

definition compat_tx_status :: "nat \<Rightarrow> nat \<Rightarrow> compat \<Rightarrow> compat option" where
  "compat_tx_status self skb w = Some (happened (KfreeSkb skb) w)"

definition compat_scan_done :: "nat \<Rightarrow> bool \<Rightarrow> compat \<Rightarrow> compat option" where
  "compat_scan_done self aborted w =
    (if self = 0 then Some w
     else if self \<in> set (cg_stations w) then Some (happened (ScanDone self aborted) w) else None)"

definition callback_ctx :: "nat \<Rightarrow> compat \<Rightarrow> nat option" where
  "callback_ctx hw w = do {
     ctx \<leftarrow> (if hw \<noteq> 0 then map_option unat (rd64 hw HW_KEXT_HW (cg_heap w)) else Some 0);
     Some (if ctx = 0 then cg_kext_hw w else ctx) }"

definition ieee80211_rx_irqsafe :: "nat \<Rightarrow> nat \<Rightarrow> compat \<Rightarrow> compat option" where
  "ieee80211_rx_irqsafe hw skb w = do {
     ctx \<leftarrow> callback_ctx hw w;
     (case cg_cbs w of
        Some cbs \<Rightarrow> if cb_rx_frame cbs then compat_rx_frame ctx skb w else Some (happened (KfreeSkb skb) w)
      | None \<Rightarrow> Some (happened (KfreeSkb skb) w)) }"

definition ieee80211_rx_napi :: "nat \<Rightarrow> nat \<Rightarrow> compat \<Rightarrow> compat option" where
  "ieee80211_rx_napi hw skb w = ieee80211_rx_irqsafe hw skb w"

definition ieee80211_tx_status_irqsafe :: "nat \<Rightarrow> nat \<Rightarrow> compat \<Rightarrow> compat option" where
  "ieee80211_tx_status_irqsafe hw skb w = do {
     ctx \<leftarrow> callback_ctx hw w;
     (case cg_cbs w of
        Some cbs \<Rightarrow> if cb_tx_status cbs then compat_tx_status ctx skb w else Some (happened (KfreeSkb skb) w)
      | None \<Rightarrow> Some (happened (KfreeSkb skb) w)) }"

definition ieee80211_tx_status :: "nat \<Rightarrow> nat \<Rightarrow> compat \<Rightarrow> compat option" where
  "ieee80211_tx_status hw skb w = ieee80211_tx_status_irqsafe hw skb w"

definition ieee80211_free_txskb :: "nat \<Rightarrow> nat \<Rightarrow> compat \<Rightarrow> compat option" where
  "ieee80211_free_txskb hw skb w = Some (happened (KfreeSkb skb) w)"

text \<open>A queue of frames is what \<open>skb_dequeue\<close> takes off it, one after the other.\<close>

fun ieee80211_purge_tx_queue :: "nat \<Rightarrow> nat list \<Rightarrow> compat \<Rightarrow> compat" where
  "ieee80211_purge_tx_queue hw [] w = w"
| "ieee80211_purge_tx_queue hw (skb # skbs) w = ieee80211_purge_tx_queue hw skbs (happened (KfreeSkb skb) w)"

text \<open>\<open>info\<close>: what the driver tells of the scan, if it passes that.\<close>

definition ieee80211_scan_completed :: "nat \<Rightarrow> bool option \<Rightarrow> compat \<Rightarrow> compat option" where
  "ieee80211_scan_completed hw info w = do {
     ctx \<leftarrow> callback_ctx hw w;
     (case cg_cbs w of
        Some cbs \<Rightarrow>
          if cb_scan_done cbs then compat_scan_done ctx (case info of Some a \<Rightarrow> a | None \<Rightarrow> False) w else Some w
      | None \<Rightarrow> Some w) }"

definition rtw88_register_vif :: "nat \<Rightarrow> compat \<Rightarrow> compat" where "rtw88_register_vif vif w = w\<lparr>cg_vif := vif\<rparr>"
definition rtw88_unregister_vif :: "compat \<Rightarrow> compat" where "rtw88_unregister_vif w = w\<lparr>cg_vif := 0\<rparr>"

text \<open>The calls of the iterator: the interface it is given.\<close>

definition ieee80211_iterate_active_interfaces_atomic :: "bool \<Rightarrow> compat \<Rightarrow> nat list" where
  "ieee80211_iterate_active_interfaces_atomic iterator w = (if cg_vif w \<noteq> 0 \<and> iterator then [cg_vif w] else [])"

definition ieee80211_iterate_active_interfaces :: "bool \<Rightarrow> compat \<Rightarrow> nat list" where
  "ieee80211_iterate_active_interfaces iterator w = (if cg_vif w \<noteq> 0 \<and> iterator then [cg_vif w] else [])"

text \<open>The part of \<open>rtw88_compat_exit\<close> that clears this state; \<open>g_rtw88_hw\<close> is not part of it.\<close>

definition compat_exit_callbacks :: "compat \<Rightarrow> compat" where
  "compat_exit_callbacks w = w\<lparr>cg_cbs := None, cg_kext_hw := 0, cg_vif := 0\<rparr>"

section \<open>The life of the hardware object\<close>

lemma rd64_obj: "obj h p = Some m \<Longrightarrow> off + 8 \<le> m \<Longrightarrow> rd64 p off h = Some (load64 (p + off) (kh_mem h))"
  by (simp add: rd64_def rd_obj_def load64_def)

lemma wr_obj_ok:
  assumes "heap_ok h" "obj h p = Some m" "off + length bs \<le> m"
  shows "\<exists>h'. wr_obj p off bs h = Some h' \<and> heap_ok h' \<and> kh_blocks h' = kh_blocks h \<and>
    kh_mem h' = store (p + off) bs (kh_mem h) \<and> (\<forall>q. obj h' q = obj h q)"
  using heap_ok_write[OF assms] assms by (auto simp: wr_obj_def obj_def)

lemma kmalloc_new:
  assumes "heap_ok h" "io_malloc_ok alloc" "sz < - 8" "0 < unat sz" "kmalloc alloc sz fl h = (r, h')"
  shows "(r = None \<and> h' = h) \<or>
    (\<exists>p. r = Some p \<and> heap_ok h' \<and> obj h' p = Some (unat sz) \<and> obj h p = None \<and> 8 \<le> p \<and> p < 2 ^ 64 \<and>
      kh_blocks h' = (kh_blocks h)(p - 8 \<mapsto> unat sz + 8) \<and> kh_blocks h (p - 8) = None \<and>
      (\<forall>q k. obj h q = Some k \<longrightarrow> q \<noteq> p \<and> obj h' q = Some k \<and> load q k (kh_mem h') = load q k (kh_mem h)))"
proof (cases r)
  case None
  then show ?thesis using kmalloc_cases[OF assms(1-3), of fl] assms(5) by auto
next
  case (Some p)
  then have k: "kmalloc alloc sz fl h = (Some p, h')" using assms(5) by simp
  then have n: "heap_ok h'" "obj h' p = Some (unat sz)" "obj h p = None" "8 \<le> p"
    "kh_blocks h' = (kh_blocks h)(p - 8 \<mapsto> unat sz + 8)"
    "\<And>q k. obj h q = Some k \<Longrightarrow> load q k (kh_mem h') = load q k (kh_mem h)"
    using kmalloc_cases[OF assms(1-3), of fl] by auto
  obtain a where a: "alloc h (unat sz + 8) = Some a" "p = a + 8"
    using k by (auto simp: kmalloc_def IOMalloc_def unat_total[OF assms(3)] Let_def split: option.splits)
  then have "a + (unat sz + 8) \<le> 2 ^ 64" using assms(2) unfolding io_malloc_ok_def by blast
  then have "p < 2 ^ 64" using a(2) assms(4) by linarith
  moreover have "kh_blocks h (p - 8) = None" using n(3,4) by (simp add: obj_def)
  moreover have "q \<noteq> p \<and> obj h' q = Some k" if "obj h q = Some k" for q k
  proof -
    have "q \<noteq> p" using that n(3) by auto
    moreover have "8 \<le> q" using that by (auto simp: obj_def split: if_splits)
    ultimately show ?thesis using that n(4) by (auto simp: obj_def n(5))
  qed
  ultimately show ?thesis using Some n by auto
qed

lemmas kzalloc_new = kmalloc_new[where fl = "fl OR GFP_ZERO" for fl, folded kzalloc_def]

lemma unat_addr: "p < 2 ^ 64 \<Longrightarrow> unat (word_of_nat p :: u64) = p"
  unfolding unat_of_nat by (intro mod_less) simp

text \<open>Reading a field after writing another one of the same object, or a field of another object.\<close>

lemma store_far: "x < a \<or> a + length bs \<le> x \<Longrightarrow> store a bs m x = m x"
  by (auto simp: store_def)

lemma load64_objs:
  assumes "heap_ok h" "obj h p = Some m" "obj h q = Some n" "p \<noteq> q" "off + length bs \<le> m" "o2 + 8 \<le> n"
  shows "load64 (q + o2) (store (p + off) bs mem) = load64 (q + o2) mem"
proof -
  note a = objD[OF assms(1,2)] objD[OF assms(1,3)]
  have "p - 8 \<noteq> q - 8" using assms(4) a(5,10) by linarith
  then have "p - 8 + (m + 8) \<le> q - 8 \<or> q - 8 + (n + 8) \<le> p - 8"
    using assms(1) a(1,6) unfolding heap_ok_def by blast
  then show ?thesis using assms(5,6) a(5,10) by (intro load64_store) linarith
qed

lemma wr64_ok:
  assumes "heap_ok h" "obj h p = Some m" "off + 8 \<le> m"
  shows "\<exists>h'. wr64 p off v h = Some h' \<and> heap_ok h' \<and> kh_blocks h' = kh_blocks h \<and>
    kh_mem h' = store (p + off) (bytes_le 8 v) (kh_mem h) \<and> (\<forall>q. obj h' q = obj h q)"
  unfolding wr64_def by (rule wr_obj_ok) (use assms in simp_all)

lemma load64_store_same: "load64 a (store a (bytes_le 8 v) m) = v"
  using load64_store64[of a v m] by (simp add: store64_def)

text \<open>The fields that \<open>ieee80211_alloc_hw\<close> fills, as the object is handed out.\<close>

definition hw_filled :: "nat \<Rightarrow> nat \<Rightarrow> nat \<Rightarrow> u64 \<Rightarrow> kheap \<Rightarrow> bool" where
  "hw_filled hw wiphy n ch h \<longleftrightarrow>
    heap_ok h \<and> hw \<noteq> 0 \<and> hw \<noteq> wiphy \<and> wiphy < 2 ^ 64 \<and> obj h hw = Some (sizeof_hw + n) \<and> obj h wiphy = Some sizeof_wiphy \<and>
    rd64 hw HW_PRIV h = Some (word_of_nat (hw + sizeof_hw)) \<and> rd64 hw HW_WIPHY h = Some (word_of_nat wiphy) \<and>
    rd64 wiphy WIPHY_DEV h = Some (word_of_nat (hw + sizeof_hw)) \<and> rd64 hw HW_CHANDEF_CHAN h = Some ch"

lemma hw_fill:
  assumes "heap_ok h" "obj h hw = Some (128 + n)" "obj h wiphy = Some 120" "hw \<noteq> wiphy" "wiphy < 2 ^ 64" "hw \<noteq> 0"
    "load64 hw (kh_mem h) = word_of_nat (hw + 128)"
  shows "\<exists>h'. do {
      h \<leftarrow> wr64 hw HW_WIPHY (word_of_nat wiphy) h;
      priv \<leftarrow> rd64 hw HW_PRIV h;
      h \<leftarrow> wr64 wiphy WIPHY_DEV priv h;
      h \<leftarrow> wr64 hw HW_OPS ops h;
      h \<leftarrow> wr64 hw HW_CHANDEF_CHAN ch h;
      wr_obj hw HW_CHANDEF_WIDTH (bytes_le 4 0) h } = Some h' \<and>
    kh_blocks h' = kh_blocks h \<and> hw_filled hw wiphy n ch h'"
proof -
  obtain h1 where 1: "wr64 hw 8 (word_of_nat wiphy) h = Some h1" "heap_ok h1" "kh_blocks h1 = kh_blocks h"
    "kh_mem h1 = store (hw + 8) (bytes_le 8 (word_of_nat wiphy)) (kh_mem h)" "\<And>q. obj h1 q = obj h q"
    using wr64_ok[OF assms(1,2), of 8 "word_of_nat wiphy"] by auto
  have r: "rd64 hw 0 h1 = Some (word_of_nat (hw + 128))"
    using assms(2,7) by (simp add: rd64_obj 1(4,5) load64_store)
  obtain h2 where 2: "wr64 wiphy 0 (word_of_nat (hw + 128)) h1 = Some h2" "heap_ok h2" "kh_blocks h2 = kh_blocks h"
    "kh_mem h2 = store wiphy (bytes_le 8 (word_of_nat (hw + 128))) (kh_mem h1)" "\<And>q. obj h2 q = obj h q"
    using wr64_ok[OF 1(2), of wiphy 120 0 "word_of_nat (hw + 128)"] assms(3) 1(3,5) by auto
  obtain h3 where 3: "wr64 hw 16 ops h2 = Some h3" "heap_ok h3" "kh_blocks h3 = kh_blocks h"
    "kh_mem h3 = store (hw + 16) (bytes_le 8 ops) (kh_mem h2)" "\<And>q. obj h3 q = obj h q"
    using wr64_ok[OF 2(2), of hw "128 + n" 16 ops] assms(2) 2(3,5) by auto
  obtain h4 where 4: "wr64 hw 96 ch h3 = Some h4" "heap_ok h4" "kh_blocks h4 = kh_blocks h"
    "kh_mem h4 = store (hw + 96) (bytes_le 8 ch) (kh_mem h3)" "\<And>q. obj h4 q = obj h q"
    using wr64_ok[OF 3(2), of hw "128 + n" 96 ch] assms(2) 3(3,5) by auto
  obtain h5 where 5: "wr_obj hw 104 (bytes_le 4 0) h4 = Some h5" "heap_ok h5" "kh_blocks h5 = kh_blocks h"
    "kh_mem h5 = store (hw + 104) (bytes_le 4 0) (kh_mem h4)" "\<And>q. obj h5 q = obj h q"
    using wr_obj_ok[OF 4(2), of hw "128 + n" 104 "bytes_le 4 0"] assms(2) 4(3,5) by auto
  note other = load64_objs[OF assms(1,3,2) assms(4)[symmetric], where off = 0, simplified]
    load64_objs[OF assms(1,2,3) assms(4), where ?o2.0 = 0, simplified]
  have "load64 hw (kh_mem h5) = word_of_nat (hw + 128)" "load64 (hw + 8) (kh_mem h5) = word_of_nat wiphy"
    "load64 (hw + 96) (kh_mem h5) = ch" "load64 wiphy (kh_mem h5) = word_of_nat (hw + 128)"
    using assms(7) other(1)[of _ 0]
    by (simp_all add: 1(4) 2(4) 3(4) 4(4) 5(4) load64_store load64_store_same other)
  then have "hw_filled hw wiphy n ch h5"
    using 5(2) assms(2-6) by (simp add: hw_filled_def hw_layout rd64_obj 5(5))
  then show ?thesis using 1(1) r 2(1) 3(1) 4(1) 5(1,3) by (simp add: hw_layout)
qed

lemma hw_size: "n < 2 ^ 62 \<Longrightarrow> unat (word_of_nat sizeof_hw + word_of_nat n :: u64) = 128 + n"
proof -
  assume n: "n < 2 ^ 62"
  have e: "(word_of_nat sizeof_hw + word_of_nat n :: u64) = word_of_nat (128 + n)" by (simp add: sizeof_hw_def)
  show ?thesis unfolding e unat_of_nat using n by (intro mod_less) simp
qed

lemma alloc_hw_cases:
  assumes "heap_ok (cg_heap w)" "io_malloc_ok alloc" "n < 2 ^ 62"
  shows "\<exists>hw w'. ieee80211_alloc_hw alloc (word_of_nat n) ops ch w = Some (hw, w') \<and> w' = w\<lparr>cg_heap := cg_heap w', cg_hw := cg_hw w'\<rparr> \<and>
    ((hw = 0 \<and> cg_hw w' = cg_hw w \<and> kh_blocks (cg_heap w') = kh_blocks (cg_heap w)) \<or>
     (\<exists>wiphy. cg_hw w' = hw \<and> hw_filled hw wiphy n ch (cg_heap w') \<and>
       (kh_blocks (cg_heap w'))(wiphy - 8 := None, hw - 8 := None) = kh_blocks (cg_heap w)))"
proof -
  let ?h = "cg_heap w"
  define sz where "sz = (word_of_nat sizeof_hw + word_of_nat n :: u64)"
  have usz: "unat sz = 128 + n" unfolding sz_def using assms(3) by (rule hw_size)
  have m: "unat (- 8 :: u64) = 2 ^ 64 - 8" by simp
  have small: "sz < - 8" "0 < unat sz" using usz assms(3) by (simp_all add: word_less_nat_alt m)
  have small': "(word_of_nat sizeof_wiphy :: u64) < - 8" "0 < unat (word_of_nat sizeof_wiphy :: u64)"
    "unat (word_of_nat sizeof_wiphy :: u64) = 120" by (simp_all add: sizeof_wiphy_def word_less_nat_alt)
  obtain r1 h1 where k1: "kzalloc alloc sz 0 ?h = (r1, h1)" by (cases "kzalloc alloc sz 0 ?h")
  from kzalloc_new[OF assms(1,2) small k1] consider "r1 = None" "h1 = ?h"
    | hw where "r1 = Some hw" "heap_ok h1" "obj h1 hw = Some (128 + n)" "8 \<le> hw"
        "kh_blocks h1 = (kh_blocks ?h)(hw - 8 \<mapsto> 128 + n + 8)" "kh_blocks ?h (hw - 8) = None"
    unfolding usz by blast
  then show ?thesis
  proof cases
    case 1
    then show ?thesis using k1 by (simp add: ieee80211_alloc_hw_def sz_def[symmetric])
  next
    case 2
    obtain h2 where 3: "wr64 hw 0 (word_of_nat (hw + 128)) h1 = Some h2" "heap_ok h2" "kh_blocks h2 = kh_blocks h1"
      "kh_mem h2 = store hw (bytes_le 8 (word_of_nat (hw + 128))) (kh_mem h1)" "\<And>q. obj h2 q = obj h1 q"
      using wr64_ok[OF 2(2,3), of 0 "word_of_nat (hw + 128)"] by auto
    have l: "load64 hw (kh_mem h2) = word_of_nat (hw + 128)" by (simp only: 3(4) load64_store_same)
    have o2: "obj h2 hw = Some (128 + n)" using 2(3) 3(5) by simp
    obtain r3 h3 where k3: "kzalloc alloc (word_of_nat sizeof_wiphy) 0 h2 = (r3, h3)" by fastforce
    note alloc = ieee80211_alloc_hw_def sz_def[symmetric] k1 2(1) HW_PRIV_def 3(1)[folded sizeof_hw_def] k3
    from kzalloc_new[OF 3(2) assms(2) small'(1,2) k3] consider "r3 = None" "h3 = h2"
      | wp where "r3 = Some wp" "heap_ok h3" "obj h3 wp = Some 120" "wp < 2 ^ 64" "wp \<noteq> hw" "8 \<le> wp"
          "obj h3 hw = Some (128 + n)" "load hw (128 + n) (kh_mem h3) = load hw (128 + n) (kh_mem h2)"
          "kh_blocks h3 = (kh_blocks h2)(wp - 8 \<mapsto> 128)" "kh_blocks h2 (wp - 8) = None"
      unfolding small'(3) using o2 by fastforce
    then show ?thesis
    proof cases
      case 1
      obtain h4 where 4: "wr64 hw 8 0 h2 = Some h4" "heap_ok h4" "kh_blocks h4 = kh_blocks h2" "\<And>q. obj h4 q = obj h2 q"
        using wr64_ok[OF 3(2) o2, of 8 0] by auto
      have "kfree hw h4 = Some (h4\<lparr>kh_blocks := (kh_blocks h4)(hw - 8 := None)\<rparr>)"
        using kfree_obj[OF 4(2)] 4(4) o2 by simp
      moreover have "(kh_blocks h4)(hw - 8 := None) = kh_blocks ?h" using 2(5,6) 3(3) 4(3) by auto
      ultimately show ?thesis using 1 4(1) by (simp add: alloc HW_WIPHY_def del: of_nat_add)
    next
      case w: 2
      have "load64 hw (kh_mem h3) = load64 hw (kh_mem h2)"
      proof -
        have "load hw 8 (kh_mem h3) = take 8 (load hw (128 + n) (kh_mem h3))" by (simp add: load_def take_map)
        also have "\<dots> = load hw 8 (kh_mem h2)" unfolding w(8) by (simp add: load_def take_map)
        finally show ?thesis by (simp add: load64_def)
      qed
      then have l3: "load64 hw (kh_mem h3) = word_of_nat (hw + 128)" using l by simp
      from hw_fill[OF w(2,7,3) w(5)[symmetric] w(4) _ l3, of ops ch] 2(4) obtain h4 where
        4: "do {
          h \<leftarrow> wr64 hw HW_WIPHY (word_of_nat wp) h3;
          priv \<leftarrow> rd64 hw HW_PRIV h;
          h \<leftarrow> wr64 wp WIPHY_DEV priv h;
          h \<leftarrow> wr64 hw HW_OPS ops h;
          h \<leftarrow> wr64 hw HW_CHANDEF_CHAN ch h;
          wr_obj hw HW_CHANDEF_WIDTH (bytes_le 4 0) h } = Some h4"
        "kh_blocks h4 = kh_blocks h3" "hw_filled hw wp n ch h4" by auto
      have "ieee80211_alloc_hw alloc (word_of_nat n) ops ch w = Some (hw, rtw88_register_hw hw (w\<lparr>cg_heap := h4\<rparr>))"
        using 4(1) w(1) by (auto simp: alloc HW_PRIV_def simp del: of_nat_add split: Option.bind_splits)
      moreover have "(kh_blocks h4)(wp - 8 := None, hw - 8 := None) = kh_blocks ?h"
        using 2(5,6) 3(3) 4(2) w(9,10) by (auto simp: fun_upd_idem_iff split: if_splits)
      ultimately show ?thesis using 4(3) by (auto simp: rtw88_register_hw_def)
    qed
  qed
qed

lemma free_hw_filled:
  assumes "hw_filled hw wiphy n ch (cg_heap w)"
  shows "ieee80211_free_hw hw w =
    Some (w\<lparr>cg_heap := (cg_heap w)\<lparr>kh_blocks := (kh_blocks (cg_heap w))(wiphy - 8 := None, hw - 8 := None)\<rparr>\<rparr>)"
proof -
  let ?h = "cg_heap w"
  have r: "heap_ok ?h" "hw \<noteq> 0" "hw \<noteq> wiphy" "wiphy < 2 ^ 64" "obj ?h hw = Some (128 + n)" "obj ?h wiphy = Some 120"
    "rd64 hw 8 ?h = Some (word_of_nat wiphy)"
    using assms by (simp_all add: hw_filled_def hw_layout)
  define h1 where "h1 = ?h\<lparr>kh_blocks := (kh_blocks ?h)(wiphy - 8 := None)\<rparr>"
  have f1: "kfree wiphy ?h = Some h1" unfolding h1_def using kfree_obj[OF r(1,6)] by simp
  have "8 \<le> wiphy" using r(6) by (auto simp: obj_def split: if_splits)
  then have o: "obj h1 hw = Some (128 + n)" using obj_free[of wiphy hw ?h] r(3,5) by (simp add: h1_def)
  have "kfree hw h1 = Some (h1\<lparr>kh_blocks := (kh_blocks h1)(hw - 8 := None)\<rparr>)"
    using kfree_obj[OF _ o] heap_ok_free[OF r(1)] by (simp add: h1_def)
  then show ?thesis using r(2,7) f1 unat_addr[OF r(4)]
    by (simp add: ieee80211_free_hw_def HW_WIPHY_def h1_def)
qed

lemma freed_hw_dead:
  assumes "hw_filled hw wiphy n ch (cg_heap w)" "ieee80211_free_hw hw w = Some w'"
  shows "obj (cg_heap w') hw = None"
  using assms free_hw_filled[OF assms(1)] by (auto simp: obj_def)

text \<open>The hardware object is allocated completely or not at all, and freed completely: when either of
  its two allocations fails, no block is left; otherwise the driver finds its private data behind the
  structure, both through the object and through its \<open>wiphy\<close> taken for one, the channel is the
  fallback channel, and \<open>ieee80211_free_hw\<close> leaves the blocks as they were before.\<close>

theorem hw_alloc_free:
  assumes "heap_ok (cg_heap w)" "io_malloc_ok alloc" "n < 2 ^ 62"
  shows "\<exists>hw w1. ieee80211_alloc_hw alloc (word_of_nat n) ops ch w = Some (hw, w1) \<and>
    (hw = 0 \<longrightarrow> kh_blocks (cg_heap w1) = kh_blocks (cg_heap w)) \<and>
    (hw \<noteq> 0 \<longrightarrow> rtw88_get_hw w1 = hw \<and> rd64 hw HW_CHANDEF_CHAN (cg_heap w1) = Some ch \<and>
      rd64 hw HW_PRIV (cg_heap w1) = Some (word_of_nat (hw + sizeof_hw)) \<and>
      (\<exists>wiphy. rd64 hw HW_WIPHY (cg_heap w1) = Some wiphy \<and>
        rd64 (wiphy_to_ieee80211_hw (unat wiphy) w1) HW_PRIV (cg_heap w1) = rd64 hw HW_PRIV (cg_heap w1)) \<and>
      (\<exists>w2. ieee80211_free_hw hw w1 = Some w2 \<and> kh_blocks (cg_heap w2) = kh_blocks (cg_heap w)))"
proof -
  obtain hw w1 where a: "ieee80211_alloc_hw alloc (word_of_nat n) ops ch w = Some (hw, w1)"
    "hw = 0 \<and> cg_hw w1 = cg_hw w \<and> kh_blocks (cg_heap w1) = kh_blocks (cg_heap w) \<or>
     (\<exists>wiphy. cg_hw w1 = hw \<and> hw_filled hw wiphy n ch (cg_heap w1) \<and>
       (kh_blocks (cg_heap w1))(wiphy - 8 := None, hw - 8 := None) = kh_blocks (cg_heap w))"
    using alloc_hw_cases[OF assms, of ops ch] by blast
  show ?thesis
  proof (cases "hw = 0")
    case True
    then show ?thesis using a by (auto simp: hw_filled_def)
  next
    case False
    then obtain wp where r: "cg_hw w1 = hw" "hw_filled hw wp n ch (cg_heap w1)"
      "(kh_blocks (cg_heap w1))(wp - 8 := None, hw - 8 := None) = kh_blocks (cg_heap w)" using a(2) by blast
    have "wp \<noteq> 0" "unat (word_of_nat wp :: u64) = wp"
      using r(2) by (auto simp: hw_filled_def obj_def unat_addr split: if_splits)
    then show ?thesis using False r free_hw_filled[OF r(2)] a(1)
      by (simp add: hw_filled_def rtw88_get_hw_def wiphy_to_ieee80211_hw_def HW_PRIV_def WIPHY_DEV_def)
  qed
qed

definition compat_demo :: compat where
  "compat_demo = \<lparr>cg_cbs = None, cg_kext_hw = 0, cg_hw = 0, cg_vif = 0,
     cg_heap = \<lparr>kh_blocks = Map.empty, kh_mem = (\<lambda>_. 0)\<rparr>, cg_stations = [7], cg_events = []\<rparr>"

text \<open>An allocator with two places, for blocks of at most 8192 bytes.\<close>

definition two_places :: io_malloc where
  "two_places h n =
    (if n \<le> 8192
     then find (\<lambda>a. \<forall>b k. kh_blocks h b = Some k \<longrightarrow> a + n \<le> b \<or> b + k \<le> a) [0xffff000000010000, 0xffff000000020000]
     else None)"

lemma two_places_ok: "io_malloc_ok two_places"
  by (auto simp: io_malloc_ok_def two_places_def split: if_splits)

lemma compat_demo_ok: "heap_ok (cg_heap compat_demo)"
  by (simp add: compat_demo_def heap_ok_def)

lemma hw_alloc_free_witness:
  "\<exists>hw w1. ieee80211_alloc_hw two_places (word_of_nat 1000) 5 6 compat_demo = Some (hw, w1) \<and>
    (hw = 0 \<longrightarrow> kh_blocks (cg_heap w1) = kh_blocks (cg_heap compat_demo)) \<and>
    (hw \<noteq> 0 \<longrightarrow> rtw88_get_hw w1 = hw \<and> rd64 hw HW_CHANDEF_CHAN (cg_heap w1) = Some 6 \<and>
      rd64 hw HW_PRIV (cg_heap w1) = Some (word_of_nat (hw + sizeof_hw)) \<and>
      (\<exists>wiphy. rd64 hw HW_WIPHY (cg_heap w1) = Some wiphy \<and>
        rd64 (wiphy_to_ieee80211_hw (unat wiphy) w1) HW_PRIV (cg_heap w1) = rd64 hw HW_PRIV (cg_heap w1)) \<and>
      (\<exists>w2. ieee80211_free_hw hw w1 = Some w2 \<and> kh_blocks (cg_heap w2) = kh_blocks (cg_heap compat_demo)))"
  by (rule hw_alloc_free[OF compat_demo_ok two_places_ok]) simp

text \<open>Nobody forgets a hardware object that is gone.  \<open>g_rtw88_hw\<close> keeps pointing to it after
  \<open>ieee80211_free_hw\<close> and also after \<open>rtw88_compat_exit\<close>: the next station that registers its callbacks,
  before the driver has allocated a new object, writes its pointer into freed memory, and
  \<open>rtw88_force_wifi_only\<close> reads it.  On the first start, when there is no object yet, that function does
  nothing at all.\<close>

theorem freed_hw_dangles:
  assumes "heap_ok (cg_heap w)" "io_malloc_ok alloc" "n < 2 ^ 62" "cg_hw w = 0"
    "ieee80211_alloc_hw alloc (word_of_nat n) ops ch w = Some (hw, w1)" "hw \<noteq> 0"
    "ieee80211_free_hw hw w1 = Some w2"
  shows "rtw88_get_hw (compat_exit_callbacks w2) = hw \<and>
    rtw88_set_hw_callbacks cbs self (compat_exit_callbacks w2) = None \<and>
    rtw88_force_wifi_only off (compat_exit_callbacks w2) = None \<and> rtw88_force_wifi_only off w = Some w"
proof -
  obtain wiphy where r: "cg_hw w1 = hw" "hw_filled hw wiphy n ch (cg_heap w1)"
    using alloc_hw_cases[OF assms(1-3), of ops ch] assms(5,6) by auto
  have "obj (cg_heap w2) hw = None" "cg_hw w2 = hw"
    using freed_hw_dead[OF r(2) assms(7)] free_hw_filled[OF r(2)] assms(7) r(1) by auto
  then show ?thesis using assms(4,6)
    by (simp add: rtw88_get_hw_def compat_exit_callbacks_def rtw88_set_hw_callbacks_def wr64_def wr_obj_def
        rtw88_force_wifi_only_def rd64_def rd_obj_def)
qed

lemma demo_alloc: "\<exists>hw w1. ieee80211_alloc_hw two_places (word_of_nat 1000) 5 6 compat_demo = Some (hw, w1) \<and> hw \<noteq> 0"
  by (simp add: ieee80211_alloc_hw_def kzalloc_def kmalloc_def Let_def IOMalloc_def two_places_def compat_demo_def hw_layout
      GFP_ZERO_def wr64_def wr_obj_def obj_def rd64_def rd_obj_def)

lemma freed_hw_dangles_witness:
  "\<exists>hw w2. hw \<noteq> 0 \<and> rtw88_get_hw (compat_exit_callbacks w2) = hw \<and>
    rtw88_set_hw_callbacks None 7 (compat_exit_callbacks w2) = None \<and>
    rtw88_force_wifi_only 40 (compat_exit_callbacks w2) = None \<and>
    rtw88_force_wifi_only 40 compat_demo = Some compat_demo"
proof -
  obtain hw w1 where a: "ieee80211_alloc_hw two_places (word_of_nat 1000) 5 6 compat_demo = Some (hw, w1)" "hw \<noteq> 0"
    using demo_alloc by blast
  obtain wiphy where "hw_filled hw wiphy 1000 6 (cg_heap w1)"
    using alloc_hw_cases[OF compat_demo_ok two_places_ok, of 1000 5 6] a by auto
  then obtain w2 where "ieee80211_free_hw hw w1 = Some w2" using free_hw_filled by blast
  with freed_hw_dangles[OF compat_demo_ok two_places_ok _ _ a this, of None 7 40] a(2) show ?thesis
    by (auto simp: compat_demo_def)
qed

section \<open>No frame is lost\<close>

datatype compat_op =
  SetCallbacks "hw_callbacks option" nat | RxIrqsafe nat nat | RxNapi nat nat | TxStatusIrqsafe nat nat | TxStatus nat nat
| FreeTxskb nat nat | PurgeTxQueue nat "nat list" | ScanCompleted nat "bool option" | RegisterVif nat | UnregisterVif
| ExitCallbacks

fun compat_do :: "compat_op \<Rightarrow> compat \<Rightarrow> compat option" where
  "compat_do (SetCallbacks cbs self) w = rtw88_set_hw_callbacks cbs self w"
| "compat_do (RxIrqsafe hw skb) w = ieee80211_rx_irqsafe hw skb w"
| "compat_do (RxNapi hw skb) w = ieee80211_rx_napi hw skb w"
| "compat_do (TxStatusIrqsafe hw skb) w = ieee80211_tx_status_irqsafe hw skb w"
| "compat_do (TxStatus hw skb) w = ieee80211_tx_status hw skb w"
| "compat_do (FreeTxskb hw skb) w = ieee80211_free_txskb hw skb w"
| "compat_do (PurgeTxQueue hw skbs) w = Some (ieee80211_purge_tx_queue hw skbs w)"
| "compat_do (ScanCompleted hw info) w = ieee80211_scan_completed hw info w"
| "compat_do (RegisterVif vif) w = Some (rtw88_register_vif vif w)"
| "compat_do UnregisterVif w = Some (rtw88_unregister_vif w)"
| "compat_do ExitCallbacks w = Some (compat_exit_callbacks w)"

fun compat_run :: "compat_op list \<Rightarrow> compat \<Rightarrow> compat option" where
  "compat_run [] w = Some w"
| "compat_run (op # ops) w = do { w \<leftarrow> compat_do op w; compat_run ops w }"

text \<open>The frames an operation is given, and those of an event.\<close>

fun op_skbs :: "compat_op \<Rightarrow> nat list" where
  "op_skbs (RxIrqsafe hw skb) = [skb]"
| "op_skbs (RxNapi hw skb) = [skb]"
| "op_skbs (TxStatusIrqsafe hw skb) = [skb]"
| "op_skbs (TxStatus hw skb) = [skb]"
| "op_skbs (FreeTxskb hw skb) = [skb]"
| "op_skbs (PurgeTxQueue hw skbs) = skbs"
| "op_skbs _ = []"

fun event_skbs :: "compat_event \<Rightarrow> nat list" where
  "event_skbs (RxFrame self skb) = [skb]"
| "event_skbs (KfreeSkb skb) = [skb]"
| "event_skbs (ScanDone self aborted) = []"

definition skbs_done :: "compat \<Rightarrow> nat list" where
  "skbs_done w = concat (map event_skbs (cg_events w))"

text \<open>A hardware object that is alive, and whose back pointer is NULL or a station that is.\<close>

definition hw_live :: "compat \<Rightarrow> nat \<Rightarrow> bool" where
  "hw_live w hw \<longleftrightarrow>
    (case obj (cg_heap w) hw of None \<Rightarrow> False
     | Some m \<Rightarrow> 128 \<le> m \<and> unat (load64 (hw + 120) (kh_mem (cg_heap w))) \<in> insert 0 (set (cg_stations w)))"

definition compat_inv :: "compat \<Rightarrow> bool" where
  "compat_inv w \<longleftrightarrow> heap_ok (cg_heap w) \<and> 0 \<notin> set (cg_stations w) \<and>
    (cg_cbs w \<noteq> None \<longrightarrow> cg_kext_hw w \<in> set (cg_stations w)) \<and> (cg_hw w \<noteq> 0 \<longrightarrow> hw_live w (cg_hw w))"

text \<open>What the callers keep to: stations register themselves, the driver passes its live object or NULL.\<close>

fun op_ok :: "compat \<Rightarrow> compat_op \<Rightarrow> bool" where
  "op_ok w (SetCallbacks cbs self) = (self \<in> set (cg_stations w) \<and> self < 2 ^ 64)"
| "op_ok w (RxIrqsafe hw skb) = (hw = 0 \<or> hw_live w hw)"
| "op_ok w (RxNapi hw skb) = (hw = 0 \<or> hw_live w hw)"
| "op_ok w (TxStatusIrqsafe hw skb) = (hw = 0 \<or> hw_live w hw)"
| "op_ok w (TxStatus hw skb) = (hw = 0 \<or> hw_live w hw)"
| "op_ok w (ScanCompleted hw info) = (hw = 0 \<or> hw_live w hw)"
| "op_ok w _ = True"

lemma hw_liveE:
  assumes "hw_live w hw"
  obtains m where "obj (cg_heap w) hw = Some m" "128 \<le> m"
    "unat (load64 (hw + 120) (kh_mem (cg_heap w))) \<in> insert 0 (set (cg_stations w))"
  using assms by (cases "obj (cg_heap w) hw") (auto simp: hw_live_def)

lemma hw_live_update [simp]:
  "hw_live (w\<lparr>cg_events := es\<rparr>) hw = hw_live w hw" "hw_live (w\<lparr>cg_vif := v\<rparr>) hw = hw_live w hw"
  "hw_live (w\<lparr>cg_cbs := c, cg_kext_hw := k\<rparr>) hw = hw_live w hw"
  "hw_live (w\<lparr>cg_cbs := c, cg_kext_hw := k, cg_vif := v\<rparr>) hw = hw_live w hw"
  by (simp_all add: hw_live_def cong: option.case_cong)

lemma purge_eq: "ieee80211_purge_tx_queue hw skbs w = w\<lparr>cg_events := cg_events w @ map KfreeSkb skbs\<rparr>"
  by (induction skbs arbitrary: w) (simp_all add: happened_def)

lemma concat_kfree: "concat (map (event_skbs \<circ> KfreeSkb) skbs) = skbs"
  by (induction skbs) simp_all

lemma callback_ctx_live:
  assumes "compat_inv w" "hw = 0 \<or> hw_live w hw"
  shows "\<exists>ctx. callback_ctx hw w = Some ctx \<and> (cg_cbs w \<noteq> None \<longrightarrow> ctx \<in> set (cg_stations w))"
proof (cases "hw = 0")
  case True
  then show ?thesis using assms(1) by (simp add: callback_ctx_def compat_inv_def)
next
  case False
  then have "hw_live w hw" using assms(2) by simp
  then obtain m where "obj (cg_heap w) hw = Some m" "128 \<le> m"
    "unat (load64 (hw + 120) (kh_mem (cg_heap w))) \<in> insert 0 (set (cg_stations w))" by (rule hw_liveE)
  then show ?thesis using False assms(1) by (auto simp: callback_ctx_def HW_KEXT_HW_def rd64_obj compat_inv_def)
qed

text \<open>Registering keeps every live object live.\<close>

lemma set_hw_callbacks_live:
  assumes "compat_inv w" "self \<in> set (cg_stations w)" "self < 2 ^ 64"
  shows "\<exists>w'. rtw88_set_hw_callbacks cbs self w = Some w' \<and> compat_inv w' \<and> cg_events w' = cg_events w \<and>
    cg_stations w' = cg_stations w \<and> (\<forall>hw. hw_live w hw \<longrightarrow> hw_live w' hw)"
proof (cases "cg_hw w = 0")
  case True
  then show ?thesis using assms by (auto simp: rtw88_set_hw_callbacks_def compat_inv_def)
next
  case False
  let ?g = "cg_hw w"
  have l: "hw_live w ?g" "heap_ok (cg_heap w)" using False assms(1) by (simp_all add: compat_inv_def)
  obtain m where m: "obj (cg_heap w) ?g = Some m" "128 \<le> m" using l(1) by (rule hw_liveE)
  obtain h where h: "wr64 ?g 120 (word_of_nat self) (cg_heap w) = Some h" "heap_ok h"
    "kh_mem h = store (?g + 120) (bytes_le 8 (word_of_nat self)) (kh_mem (cg_heap w))" "\<And>q. obj h q = obj (cg_heap w) q"
    using wr64_ok[OF l(2) m(1), of 120 "word_of_nat self"] m(2) by auto
  define w' where "w' = w\<lparr>cg_cbs := cbs, cg_kext_hw := self, cg_heap := h\<rparr>"
  have r: "rtw88_set_hw_callbacks cbs self w = Some w'"
    using False h(1) by (simp add: rtw88_set_hw_callbacks_def HW_KEXT_HW_def w'_def)
  have live: "hw_live w' hw" if hwl: "hw_live w hw" for hw
  proof -
    obtain n where n: "obj (cg_heap w) hw = Some n" "128 \<le> n"
      "unat (load64 (hw + 120) (kh_mem (cg_heap w))) \<in> insert 0 (set (cg_stations w))"
      using hwl by (rule hw_liveE)
    show ?thesis
    proof (cases "hw = ?g")
      case True
      then show ?thesis using m assms(2) unat_addr[OF assms(3)]
        by (simp add: hw_live_def w'_def h(3,4) load64_store_same)
    next
      case False
      have "load64 (hw + 120) (kh_mem h) = load64 (hw + 120) (kh_mem (cg_heap w))"
        unfolding h(3) by (rule load64_objs[OF l(2) m(1) n(1) False[symmetric]]) (use m(2) n(2) in simp_all)
      then show ?thesis using n by (simp add: hw_live_def w'_def h(4))
    qed
  qed
  then have "compat_inv w'" using assms(1,2) h(2) l(1) False by (simp add: compat_inv_def w'_def)
  then show ?thesis using r live by (auto simp: w'_def)
qed

text \<open>One operation: it succeeds, keeps the invariant, and every frame it was given has its event.\<close>

lemma compat_do_ok:
  assumes "compat_inv w" "op_ok w op"
  shows "\<exists>w'. compat_do op w = Some w' \<and> compat_inv w' \<and> skbs_done w' = skbs_done w @ op_skbs op \<and>
    (\<forall>op. op_ok w op \<longrightarrow> op_ok w' op)"
proof -
  have simple: "op_ok w' op = op_ok w op"
    if "cg_stations w' = cg_stations w" "\<And>hw. hw_live w' hw = hw_live w hw" for w' op
    by (cases op) (simp_all add: that)
  have ev: "compat_inv (w\<lparr>cg_events := es\<rparr>)" "op_ok (w\<lparr>cg_events := es\<rparr>) op = op_ok w op" for es op
    using assms(1) by (simp_all add: compat_inv_def simple[of "w\<lparr>cg_events := es\<rparr>"])
  have fin: "\<exists>w'. Some (happened e w) = Some w' \<and> compat_inv w' \<and> skbs_done w' = skbs_done w @ event_skbs e \<and>
      (\<forall>op. op_ok w op \<longrightarrow> op_ok w' op)" for e
    by (simp add: happened_def ev skbs_done_def)
  have none: "\<exists>w'. Some w = Some w' \<and> compat_inv w' \<and> skbs_done w' = skbs_done w @ [] \<and>
      (\<forall>op. op_ok w op \<longrightarrow> op_ok w' op)" using assms(1) by simp
  have ctx: "\<exists>c. callback_ctx hw w = Some c \<and> (cg_cbs w \<noteq> None \<longrightarrow> c \<noteq> 0 \<and> c \<in> set (cg_stations w))"
    if "hw = 0 \<or> hw_live w hw" for hw
  proof -
    have "0 \<notin> set (cg_stations w)" using assms(1) by (simp add: compat_inv_def)
    then show ?thesis using callback_ctx_live[OF assms(1) that] by metis
  qed
  have rx: "\<exists>w'. ieee80211_rx_irqsafe hw skb w = Some w' \<and> compat_inv w' \<and> skbs_done w' = skbs_done w @ [skb] \<and>
      (\<forall>op. op_ok w op \<longrightarrow> op_ok w' op)" if hwl: "hw = 0 \<or> hw_live w hw" for hw skb
  proof -
    obtain c where c: "callback_ctx hw w = Some c" "cg_cbs w \<noteq> None \<Longrightarrow> c \<noteq> 0 \<and> c \<in> set (cg_stations w)"
      using ctx[OF hwl] by blast
    have "ieee80211_rx_irqsafe hw skb w \<in> {Some (happened (RxFrame c skb) w), Some (happened (KfreeSkb skb) w)}"
      using c by (auto simp: ieee80211_rx_irqsafe_def compat_rx_frame_def split: option.splits)
    then show ?thesis using fin[of "RxFrame c skb"] fin[of "KfreeSkb skb"] by auto
  qed
  have tx: "\<exists>w'. ieee80211_tx_status_irqsafe hw skb w = Some w' \<and> compat_inv w' \<and> skbs_done w' = skbs_done w @ [skb] \<and>
      (\<forall>op. op_ok w op \<longrightarrow> op_ok w' op)" if hwl: "hw = 0 \<or> hw_live w hw" for hw skb
  proof -
    have "ieee80211_tx_status_irqsafe hw skb w = Some (happened (KfreeSkb skb) w)"
      using ctx[OF hwl] by (auto simp: ieee80211_tx_status_irqsafe_def compat_tx_status_def split: option.splits)
    then show ?thesis using fin[of "KfreeSkb skb"] by simp
  qed
  have sc: "\<exists>w'. ieee80211_scan_completed hw info w = Some w' \<and> compat_inv w' \<and> skbs_done w' = skbs_done w \<and>
      (\<forall>op. op_ok w op \<longrightarrow> op_ok w' op)" if hwl: "hw = 0 \<or> hw_live w hw" for hw info
  proof -
    obtain c where c: "callback_ctx hw w = Some c" "cg_cbs w \<noteq> None \<Longrightarrow> c \<noteq> 0 \<and> c \<in> set (cg_stations w)"
      using ctx[OF hwl] by blast
    let ?a = "case info of Some a \<Rightarrow> a | None \<Rightarrow> False"
    have "ieee80211_scan_completed hw info w \<in> {Some (happened (ScanDone c ?a) w), Some w}"
      using c by (auto simp: ieee80211_scan_completed_def compat_scan_done_def split: option.splits)
    then show ?thesis using fin[of "ScanDone c ?a"] none by auto
  qed
  show ?thesis
  proof (cases op)
    case (SetCallbacks cbs self)
    then obtain w' where w': "rtw88_set_hw_callbacks cbs self w = Some w'" "compat_inv w'" "cg_events w' = cg_events w"
      "cg_stations w' = cg_stations w" "\<And>hw. hw_live w hw \<Longrightarrow> hw_live w' hw"
      using set_hw_callbacks_live[OF assms(1), of self cbs] assms(2) by auto
    have "op_ok w' op" if "op_ok w op" for op using that by (cases op) (auto simp: w'(4) intro: w'(5))
    then show ?thesis using SetCallbacks w' by (simp add: skbs_done_def)
  qed (use assms rx tx sc in \<open>simp_all add: ieee80211_rx_napi_def ieee80211_tx_status_def ieee80211_free_txskb_def
    happened_def purge_eq skbs_done_def concat_kfree ev rtw88_register_vif_def rtw88_unregister_vif_def
    compat_exit_callbacks_def compat_inv_def simple[of "w\<lparr>cg_vif := _\<rparr>"]
    simple[of "w\<lparr>cg_cbs := None, cg_kext_hw := 0, cg_vif := 0\<rparr>"]\<close>)
qed


definition cbs_demo :: hw_callbacks where
  "cbs_demo = \<lparr>cb_rx_frame = True, cb_tx_status = True, cb_scan_done = True\<rparr>"


end
