(* ===== verification/Drv.thy ===== *)
theory Drv
  imports Compat Sync Frames
begin

text \<open>
  What the kernel extension asks of the hardware driver by hand, because no mac80211 does it
  (\<open>rtw88_sw_scan_start\<close> to \<open>rtw88_restore_connected_hw\<close> in \<open>src/compat/rtw88_compat.c\<close>), and the
  remaining helpers of that file and of \<open>net/mac80211.h\<close>.  The driver's functions lie outside the
  repository: \<open>drv\<close> says what a call makes of the driver's state, and each call is logged with the state
  of the driver's mutex at that time.  Taking the mutex when it is held is \<open>None\<close>.
\<close>

section \<open>The driver's state\<close>

record drvdev =
  dd_rcr :: u32
  dd_need_rfk :: bool
  dd_fix_rate :: u8
  dd_scanning :: bool
  dd_scan_offload :: bool

datatype drv_call =
  CoreScanStart bytes bool | Write32 u32 u32 | SetChannel | CoreScanComplete bool | PortConfig bytes | ChipPrepareTx

record drvworld =
  dv_dev :: drvdev
  dv_bssid :: bytes
  dv_mutex :: bool
  dv_calls :: "(bool \<times> drv_call) list"

type_synonym driver = "drv_call \<Rightarrow> drvdev \<Rightarrow> drvdev"

definition dcall :: "driver \<Rightarrow> drv_call \<Rightarrow> drvworld \<Rightarrow> drvworld" where
  "dcall drv c w = w\<lparr>dv_dev := drv c (dv_dev w), dv_calls := dv_calls w @ [(dv_mutex w, c)]\<rparr>"

definition mutex_lock :: "drvworld \<Rightarrow> drvworld option" where
  "mutex_lock w = map_option (\<lambda>l. w\<lparr>dv_mutex := l\<rparr>) (IOLockLock (dv_mutex w))"

definition mutex_unlock :: "drvworld \<Rightarrow> drvworld" where "mutex_unlock w = w\<lparr>dv_mutex := False\<rparr>"

definition upd_dev :: "(drvdev \<Rightarrow> drvdev) \<Rightarrow> drvworld \<Rightarrow> drvworld" where
  "upd_dev f w = w\<lparr>dv_dev := f (dv_dev w)\<rparr>"

section \<open>Scanning and connecting\<close>

text \<open>\<open>hw\<close>: there is a hardware object with private data; \<open>vif\<close> is the address of the interface, if there
  is one, and its \<open>drv_priv\<close> is part of it, so never NULL.  The register and the bit come from the driver's
  headers.\<close>

definition rtw88_is_scanning :: "bool \<Rightarrow> drvworld \<Rightarrow> bool" where
  "rtw88_is_scanning hw w = (if \<not> hw then False else dd_scanning (dv_dev w))"

definition rtw88_hw_scan_supported :: "bool \<Rightarrow> drvworld \<Rightarrow> bool" where
  "rtw88_hw_scan_supported hw w = (if \<not> hw then False else dd_scan_offload (dv_dev w))"

definition rtw88_sw_scan_start :: "driver \<Rightarrow> u32 \<Rightarrow> u32 \<Rightarrow> bool \<Rightarrow> bytes option \<Rightarrow> drvworld \<Rightarrow> drvworld option" where
  "rtw88_sw_scan_start drv REG_RCR BIT_CBSSID_BCN hw vif w =
    (case vif of None \<Rightarrow> Some w
     | Some addr \<Rightarrow> if \<not> hw then Some w else do {
         w \<leftarrow> mutex_lock w;
         let w = dcall drv (CoreScanStart addr False) w;
         let w = upd_dev (\<lambda>d. d\<lparr>dd_rcr := dd_rcr d AND NOT BIT_CBSSID_BCN\<rparr>) w;
         let w = dcall drv (Write32 REG_RCR (dd_rcr (dv_dev w))) w;
         Some (mutex_unlock w) })"

definition rtw88_sw_scan_switch_channel :: "driver \<Rightarrow> bool \<Rightarrow> drvworld \<Rightarrow> drvworld option" where
  "rtw88_sw_scan_switch_channel drv hw w =
    (if \<not> hw then Some w else do {
       w \<leftarrow> mutex_lock w;
       let w = dcall drv SetChannel w;
       Some (mutex_unlock w) })"

definition rtw88_sw_scan_complete :: "driver \<Rightarrow> u32 \<Rightarrow> u32 \<Rightarrow> bool \<Rightarrow> bytes option \<Rightarrow> drvworld \<Rightarrow> drvworld option" where
  "rtw88_sw_scan_complete drv REG_RCR BIT_CBSSID_BCN hw vif w =
    (case vif of None \<Rightarrow> Some w
     | Some addr \<Rightarrow> if \<not> hw then Some w else do {
         w \<leftarrow> mutex_lock w;
         let w = upd_dev (\<lambda>d. d\<lparr>dd_rcr := dd_rcr d OR BIT_CBSSID_BCN\<rparr>) w;
         let w = dcall drv (Write32 REG_RCR (dd_rcr (dv_dev w))) w;
         let w = dcall drv (CoreScanComplete False) w;
         Some (mutex_unlock w) })"

definition rtw88_connect_hw_setup :: "driver \<Rightarrow> bool \<Rightarrow> bytes option \<Rightarrow> bytes option \<Rightarrow> drvworld \<Rightarrow> drvworld option" where
  "rtw88_connect_hw_setup drv hw vif bssid w =
    (case (vif, bssid) of
       (Some addr, Some b) \<Rightarrow> if \<not> hw then Some w else do {
         w \<leftarrow> mutex_lock w;
         let w = dcall drv SetChannel w;
         let w = dcall drv (PortConfig b) (w\<lparr>dv_bssid := b\<rparr>);
         let w = upd_dev (\<lambda>d. d\<lparr>dd_need_rfk := True\<rparr>) w;
         let w = dcall drv ChipPrepareTx w;
         let w = upd_dev (\<lambda>d. d\<lparr>dd_fix_rate := 0xFF\<rparr>) w;
         Some (mutex_unlock w) }
     | _ \<Rightarrow> Some w)"

definition rtw88_restore_connected_hw :: "driver \<Rightarrow> bool \<Rightarrow> bytes option \<Rightarrow> bytes option \<Rightarrow> drvworld \<Rightarrow> drvworld option" where
  "rtw88_restore_connected_hw drv hw vif bssid w =
    (case (vif, bssid) of
       (Some addr, Some b) \<Rightarrow> if \<not> hw then Some w else do {
         w \<leftarrow> mutex_lock w;
         let w = dcall drv SetChannel w;
         let w = dcall drv (PortConfig b) (w\<lparr>dv_bssid := b\<rparr>);
         let w = upd_dev (\<lambda>d. d\<lparr>dd_need_rfk := True\<rparr>) w;
         let w = dcall drv ChipPrepareTx w;
         let w = upd_dev (\<lambda>d. d\<lparr>dd_fix_rate := 0xFF\<rparr>) w;
         Some (mutex_unlock w) }
     | _ \<Rightarrow> Some w)"

section \<open>The periodic dump\<close>

text \<open>What \<open>rtw88_debug_dump_tx_state\<close> reports: the indices of the two rings, the software's view, and the
  buffer descriptor under the hardware's read pointer.  \<open>r32\<close> and \<open>r16\<close> read registers; reads whose values are
  not reported are left out.\<close>

record tx_state =
  ts_hw_wp :: u32
  ts_hw_rp :: u32
  ts_ring :: "u32 \<times> u32 \<times> u32"
  ts_bd :: "u32 \<times> u32 \<times> u16 \<times> u16 \<times> u16"
  ts_txdma_st :: u32
  ts_pkt_empty :: u16
  ts_rx_rp :: u32
  ts_rx_hw_wp :: u32
  ts_hisr0 :: u32
  ts_hisr3 :: u32
  ts_bedok :: bool

definition TRX_BD_IDX_MASK :: u32 where "TRX_BD_IDX_MASK = 0xFFF"

definition rtw88_debug_dump_tx_state :: "bool \<Rightarrow> (u32 \<Rightarrow> u32) \<Rightarrow> (u32 \<Rightarrow> u16) \<Rightarrow> u32 \<times> u32 \<times> u32 \<Rightarrow>
    (u32 \<Rightarrow> u32 \<times> u32 \<times> u16 \<times> u16 \<times> u16) \<Rightarrow> tx_state option" where
  "rtw88_debug_dump_tx_state irq_dev r32 r16 ring_state be_bd =
    (if \<not> irq_dev then None
     else let hisr0 = r32 0x0B4; hisr3 = r32 0x10BC; bd_idx = r32 0x3A8; txdma_st = r32 0x0210; pkt_empty = r16 0x041A;
              hw_wp = bd_idx AND TRX_BD_IDX_MASK; hw_rp = drop_bit 16 bd_idx AND TRX_BD_IDX_MASK; rxbd = r32 0x03B4
          in Some \<lparr>ts_hw_wp = hw_wp, ts_hw_rp = hw_rp, ts_ring = ring_state, ts_bd = be_bd hw_rp, ts_txdma_st = txdma_st,
               ts_pkt_empty = pkt_empty, ts_rx_rp = rxbd AND TRX_BD_IDX_MASK,
               ts_rx_hw_wp = drop_bit 16 rxbd AND TRX_BD_IDX_MASK, ts_hisr0 = hisr0, ts_hisr3 = hisr3,
               ts_bedok = (hisr0 AND push_bit 4 1 \<noteq> 0)\<rparr>)"

section \<open>Helpers\<close>

text \<open>C integers; the division rounds towards zero, and the dividends are not negative.\<close>

definition ieee80211_freq_to_channel :: "int \<Rightarrow> int" where
  "ieee80211_freq_to_channel freq =
    (if freq \<ge> 2412 \<and> freq \<le> 2484 then (freq - 2407) div 5
     else if freq \<ge> 5180 \<and> freq \<le> 5825 then (freq - 5000) div 5
     else 0)"

text \<open>\<open>band2\<close>: the band is \<open>NL80211_BAND_2GHZ\<close>.\<close>

definition ieee80211_channel_to_frequency :: "int \<Rightarrow> bool \<Rightarrow> int" where
  "ieee80211_channel_to_frequency chan band2 = (if band2 then 2407 + chan * 5 else 5000 + chan * 5)"

record tx_rate =
  tr_idx :: u8
  tr_count :: nat
  tr_flags :: u32

definition IEEE80211_TX_MAX_RATES :: nat where "IEEE80211_TX_MAX_RATES = 4"

function clear_rates :: "nat \<Rightarrow> tx_rate list \<Rightarrow> tx_rate list" where
  "clear_rates i rates =
    (if i < IEEE80211_TX_MAX_RATES
     then clear_rates (i + 1) (rates[i := \<lparr>tr_idx = - 1, tr_count = 0, tr_flags = 0\<rparr>])
     else rates)"
  by pat_completeness auto
termination by (relation "measure (\<lambda>(i, rates). IEEE80211_TX_MAX_RATES - i)") auto

declare clear_rates.simps [simp del]

definition ieee80211_tx_info_clear_status :: "tx_rate list \<Rightarrow> tx_rate list" where
  "ieee80211_tx_info_clear_status rates = clear_rates 0 rates"

text \<open>The two counters, when the caller wants them.\<close>

definition ieee80211_txq_get_depth :: "u64 option \<Rightarrow> u64 option \<Rightarrow> u64 option \<times> u64 option" where
  "ieee80211_txq_get_depth frame_cnt byte_cnt = (map_option (\<lambda>_. 0) frame_cnt, map_option (\<lambda>_. 0) byte_cnt)"

definition ieee80211_vif_type_p2p :: "u32 option \<Rightarrow> u8" where
  "ieee80211_vif_type_p2p vif = (case vif of Some t \<Rightarrow> ucast t | None \<Rightarrow> 0)"

text \<open>An SSID is its array of 32 bytes and its length; \<open>memcmp\<close> past the end of an array is \<open>None\<close>.\<close>

definition cfg80211_ssid_eq :: "(bytes \<times> u8) option \<Rightarrow> (bytes \<times> u8) option \<Rightarrow> bool option" where
  "cfg80211_ssid_eq a b =
    (case (a, b) of
       (Some (s, n), Some (t, m)) \<Rightarrow>
         if n \<noteq> m then Some False else do { x \<leftarrow> rds s 0 (unat n); y \<leftarrow> rds t 0 (unat n); Some (x = y) }
     | _ \<Rightarrow> Some False)"

definition wiphy_ext_feature_set :: "nat \<Rightarrow> bytes \<Rightarrow> bytes option" where
  "wiphy_ext_feature_set idx features =
    (if idx div 8 < length features
     then Some (features[idx div 8 := features ! (idx div 8) OR ucast (push_bit (idx mod 8) (1 :: u32))])
     else None)"

record rate_info =
  ri_flags :: u32
  ri_legacy :: u32
  ri_mcs :: u8
  ri_nss :: u8

definition RATE_INFO_FLAGS_MCS :: u32 where "RATE_INFO_FLAGS_MCS = push_bit 0 1"
definition RATE_INFO_FLAGS_VHT_MCS :: u32 where "RATE_INFO_FLAGS_VHT_MCS = push_bit 1 1"

definition cfg80211_calculate_bitrate :: "rate_info \<Rightarrow> u32" where
  "cfg80211_calculate_bitrate rate =
    (if ri_flags rate AND RATE_INFO_FLAGS_VHT_MCS \<noteq> 0 then ucast (ri_nss rate) * (ucast (ri_mcs rate) + 1) * 1000
     else if ri_flags rate AND RATE_INFO_FLAGS_MCS \<noteq> 0 then (ucast (ri_mcs rate) + 1) * 1000
     else ri_legacy rate * 100)"

section \<open>Work queues of the system\<close>

definition create_singlethread_workqueue :: "bool \<Rightarrow> nat \<Rightarrow> node \<Rightarrow> work_world \<Rightarrow> nat option \<times> work_world" where
  "create_singlethread_workqueue alloc_ok i head w = alloc_workqueue alloc_ok i head w"

text \<open>\<open>hw\<close>: there is a hardware object with private data.\<close>

definition ieee80211_queue_work :: "bool \<Rightarrow> nat option \<Rightarrow> node option \<Rightarrow> work_world \<Rightarrow> work_world option" where
  "ieee80211_queue_work hw system_wq work w = (if hw then map_option snd (queue_work system_wq work w) else Some w)"

definition ieee80211_queue_delayed_work :: "u64 \<Rightarrow> nat option \<Rightarrow> node option \<Rightarrow> u64 \<Rightarrow> delayed_world \<Rightarrow> delayed_world option" where
  "ieee80211_queue_delayed_work jiffies system_wq dwork delay d =
    map_option snd (queue_delayed_work jiffies system_wq dwork delay d)"

record compat_globals =
  gg_log_lock :: bool
  gg_system_wq :: "nat option"
  gg_system_long_wq :: "nat option"

definition rtw88_compat_init :: "bool \<Rightarrow> bool \<Rightarrow> bool \<Rightarrow> nat \<times> node \<Rightarrow> nat \<times> node \<Rightarrow> work_world \<Rightarrow> int \<times> compat_globals \<times> work_world"
where
  "rtw88_compat_init lock_ok ok1 ok2 q1 q2 w =
    (let (wq1, w) = alloc_workqueue ok1 (fst q1) (snd q1) w;
         (wq2, w) = alloc_workqueue ok2 (fst q2) (snd q2) w;
         g = \<lparr>gg_log_lock = lock_ok, gg_system_wq = wq1, gg_system_long_wq = wq2\<rparr>
     in (if wq1 = None \<or> wq2 = None \<or> \<not> lock_ok then - 12 else 0, g, w))"

text \<open>A failure leaves the queue that could be made, and \<open>start\<close> of the controller does not look at the
  result.\<close>

lemma compat_init_leaves_queue:
  "fst q1 \<noteq> fst q2 \<Longrightarrow> ww_queues w (fst q1) = None \<Longrightarrow>
   fst (rtw88_compat_init lock_ok True False q1 q2 w) = - 12 \<and>
   ww_queues (snd (snd (rtw88_compat_init lock_ok True False q1 q2 w))) (fst q1) \<noteq> None"
  by (simp add: rtw88_compat_init_def alloc_workqueue_def)

section \<open>The driver is called with its mutex held\<close>

lemma dcall_sel [simp]:
  "dv_dev (dcall drv c w) = drv c (dv_dev w)" "dv_calls (dcall drv c w) = dv_calls w @ [(dv_mutex w, c)]"
  "dv_mutex (dcall drv c w) = dv_mutex w" "dv_bssid (dcall drv c w) = dv_bssid w"
  by (simp_all add: dcall_def)

lemma upd_dev_sel [simp]:
  "dv_dev (upd_dev f w) = f (dv_dev w)" "dv_calls (upd_dev f w) = dv_calls w" "dv_mutex (upd_dev f w) = dv_mutex w"
  "dv_bssid (upd_dev f w) = dv_bssid w"
  by (simp_all add: upd_dev_def)

lemma mutex_lock_free: "\<not> dv_mutex w \<Longrightarrow> mutex_lock w = Some (w\<lparr>dv_mutex := True\<rparr>)"
  by (simp add: mutex_lock_def IOLockLock_def)

datatype drv_op =
  ScanStart "bytes option" | ScanSwitch | ScanComplete "bytes option"
| ConnectSetup "bytes option" "bytes option" | RestoreHw "bytes option" "bytes option"

fun drv_do :: "driver \<Rightarrow> u32 \<Rightarrow> u32 \<Rightarrow> bool \<Rightarrow> drv_op \<Rightarrow> drvworld \<Rightarrow> drvworld option" where
  "drv_do drv rcr bcn hw (ScanStart vif) w = rtw88_sw_scan_start drv rcr bcn hw vif w"
| "drv_do drv rcr bcn hw ScanSwitch w = rtw88_sw_scan_switch_channel drv hw w"
| "drv_do drv rcr bcn hw (ScanComplete vif) w = rtw88_sw_scan_complete drv rcr bcn hw vif w"
| "drv_do drv rcr bcn hw (ConnectSetup vif bssid) w = rtw88_connect_hw_setup drv hw vif bssid w"
| "drv_do drv rcr bcn hw (RestoreHw vif bssid) w = rtw88_restore_connected_hw drv hw vif bssid w"

fun drv_run :: "driver \<Rightarrow> u32 \<Rightarrow> u32 \<Rightarrow> bool \<Rightarrow> drv_op list \<Rightarrow> drvworld \<Rightarrow> drvworld option" where
  "drv_run drv rcr bcn hw [] w = Some w"
| "drv_run drv rcr bcn hw (op # ops) w = do { w \<leftarrow> drv_do drv rcr bcn hw op w; drv_run drv rcr bcn hw ops w }"

lemmas drv_defs = rtw88_sw_scan_start_def rtw88_sw_scan_switch_channel_def rtw88_sw_scan_complete_def
  rtw88_connect_hw_setup_def rtw88_restore_connected_hw_def Let_def mutex_unlock_def

lemma drv_do_ok:
  assumes "\<not> dv_mutex w"
  shows "\<exists>w'. drv_do drv rcr bcn hw op w = Some w' \<and> \<not> dv_mutex w' \<and>
    (\<exists>cs. dv_calls w' = dv_calls w @ map (Pair True) cs \<and>
      (ChipPrepareTx \<in> set cs \<longrightarrow> (\<exists>b. cs = [SetChannel, PortConfig b, ChipPrepareTx] \<and> dv_bssid w' = b \<and>
        dd_fix_rate (dv_dev w') = 0xFF)))"
  by (cases op) (auto simp: drv_defs mutex_lock_free[OF assms] assms Cons_eq_map_conv split: option.split)


definition dev_demo :: drvworld where
  "dev_demo = \<lparr>dv_dev = \<lparr>dd_rcr = 0xE000000F, dd_need_rfk = False, dd_fix_rate = 0, dd_scanning = False,
     dd_scan_offload = False\<rparr>, dv_bssid = [], dv_mutex = False, dv_calls = []\<rparr>"


text \<open>A software scan leaves the receive filter as it found it, if it let beacons of other networks be
  filtered before.  While the driver's own functions leave the filter alone: from the start of the scan to
  its end the filter's bit is off and every other bit is as before, in the driver's copy and in the last value
  written to the register; after the end the bit is on.\<close>

theorem sw_scan_filter:
  assumes "\<not> dv_mutex w" "\<And>c d. dd_rcr (drv c d) = dd_rcr d"
  shows "\<exists>w1 w2. drv_run drv rcr bcn True (ScanStart (Some vif) # replicate n ScanSwitch) w = Some w1 \<and>
    drv_run drv rcr bcn True [ScanComplete (Some vif)] w1 = Some w2 \<and>
    dd_rcr (dv_dev w1) = dd_rcr (dv_dev w) AND NOT bcn \<and> dd_rcr (dv_dev w2) = dd_rcr (dv_dev w) OR bcn \<and>
    dv_calls w2 = dv_calls w @ map (Pair True)
      ([CoreScanStart vif False, Write32 rcr (dd_rcr (dv_dev w) AND NOT bcn)] @ replicate n SetChannel @
       [Write32 rcr (dd_rcr (dv_dev w) OR bcn), CoreScanComplete False])"
proof -
  have sw: "\<exists>w'. drv_run drv rcr bcn True (replicate n ScanSwitch) w = Some w' \<and> \<not> dv_mutex w' \<and>
      dd_rcr (dv_dev w') = dd_rcr (dv_dev w) \<and> dv_calls w' = dv_calls w @ map (Pair True) (replicate n SetChannel)"
    if "\<not> dv_mutex w" for n w
    using that
  proof (induction n arbitrary: w)
    case (Suc n)
    define w1 where "w1 = mutex_unlock (dcall drv SetChannel (w\<lparr>dv_mutex := True\<rparr>))"
    have "rtw88_sw_scan_switch_channel drv True w = Some w1"
      using mutex_lock_free[OF Suc.prems] by (simp add: rtw88_sw_scan_switch_channel_def w1_def)
    with Suc.IH[of w1] show ?case by (auto simp: w1_def mutex_unlock_def assms(2))
  qed simp
  define w0 where "w0 = mutex_unlock (dcall drv (Write32 rcr (dd_rcr (dv_dev w) AND NOT bcn))
    (upd_dev (\<lambda>d. d\<lparr>dd_rcr := dd_rcr d AND NOT bcn\<rparr>) (dcall drv (CoreScanStart vif False) (w\<lparr>dv_mutex := True\<rparr>))))"
  have s: "rtw88_sw_scan_start drv rcr bcn True (Some vif) w = Some w0"
    by (simp add: rtw88_sw_scan_start_def mutex_lock_free[OF assms(1)] w0_def Let_def assms(2))
  have w0: "\<not> dv_mutex w0" "dd_rcr (dv_dev w0) = dd_rcr (dv_dev w) AND NOT bcn"
    "dv_calls w0 = dv_calls w @ map (Pair True) [CoreScanStart vif False, Write32 rcr (dd_rcr (dv_dev w) AND NOT bcn)]"
    by (simp_all add: w0_def mutex_unlock_def assms(2))
  obtain w1 where w1: "drv_run drv rcr bcn True (replicate n ScanSwitch) w0 = Some w1" "\<not> dv_mutex w1"
    "dd_rcr (dv_dev w1) = dd_rcr (dv_dev w0)" "dv_calls w1 = dv_calls w0 @ map (Pair True) (replicate n SetChannel)"
    using sw[OF w0(1)] by blast
  have "(dd_rcr (dv_dev w) AND NOT bcn) OR bcn = dd_rcr (dv_dev w) OR bcn"
    by (rule bit_eqI) (auto simp: bit_simps)
  then show ?thesis using s w0 w1
    by (simp add: rtw88_sw_scan_complete_def mutex_lock_free Let_def mutex_unlock_def assms(2))
qed

lemma sw_scan_filter_witness:
  "\<exists>w1 w2. drv_run (\<lambda>_ d. d) 0x608 0x80 True (ScanStart (Some [1]) # replicate 3 ScanSwitch) dev_demo = Some w1 \<and>
    drv_run (\<lambda>_ d. d) 0x608 0x80 True [ScanComplete (Some [1])] w1 = Some w2 \<and>
    dd_rcr (dv_dev w1) = dd_rcr (dv_dev dev_demo) AND NOT 0x80 \<and> dd_rcr (dv_dev w2) = dd_rcr (dv_dev dev_demo) OR 0x80 \<and>
    dv_calls w2 = dv_calls dev_demo @ map (Pair True)
      ([CoreScanStart [1] False, Write32 0x608 (dd_rcr (dv_dev dev_demo) AND NOT 0x80)] @ replicate 3 SetChannel @
       [Write32 0x608 (dd_rcr (dv_dev dev_demo) OR 0x80), CoreScanComplete False])"
  by (rule sw_scan_filter) (simp_all add: dev_demo_def)

section \<open>Channels, rates, names\<close>

text \<open>Channel and frequency: the two functions are inverse to each other on the channels 1 to 13 and on the
  channels 36 to 165; on channel 14 they are not, because it does not lie on the grid of the others.\<close>

lemma channel_frequency_roundtrip:
  "1 \<le> c \<Longrightarrow> c \<le> 13 \<Longrightarrow> ieee80211_freq_to_channel (ieee80211_channel_to_frequency c True) = c"
  "36 \<le> c \<Longrightarrow> c \<le> 165 \<Longrightarrow> ieee80211_freq_to_channel (ieee80211_channel_to_frequency c False) = c"
  "ieee80211_freq_to_channel 2484 = 15" "ieee80211_channel_to_frequency 14 True = 2477"
  by (simp_all add: ieee80211_freq_to_channel_def ieee80211_channel_to_frequency_def)

lemma clear_rates_nth:
  "j < length rates \<Longrightarrow> clear_rates i rates ! j =
    (if i \<le> j \<and> j < 4 then \<lparr>tr_idx = - 1, tr_count = 0, tr_flags = 0\<rparr> else rates ! j)"
  "length (clear_rates i rates) = length rates"
proof (induction i rates rule: clear_rates.induct)
  case (1 i rates)
  {
    case 1
    then show ?case using "1.IH"(1) by (subst clear_rates.simps) (auto simp: IEEE80211_TX_MAX_RATES_def nth_list_update)
  next
    case 2
    show ?case using "1.IH"(2) by (subst clear_rates.simps) (simp add: IEEE80211_TX_MAX_RATES_def)
  }
qed

lemma tx_info_clear_status_all:
  assumes "length rates = 4"
  shows "ieee80211_tx_info_clear_status rates = replicate 4 \<lparr>tr_idx = - 1, tr_count = 0, tr_flags = 0\<rparr>"
  by (rule nth_equalityI) (simp_all add: ieee80211_tx_info_clear_status_def clear_rates_nth assms)

text \<open>Two names are compared inside their arrays when the length is one the standard allows.\<close>

lemma ssid_eq_in_bounds:
  assumes "length s = 32" "length t = 32" "n \<le> 32"
  shows "cfg80211_ssid_eq (Some (s, n)) (Some (t, m)) = Some (n = m \<and> take (unat n) s = take (unat n) t)"
proof -
  have "unat n \<le> 32" using assms(3) by (simp add: word_le_nat_alt)
  then show ?thesis using assms(1,2) by (cases "n = m") (simp_all add: cfg80211_ssid_eq_def rds_def slice_def)
qed

text \<open>The bitmap has one byte for the three features that are defined.\<close>

lemma ext_feature_in_bounds:
  assumes "idx < 8"
  shows "\<exists>b. wiphy_ext_feature_set idx [f] = Some [b] \<and> (\<forall>n < 8. bit b n = (bit f n \<or> n = idx))"
  using assms by (auto simp: wiphy_ext_feature_set_def bit_simps)

end
