(* ===== verification/Life.thy ===== *)
theory Life
  imports Owned Compat Mlme
begin

text \<open>
  The life of a station object (\<open>RTW88IEEE80211::create\<close>, \<open>init\<close> and \<open>free\<close> in
  \<open>src/kext/RTW88IEEE80211.cpp\<close>): the locks, thread calls, work loop and event sources it takes and gives
  back, and its registration with \<open>Compat\<close>.  What IOKit's allocators answer is \<open>init_answers\<close>.  Taking a
  lock that does not exist is \<open>None\<close>.
\<close>

section \<open>Resources\<close>

datatype resource = RLock | RBssLock | RConnectTC | RManualScanTC | RWl | RGate | RTimer | RRxBaLock | RRxWl | RReorderTimer
  | RBss

record init_answers =
  ia_super :: bool
  ia_lock :: bool
  ia_bssLock :: bool
  ia_connectTC :: bool
  ia_manualScanTC :: bool
  ia_wl :: bool
  ia_gate :: bool
  ia_timer :: bool
  ia_rxBaLock :: bool
  ia_rxwl :: bool
  ia_reorderTimer :: bool

text \<open>Which pointers of the object are set, and how many networks are in its list.\<close>

record station =
  so_lock :: bool
  so_bssLock :: bool
  so_connectTC :: bool
  so_manualScanTC :: bool
  so_wl :: bool
  so_gate :: bool
  so_timer :: bool
  so_rxBaLock :: bool
  so_reorderTimer :: bool
  so_bss :: nat
  so_log :: "resource life_event list"

definition new_station :: station where
  "new_station = \<lparr>so_lock = False, so_bssLock = False, so_connectTC = False, so_manualScanTC = False, so_wl = False,
     so_gate = False, so_timer = False, so_rxBaLock = False, so_reorderTimer = False, so_bss = 0, so_log = []\<rparr>"

definition slog :: "resource life_event list \<Rightarrow> station \<Rightarrow> station" where "slog es ob = ob\<lparr>so_log := so_log ob @ es\<rparr>"

text \<open>An allocation, and the release of a pointer that is set.\<close>

definition took :: "bool \<Rightarrow> resource \<Rightarrow> station \<Rightarrow> station" where "took ok r ob = (if ok then slog [Acquire r] ob else ob)"

section \<open>The object\<close>

definition cbs_station :: hw_callbacks where
  "cbs_station = \<lparr>cb_rx_frame = True, cb_tx_status = True, cb_scan_done = True\<rparr>"

definition station_init :: "init_answers \<Rightarrow> nat \<Rightarrow> compat \<Rightarrow> (bool \<times> station \<times> compat) option" where
  "station_init a self w =
    (if \<not> ia_super a then Some (False, new_station, w)
     else let ob = took (ia_lock a) RLock (new_station\<lparr>so_lock := ia_lock a\<rparr>);
              ob = took (ia_bssLock a) RBssLock (ob\<lparr>so_bssLock := ia_bssLock a\<rparr>)
     in if \<not> so_lock ob \<or> \<not> so_bssLock ob then Some (False, ob, w)
     else let ob = took (ia_connectTC a) RConnectTC (ob\<lparr>so_connectTC := ia_connectTC a\<rparr>);
              ob = took (ia_manualScanTC a) RManualScanTC (ob\<lparr>so_manualScanTC := ia_manualScanTC a\<rparr>)
     in do {
       w \<leftarrow> rtw88_set_hw_callbacks (Some cbs_station) self w;
       let ob = took (ia_wl a) RWl (ob\<lparr>so_wl := ia_wl a\<rparr>);
       (if \<not> so_wl ob then Some (False, ob, w)
        else let ob = took (ia_gate a) RGate (ob\<lparr>so_gate := ia_gate a\<rparr>)
        in if \<not> so_gate ob then Some (False, ob, w)
        else let ob = slog [AddSource RGate RWl] ob; ob = took (ia_timer a) RTimer (ob\<lparr>so_timer := ia_timer a\<rparr>)
        in if \<not> so_timer ob then Some (False, ob, w)
        else let ob = slog [AddSource RTimer RWl] ob; ob = took (ia_rxBaLock a) RRxBaLock (ob\<lparr>so_rxBaLock := ia_rxBaLock a\<rparr>)
        in if \<not> so_rxBaLock ob then Some (False, ob, w)
        else if \<not> ia_rxwl a then Some (False, ob, w)
        else let ob = took (ia_reorderTimer a) RReorderTimer (ob\<lparr>so_reorderTimer := ia_reorderTimer a\<rparr>)
        in if \<not> so_reorderTimer ob then Some (False, ob, w)
        else Some (True, slog [AddSource RReorderTimer RRxWl] ob, w)) })"

text \<open>\<open>rxBaTeardown\<close> takes the reorder lock for each traffic class.\<close>

definition lock_rxba :: "station \<Rightarrow> unit option" where
  "lock_rxba ob = (if so_rxBaLock ob then Some () else None)"

definition give :: "(station \<Rightarrow> bool) \<Rightarrow> resource life_event list \<Rightarrow> (station \<Rightarrow> station) \<Rightarrow> station \<Rightarrow> station" where
  "give has es clear ob = (if has ob then clear (slog es ob) else ob)"

text \<open>\<open>rxwl\<close>: the controller still has its work loop.  The networks of the list are freed one by one.\<close>

definition station_free :: "hw_io \<Rightarrow> bool \<Rightarrow> nat \<Rightarrow> station \<Rightarrow> mlme \<Rightarrow> compat \<Rightarrow> (station \<times> mlme \<times> compat) option" where
  "station_free io rxwl self ob m w = do {
     let m = releaseSta io (clearKeys io m);
     lock_rxba ob;
     let m = m\<lparr>l_rxBa := fst (rxBaTeardownAll (l_rxBa m))\<rparr>;
     let ob = give so_reorderTimer ((if rxwl then [RemoveSource RReorderTimer RRxWl] else []) @ [Release RReorderTimer])
       (\<lambda>ob. ob\<lparr>so_reorderTimer := False\<rparr>) ob;
     let ob = give so_rxBaLock [Release RRxBaLock] (\<lambda>ob. ob\<lparr>so_rxBaLock := False\<rparr>) ob;
     let m = m\<lparr>m_manualAbort := True\<rparr>;
     let ob = give so_manualScanTC [Release RManualScanTC] (\<lambda>ob. ob\<lparr>so_manualScanTC := False\<rparr>) ob;
     let ob = give so_connectTC [Release RConnectTC] (\<lambda>ob. ob\<lparr>so_connectTC := False\<rparr>) ob;
     let ob = give so_timer [RemoveSource RTimer RWl, Release RTimer] (\<lambda>ob. ob\<lparr>so_timer := False\<rparr>) ob;
     let ob = give so_gate [RemoveSource RGate RWl, Release RGate] (\<lambda>ob. ob\<lparr>so_gate := False\<rparr>) ob;
     let ob = give so_wl [Release RWl] (\<lambda>ob. ob\<lparr>so_wl := False\<rparr>) ob;
     let ob = give so_lock [Release RLock] (\<lambda>ob. ob\<lparr>so_lock := False\<rparr>) ob;
     let ob = give so_bssLock [Release RBssLock] (\<lambda>ob. ob\<lparr>so_bssLock := False\<rparr>) ob;
     let ob = (slog (replicate (so_bss ob) (Release RBss)) ob)\<lparr>so_bss := 0\<rparr>;
     Some (ob, m, w\<lparr>cg_stations := removeAll self (cg_stations w)\<rparr>) }"

text \<open>The result is the object, or the log of the one that was given up.\<close>

definition station_create :: "hw_io \<Rightarrow> init_answers \<Rightarrow> nat \<Rightarrow> compat \<Rightarrow> (bool \<times> station \<times> compat) option" where
  "station_create io a self w = do {
     (ok, ob, w) \<leftarrow> station_init a self (w\<lparr>cg_stations := self # cg_stations w\<rparr>);
     (if ok then Some (True, ob, w)
      else do { (ob, m, w) \<leftarrow> station_free io (ia_rxwl a) self ob mlme_init w; Some (False, ob, w) }) }"

section \<open>What is taken is given back\<close>

text \<open>The controller's work loop is always there.\<close>

abbreviation balanced :: "resource life_event list \<Rightarrow> bool" where
  "balanced \<equiv> balanced_log (\<lambda>l. l = RRxWl)"

lemma set_callbacks_fresh:
  assumes "compat_inv w" "self \<in> set (cg_stations w)" "self < 2 ^ 64"
  shows "\<exists>w'. rtw88_set_hw_callbacks cbs self w = Some w' \<and> cg_cbs w' = cbs \<and> cg_kext_hw w' = self \<and>
    cg_stations w' = cg_stations w"
  using set_hw_callbacks_live[OF assms, of cbs]
  by (auto simp: rtw88_set_hw_callbacks_def Let_def split: if_splits Option.bind_splits)

lemmas init_defs = station_init_def took_def slog_def new_station_def Let_def

text \<open>How far \<open>init\<close> gets.\<close>

definition got_rxba :: "init_answers \<Rightarrow> bool" where
  "got_rxba a \<longleftrightarrow> ia_super a \<and> ia_lock a \<and> ia_bssLock a \<and> ia_wl a \<and> ia_gate a \<and> ia_timer a \<and> ia_rxBaLock a"

definition init_log :: "init_answers \<Rightarrow> bool \<Rightarrow> resource life_event list" where
  "init_log a ok = [Acquire RLock, Acquire RBssLock] @ (if ia_connectTC a then [Acquire RConnectTC] else []) @
     (if ia_manualScanTC a then [Acquire RManualScanTC] else []) @
     [Acquire RWl, Acquire RGate, AddSource RGate RWl, Acquire RTimer, AddSource RTimer RWl, Acquire RRxBaLock] @
     (if ok then [Acquire RReorderTimer, AddSource RReorderTimer RRxWl] else [])"

text \<open>An object that \<open>init\<close> has left with the reorder lock, with or without the reorder timer.\<close>

definition inited :: "init_answers \<Rightarrow> bool \<Rightarrow> station \<Rightarrow> bool" where
  "inited a ok ob \<longleftrightarrow> so_rxBaLock ob \<and> so_reorderTimer ob = ok \<and> so_lock ob \<and> so_bssLock ob \<and> so_wl ob \<and> so_gate ob \<and>
     so_timer ob \<and> so_connectTC ob = ia_connectTC a \<and> so_manualScanTC ob = ia_manualScanTC a \<and> so_log ob = init_log a ok"

lemma station_init_early: "\<not> got_rxba a \<Longrightarrow> rtw88_set_hw_callbacks (Some cbs_station) self w = Some w1 \<Longrightarrow>
  \<exists>ob w2. station_init a self w = Some (False, ob, w2) \<and> \<not> so_rxBaLock ob"
  by (auto simp: init_defs got_rxba_def)

lemma station_init_late:
  assumes "got_rxba a" "rtw88_set_hw_callbacks (Some cbs_station) self w = Some w1"
  shows "\<exists>ob. station_init a self w = Some (ia_rxwl a \<and> ia_reorderTimer a, ob, w1) \<and> so_bss ob = 0 \<and>
    inited a (ia_rxwl a \<and> ia_reorderTimer a) ob"
  using assms by (auto simp: init_defs got_rxba_def inited_def init_log_def)

lemma give_log: "(\<And>ob. so_log (clear ob) = so_log ob) \<Longrightarrow> so_log (give has es clear ob) = so_log ob @ (if has ob then es else [])"
  by (simp add: give_def slog_def)

lemma give_keeps:
  "(\<And>ob. so_lock (clear ob) = so_lock ob) \<Longrightarrow> so_lock (give has es clear ob) = so_lock ob"
  "(\<And>ob. so_bssLock (clear ob) = so_bssLock ob) \<Longrightarrow> so_bssLock (give has es clear ob) = so_bssLock ob"
  "(\<And>ob. so_connectTC (clear ob) = so_connectTC ob) \<Longrightarrow> so_connectTC (give has es clear ob) = so_connectTC ob"
  "(\<And>ob. so_manualScanTC (clear ob) = so_manualScanTC ob) \<Longrightarrow> so_manualScanTC (give has es clear ob) = so_manualScanTC ob"
  "(\<And>ob. so_wl (clear ob) = so_wl ob) \<Longrightarrow> so_wl (give has es clear ob) = so_wl ob"
  "(\<And>ob. so_gate (clear ob) = so_gate ob) \<Longrightarrow> so_gate (give has es clear ob) = so_gate ob"
  "(\<And>ob. so_timer (clear ob) = so_timer ob) \<Longrightarrow> so_timer (give has es clear ob) = so_timer ob"
  "(\<And>ob. so_rxBaLock (clear ob) = so_rxBaLock ob) \<Longrightarrow> so_rxBaLock (give has es clear ob) = so_rxBaLock ob"
  "(\<And>ob. so_reorderTimer (clear ob) = so_reorderTimer ob) \<Longrightarrow> so_reorderTimer (give has es clear ob) = so_reorderTimer ob"
  "(\<And>ob. so_bss (clear ob) = so_bss ob) \<Longrightarrow> so_bss (give has es clear ob) = so_bss ob"
  by (simp_all add: give_def slog_def)

lemma station_free_log:
  assumes "so_rxBaLock ob"
  shows "\<exists>ob' m'. station_free io rxwl self ob m w = Some (ob', m', w\<lparr>cg_stations := removeAll self (cg_stations w)\<rparr>) \<and>
    so_log ob' = so_log ob @
      (if so_reorderTimer ob then (if rxwl then [RemoveSource RReorderTimer RRxWl] else []) @ [Release RReorderTimer] else []) @
      [Release RRxBaLock] @ (if so_manualScanTC ob then [Release RManualScanTC] else []) @
      (if so_connectTC ob then [Release RConnectTC] else []) @
      (if so_timer ob then [RemoveSource RTimer RWl, Release RTimer] else []) @
      (if so_gate ob then [RemoveSource RGate RWl, Release RGate] else []) @
      (if so_wl ob then [Release RWl] else []) @ (if so_lock ob then [Release RLock] else []) @
      (if so_bssLock ob then [Release RBssLock] else []) @ replicate (so_bss ob) (Release RBss)"
  using assms by (simp add: station_free_def lock_rxba_def give_log give_keeps slog_def Let_def)

lemma station_free_no_lock: "\<not> so_rxBaLock ob \<Longrightarrow> station_free io rxwl self ob m w = None"
  by (simp add: station_free_def lock_rxba_def)

lemma registered_inv:
  assumes "compat_inv w" "self \<noteq> 0"
  shows "compat_inv (w\<lparr>cg_stations := self # cg_stations w\<rparr>)"
proof -
  have "hw_live (w\<lparr>cg_stations := self # cg_stations w\<rparr>) hw" if "hw_live w hw" for hw
    by (rule hw_liveE[OF that]) (auto simp: hw_live_def)
  then show ?thesis using assms by (auto simp: compat_inv_def)
qed

text \<open>The networks of the list come last and go last.\<close>

lemma balanced_bss:
  assumes "life_run (\<lambda>l. l = RRxWl) es ([], []) = Some (live, att)" "life_run (\<lambda>l. l = RRxWl) fs (replicate n RBss @ live, att) = Some (replicate n RBss, [])"
  shows "balanced ((es @ replicate n (Acquire RBss)) @ fs @ replicate n (Release RBss))"
  using assms life_run_release[of "[]" RBss "\<lambda>l. l = RRxWl" n "[]"] by (simp add: balanced_log_def life_run_append life_run_acquire)

lemma registered_callbacks:
  assumes "compat_inv w" "self \<noteq> 0" "self \<notin> set (cg_stations w)" "self < 2 ^ 64"
  obtains w1 where "rtw88_set_hw_callbacks (Some cbs_station) self (w\<lparr>cg_stations := self # cg_stations w\<rparr>) = Some w1"
    "ieee80211_rx_irqsafe 0 skb w1 \<noteq> None"
    "ieee80211_rx_irqsafe 0 skb (w1\<lparr>cg_stations := removeAll self (cg_stations w1)\<rparr>) = None"
proof -
  obtain w1 where w1: "rtw88_set_hw_callbacks (Some cbs_station) self (w\<lparr>cg_stations := self # cg_stations w\<rparr>) = Some w1"
    "cg_cbs w1 = Some cbs_station" "cg_kext_hw w1 = self" "cg_stations w1 = self # cg_stations w"
    using set_callbacks_fresh[OF registered_inv[OF assms(1,2)], of self "Some cbs_station"] assms(4) by auto
  from this(2-4) show ?thesis using assms(2)
    by (intro that[OF w1(1)]) (simp_all add: ieee80211_rx_irqsafe_def callback_ctx_def compat_rx_frame_def cbs_station_def)
qed

lemma station_give_up:
  assumes "inited a False ob" "so_bss ob = 0"
  shows "\<exists>ob' m'. station_free io rxwl self ob m w = Some (ob', m', w\<lparr>cg_stations := removeAll self (cg_stations w)\<rparr>) \<and>
    balanced (so_log ob')"
proof -
  have "so_rxBaLock ob" using assms(1) by (simp add: inited_def)
  from station_free_log[OF this, of io rxwl self m w] show ?thesis
    using assms by (auto simp: inited_def init_log_def balanced_log_def split: if_splits)
qed

lemma station_free_balanced:
  assumes "inited a True ob"
  shows "\<exists>ob' m'. station_free io True self (ob\<lparr>so_bss := n, so_log := so_log ob @ replicate n (Acquire RBss)\<rparr>) m w =
    Some (ob', m', w\<lparr>cg_stations := removeAll self (cg_stations w)\<rparr>) \<and> balanced (so_log ob')"
proof -
  define ob1 where "ob1 = ob\<lparr>so_bss := n, so_log := so_log ob @ replicate n (Acquire RBss)\<rparr>"
  define fs where "fs = [RemoveSource RReorderTimer RRxWl, Release RReorderTimer, Release RRxBaLock] @
    (if ia_manualScanTC a then [Release RManualScanTC] else []) @ (if ia_connectTC a then [Release RConnectTC] else []) @
    [RemoveSource RTimer RWl, Release RTimer, RemoveSource RGate RWl, Release RGate, Release RWl, Release RLock, Release RBssLock]"
  have "so_rxBaLock ob1" using assms by (simp add: ob1_def inited_def)
  from station_free_log[OF this, of io True self m w]
  obtain ob' m' where free: "station_free io True self ob1 m w = Some (ob', m', w\<lparr>cg_stations := removeAll self (cg_stations w)\<rparr>)"
    "so_log ob' = (init_log a True @ replicate n (Acquire RBss)) @ fs @ replicate n (Release RBss)"
    using assms by (auto simp: ob1_def fs_def inited_def)
  obtain live att where "life_run (\<lambda>l. l = RRxWl) (init_log a True) ([], []) = Some (live, att)"
    "life_run (\<lambda>l. l = RRxWl) fs (replicate n RBss @ live, att) = Some (replicate n RBss, [])"
    unfolding init_log_def fs_def by (cases "ia_connectTC a"; cases "ia_manualScanTC a") (simp_all add: remove1_append)
  from balanced_bss[OF this] show ?thesis using free unfolding ob1_def by simp
qed

text \<open>C32. The life of a station object.  When \<open>init\<close> gets past the reorder lock, everything is in order: an
  object that could not be completed gives back all it took, each event source after it was removed from
  its loop and before the loop is released, and an object that was completed does the same in \<open>free\<close>,
  with however many networks in its list.  But two failures are not survived: when \<open>init\<close> stops before
  the reorder lock exists, \<open>free\<close> takes that lock nevertheless; and when it stops later, the object
  stays registered as receiver, and the next frame calls into freed memory.\<close>

theorem station_life:
  assumes "compat_inv w" "self \<noteq> 0" "self \<notin> set (cg_stations w)" "self < 2 ^ 64"
  shows "(\<not> got_rxba a \<longrightarrow> station_create io a self w = None) \<and>
    (got_rxba a \<and> \<not> (ia_rxwl a \<and> ia_reorderTimer a) \<longrightarrow>
      (\<exists>ob w'. station_create io a self w = Some (False, ob, w') \<and> balanced (so_log ob) \<and>
        ieee80211_rx_irqsafe 0 skb w' = None)) \<and>
    (got_rxba a \<and> ia_rxwl a \<and> ia_reorderTimer a \<longrightarrow>
      (\<exists>ob w'. station_create io a self w = Some (True, ob, w') \<and> ieee80211_rx_irqsafe 0 skb w' \<noteq> None \<and>
        (\<exists>ob' m' w''. station_free io True self (ob\<lparr>so_bss := n, so_log := so_log ob @ replicate n (Acquire RBss)\<rparr>) m w' =
          Some (ob', m', w'') \<and> balanced (so_log ob'))))"
proof -
  let ?w = "w\<lparr>cg_stations := self # cg_stations w\<rparr>"
  let ?ok = "ia_rxwl a \<and> ia_reorderTimer a"
  obtain w1 where w1: "rtw88_set_hw_callbacks (Some cbs_station) self ?w = Some w1" "ieee80211_rx_irqsafe 0 skb w1 \<noteq> None"
    "ieee80211_rx_irqsafe 0 skb (w1\<lparr>cg_stations := removeAll self (cg_stations w1)\<rparr>) = None"
    using registered_callbacks[OF assms] by blast
  show ?thesis
  proof (cases "got_rxba a")
    case False
    then show ?thesis using station_init_early[OF False w1(1)] by (auto simp: station_create_def station_free_no_lock)
  next
    case True
    obtain ob where i: "station_init a self ?w = Some (?ok, ob, w1)" "so_bss ob = 0" "inited a ?ok ob"
      using station_init_late[OF True w1(1)] by blast
    show ?thesis
    proof (cases ?ok)
      case False
      obtain ob' m' where "station_free io (ia_rxwl a) self ob mlme_init w1 =
          Some (ob', m', w1\<lparr>cg_stations := removeAll self (cg_stations w1)\<rparr>)" "balanced (so_log ob')"
        using station_give_up[of a ob io "ia_rxwl a" self mlme_init w1] i False by auto
      moreover from this have "station_create io a self w = Some (False, ob', w1\<lparr>cg_stations := removeAll self (cg_stations w1)\<rparr>)"
        using i(1) False by (auto simp: station_create_def)
      ultimately show ?thesis using True False w1(3) by auto
    next
      case ok: True
      have "station_create io a self w = Some (True, ob, w1)" using i(1) ok by (simp add: station_create_def)
      moreover have "inited a True ob" using i(3) ok by simp
      ultimately show ?thesis using station_free_balanced[of a ob io self n m w1] True ok w1(2) by auto
    qed
  qed
qed

definition ia_demo :: "bool \<Rightarrow> bool \<Rightarrow> init_answers" where
  "ia_demo gate reorder = \<lparr>ia_super = True, ia_lock = True, ia_bssLock = True, ia_connectTC = True, ia_manualScanTC = False,
     ia_wl = True, ia_gate = gate, ia_timer = True, ia_rxBaLock = True, ia_rxwl = True, ia_reorderTimer = reorder\<rparr>"

lemma station_life_witness:
  "\<forall>io. station_create io (ia_demo False True) 9 compat_demo = None \<and>
    (\<exists>ob w'. station_create io (ia_demo True False) 9 compat_demo = Some (False, ob, w') \<and> balanced (so_log ob) \<and>
      ieee80211_rx_irqsafe 0 5 w' = None) \<and>
    (\<exists>ob w'. station_create io (ia_demo True True) 9 compat_demo = Some (True, ob, w') \<and> ieee80211_rx_irqsafe 0 5 w' \<noteq> None \<and>
      (\<exists>ob' m' w''. station_free io True 9 (ob\<lparr>so_bss := 2, so_log := so_log ob @ replicate 2 (Acquire RBss)\<rparr>) mlme_init w' =
        Some (ob', m', w'') \<and> balanced (so_log ob')))"
proof
  fix io
  have c: "compat_inv compat_demo" "(9::nat) \<noteq> 0" "9 \<notin> set (cg_stations compat_demo)" "(9::nat) < 2 ^ 64"
    by (simp_all add: compat_inv_def compat_demo_def heap_ok_def)
  have g: "\<not> got_rxba (ia_demo False True)" "got_rxba (ia_demo True b)" "ia_rxwl (ia_demo True b)"
    "ia_reorderTimer (ia_demo True b) = b" for b by (simp_all add: got_rxba_def ia_demo_def)
  show "station_create io (ia_demo False True) 9 compat_demo = None \<and>
    (\<exists>ob w'. station_create io (ia_demo True False) 9 compat_demo = Some (False, ob, w') \<and> balanced (so_log ob) \<and>
      ieee80211_rx_irqsafe 0 5 w' = None) \<and>
    (\<exists>ob w'. station_create io (ia_demo True True) 9 compat_demo = Some (True, ob, w') \<and> ieee80211_rx_irqsafe 0 5 w' \<noteq> None \<and>
      (\<exists>ob' m' w''. station_free io True 9 (ob\<lparr>so_bss := 2, so_log := so_log ob @ replicate 2 (Acquire RBss)\<rparr>) mlme_init w' =
        Some (ob', m', w'') \<and> balanced (so_log ob')))"
    using station_life[OF c, of "ia_demo False True" io 5 0 mlme_init] station_life[OF c, of "ia_demo True False" io 5 0 mlme_init]
      station_life[OF c, of "ia_demo True True" io 5 2 mlme_init] g by blast
qed

end
