(* ===== verification/Usb.thy ===== *)
theory Usb
  imports Owned Slab User
begin

text \<open>
  The USB adapter: \<open>src/compat/linux/usb.h\<close>, the part of the USB interface of Linux that the driver is
  given, and \<open>src/kext/RTW88USBDevice.cpp\<close>, the network controller.  What IOKit answers is an argument or
  part of \<open>usb_answers\<close>; dereferencing a null pointer is \<open>None\<close>.
\<close>

section \<open>The interface of Linux\<close>

record usb_endpoint_descriptor =
  ep_bEndpointAddress :: u8
  ep_bmAttributes :: u8

definition USB_DIR_IN :: u32 where "USB_DIR_IN = 0x80"
definition USB_ENDPOINT_XFER_CONTROL :: u32 where "USB_ENDPOINT_XFER_CONTROL = 0"
definition USB_ENDPOINT_XFER_ISOC :: u32 where "USB_ENDPOINT_XFER_ISOC = 1"
definition USB_ENDPOINT_XFER_BULK :: u32 where "USB_ENDPOINT_XFER_BULK = 2"
definition USB_ENDPOINT_XFER_INT :: u32 where "USB_ENDPOINT_XFER_INT = 3"

definition usb_endpoint_num :: "usb_endpoint_descriptor \<Rightarrow> u32" where
  "usb_endpoint_num epd = ucast (ep_bEndpointAddress epd) AND 0x0f"
definition usb_endpoint_dir_in :: "usb_endpoint_descriptor \<Rightarrow> bool" where
  "usb_endpoint_dir_in epd \<longleftrightarrow> ucast (ep_bEndpointAddress epd) AND USB_DIR_IN \<noteq> 0"
definition usb_endpoint_dir_out :: "usb_endpoint_descriptor \<Rightarrow> bool" where
  "usb_endpoint_dir_out epd \<longleftrightarrow> \<not> usb_endpoint_dir_in epd"
definition usb_endpoint_type :: "usb_endpoint_descriptor \<Rightarrow> u32" where
  "usb_endpoint_type epd = ucast (ep_bmAttributes epd) AND 0x03"
definition usb_endpoint_xfer_bulk :: "usb_endpoint_descriptor \<Rightarrow> bool" where
  "usb_endpoint_xfer_bulk epd \<longleftrightarrow> usb_endpoint_type epd = USB_ENDPOINT_XFER_BULK"
definition usb_endpoint_xfer_int :: "usb_endpoint_descriptor \<Rightarrow> bool" where
  "usb_endpoint_xfer_int epd \<longleftrightarrow> usb_endpoint_type epd = USB_ENDPOINT_XFER_INT"
definition usb_endpoint_xfer_isoc :: "usb_endpoint_descriptor \<Rightarrow> bool" where
  "usb_endpoint_xfer_isoc epd \<longleftrightarrow> usb_endpoint_type epd = USB_ENDPOINT_XFER_ISOC"

text \<open>Pipes: the shifts are made in 32 bits.\<close>

definition usb_sndbulkpipe :: "u32 \<Rightarrow> u32" where
  "usb_sndbulkpipe ep = push_bit 30 USB_ENDPOINT_XFER_BULK OR (ep AND 0xf)"
definition usb_rcvbulkpipe :: "u32 \<Rightarrow> u32" where
  "usb_rcvbulkpipe ep = push_bit 24 USB_DIR_IN OR push_bit 30 USB_ENDPOINT_XFER_BULK OR (ep AND 0xf)"
definition usb_sndctrlpipe :: "u32 \<Rightarrow> u32" where
  "usb_sndctrlpipe ep = push_bit 30 USB_ENDPOINT_XFER_CONTROL OR (ep AND 0xf)"
definition usb_rcvctrlpipe :: "u32 \<Rightarrow> u32" where
  "usb_rcvctrlpipe ep = push_bit 24 USB_DIR_IN OR push_bit 30 USB_ENDPOINT_XFER_CONTROL OR (ep AND 0xf)"

record urb =
  urb_dev :: nat
  urb_pipe :: u32
  urb_context :: nat
  urb_complete :: nat
  urb_transfer_buffer :: nat
  urb_transfer_buffer_length :: u32

definition sizeof_urb :: u64 where "sizeof_urb = 64"
definition EOPNOTSUPP :: int where "EOPNOTSUPP = 95"
definition EIO :: int where "EIO = 5"
definition ENOMEM :: int where "ENOMEM = 12"

definition usb_alloc_urb :: "io_malloc \<Rightarrow> u32 \<Rightarrow> kheap \<Rightarrow> nat option \<times> kheap" where
  "usb_alloc_urb alloc mem_flags h = kzalloc alloc sizeof_urb mem_flags h"
definition usb_free_urb :: "nat \<Rightarrow> kheap \<Rightarrow> kheap option" where "usb_free_urb u h = kfree u h"
definition usb_fill_bulk_urb :: "urb \<Rightarrow> nat \<Rightarrow> u32 \<Rightarrow> nat \<Rightarrow> u32 \<Rightarrow> nat \<Rightarrow> nat \<Rightarrow> urb" where
  "usb_fill_bulk_urb u dev pipe transfer_buffer buffer_length complete context =
    u\<lparr>urb_dev := dev, urb_pipe := pipe, urb_transfer_buffer := transfer_buffer,
      urb_transfer_buffer_length := buffer_length, urb_complete := complete, urb_context := context\<rparr>"

text \<open>The transfers of the driver.\<close>

definition usb_submit_urb :: "urb \<Rightarrow> int" where "usb_submit_urb u = - EOPNOTSUPP"
definition usb_bulk_msg :: "u32 \<Rightarrow> bytes \<Rightarrow> int" where "usb_bulk_msg pipe data = - EOPNOTSUPP"
definition usb_control_msg :: "u32 \<Rightarrow> u8 \<Rightarrow> u8 \<Rightarrow> u16 \<Rightarrow> u16 \<Rightarrow> bytes \<Rightarrow> int" where
  "usb_control_msg pipe request requesttype val index data = - EOPNOTSUPP"
definition usb_control_msg_send :: "u8 \<Rightarrow> u8 \<Rightarrow> u8 \<Rightarrow> u16 \<Rightarrow> u16 \<Rightarrow> bytes \<Rightarrow> int" where
  "usb_control_msg_send endpoint request requesttype val index data = - EOPNOTSUPP"
definition usb_control_msg_recv :: "u8 \<Rightarrow> u8 \<Rightarrow> u8 \<Rightarrow> u16 \<Rightarrow> u16 \<Rightarrow> bytes \<Rightarrow> int" where
  "usb_control_msg_recv endpoint request requesttype val index data = - EOPNOTSUPP"

record usb_interface =
  ui_usb_dev :: nat
  ui_driver_data :: nat

definition usb_get_intfdata :: "usb_interface \<Rightarrow> nat" where "usb_get_intfdata i = ui_driver_data i"
definition usb_set_intfdata :: "usb_interface \<Rightarrow> nat \<Rightarrow> usb_interface" where "usb_set_intfdata i d = i\<lparr>ui_driver_data := d\<rparr>"
definition interface_to_usbdev :: "usb_interface \<Rightarrow> nat" where "interface_to_usbdev i = ui_usb_dev i"

section \<open>The controller\<close>

datatype usb_resource = UDev | UDevOpen | UIface | UIfaceOpen | UBulkIn | UBulkOut | UCompat | UCompatIface | UUsbDevice
  | UStation | UWorkLoop | UCmdGate | UNetIface

text \<open>What becomes of packets.\<close>

datatype usb_call = FreePacketU bytes | StationOutput bytes | InputPacketU bytes

text \<open>The station that was created has the PCI device it was given, which is none.\<close>

record usbdev =
  ud_usbDev :: bool
  ud_usbIface :: bool
  ud_bulkIn :: bool
  ud_bulkOut :: bool
  ud_compatIface :: bool
  ud_usb_device :: bool
  ud_80211 :: "u16 option option"
  ud_workLoop :: bool
  ud_cmdGate :: bool
  ud_iface :: bool
  ud_enabled :: bool
  ud_mac :: bytes
  ud_instance :: bool
  ud_ops :: bool
  ud_link :: bool
  ud_log :: "usb_resource life_event list"
  ud_calls :: "usb_call list"

text \<open>An endpoint: is it bulk, is it inward, and does \<open>copyPipe\<close> succeed.\<close>

record usb_answers =
  ua_super :: bool
  ua_dev :: bool
  ua_iface :: bool
  ua_eps :: "(bool \<times> bool \<times> bool) list"
  ua_compatIface :: bool
  ua_usb_device :: bool
  ua_create :: bool
  ua_workLoop :: bool
  ua_cmdGate :: bool
  ua_attach :: bool
  ua_mediums :: bool

definition ulog :: "usb_resource life_event list \<Rightarrow> usbdev \<Rightarrow> usbdev" where "ulog es d = d\<lparr>ud_log := ud_log d @ es\<rparr>"
definition ucall :: "usb_call \<Rightarrow> usbdev \<Rightarrow> usbdev" where "ucall c d = d\<lparr>ud_calls := ud_calls d @ [c]\<rparr>"

definition usb_endpoint :: "bool \<times> bool \<times> bool \<Rightarrow> usbdev \<Rightarrow> usbdev" where
  "usb_endpoint ep d =
    (case ep of (bulk, dir_in, okay) \<Rightarrow>
       if \<not> bulk then d
       else if dir_in then (if \<not> ud_bulkIn d \<and> okay then ulog [Acquire UBulkIn] (d\<lparr>ud_bulkIn := True\<rparr>) else d)
       else (if \<not> ud_bulkOut d \<and> okay then ulog [Acquire UBulkOut] (d\<lparr>ud_bulkOut := True\<rparr>) else d))"

definition setupMediumDict :: "bool \<Rightarrow> usbdev \<Rightarrow> bool \<times> usbdev" where
  "setupMediumDict okay d = (if \<not> okay then (False, d) else (True, d\<lparr>ud_link := True\<rparr>))"

definition usb_start :: "usb_answers \<Rightarrow> usbdev \<Rightarrow> bool \<times> usbdev" where
  "usb_start a d =
    (if \<not> ua_super a then (False, d)
     else if \<not> ua_dev a then (False, d)
     else let d = ulog [Acquire UDev, Acquire UDevOpen] (d\<lparr>ud_usbDev := True\<rparr>)
     in if \<not> ua_iface a then (False, d)
     else let d = ulog [Acquire UIface, Acquire UIfaceOpen] (d\<lparr>ud_usbIface := True\<rparr>);
              d = fold usb_endpoint (ua_eps a) d
     in if \<not> ud_bulkIn d \<or> \<not> ud_bulkOut d then (False, d)
     else let d = ulog [Acquire UCompat] (d\<lparr>ud_instance := True, ud_ops := True\<rparr>)
     in if \<not> ua_compatIface a then (False, d)
     else let d = ulog [Acquire UCompatIface] (d\<lparr>ud_compatIface := True\<rparr>)
     in if \<not> ua_usb_device a then (False, d)
     else let d = ulog [Acquire UUsbDevice] (d\<lparr>ud_usb_device := True\<rparr>)
     in if \<not> ua_create a then (False, d)
     else let d = ulog [Acquire UStation] (d\<lparr>ud_80211 := Some None\<rparr>);
              d = (if ua_workLoop a then ulog [Acquire UWorkLoop] (d\<lparr>ud_workLoop := True\<rparr>) else d);
              d = (if ua_cmdGate a then ulog [Acquire UCmdGate] (d\<lparr>ud_cmdGate := True\<rparr>) else d)
     in if \<not> ud_workLoop d \<or> \<not> ud_cmdGate d then (False, d)
     else let d = ulog [AddSource UCmdGate UWorkLoop] d
     in if \<not> ua_attach a then (False, d)
     else let d = ulog [Acquire UNetIface] (d\<lparr>ud_iface := True\<rparr>);
              d = snd (setupMediumDict (ua_mediums a) d)
     in (True, d))"

text \<open>\<open>start\<close>: what \<open>RTW88IEEE80211::start\<close> answers for a PCI device; it begins with reading its number.\<close>

definition usb_enable :: "(u16 \<Rightarrow> IOReturn) \<Rightarrow> usbdev \<Rightarrow> (IOReturn \<times> usbdev) option" where
  "usb_enable start d =
    (if ud_enabled d then Some (kIOReturnSuccess, d)
     else do {
       pcidev \<leftarrow> ud_80211 d;
       device \<leftarrow> pcidev;
       let ret = start device;
       Some (ret, if ret = kIOReturnSuccess then d\<lparr>ud_enabled := True\<rparr> else d) })"

definition usb_disable :: "usbdev \<Rightarrow> usbdev" where
  "usb_disable d = (if \<not> ud_enabled d then d else d\<lparr>ud_enabled := False\<rparr>)"

definition release_if :: "(usbdev \<Rightarrow> bool) \<Rightarrow> usb_resource life_event list \<Rightarrow> (usbdev \<Rightarrow> usbdev) \<Rightarrow> usbdev \<Rightarrow> usbdev" where
  "release_if has es clear d = (if has d then clear (ulog es d) else d)"

definition usb_teardown :: "usbdev \<Rightarrow> usbdev" where
  "usb_teardown d =
    (let d = (if ud_enabled d then usb_disable d else d);
         d = release_if (\<lambda>d. ud_80211 d \<noteq> None) [Release UStation] (\<lambda>d. d\<lparr>ud_80211 := None\<rparr>) d;
         d = ulog [Release UCompat] d;
         d = release_if ud_compatIface ((if ud_usb_device d then [Release UUsbDevice] else []) @ [Release UCompatIface])
               (\<lambda>d. d\<lparr>ud_compatIface := False, ud_usb_device := False\<rparr>) d;
         d = release_if ud_bulkIn [Release UBulkIn] (\<lambda>d. d\<lparr>ud_bulkIn := False\<rparr>) d;
         d = release_if ud_bulkOut [Release UBulkOut] (\<lambda>d. d\<lparr>ud_bulkOut := False\<rparr>) d;
         d = release_if ud_cmdGate [RemoveSource UCmdGate UWorkLoop, Release UCmdGate] (\<lambda>d. d\<lparr>ud_cmdGate := False\<rparr>) d;
         d = release_if ud_iface [Release UNetIface] (\<lambda>d. d\<lparr>ud_iface := False\<rparr>) d;
         d = release_if ud_workLoop [Release UWorkLoop] (\<lambda>d. d\<lparr>ud_workLoop := False\<rparr>) d;
         d = release_if ud_usbIface [Release UIfaceOpen, Release UIface] (\<lambda>d. d\<lparr>ud_usbIface := False\<rparr>) d;
         d = release_if ud_usbDev [Release UDevOpen, Release UDev] (\<lambda>d. d\<lparr>ud_usbDev := False\<rparr>) d
     in d\<lparr>ud_instance := False, ud_ops := False\<rparr>)"

definition usb_outputPacket :: "bytes \<Rightarrow> usbdev \<Rightarrow> bool \<times> usbdev" where
  "usb_outputPacket m d =
    (if \<not> ud_enabled d \<or> ud_80211 d = None then (False, ucall (FreePacketU m) d) else (True, ucall (StationOutput m) d))"

definition usb_injectRxFrame :: "bytes \<Rightarrow> usbdev \<Rightarrow> usbdev" where
  "usb_injectRxFrame m d = (if ud_iface d \<and> ud_enabled d then ucall (InputPacketU m) d else ucall (FreePacketU m) d)"

definition usb_setHardwareAddress :: "bytes \<Rightarrow> usbdev \<Rightarrow> usbdev" where
  "usb_setHardwareAddress addr d = d\<lparr>ud_mac := addr\<rparr>"

text \<open>A transfer: the pipe or device is there, the memory descriptor is made, the answer of IOKit and the count.
  The endpoint number is not used.\<close>

definition usb_transfer :: "bool \<Rightarrow> bool \<Rightarrow> bool \<Rightarrow> u32 \<Rightarrow> int" where
  "usb_transfer pipe md okay transferred =
    (if \<not> pipe then - EIO else if \<not> md then - ENOMEM else if \<not> okay then - EIO else sint transferred)"

definition usbBulkOut :: "u8 \<Rightarrow> bool \<Rightarrow> bool \<Rightarrow> u32 \<Rightarrow> usbdev \<Rightarrow> int" where
  "usbBulkOut ep md okay transferred d = usb_transfer (ud_bulkOut d) md okay transferred"

definition usbBulkIn :: "u8 \<Rightarrow> bool \<Rightarrow> bool \<Rightarrow> u32 \<Rightarrow> usbdev \<Rightarrow> int" where
  "usbBulkIn ep md okay transferred d = usb_transfer (ud_bulkIn d) md okay transferred"

definition usbCtrl :: "bool \<Rightarrow> u32 \<Rightarrow> usbdev \<Rightarrow> int" where
  "usbCtrl okay transferred d = (if \<not> ud_usbDev d then - EIO else if \<not> okay then - EIO else sint transferred)"

text \<open>The operations for the driver: \<open>g_usb_dev\<close> is the controller or null.\<close>

definition compat_usb_bulk_out :: "u8 \<Rightarrow> bool \<Rightarrow> bool \<Rightarrow> u32 \<Rightarrow> usbdev \<Rightarrow> int" where
  "compat_usb_bulk_out ep md okay n d = (if ud_instance d then usbBulkOut ep md okay n d else - EIO)"
definition compat_usb_bulk_in :: "u8 \<Rightarrow> bool \<Rightarrow> bool \<Rightarrow> u32 \<Rightarrow> usbdev \<Rightarrow> int" where
  "compat_usb_bulk_in ep md okay n d = (if ud_instance d then usbBulkIn ep md okay n d else - EIO)"
definition compat_usb_ctrl :: "bool \<Rightarrow> u32 \<Rightarrow> usbdev \<Rightarrow> int" where
  "compat_usb_ctrl okay n d = (if ud_instance d then usbCtrl okay n d else - EIO)"

text \<open>A client is created, attached and started; its provider is not an \<open>RTW88PCIDevice\<close>, so that the cast in
  \<open>RTW88UserClient::start\<close> gives null.\<close>

definition usb_newUserClient :: "bool \<Rightarrow> bool \<Rightarrow> bool \<Rightarrow> bool \<Rightarrow> nat \<Rightarrow> nat \<Rightarrow> IOReturn \<times> user_client option" where
  "usb_newUserClient alloc_ok super_init attach super_start self owningTask =
    (case uc_create alloc_ok super_init self owningTask of
       None \<Rightarrow> (kIOReturnNoMemory, None)
     | Some client \<Rightarrow>
         if \<not> attach then (kIOReturnError, None)
         else (case uc_start super_start None client of (okay, client) \<Rightarrow>
           if \<not> okay then (kIOReturnError, None) else (kIOReturnSuccess, Some client)))"

section \<open>Pipes and transfers\<close>

text \<open>A pipe does not say which way it goes: the direction bit and the type of bulk transfers are the same bit
  of the word.\<close>

lemma usb_pipes_collide:
  "usb_sndbulkpipe ep = usb_rcvbulkpipe ep" "usb_rcvctrlpipe ep = usb_rcvbulkpipe ep"
  by (simp_all add: usb_sndbulkpipe_def usb_rcvbulkpipe_def usb_rcvctrlpipe_def USB_DIR_IN_def
      USB_ENDPOINT_XFER_BULK_def USB_ENDPOINT_XFER_CONTROL_def)

section \<open>The adapter never carries a packet\<close>

definition usb_new :: usbdev where
  "usb_new = \<lparr>ud_usbDev = False, ud_usbIface = False, ud_bulkIn = False, ud_bulkOut = False, ud_compatIface = False,
     ud_usb_device = False, ud_80211 = None, ud_workLoop = False, ud_cmdGate = False, ud_iface = False, ud_enabled = False,
     ud_mac = [], ud_instance = False, ud_ops = False, ud_link = False, ud_log = [], ud_calls = []\<rparr>"

datatype usb_op = UStart usb_answers | UTeardown | UEnable | UDisable | UOutput bytes | UInject bytes | USetMac bytes

fun usb_do :: "(u16 \<Rightarrow> IOReturn) \<Rightarrow> usb_op \<Rightarrow> usbdev \<Rightarrow> usbdev option" where
  "usb_do start (UStart a) d = Some (snd (usb_start a d))"
| "usb_do start UTeardown d = Some (usb_teardown d)"
| "usb_do start UEnable d = map_option snd (usb_enable start d)"
| "usb_do start UDisable d = Some (usb_disable d)"
| "usb_do start (UOutput m) d = Some (snd (usb_outputPacket m d))"
| "usb_do start (UInject m) d = Some (usb_injectRxFrame m d)"
| "usb_do start (USetMac m) d = Some (usb_setHardwareAddress m d)"

fun usb_run :: "(u16 \<Rightarrow> IOReturn) \<Rightarrow> usb_op list \<Rightarrow> usbdev \<Rightarrow> usbdev option" where
  "usb_run start [] d = Some d"
| "usb_run start (op # ops) d = do { d \<leftarrow> usb_do start op d; usb_run start ops d }"

fun op_packets :: "usb_op \<Rightarrow> bytes list" where
  "op_packets (UOutput m) = [m]"
| "op_packets (UInject m) = [m]"
| "op_packets _ = []"

definition usb_idle :: "usbdev \<Rightarrow> bool" where
  "usb_idle d \<longleftrightarrow> \<not> ud_enabled d \<and> (ud_80211 d = None \<or> ud_80211 d = Some None)"

lemma fold_endpoints_keep:
  "ud_80211 (fold usb_endpoint eps d) = ud_80211 d \<and> ud_enabled (fold usb_endpoint eps d) = ud_enabled d \<and>
   ud_calls (fold usb_endpoint eps d) = ud_calls d \<and> ud_workLoop (fold usb_endpoint eps d) = ud_workLoop d \<and>
   ud_cmdGate (fold usb_endpoint eps d) = ud_cmdGate d"
  by (induction eps arbitrary: d) (simp_all add: usb_endpoint_def ulog_def split: prod.splits)

lemma usb_start_idle:
  assumes "usb_idle d"
  shows "usb_idle (snd (usb_start a d)) \<and> ud_calls (snd (usb_start a d)) = ud_calls d"
  using assms by (simp add: usb_start_def ulog_def usb_idle_def Let_def setupMediumDict_def fold_endpoints_keep)

lemma release_if_keeps:
  "(\<And>d. ud_enabled (clear d) = ud_enabled d) \<Longrightarrow> ud_enabled (release_if has es clear d) = ud_enabled d"
  "(\<And>d. ud_calls (clear d) = ud_calls d) \<Longrightarrow> ud_calls (release_if has es clear d) = ud_calls d"
  "(\<And>d. ud_80211 (clear d) = ud_80211 d) \<Longrightarrow> ud_80211 (release_if has es clear d) = ud_80211 d"
  "(\<And>d. ud_usbDev (clear d) = ud_usbDev d) \<Longrightarrow> ud_usbDev (release_if has es clear d) = ud_usbDev d"
  "(\<And>d. ud_usbIface (clear d) = ud_usbIface d) \<Longrightarrow> ud_usbIface (release_if has es clear d) = ud_usbIface d"
  "(\<And>d. ud_bulkIn (clear d) = ud_bulkIn d) \<Longrightarrow> ud_bulkIn (release_if has es clear d) = ud_bulkIn d"
  "(\<And>d. ud_bulkOut (clear d) = ud_bulkOut d) \<Longrightarrow> ud_bulkOut (release_if has es clear d) = ud_bulkOut d"
  "(\<And>d. ud_compatIface (clear d) = ud_compatIface d) \<Longrightarrow> ud_compatIface (release_if has es clear d) = ud_compatIface d"
  "(\<And>d. ud_usb_device (clear d) = ud_usb_device d) \<Longrightarrow> ud_usb_device (release_if has es clear d) = ud_usb_device d"
  "(\<And>d. ud_workLoop (clear d) = ud_workLoop d) \<Longrightarrow> ud_workLoop (release_if has es clear d) = ud_workLoop d"
  "(\<And>d. ud_cmdGate (clear d) = ud_cmdGate d) \<Longrightarrow> ud_cmdGate (release_if has es clear d) = ud_cmdGate d"
  "(\<And>d. ud_iface (clear d) = ud_iface d) \<Longrightarrow> ud_iface (release_if has es clear d) = ud_iface d"
  by (simp_all add: release_if_def ulog_def)

lemma release_if_log:
  "(\<And>d. ud_log (clear d) = ud_log d) \<Longrightarrow> ud_log (release_if has es clear d) = ud_log d @ (if has d then es else [])"
  by (simp add: release_if_def ulog_def)

lemma usb_teardown_idle:
  assumes "usb_idle d"
  shows "usb_idle (usb_teardown d) \<and> ud_calls (usb_teardown d) = ud_calls d"
  using assms
  by (simp add: usb_teardown_def usb_idle_def release_if_keeps usb_disable_def ulog_def Let_def)
    (auto simp: release_if_def ulog_def)

lemma usb_do_idle:
  assumes "usb_idle d" "op \<noteq> UEnable"
  shows "\<exists>d'. usb_do start op d = Some d' \<and> usb_idle d' \<and> ud_calls d' = ud_calls d @ map FreePacketU (op_packets op)"
proof (cases op)
  case (UStart a)
  then show ?thesis using usb_start_idle[OF assms(1), of a] by simp
next
  case UTeardown
  then show ?thesis using usb_teardown_idle[OF assms(1)] by simp
qed (use assms in \<open>auto simp: usb_idle_def usb_disable_def usb_outputPacket_def usb_injectRxFrame_def ucall_def
  usb_setHardwareAddress_def\<close>)

lemma usb_enable_idle: "usb_idle d \<Longrightarrow> usb_enable start d = None"
  by (auto simp: usb_idle_def usb_enable_def)


definition usb_demo :: "bool \<Rightarrow> usb_answers" where
  "usb_demo attach = \<lparr>ua_super = True, ua_dev = True, ua_iface = True, ua_eps = [(False, True, True), (True, True, True),
     (True, False, False), (True, False, True), (True, True, True)], ua_compatIface = True, ua_usb_device = True,
     ua_create = True, ua_workLoop = True, ua_cmdGate = True, ua_attach = attach, ua_mediums = True\<rparr>"


section \<open>Starting and tearing down\<close>

text \<open>What the scan of the endpoints takes: each pipe at most once.\<close>

definition pipe_log :: "usbdev \<Rightarrow> usb_resource life_event list \<Rightarrow> bool" where
  "pipe_log d es \<longleftrightarrow> es \<in> {[], [Acquire UBulkIn], [Acquire UBulkOut], [Acquire UBulkIn, Acquire UBulkOut],
     [Acquire UBulkOut, Acquire UBulkIn]} \<and> (Acquire UBulkIn \<in> set es \<longleftrightarrow> ud_bulkIn d) \<and> (Acquire UBulkOut \<in> set es \<longleftrightarrow> ud_bulkOut d)"

lemma pipe_log_step:
  assumes "pipe_log d es" "ud_log d = l @ es"
  shows "\<exists>es'. pipe_log (usb_endpoint ep d) es' \<and> ud_log (usb_endpoint ep d) = l @ es'"
proof (cases "usb_endpoint ep d = d")
  case False
  then obtain r where "ud_log (usb_endpoint ep d) = l @ es @ [Acquire r]" "pipe_log (usb_endpoint ep d) (es @ [Acquire r])"
    using assms by (auto simp: usb_endpoint_def ulog_def pipe_log_def split: prod.splits if_splits)
  then show ?thesis by blast
qed (use assms in auto)

lemma pipe_log_fold:
  assumes "pipe_log d es" "ud_log d = l @ es"
  shows "\<exists>es'. pipe_log (fold usb_endpoint eps d) es' \<and> ud_log (fold usb_endpoint eps d) = l @ es'"
  using assms
proof (induction eps arbitrary: d es)
  case (Cons ep eps)
  from pipe_log_step[OF Cons.prems, of ep] Cons.IH show ?case by auto
qed auto

lemma endpoint_flags:
  "ud_usbDev (fold usb_endpoint eps d) = ud_usbDev d" "ud_usbIface (fold usb_endpoint eps d) = ud_usbIface d"
  "ud_compatIface (fold usb_endpoint eps d) = ud_compatIface d" "ud_usb_device (fold usb_endpoint eps d) = ud_usb_device d"
  "ud_iface (fold usb_endpoint eps d) = ud_iface d" "ud_instance (fold usb_endpoint eps d) = ud_instance d"
  by (induction eps arbitrary: d) (simp_all add: usb_endpoint_def ulog_def split: prod.splits)

lemma usb_teardown_log:
  assumes "\<not> ud_enabled d"
  shows "ud_log (usb_teardown d) = ud_log d @ (if ud_80211 d \<noteq> None then [Release UStation] else []) @ [Release UCompat] @
    (if ud_compatIface d then (if ud_usb_device d then [Release UUsbDevice] else []) @ [Release UCompatIface] else []) @
    (if ud_bulkIn d then [Release UBulkIn] else []) @ (if ud_bulkOut d then [Release UBulkOut] else []) @
    (if ud_cmdGate d then [RemoveSource UCmdGate UWorkLoop, Release UCmdGate] else []) @
    (if ud_iface d then [Release UNetIface] else []) @ (if ud_workLoop d then [Release UWorkLoop] else []) @
    (if ud_usbIface d then [Release UIfaceOpen, Release UIface] else []) @
    (if ud_usbDev d then [Release UDevOpen, Release UDev] else [])"
  using assms by (simp add: usb_teardown_def release_if_keeps release_if_log ulog_def Let_def)

lemma medium_flags [simp]:
  "ud_usbDev (snd (setupMediumDict k d)) = ud_usbDev d" "ud_usbIface (snd (setupMediumDict k d)) = ud_usbIface d"
  "ud_bulkIn (snd (setupMediumDict k d)) = ud_bulkIn d" "ud_bulkOut (snd (setupMediumDict k d)) = ud_bulkOut d"
  "ud_compatIface (snd (setupMediumDict k d)) = ud_compatIface d"
  "ud_usb_device (snd (setupMediumDict k d)) = ud_usb_device d" "ud_80211 (snd (setupMediumDict k d)) = ud_80211 d"
  "ud_workLoop (snd (setupMediumDict k d)) = ud_workLoop d" "ud_cmdGate (snd (setupMediumDict k d)) = ud_cmdGate d"
  "ud_iface (snd (setupMediumDict k d)) = ud_iface d" "ud_enabled (snd (setupMediumDict k d)) = ud_enabled d"
  "ud_log (snd (setupMediumDict k d)) = ud_log d"
  by (simp_all add: setupMediumDict_def)

text \<open>Stopping an adapter gives back everything that starting it took, each event source before its loop,
  whatever endpoints the device has.  A start that fails once the device is open gives nothing back:
  the device stays open and retained, and when the failure comes after the endpoints were found, the
  global pointer to the controller stays, although IOKit frees the object.\<close>

theorem usb_start_teardown:
  "(fst (usb_start a usb_new) \<longrightarrow> balanced_log (\<lambda>_. False) (ud_log (usb_teardown (snd (usb_start a usb_new))))) \<and>
   (\<not> fst (usb_start a usb_new) \<and> ua_super a \<and> ua_dev a \<longrightarrow>
     (\<exists>live att. life_run (\<lambda>_. False) (ud_log (snd (usb_start a usb_new))) ([], []) = Some (live, att) \<and>
       UDev \<in> set live \<and> UDevOpen \<in> set live) \<and>
     (ud_bulkIn (snd (usb_start a usb_new)) \<and> ud_bulkOut (snd (usb_start a usb_new)) \<longrightarrow>
       ud_instance (snd (usb_start a usb_new))))"
proof (cases "ua_super a \<and> ua_dev a \<and> ua_iface a")
  case False
  then show ?thesis by (auto simp: usb_start_def usb_new_def ulog_def)
next
  case True
  define d0 where "d0 = ulog [Acquire UIface, Acquire UIfaceOpen]
    (ulog [Acquire UDev, Acquire UDevOpen] (usb_new\<lparr>ud_usbDev := True\<rparr>)\<lparr>ud_usbIface := True\<rparr>)"
  define d1 where "d1 = fold usb_endpoint (ua_eps a) d0"
  have "pipe_log d0 []" by (simp add: pipe_log_def d0_def ulog_def usb_new_def)
  then obtain es where es: "pipe_log d1 es" "ud_log d1 = [Acquire UDev, Acquire UDevOpen, Acquire UIface, Acquire UIfaceOpen] @ es"
    using pipe_log_fold[of d0 "[]" "[Acquire UDev, Acquire UDevOpen, Acquire UIface, Acquire UIfaceOpen]" "ua_eps a"]
    by (auto simp: d1_def d0_def ulog_def usb_new_def)
  have d1: "ud_usbDev d1" "ud_usbIface d1" "\<not> ud_compatIface d1" "\<not> ud_usb_device d1" "ud_80211 d1 = None" "\<not> ud_workLoop d1"
    "\<not> ud_cmdGate d1" "\<not> ud_iface d1" "\<not> ud_enabled d1"
    unfolding d1_def by (simp_all add: endpoint_flags fold_endpoints_keep d0_def ulog_def usb_new_def)
  have start: "usb_start a usb_new = (if \<not> ud_bulkIn d1 \<or> \<not> ud_bulkOut d1 then (False, d1)
     else let d = ulog [Acquire UCompat] (d1\<lparr>ud_instance := True, ud_ops := True\<rparr>)
     in if \<not> ua_compatIface a then (False, d)
     else let d = ulog [Acquire UCompatIface] (d\<lparr>ud_compatIface := True\<rparr>)
     in if \<not> ua_usb_device a then (False, d)
     else let d = ulog [Acquire UUsbDevice] (d\<lparr>ud_usb_device := True\<rparr>)
     in if \<not> ua_create a then (False, d)
     else let d = ulog [Acquire UStation] (d\<lparr>ud_80211 := Some None\<rparr>);
              d = (if ua_workLoop a then ulog [Acquire UWorkLoop] (d\<lparr>ud_workLoop := True\<rparr>) else d);
              d = (if ua_cmdGate a then ulog [Acquire UCmdGate] (d\<lparr>ud_cmdGate := True\<rparr>) else d)
     in if \<not> ud_workLoop d \<or> \<not> ud_cmdGate d then (False, d)
     else let d = ulog [AddSource UCmdGate UWorkLoop] d
     in if \<not> ua_attach a then (False, d)
     else let d = ulog [Acquire UNetIface] (d\<lparr>ud_iface := True\<rparr>);
              d = snd (setupMediumDict (ua_mediums a) d)
     in (True, d))"
    using True by (simp add: usb_start_def Let_def d0_def[symmetric] d1_def[symmetric])
  show ?thesis
  proof (cases "ud_bulkIn d1 \<and> ud_bulkOut d1")
    case False
    then show ?thesis using es by (auto simp: start pipe_log_def)
  next
    case b: True
    then consider "es = [Acquire UBulkIn, Acquire UBulkOut]" | "es = [Acquire UBulkOut, Acquire UBulkIn]"
      using es(1) by (auto simp: pipe_log_def)
    then have log: "ud_log d1 = [Acquire UDev, Acquire UDevOpen, Acquire UIface, Acquire UIfaceOpen, Acquire UBulkIn, Acquire UBulkOut] \<or>
      ud_log d1 = [Acquire UDev, Acquire UDevOpen, Acquire UIface, Acquire UIfaceOpen, Acquire UBulkOut, Acquire UBulkIn]"
      by cases (simp_all add: es(2))
    show ?thesis
    proof (cases "ua_compatIface a \<and> ua_usb_device a \<and> ua_create a")
      case False
      then show ?thesis using b log by (auto simp: start ulog_def Let_def)
    next
      case c: True
      show ?thesis
      proof (cases "ua_workLoop a \<and> ua_cmdGate a \<and> ua_attach a")
        case False
        then show ?thesis using b c log d1 by (elim disjE) (auto simp: start ulog_def Let_def)
      next
        case True
        then show ?thesis using b c log d1
          by (elim disjE) (simp_all add: start usb_teardown_log ulog_def Let_def balanced_log_def)
      qed
    qed
  qed
qed

lemma usb_start_teardown_witness:
  "balanced_log (\<lambda>_. False) (ud_log (usb_teardown (snd (usb_start (usb_demo True) usb_new)))) \<and>
   ud_instance (snd (usb_start (usb_demo False) usb_new)) \<and> \<not> fst (usb_start (usb_demo False) usb_new)"
proof -
  have "fst (usb_start (usb_demo True) usb_new)" "\<not> fst (usb_start (usb_demo False) usb_new)"
    "ua_super (usb_demo False)" "ua_dev (usb_demo False)"
    "ud_bulkIn (snd (usb_start (usb_demo False) usb_new))" "ud_bulkOut (snd (usb_start (usb_demo False) usb_new))"
    by (simp_all add: usb_start_def usb_demo_def usb_new_def ulog_def usb_endpoint_def Let_def)
  then show ?thesis using usb_start_teardown[of "usb_demo True"] usb_start_teardown[of "usb_demo False"] by blast
qed

text \<open>No program can open the adapter: the client insists on a PCI device as its provider.\<close>

lemma usb_newUserClient_fails: "snd (usb_newUserClient a i t s self task) = None"
  by (simp add: usb_newUserClient_def uc_create_def uc_start_def)

end
