(* ===== verification/Pcimem.thy ===== *)
theory Pcimem
  imports Compat Pci
begin

text \<open>
  The rest of \<open>linux/pci.h\<close> with the shim behind it (\<open>src/kext/RTW88PCIDevice.cpp\<close>), \<open>linux/device.h\<close>, and
  the pages of \<open>linux/dma-mapping.h\<close>.  A memory-mapped register window is a memory of bytes; a page lives in
  the memory of \<open>Slab\<close>; dereferencing a null pointer is \<open>None\<close>.
\<close>

section \<open>The device structure\<close>

record pci_dev =
  pv_vendor :: u16
  pv_device :: u16
  pv_resource :: "u64 list"
  pv_resource_len :: "u64 list"
  pv_driver_data :: nat

definition pci_set_drvdata :: "pci_dev \<Rightarrow> nat \<Rightarrow> pci_dev" where "pci_set_drvdata dev data = dev\<lparr>pv_driver_data := data\<rparr>"
definition pci_get_drvdata :: "pci_dev \<Rightarrow> nat" where "pci_get_drvdata dev = pv_driver_data dev"

text \<open>The six base addresses; another index is out of the array.\<close>

definition bar_at :: "u64 list \<Rightarrow> nat \<Rightarrow> u64 option" where
  "bar_at xs bar = (if bar < length xs then Some (xs ! bar) else None)"

definition pci_resource_start :: "pci_dev \<Rightarrow> nat \<Rightarrow> u64 option" where "pci_resource_start dev bar = bar_at (pv_resource dev) bar"
definition pci_resource_len :: "pci_dev \<Rightarrow> nat \<Rightarrow> u64 option" where "pci_resource_len dev bar = bar_at (pv_resource_len dev) bar"

text \<open>\<open>inst\<close> is the controller's register window, if there is a controller; \<open>io\<close>: the operations are
  installed.\<close>

definition compat_ioremap :: "nat option \<Rightarrow> nat \<Rightarrow> u64 \<Rightarrow> nat option" where
  "compat_ioremap inst bar len = inst"

definition pci_ioremap_bar :: "bool \<Rightarrow> nat option \<Rightarrow> pci_dev \<Rightarrow> nat \<Rightarrow> nat option" where
  "pci_ioremap_bar io inst dev bar =
    (if io then do { len \<leftarrow> bar_at (pv_resource_len dev) bar; compat_ioremap inst bar len } else Some 0)"

definition pci_iomap :: "bool \<Rightarrow> nat option \<Rightarrow> pci_dev \<Rightarrow> nat \<Rightarrow> u64 \<Rightarrow> nat option" where
  "pci_iomap io inst dev bar maxlen = pci_ioremap_bar io inst dev bar"

definition compat_enable_msi :: int where "compat_enable_msi = 0"
definition pci_enable_msi :: "bool \<Rightarrow> int" where "pci_enable_msi io = (if io then compat_enable_msi else - 95)"

section \<open>Register access\<close>

definition readb :: "nat \<Rightarrow> (nat \<Rightarrow> u8) \<Rightarrow> u8" where "readb a m = ucast (word_le (load a 1 m))"
definition readw :: "nat \<Rightarrow> (nat \<Rightarrow> u8) \<Rightarrow> u16" where "readw a m = ucast (word_le (load a 2 m))"
definition readl :: "nat \<Rightarrow> (nat \<Rightarrow> u8) \<Rightarrow> u32" where "readl a m = ucast (word_le (load a 4 m))"
definition writeb :: "u8 \<Rightarrow> nat \<Rightarrow> (nat \<Rightarrow> u8) \<Rightarrow> nat \<Rightarrow> u8" where "writeb v a m = store a (bytes_le 1 (ucast v)) m"
definition writew :: "u16 \<Rightarrow> nat \<Rightarrow> (nat \<Rightarrow> u8) \<Rightarrow> nat \<Rightarrow> u8" where "writew v a m = store a (bytes_le 2 (ucast v)) m"
definition writel :: "u32 \<Rightarrow> nat \<Rightarrow> (nat \<Rightarrow> u8) \<Rightarrow> nat \<Rightarrow> u8" where "writel v a m = store a (bytes_le 4 (ucast v)) m"

lemma mmio_roundtrip: "readb a (writeb x a m) = x" "readw a (writew y a m) = y" "readl a (writel z a m) = z"
  unfolding readb_def readw_def readl_def writeb_def writew_def writel_def
  by (simp_all only: load_store_same length_bytes_le word_le_bytes_le) (rule bit_eqI; simp add: bit_simps)+

section \<open>Devices\<close>

record device =
  dev_nm :: bytes
  dev_kext_dev :: nat

definition dev_name :: "device option \<Rightarrow> bytes" where
  "dev_name dev = (case dev of Some d \<Rightarrow> dev_nm d | None \<Rightarrow> [40, 110, 117, 108, 108, 41])"

definition dev_get_drvdata :: "device option \<Rightarrow> nat" where
  "dev_get_drvdata dev = (case dev of Some d \<Rightarrow> dev_kext_dev d | None \<Rightarrow> 0)"

definition dev_set_drvdata :: "device option \<Rightarrow> nat \<Rightarrow> device option" where
  "dev_set_drvdata dev data = map_option (\<lambda>d. d\<lparr>dev_kext_dev := data\<rparr>) dev"

definition devm_kzalloc :: "io_malloc \<Rightarrow> u64 \<Rightarrow> u32 \<Rightarrow> kheap \<Rightarrow> nat option \<times> kheap" where
  "devm_kzalloc alloc sz flags h = kzalloc alloc sz flags h"

section \<open>Pages\<close>

text \<open>A \<open>struct page\<close> of 16 bytes: the address of its data and what is taken for its physical address.\<close>

definition sizeof_page :: nat where "sizeof_page = 16"

definition alloc_page :: "io_malloc \<Rightarrow> u32 \<Rightarrow> kheap \<Rightarrow> (nat \<times> kheap) option" where
  "alloc_page alloc flags h =
    (case kzalloc alloc (word_of_nat (sizeof_page + 4096)) flags h of
       (None, h) \<Rightarrow> Some (0, h)
     | (Some p, h) \<Rightarrow> do {
         h \<leftarrow> wr64 p 0 (word_of_nat (p + sizeof_page)) h;
         virt \<leftarrow> rd64 p 0 h;
         h \<leftarrow> wr64 p 8 virt h;
         Some (p, h) })"

definition free_page :: "nat \<Rightarrow> kheap \<Rightarrow> kheap option" where "free_page page h = kfree page h"

definition page_address :: "nat \<Rightarrow> kheap \<Rightarrow> u64 option" where
  "page_address page h = (if page \<noteq> 0 then rd64 page 0 h else Some 0)"

definition dma_map_page :: "nat \<Rightarrow> u64 \<Rightarrow> kheap \<Rightarrow> u64 option" where
  "dma_map_page page offset h = do { phys \<leftarrow> rd64 page 8 h; Some (phys + offset) }"

text \<open>A page is 4096 bytes of one block, all or nothing: its data lies behind the structure inside the
  block, and freeing the page leaves the blocks as they were.  But the address that \<open>dma_map_page\<close> gives
  to the device is the address in the kernel's memory, not a physical one.\<close>

theorem page_alloc_free:
  assumes "heap_ok h" "io_malloc_ok alloc"
  shows "\<exists>p h'. alloc_page alloc flags h = Some (p, h') \<and>
    (p = 0 \<longrightarrow> h' = h) \<and>
    (p \<noteq> 0 \<longrightarrow> page_address p h' = Some (word_of_nat (p + sizeof_page)) \<and>
      (\<forall>off bs. off + length bs \<le> 4096 \<longrightarrow> wr_obj p (sizeof_page + off) bs h' \<noteq> None) \<and>
      dma_map_page p off h' = Some (word_of_nat (p + sizeof_page) + off) \<and>
      map_option kh_blocks (free_page p h') = Some (kh_blocks h))"
proof -
  let ?n = "word_of_nat (sizeof_page + 4096) :: u64"
  have sz: "?n < - 8" "0 < unat ?n" "unat ?n = 4112" by (simp_all add: sizeof_page_def word_less_nat_alt)
  obtain r h1 where k: "kzalloc alloc ?n flags h = (r, h1)" by fastforce
  from kzalloc_new[OF assms sz(1,2) k] consider "r = None" "h1 = h"
    | p where "r = Some p" "heap_ok h1" "obj h1 p = Some 4112" "8 \<le> p"
        "kh_blocks h1 = (kh_blocks h)(p - 8 \<mapsto> 4120)" "kh_blocks h (p - 8) = None"
    unfolding sz(3) by auto
  then show ?thesis
  proof cases
    case 1
    then show ?thesis using k by (simp add: alloc_page_def)
  next
    case 2
    obtain h2 where 3: "wr64 p 0 (word_of_nat (p + 16)) h1 = Some h2" "heap_ok h2" "kh_blocks h2 = kh_blocks h1"
      "kh_mem h2 = store p (bytes_le 8 (word_of_nat (p + 16))) (kh_mem h1)" "\<And>q. obj h2 q = obj h1 q"
      using wr64_ok[OF 2(2,3), of 0 "word_of_nat (p + 16)"] by auto
    have l2: "rd64 p 0 h2 = Some (word_of_nat (p + 16))"
    proof -
      have "load64 p (kh_mem h2) = word_of_nat (p + 16)" by (simp only: 3(4) load64_store_same)
      then show ?thesis using rd64_obj[of h2 p 4112 0] 2(3) 3(5) by simp
    qed
    obtain h3 where 4: "wr64 p 8 (word_of_nat (p + 16)) h2 = Some h3" "heap_ok h3" "kh_blocks h3 = kh_blocks h2"
      "kh_mem h3 = store (p + 8) (bytes_le 8 (word_of_nat (p + 16))) (kh_mem h2)" "\<And>q. obj h3 q = obj h2 q"
      using wr64_ok[OF 3(2), of p 4112 8 "word_of_nat (p + 16)"] 2(3) 3(5) by auto
    have o3: "obj h3 p = Some 4112" using 2(3) 3(5) 4(5) by simp
    have m: "load64 p (kh_mem h3) = word_of_nat (p + 16)" "load64 (p + 8) (kh_mem h3) = word_of_nat (p + 16)"
      unfolding 4(4) 3(4) by (simp_all add: load64_store load64_store_same del: of_nat_add)
    have a: "alloc_page alloc flags h = Some (p, h3)"
      using k 2(1) 3(1) l2 4(1) by (simp add: alloc_page_def sizeof_page_def del: of_nat_add)
    have r: "rd64 p 0 h3 = Some (word_of_nat (p + 16))" "rd64 p 8 h3 = Some (word_of_nat (p + 16))"
      using rd64_obj[OF o3, of 0] rd64_obj[OF o3, of 8] m by simp_all
    have "kfree p h3 = Some (h3\<lparr>kh_blocks := (kh_blocks h3)(p - 8 := None)\<rparr>)" using kfree_obj[OF 4(2) o3] .
    moreover have "(kh_blocks h3)(p - 8 := None) = kh_blocks h" using 2(5,6) 3(3) 4(3) by auto
    ultimately show ?thesis using a r o3 2(4)
      by (simp add: page_address_def dma_map_page_def free_page_def wr_obj_def sizeof_page_def del: of_nat_add)
  qed
qed

lemma page_alloc_free_witness:
  "\<exists>p h'. alloc_page two_places 0 (cg_heap compat_demo) = Some (p, h') \<and>
    (p = 0 \<longrightarrow> h' = cg_heap compat_demo) \<and>
    (p \<noteq> 0 \<longrightarrow> page_address p h' = Some (word_of_nat (p + sizeof_page)) \<and>
      (\<forall>off bs. off + length bs \<le> 4096 \<longrightarrow> wr_obj p (sizeof_page + off) bs h' \<noteq> None) \<and>
      dma_map_page p 64 h' = Some (word_of_nat (p + sizeof_page) + 64) \<and>
      map_option kh_blocks (free_page p h') = Some (kh_blocks (cg_heap compat_demo)))"
  by (rule page_alloc_free[OF compat_demo_ok two_places_ok])

text \<open>The window is only safe to ask for while there is a controller.\<close>

lemma ioremap_needs_controller: "bar < length (pv_resource_len dev) \<Longrightarrow> pci_ioremap_bar True None dev bar = None"
  by (simp add: pci_ioremap_bar_def compat_ioremap_def bar_at_def)

end

