(* ===== verification/Hexdump.thy ===== *)
theory Hexdump
  imports Prelude "HOL-Library.Monad_Syntax"
begin

text \<open>
  \<open>rtw88_hex_dump\<close> of \<open>src/compat/rtw88_compat.c\<close>: every 16 bytes are formatted into a line of 80
  characters on the stack, with \<open>snprintf\<close> at a position that grows by what \<open>snprintf\<close> would have
  liked to write.  The lines given to \<open>IOLog\<close> are the result.
\<close>

section \<open>Formatting\<close>

definition hex_digit :: "nat \<Rightarrow> char" where
  "hex_digit n = ''0123456789abcdef'' ! n"

fun hex :: "nat \<Rightarrow> string" where
  "hex n = (if n < 16 then [hex_digit n] else hex (n div 16) @ [hex_digit (n mod 16)])"

declare hex.simps [simp del]

text \<open>\<open>%0wx\<close>.\<close>

definition hex0 :: "nat \<Rightarrow> nat \<Rightarrow> string" where
  "hex0 w n = replicate (w - length (hex n)) CHR ''0'' @ hex n"

fun dec :: "nat \<Rightarrow> string" where
  "dec n = (if n < 10 then [hex_digit n] else dec (n div 10) @ [hex_digit (n mod 10)])"

declare dec.simps [simp del]

text \<open>The text of the line so far and \<open>pos\<close>.  \<open>snprintf\<close> gets \<open>size - pos\<close> as its limit, keeps one
  place for the terminator, and returns the length of what it was given; a limit of 0 writes
  nothing, a negative one is a huge one: \<open>None\<close>.\<close>

definition snprintf_at :: "nat \<Rightarrow> string \<Rightarrow> string \<times> nat \<Rightarrow> (string \<times> nat) option" where
  "snprintf_at sz s lp = (case lp of (line, pos) \<Rightarrow>
     if sz < pos then None
     else if sz = pos then Some (line, pos + length s)
     else Some (take pos line @ take (sz - pos - 1) s, pos + length s))"

section \<open>The dump\<close>

fun dump_bytes :: "bytes \<Rightarrow> string \<times> nat \<Rightarrow> (string \<times> nat) option" where
  "dump_bytes [] lp = Some lp"
| "dump_bytes (b # bs) lp = do { lp \<leftarrow> snprintf_at 80 (hex0 2 (unat b) @ '' '') lp; dump_bytes bs lp }"

function dump_lines :: "nat \<Rightarrow> bytes \<Rightarrow> string list option" where
  "dump_lines i p =
    (if p = [] then Some []
     else do {
       lp \<leftarrow> snprintf_at 80 (''  '' @ hex0 4 i @ '': '') ([], 0);
       (line, pos) \<leftarrow> dump_bytes (take 16 p) lp;
       rest \<leftarrow> dump_lines (i + 16) (drop 16 p);
       Some (line # rest) })"
  by auto
termination by (relation "measure (\<lambda>(i, p). length p)") auto

declare dump_lines.simps [simp del]

definition rtw88_hex_dump :: "string \<Rightarrow> bytes \<Rightarrow> nat \<Rightarrow> string list option" where
  "rtw88_hex_dump prefix buf len = do {
     lines \<leftarrow> dump_lines 0 (take len buf);
     Some ((''[rtw88] '' @ prefix @ '' ('' @ dec len @ '' bytes):'') # lines) }"

section \<open>What a reader of the log sees\<close>

text \<open>Reading a line back: the offset up to the colon, and then groups of three characters.\<close>

definition digit_val :: "char \<Rightarrow> nat" where
  "digit_val c = (if of_char c < (97 :: nat) then of_char c - 48 else of_char c - 87)"

fun read_bytes :: "string \<Rightarrow> bytes" where
  "read_bytes (a # b # c # cs) = word_of_nat (16 * digit_val a + digit_val b) # read_bytes cs"
| "read_bytes _ = []"

definition read_line :: "string \<Rightarrow> bytes" where
  "read_line l = read_bytes (drop 2 (dropWhile (\<lambda>c. c \<noteq> CHR '':'') l))"


text \<open>What one byte is written as.\<close>

definition byte_text :: "u8 \<Rightarrow> string" where
  "byte_text b = hex0 2 (unat b) @ '' ''"

lemma hex_less_16 [simp]: "n < 16 \<Longrightarrow> hex n = [hex_digit n]"
  by (simp add: hex.simps)

lemma length_hex: "n < 16 ^ Suc k \<Longrightarrow> length (hex n) \<le> Suc k"
proof (induction k arbitrary: n)
  case (Suc k)
  then have "n div 16 < 16 ^ Suc k" by (simp add: less_mult_imp_div_less)
  from Suc.IH[OF this] show ?case by (subst hex.simps) simp
qed simp

lemma digit_val_hex_digit: "n < 16 \<Longrightarrow> digit_val (hex_digit n) = n"
proof -
  have "\<forall>n \<in> set [0..<16]. digit_val (hex_digit n) = n" by code_simp
  then show "n < 16 \<Longrightarrow> digit_val (hex_digit n) = n" by simp
qed

lemma hex_digit_no_colon: "n < 16 \<Longrightarrow> hex_digit n \<noteq> CHR '':''"
proof -
  have "\<forall>n \<in> set [0..<16]. hex_digit n \<noteq> CHR '':''" by code_simp
  then show "n < 16 \<Longrightarrow> hex_digit n \<noteq> CHR '':''" by simp
qed

lemma hex_no_colon: "CHR '':'' \<notin> set (hex n)"
proof (induction n rule: hex.induct)
  case (1 n)
  then show ?case using hex_digit_no_colon[of n] hex_digit_no_colon[of "n mod 16"] by (subst hex.simps) auto
qed

lemma byte_div: "unat (b :: u8) div 16 < 16"
  using unat_u8_less[of b] by (simp add: less_mult_imp_div_less)

lemma byte_text_eq: "byte_text b = [hex_digit (unat b div 16), hex_digit (unat b mod 16), CHR '' '']"
proof (cases "unat b < 16")
  case True
  then show ?thesis by (simp add: byte_text_def hex0_def hex_digit_def)
next
  case False
  then show ?thesis by (simp add: byte_text_def hex0_def hex.simps[of "unat b"] byte_div)
qed

lemma read_bytes_text: "read_bytes (concat (map byte_text bs)) = bs"
proof (induction bs)
  case (Cons b bs)
  have "word_of_nat (16 * digit_val (hex_digit (unat b div 16)) + digit_val (hex_digit (unat b mod 16))) = b"
    using byte_div[of b] by (simp add: digit_val_hex_digit)
  with Cons show ?case by (simp add: byte_text_eq)
qed simp

lemma snprintf_fits: "length line + length s < sz \<Longrightarrow>
  snprintf_at sz s (line, length line) = Some (line @ s, length (line @ s))"
  by (simp add: snprintf_at_def)

lemma dump_bytes_fits:
  "length line + 3 * length bs < 80 \<Longrightarrow>
    dump_bytes bs (line, length line) = Some (line @ concat (map byte_text bs), length line + 3 * length bs)"
proof (induction bs arbitrary: line)
  case (Cons b bs)
  have "snprintf_at 80 (byte_text b) (line, length line) = Some (line @ byte_text b, length (line @ byte_text b))"
    by (rule snprintf_fits) (use Cons(2) in \<open>simp add: byte_text_eq\<close>)
  with Cons(1)[of "line @ byte_text b"] Cons(2) show ?case
    by (simp add: byte_text_def[symmetric]) (simp add: byte_text_eq)
qed simp

definition offset_text :: "nat \<Rightarrow> string" where
  "offset_text i = ''  '' @ hex0 4 i @ '': ''"

lemma length_offset_text: "i < 2 ^ 64 \<Longrightarrow> length (offset_text i) \<le> 20"
  using length_hex[of i 15] by (simp add: offset_text_def hex0_def)

lemma read_line_text: "read_line (offset_text i @ concat (map byte_text bs)) = bs"
proof -
  let ?P = "\<lambda>c. c \<noteq> CHR '':''" and ?t = "concat (map byte_text bs)"
  have "dropWhile ?P ((''  '' @ hex0 4 i) @ ('': '' @ ?t)) = dropWhile ?P ('': '' @ ?t)"
    by (rule dropWhile_append2) (use hex_no_colon[of i] in \<open>auto simp: hex0_def\<close>)
  then show ?thesis by (simp add: read_line_def read_bytes_text offset_text_def)
qed

lemma lines_Suc:
  assumes "0 < n"
  shows "Suc ((n - 16 + 15) div 16) = (n + 15) div (16 :: nat)"
proof (cases "n \<le> 16")
  case True
  then have "(n + 15) div 16 = 1" using assms by (intro div_nat_eqI) auto
  then show ?thesis using True by simp
next
  case False
  then obtain k where "n = k + 16" by (metis add.commute le_add_diff_inverse nat_le_linear)
  then show ?thesis by simp
qed

lemma dump_lines_fits:
  assumes "i + length p \<le> 2 ^ 64"
  shows "\<exists>ls. dump_lines i p = Some ls \<and> length ls = (length p + 15) div 16 \<and> (\<forall>l \<in> set ls. length l \<le> 68) \<and>
    concat (map read_line ls) = p"
  using assms
proof (induction i p rule: dump_lines.induct)
  case (1 i p)
  show ?case
  proof (cases "p = []")
    case False
    let ?q = "take 16 p"
    let ?o = "offset_text i"
    have i: "i < 2 ^ 64" using 1(2) False by (cases p) auto
    note lo = length_offset_text[OF this]
    have o: "snprintf_at 80 ?o ([], 0) = Some (?o, length ?o)"
      using snprintf_fits[of "[]" ?o 80] lo by simp
    have "length ?o + 3 * length ?q < 80" using lo by simp
    note d = dump_bytes_fits[OF this]
    have "i + 16 + length (drop 16 p) \<le> 2 ^ 64 \<or> drop 16 p = []" using 1(2) by auto
    then obtain ls where ls: "dump_lines (i + 16) (drop 16 p) = Some ls" "length ls = (length (drop 16 p) + 15) div 16"
      "\<forall>l \<in> set ls. length l \<le> 68" "concat (map read_line ls) = drop 16 p"
      using 1(1)[OF False o[unfolded offset_text_def] d[unfolded offset_text_def] refl] by (auto simp: dump_lines.simps[of _ "[]"])
    have "dump_lines i p = Some ((?o @ concat (map byte_text ?q)) # ls)"
      using False o d ls(1) by (subst dump_lines.simps) (simp add: offset_text_def)
    moreover have "length (concat (map byte_text ?q)) \<le> 48"
      by (simp add: length_concat comp_def byte_text_eq sum_list_triv)
    moreover have "Suc ((length (drop 16 p) + 15) div 16) = (length p + 15) div 16" using False by (simp add: lines_Suc)
    ultimately show ?thesis using ls lo by (auto simp: read_line_text)
  qed (simp add: dump_lines.simps)
qed

text \<open>The line buffer is large enough: whatever is dumped, at any offset a \<open>size_t\<close> can hold, no line is
  cut and none is longer than 68 characters, and the bytes can be read back from the log.\<close>

theorem hex_dump_reads_back:
  assumes "len \<le> length buf" "len \<le> 2 ^ 64"
  shows "\<exists>h ls. rtw88_hex_dump prefix buf len = Some (h # ls) \<and> length ls = (len + 15) div 16 \<and>
    (\<forall>l \<in> set ls. length l \<le> 68) \<and> concat (map read_line ls) = take len buf"
  using dump_lines_fits[of 0 "take len buf"] assms by (auto simp: rtw88_hex_dump_def min_absorb2)

end
