(* ===== verification/Shutdown.thy ===== *)
theory Shutdown
  imports Drv Pcidev
begin

text \<open>
  The end of the compatibility layer: \<open>destroy_workqueue\<close> with the worker it waits for,
  \<open>rtw88_compat_exit\<close> and \<open>thread_call_cancel_wait\<close> of \<open>src/compat/rtw88_compat.c\<close>, and the entry points of the
  module, \<open>src/kext/kmod_info.c\<close>, which initialise and end the layer a second time around the network
  controller.
\<close>

section \<open>Thread calls\<close>

text \<open>A thread call: whether it is pending, the microseconds until its running invocation ends, and
  whether that invocation enters the call again.\<close>

record thread_call =
  tc_pending :: bool
  tc_left :: nat
  tc_again :: bool

definition thread_call_cancel :: "thread_call \<Rightarrow> bool \<times> thread_call" where
  "thread_call_cancel c = (tc_pending c, c\<lparr>tc_pending := False\<rparr>)"

definition IODelay :: "nat \<Rightarrow> thread_call \<Rightarrow> thread_call" where
  "IODelay us c =
    (if tc_left c = 0 then c
     else if tc_left c \<le> us then c\<lparr>tc_left := 0, tc_pending := tc_pending c \<or> tc_again c\<rparr>
     else c\<lparr>tc_left := tc_left c - us\<rparr>)"

definition thread_call_cancel_wait :: "thread_call option \<Rightarrow> bool \<times> thread_call option" where
  "thread_call_cancel_wait tc =
    (case tc of
       None \<Rightarrow> (False, None)
     | Some c \<Rightarrow>
         let c = snd (thread_call_cancel c);
             c = IODelay 500 c;
             (r, c) = thread_call_cancel c
         in (r, Some c))"

text \<open>A running invocation is over, with what it entered again cancelled, exactly when it had at most 500
  microseconds left; otherwise it still runs when the caller goes on to free the call, and may still
  enter it.  The answer does not say which: it is \<open>true\<close> only when the invocation ended in time and
  had entered the call again.\<close>

lemma thread_call_cancel_wait_waits:
  "thread_call_cancel_wait (Some c) =
    (0 < tc_left c \<and> tc_left c \<le> 500 \<and> tc_again c,
     Some (c\<lparr>tc_pending := False, tc_left := tc_left c - 500\<rparr>))"
  by (cases c) (simp add: thread_call_cancel_wait_def thread_call_cancel_def IODelay_def Let_def)

section \<open>Work queues and timers under other names\<close>

definition alloc_ordered_workqueue :: "bool \<Rightarrow> nat \<Rightarrow> node \<Rightarrow> work_world \<Rightarrow> nat option \<times> work_world" where
  "alloc_ordered_workqueue alloc_ok i head w = alloc_workqueue alloc_ok i head w"

definition flush_scheduled_work :: "nat option \<Rightarrow> work_world list \<Rightarrow> nat option" where
  "flush_scheduled_work system_wq looks = flush_workqueue system_wq looks"

definition timer_delete_sync :: "timer_list \<Rightarrow> thread_call_op list \<times> timer_list" where
  "timer_delete_sync timer = del_timer_sync timer"

section \<open>Destroying a queue\<close>

text \<open>The caller sleeps until the worker is done; \<open>fuel\<close> bounds the turns of the worker, whose work
  queues no more.  The items that were run are part of the result.\<close>

definition destroy_workqueue :: "nat \<Rightarrow> nat option \<Rightarrow> work_world \<Rightarrow> (node list \<times> work_world) option" where
  "destroy_workqueue fuel wq w =
    (case wq of
       None \<Rightarrow> Some ([], w)
     | Some i \<Rightarrow> do {
         w \<leftarrow> destroy_begin i w;
         (ns, ended, w) \<leftarrow> worker_loop fuel i w;
         w \<leftarrow> (if ended then destroy_end i w else None);
         Some (ns, w) })"

section \<open>The globals of the layer\<close>

text \<open>\<open>ho_locks\<close>: the locks of the log that are allocated.\<close>

record host =
  ho_irq :: irq
  ho_globals :: compat_globals
  ho_work :: work_world
  ho_tx_resume_cb :: bool
  ho_compat :: compat
  ho_locks :: nat

definition host_init :: "bool \<Rightarrow> bool \<Rightarrow> bool \<Rightarrow> nat \<times> node \<Rightarrow> nat \<times> node \<Rightarrow> host \<Rightarrow> int \<times> host" where
  "host_init lock_ok ok1 ok2 q1 q2 h =
    (let (ret, g, w) = rtw88_compat_init lock_ok ok1 ok2 q1 q2 (ho_work h)
     in (ret, h\<lparr>ho_globals := g, ho_work := w, ho_locks := ho_locks h + (if lock_ok then 1 else 0)\<rparr>))"

definition rtw88_compat_exit :: "nat \<Rightarrow> host \<Rightarrow> (irq_call list \<times> node list \<times> host) option" where
  "rtw88_compat_exit fuel h = do {
     let ops = (if g_irq_thread_call (ho_irq h) then [IrqThreadCancelWait, IrqThreadFree] else []);
     let g = ho_globals h;
     (ns1, w) \<leftarrow> destroy_workqueue fuel (gg_system_wq g) (ho_work h);
     (ns2, w) \<leftarrow> destroy_workqueue fuel (gg_system_long_wq g) w;
     Some (ops, ns1 @ ns2, h\<lparr>
       ho_irq := \<lparr>g_irq_handler = False, g_irq_thread_fn = False, g_irq_dev_id = False, g_irq_thread_call = False\<rparr>,
       ho_globals := \<lparr>gg_log_lock = False, gg_system_wq = None, gg_system_long_wq = None\<rparr>,
       ho_work := w, ho_tx_resume_cb := False, ho_compat := compat_exit_callbacks (ho_compat h),
       ho_locks := ho_locks h - (if gg_log_lock g then 1 else 0)\<rparr>) }"

section \<open>The module\<close>

datatype kern_return = KERN_SUCCESS | KERN_FAILURE

definition rtw88_module_start :: "bool \<Rightarrow> bool \<Rightarrow> bool \<Rightarrow> nat \<times> node \<Rightarrow> nat \<times> node \<Rightarrow> host \<Rightarrow> kern_return \<times> host" where
  "rtw88_module_start lock_ok ok1 ok2 q1 q2 h =
    (case host_init lock_ok ok1 ok2 q1 q2 h of (ret, h) \<Rightarrow> (if ret = 0 then KERN_SUCCESS else KERN_FAILURE, h))"

definition rtw88_module_stop :: "nat \<Rightarrow> host \<Rightarrow> (kern_return \<times> host) option" where
  "rtw88_module_stop fuel h = do { (ops, ns, h) \<leftarrow> rtw88_compat_exit fuel h; Some (KERN_SUCCESS, h) }"

section \<open>What is queued is run, once\<close>

lemma worker_loop_inv:
  assumes "wq_inv w c" "ww_queues w i = Some wq" "length (c i) < fuel"
  shows "\<exists>w'. worker_loop fuel i w = Some (c i, \<not> wq_running wq, w') \<and> wq_inv w' (c(i := [])) \<and>
    ww_queues w' = (ww_queues w)(i \<mapsto> (if wq_running wq then wq else wq\<lparr>wq_done := True\<rparr>))"
  using assms
proof (induction fuel arbitrary: w c)
  case (Suc fuel)
  show ?case
  proof (cases "c i")
    case Nil
    have c: "c(i := []) = c" using Nil by (simp add: fun_upd_idem)
    have "wq_inv (w\<lparr>ww_queues := (ww_queues w)(i \<mapsto> wq\<lparr>wq_done := True\<rparr>)\<rparr>) c"
      by (rule wq_inv_queues[OF Suc.prems(1)]) (simp add: Suc.prems(2))
    then show ?thesis using wq_thread_fn_empty[OF Suc.prems(1,2) Nil] Nil Suc.prems(1,2)
      by (simp add: c) (auto simp: fun_eq_iff)
  next
    case (Cons n ns)
    obtain w1 where w1: "wq_thread_fn i w = Some (Run n, w1)" "wq_inv w1 (c(i := ns))"
      "ww_queues w1 = ww_queues w"
      using wq_thread_fn_run[OF Suc.prems(1,2) Cons] by blast
    have "length ((c(i := ns)) i) < fuel" "ww_queues w1 i = Some wq"
      using Suc.prems(2,3) Cons w1(3) by simp_all
    from Suc.IH[OF w1(2) this(2,1)] w1(1,3) Cons show ?thesis by (auto simp del: fun_upd_apply) auto
  qed
qed simp


lemma wq_inv_remove:
  assumes "wq_inv w c" "c i = []"
  shows "wq_inv (w\<lparr>ww_queues := (ww_queues w)(i := None)\<rparr>) c"
proof -
  let ?qs = "(ww_queues w)(i := None)"
  have sub: "on_queue ?qs c j \<subseteq> on_queue (ww_queues w) c j" for j by (simp add: on_queue_def)
  have "on_queue ?qs c j \<inter> on_queue ?qs c k = {}" if "j \<noteq> k" for j k
    using assms(1) that sub[of j] sub[of k] unfolding wq_inv_def by blast
  moreover have "(\<exists>j q. ww_queues w j = Some q \<and> n \<in> set (c j)) \<longleftrightarrow> (\<exists>j q. ?qs j = Some q \<and> n \<in> set (c j))" for n
  proof
    assume "\<exists>j q. ww_queues w j = Some q \<and> n \<in> set (c j)"
    then obtain j q where "ww_queues w j = Some q" "n \<in> set (c j)" by blast
    then have "?qs j = Some q \<and> n \<in> set (c j)" using assms(2) by (cases "j = i") auto
    then show "\<exists>j q. ?qs j = Some q \<and> n \<in> set (c j)" by blast
  qed (auto split: if_splits)
  ultimately show ?thesis using assms(1) unfolding wq_inv_def by (simp split: if_splits)
qed

lemma destroy_workqueue_ok:
  assumes "wq_inv w c" "ww_queues w i = Some wq" "length (c i) < fuel"
  shows "\<exists>w'. destroy_workqueue fuel (Some i) w = Some (c i, w') \<and> wq_inv w' (c(i := [])) \<and>
    ww_queues w' = (ww_queues w)(i := None)"
proof -
  let ?wq = "wq\<lparr>wq_running := False\<rparr>"
  let ?w1 = "w\<lparr>ww_queues := (ww_queues w)(i \<mapsto> ?wq)\<rparr>"
  have "wq_inv ?w1 c" by (rule wq_inv_queues[OF assms(1)]) (simp add: assms(2))
  from worker_loop_inv[OF this, of i ?wq fuel] assms(3) obtain w2
    where w2: "worker_loop fuel i ?w1 = Some (c i, True, w2)" "wq_inv w2 (c(i := []))"
      "ww_queues w2 = (ww_queues w)(i \<mapsto> ?wq\<lparr>wq_done := True\<rparr>)"
    by auto
  have "wq_inv (w2\<lparr>ww_queues := (ww_queues w2)(i := None)\<rparr>) (c(i := []))"
    using wq_inv_remove[OF w2(2)] by simp
  then show ?thesis using w2 assms(2) by (simp add: destroy_workqueue_def destroy_begin_def destroy_end_def)
qed

text \<open>Ending the layer runs everything that is still queued, the system queue first and each queue in
  order, and leaves neither queue, nor lock, nor registration; ending it again does nothing.\<close>

theorem compat_exit_drains:
  assumes "wq_inv (ho_work h) c" "ho_globals h = \<lparr>gg_log_lock = l, gg_system_wq = Some i, gg_system_long_wq = Some j\<rparr>"
    "i \<noteq> j" "ww_queues (ho_work h) i = Some wq1" "ww_queues (ho_work h) j = Some wq2"
    "length (c i) < fuel" "length (c j) < fuel"
  shows "\<exists>ops h'. rtw88_compat_exit fuel h = Some (ops, c i @ c j, h') \<and>
    ww_queues (ho_work h') = (ww_queues (ho_work h))(i := None, j := None) \<and>
    (\<forall>n \<in> set (c i @ c j). \<not> ww_pending (ho_work h') n) \<and>
    cg_cbs (ho_compat h') = None \<and> \<not> ho_tx_resume_cb h' \<and>
    ho_locks h' = ho_locks h - (if l then 1 else 0) \<and> rtw88_compat_exit fuel h' = Some ([], [], h')"
proof -
  obtain w1 where w1: "destroy_workqueue fuel (Some i) (ho_work h) = Some (c i, w1)" "wq_inv w1 (c(i := []))"
    "ww_queues w1 = (ww_queues (ho_work h))(i := None)"
    using destroy_workqueue_ok[OF assms(1,4,6)] by blast
  obtain w2 where w2: "destroy_workqueue fuel (Some j) w1 = Some (c j, w2)" "wq_inv w2 (c(i := [], j := []))"
    "ww_queues w2 = (ww_queues (ho_work h))(i := None, j := None)"
    using destroy_workqueue_ok[OF w1(2), of j wq2 fuel] w1(3) assms(3,5,7) by auto
  have "\<not> ww_pending w2 n" if "n \<in> set (c i @ c j)" for n
  proof
    assume "ww_pending w2 n"
    then obtain k q where k: "ww_queues w2 k = Some q" "n \<in> set ((c(i := [], j := [])) k)"
      using w2(2) unfolding wq_inv_def by blast
    then have "k \<noteq> i" "k \<noteq> j" "ww_queues (ho_work h) k = Some q" "n \<in> set (c k)"
      using w2(3) by (auto split: if_splits)
    then have "n \<in> on_queue (ww_queues (ho_work h)) c k" "n \<in> on_queue (ww_queues (ho_work h)) c i \<union> on_queue (ww_queues (ho_work h)) c j"
      using that assms(4,5) by (auto simp: on_queue_def)
    then show False using assms(1) \<open>k \<noteq> i\<close> \<open>k \<noteq> j\<close> unfolding wq_inv_def by blast
  qed
  moreover from w1(1) w2(1) assms(2) obtain ops h' where e: "rtw88_compat_exit fuel h = Some (ops, c i @ c j, h')" "ho_work h' = w2"
    "ho_globals h' = \<lparr>gg_log_lock = False, gg_system_wq = None, gg_system_long_wq = None\<rparr>"
    "ho_irq h' = \<lparr>g_irq_handler = False, g_irq_thread_fn = False, g_irq_dev_id = False, g_irq_thread_call = False\<rparr>"
    "ho_compat h' = compat_exit_callbacks (ho_compat h)" "\<not> ho_tx_resume_cb h'"
    "ho_locks h' = ho_locks h - (if l then 1 else 0)"
    by (auto simp: rtw88_compat_exit_def intro: that)
  moreover have "rtw88_compat_exit fuel h' = Some ([], [], h')"
    using e(3-6) by (cases h') (simp add: rtw88_compat_exit_def destroy_workqueue_def compat_exit_callbacks_def)
  ultimately show ?thesis using w2(3) by (simp add: compat_exit_callbacks_def)
qed

text \<open>Between the two queues the freed one is still in the global: work that is scheduled meanwhile, by the
  long queue's last items or by a timer of delayed work, takes the lock of a queue that is gone.\<close>

lemma exit_window:
  assumes "wq_inv w c" "ww_queues w i = Some wq" "length (c i) < fuel"
  shows "\<exists>w'. destroy_workqueue fuel (Some i) w = Some (c i, w') \<and> queue_work (Some i) (Some n) w' = None"
  using destroy_workqueue_ok[OF assms] by (auto simp: queue_work_def)

section \<open>The layer is initialised twice\<close>

definition fresh_queue :: "work_world \<Rightarrow> nat \<times> node \<Rightarrow> bool" where
  "fresh_queue w q \<longleftrightarrow> ww_queues w (fst q) = None \<and> \<not> is_head w (snd q) \<and> \<not> ww_pending w (snd q)"

definition new_queue :: "node \<Rightarrow> workqueue_struct" where
  "new_queue a = \<lparr>wq_queue = a, wq_running = True, wq_done = False\<rparr>"

lemma host_init_ok:
  assumes "wq_ok (ho_work h) c" "fresh_queue (ho_work h) q1" "fresh_queue (ho_work h) q2" "fst q1 \<noteq> fst q2" "snd q1 \<noteq> snd q2"
  obtains h' where "host_init True True True q1 q2 h = (0, h')" "wq_ok (ho_work h') c"
    "ww_queues (ho_work h') = (ww_queues (ho_work h))(fst q1 \<mapsto> new_queue (snd q1), fst q2 \<mapsto> new_queue (snd q2))"
    "ww_pending (ho_work h') = ww_pending (ho_work h)"
    "ho_globals h' = \<lparr>gg_log_lock = True, gg_system_wq = Some (fst q1), gg_system_long_wq = Some (fst q2)\<rparr>"
    "ho_locks h' = ho_locks h + 1"
proof -
  define w1 where "w1 = snd (alloc_workqueue True (fst q1) (snd q1) (ho_work h))"
  have w1: "wq_ok w1 c" unfolding w1_def by (rule wq_ok_new_queue) (use assms in \<open>auto simp: fresh_queue_def\<close>)
  have q: "ww_queues w1 = (ww_queues (ho_work h))(fst q1 \<mapsto> new_queue (snd q1))" "ww_pending w1 = ww_pending (ho_work h)"
    by (simp_all add: w1_def alloc_workqueue_def new_queue_def)
  have "wq_ok (snd (alloc_workqueue True (fst q2) (snd q2) w1)) c"
    by (rule wq_ok_new_queue[OF w1]) (use assms(3-5) q in \<open>auto simp: fresh_queue_def is_head_def new_queue_def split: if_splits\<close>)
  then show ?thesis
    by (intro that[of "snd (host_init True True True q1 q2 h)"]) (simp_all add: host_init_def rtw88_compat_init_def alloc_workqueue_def w1_def new_queue_def)
qed

lemma fresh_queue_kept:
  "fresh_queue (ho_work h) q \<Longrightarrow> fst q1 \<noteq> fst q \<Longrightarrow> fst q2 \<noteq> fst q \<Longrightarrow> snd q1 \<noteq> snd q \<Longrightarrow> snd q2 \<noteq> snd q \<Longrightarrow>
    ww_queues (ho_work h') = (ww_queues (ho_work h))(fst q1 \<mapsto> new_queue (snd q1), fst q2 \<mapsto> new_queue (snd q2)) \<Longrightarrow>
    ww_pending (ho_work h') = ww_pending (ho_work h) \<Longrightarrow> fresh_queue (ho_work h') q"
  by (auto simp: fresh_queue_def is_head_def new_queue_def split: if_splits)

text \<open>C34. The module initialises the layer when it is loaded, and the network controller does so again when it
  starts, over the same globals.  Ending it twice, when the controller is torn down and when the
  module is unloaded, therefore ends only the second initialisation: the two queues of the first stay, with
  their workers running code of the module that is gone, and so does the lock of the log.\<close>

theorem module_unload_leaves_workers:
  assumes "wq_ok (ho_work h) c" "\<forall>q \<in> {q1, q2, q3, q4}. fresh_queue (ho_work h) q"
    "distinct [fst q1, fst q2, fst q3, fst q4]" "distinct [snd q1, snd q2, snd q3, snd q4]" "0 < fuel"
  shows "\<exists>h1 h2 h3 h4 ops. rtw88_module_start True True True q1 q2 h = (KERN_SUCCESS, h1) \<and>
    host_init True True True q3 q4 h1 = (0, h2) \<and> rtw88_compat_exit fuel h2 = Some (ops, [], h3) \<and>
    rtw88_module_stop fuel h3 = Some (KERN_SUCCESS, h4) \<and>
    ho_globals h4 = \<lparr>gg_log_lock = False, gg_system_wq = None, gg_system_long_wq = None\<rparr> \<and>
    ww_queues (ho_work h4) = (ww_queues (ho_work h))(fst q1 \<mapsto> new_queue (snd q1), fst q2 \<mapsto> new_queue (snd q2)) \<and>
    ho_locks h4 = ho_locks h + 1"
proof -
  obtain h1 where h1: "host_init True True True q1 q2 h = (0, h1)" "wq_ok (ho_work h1) c"
    "ww_queues (ho_work h1) = (ww_queues (ho_work h))(fst q1 \<mapsto> new_queue (snd q1), fst q2 \<mapsto> new_queue (snd q2))"
    "ww_pending (ho_work h1) = ww_pending (ho_work h)" "ho_locks h1 = ho_locks h + 1"
    by (rule host_init_ok[OF assms(1), of q1 q2]) (use assms(2-4) in simp_all)
  have "fresh_queue (ho_work h1) q3"
    by (rule fresh_queue_kept[OF _ _ _ _ _ h1(3,4)]) (use assms(2-4) in simp_all)
  moreover have "fresh_queue (ho_work h1) q4"
    by (rule fresh_queue_kept[OF _ _ _ _ _ h1(3,4)]) (use assms(2-4) in simp_all)
  ultimately have f: "fresh_queue (ho_work h1) q3" "fresh_queue (ho_work h1) q4" by blast+
  obtain h2 where h2: "host_init True True True q3 q4 h1 = (0, h2)" "wq_ok (ho_work h2) c"
    "ww_queues (ho_work h2) = (ww_queues (ho_work h1))(fst q3 \<mapsto> new_queue (snd q3), fst q4 \<mapsto> new_queue (snd q4))"
    "ho_globals h2 = \<lparr>gg_log_lock = True, gg_system_wq = Some (fst q3), gg_system_long_wq = Some (fst q4)\<rparr>"
    "ho_locks h2 = ho_locks h1 + 1"
    by (rule host_init_ok[OF h1(2) f]) (use assms(3,4) in simp_all)
  have c: "c (fst q) = []" if "fresh_queue (ho_work h) q" for q
    using assms(1) that by (auto simp: wq_ok_def fresh_queue_def dest: spec[of _ "fst q"])
  have "wq_inv (ho_work h2) c" using h2(2) by (simp add: wq_ok_def)
  from compat_exit_drains[OF this h2(4), of "new_queue (snd q3)" "new_queue (snd q4)" fuel]
  obtain ops h3 where h3: "rtw88_compat_exit fuel h2 = Some (ops, [], h3)" "rtw88_compat_exit fuel h3 = Some ([], [], h3)"
    "ww_queues (ho_work h3) = (ww_queues (ho_work h2))(fst q3 := None, fst q4 := None)" "ho_locks h3 = ho_locks h2 - 1"
    using assms(2,3,5) c h2(3) by (simp split: if_splits) blast
  have "ho_globals h3 = \<lparr>gg_log_lock = False, gg_system_wq = None, gg_system_long_wq = None\<rparr>"
    using h3(1) by (auto simp: rtw88_compat_exit_def Let_def split: Option.bind_splits)
  moreover have "ww_queues (ho_work h3) = (ww_queues (ho_work h))(fst q1 \<mapsto> new_queue (snd q1), fst q2 \<mapsto> new_queue (snd q2))"
    using assms(2,3) h1(3) h2(3) h3(3) by (auto simp: fresh_queue_def fun_eq_iff)
  ultimately show ?thesis using h1(1,5) h2(1,5) h3
    by (simp add: rtw88_module_start_def rtw88_module_stop_def)
qed

definition host_demo :: host where
  "host_demo = \<lparr>ho_irq = irq_demo, ho_globals = \<lparr>gg_log_lock = False, gg_system_wq = None, gg_system_long_wq = None\<rparr>,
     ho_work = work_world0, ho_tx_resume_cb = False, ho_compat = compat_demo, ho_locks = 0\<rparr>"

lemma module_unload_leaves_workers_witness:
  "\<exists>h1 h2 h3 h4 ops. rtw88_module_start True True True (0, 100) (1, 200) host_demo = (KERN_SUCCESS, h1) \<and>
    host_init True True True (2, 300) (3, 400) h1 = (0, h2) \<and> rtw88_compat_exit 1 h2 = Some (ops, [], h3) \<and>
    rtw88_module_stop 1 h3 = Some (KERN_SUCCESS, h4) \<and>
    ho_globals h4 = \<lparr>gg_log_lock = False, gg_system_wq = None, gg_system_long_wq = None\<rparr> \<and>
    ww_queues (ho_work h4) = (ww_queues (ho_work host_demo))(0 \<mapsto> new_queue 100, 1 \<mapsto> new_queue 200) \<and>
    ho_locks h4 = ho_locks host_demo + 1"
proof -
  have "wq_ok work_world0 (\<lambda>_. [])" by (simp add: work_world0_def wq_ok_def wq_inv_def on_queue_def)
  then show ?thesis
    using module_unload_leaves_workers[of host_demo "\<lambda>_. []" "(0, 100)" "(1, 200)" "(2, 300)" "(3, 400)" 1]
    by (auto simp: host_demo_def work_world0_def fresh_queue_def is_head_def)
qed

end
