(* ===== verification/Layout.thy ===== *)
theory Layout
  imports Fw Usb Pcimem
begin

text \<open>
  The layout of the structures that two parts of the program share, or that are written through a pointer
  of another type: the rules by which the compiler places the members of a \<open>struct\<close> on this machine, and the
  declarations of \<open>linux/skbuff.h\<close>, \<open>net/mac80211.h\<close>, \<open>linux/pci.h\<close>, \<open>linux/usb.h\<close>, \<open>linux/firmware.h\<close>, \<open>linux/dma-mapping.h\<close>, \<open>RTW88IEEE80211.hpp\<close>,
  \<open>RTW88UserClient.hpp\<close> and \<open>ctl/main.c\<close>.  The offsets and sizes that the other theories use are derived from them.
\<close>

section \<open>How the compiler places members\<close>

text \<open>A type is its size and its alignment.\<close>

type_synonym ctype = "nat \<times> nat"
type_synonym members = "(string \<times> ctype) list"

definition align_up :: "nat \<Rightarrow> nat \<Rightarrow> nat" where
  "align_up a n = (n + a - 1) div a * a"

fun place :: "nat \<Rightarrow> members \<Rightarrow> (string \<times> nat \<times> nat) list" where
  "place pos [] = []"
| "place pos ((f, s, a) # ms) = (f, align_up a pos, s) # place (align_up a pos + s) ms"

fun span :: "nat \<Rightarrow> members \<Rightarrow> nat" where
  "span pos [] = pos"
| "span pos ((f, s, a) # ms) = span (align_up a pos + s) ms"

fun max_align :: "members \<Rightarrow> nat" where
  "max_align [] = 1"
| "max_align ((f, s, a) # ms) = max a (max_align ms)"

definition c_struct :: "members \<Rightarrow> ctype" where
  "c_struct ms = (align_up (max_align ms) (span 0 ms), max_align ms)"

definition c_sizeof :: "members \<Rightarrow> nat" where "c_sizeof ms = fst (c_struct ms)"

definition offsetof :: "string \<Rightarrow> members \<Rightarrow> nat option" where
  "offsetof f ms = map_option fst (map_of (place 0 ms) f)"

text \<open>A member of a member, from the outside in.\<close>

fun offset_path :: "(string \<times> members) list \<Rightarrow> nat option" where
  "offset_path [] = Some 0"
| "offset_path ((f, ms) # ps) = do { p \<leftarrow> offsetof f ms; q \<leftarrow> offset_path ps; Some (p + q) }"

definition c_array :: "nat \<Rightarrow> ctype \<Rightarrow> ctype" where
  "c_array n t = (n * fst t, snd t)"

definition c_union :: "ctype list \<Rightarrow> ctype" where
  "c_union ts = (let a = foldr (max \<circ> snd) ts 1 in (align_up a (foldr (max \<circ> fst) ts 0), a))"

definition packed :: "members \<Rightarrow> members" where
  "packed ms = map (\<lambda>(f, s, a). (f, s, 1)) ms"

definition aligned :: "nat \<Rightarrow> ctype \<Rightarrow> ctype" where
  "aligned n t = (fst t, max n (snd t))"

definition c_u8 :: ctype where "c_u8 = (1, 1)"
definition c_u16 :: ctype where "c_u16 = (2, 2)"
definition c_u32 :: ctype where "c_u32 = (4, 4)"
definition c_u64 :: ctype where "c_u64 = (8, 8)"
definition c_ptr :: ctype where "c_ptr = (8, 8)"
definition c_int :: ctype where "c_int = (4, 4)"
definition c_bool :: ctype where "c_bool = (1, 1)"

abbreviation c_enum :: ctype where "c_enum \<equiv> c_int"

section \<open>The rules are sound\<close>

lemma align_up_ge: "0 < a \<Longrightarrow> n \<le> align_up a n"
proof -
  assume a: "0 < a"
  have "n + a - 1 = (n + a - 1) div a * a + (n + a - 1) mod a" by simp
  moreover have "(n + a - 1) mod a < a" using a by simp
  ultimately show ?thesis using a unfolding align_up_def by linarith
qed

lemma align_up_dvd: "a dvd align_up a n"
  by (simp add: align_up_def)

lemma span_ge: "\<forall>(f, s, a) \<in> set ms. 0 < a \<Longrightarrow> pos \<le> span pos ms"
proof (induction pos ms rule: span.induct)
  case (2 pos f s a ms)
  then show ?case using align_up_ge[of a pos] by fastforce
qed simp

lemma place_between:
  "\<forall>(f, s, a) \<in> set ms. 0 < a \<Longrightarrow> (f, p, s) \<in> set (place pos ms) \<Longrightarrow> pos \<le> p \<and> p + s \<le> span pos ms"
proof (induction pos ms rule: place.induct)
  case (2 pos g t a ms)
  have "0 < a" "\<forall>(f, s, a) \<in> set ms. 0 < a" using 2(2) by auto
  then show ?case using 2(1,3) align_up_ge[of a pos] span_ge[of ms "align_up a pos + t"] by fastforce
qed simp

text \<open>No two members share a byte: each begins at or after the end of those before it.\<close>

lemma place_apart:
  "\<forall>(f, s, a) \<in> set ms. 0 < a \<Longrightarrow> sorted_wrt (\<lambda>(f, p, s) (g, q, t). p + s \<le> q) (place pos ms)"
proof (induction pos ms rule: place.induct)
  case (2 pos g t a ms)
  then have "\<forall>(f, s, a) \<in> set ms. 0 < a" by auto
  then show ?case using 2(1) place_between[of ms _ _ _ "align_up a pos + t"] by fastforce
qed simp

lemma place_aligned: "(f, p, s) \<in> set (place pos ms) \<Longrightarrow> \<exists>a. (f, s, a) \<in> set ms \<and> a dvd p"
  by (induction pos ms rule: place.induct) (auto simp: align_up_dvd)

lemma max_align_pos: "0 < max_align ms"
  by (induction ms rule: max_align.induct) auto

lemma layout_sound:
  assumes "\<forall>(f, s, a) \<in> set ms. 0 < a"
  shows "sorted_wrt (\<lambda>(f, p, s) (g, q, t). p + s \<le> q) (place 0 ms)"
    "\<forall>(f, p, s) \<in> set (place 0 ms). p + s \<le> c_sizeof ms \<and> (\<exists>a. (f, s, a) \<in> set ms \<and> a dvd p)"
    "max_align ms dvd c_sizeof ms"
proof -
  show "sorted_wrt (\<lambda>(f, p, s) (g, q, t). p + s \<le> q) (place 0 ms)" by (rule place_apart[OF assms])
  have "span 0 ms \<le> c_sizeof ms" by (simp add: c_sizeof_def c_struct_def align_up_ge max_align_pos)
  then show "\<forall>(f, p, s) \<in> set (place 0 ms). p + s \<le> c_sizeof ms \<and> (\<exists>a. (f, s, a) \<in> set ms \<and> a dvd p)"
    using place_between[OF assms] place_aligned by fastforce
  show "max_align ms dvd c_sizeof ms" by (simp add: c_sizeof_def c_struct_def align_up_dvd)
qed

section \<open>Declarations\<close>

definition list_head_members :: members where
  "list_head_members =
    [(''next'', c_ptr), (''prev'', c_ptr)]"

subsection \<open>Socket buffers and their control block\<close>

definition sk_buff_members :: members where
  "sk_buff_members =
    [(''head'', c_ptr), (''data'', c_ptr), (''tail'', c_ptr), (''end'', c_ptr), (''len'', c_u32),
     (''data_len'', c_u32), (''protocol'', c_u16), (''pkt_type'', c_u8), (''priority'', c_u32),
     (''queue_mapping'', c_u16), (''ip_summed'', c_u32), (''cb'', aligned 8 (c_array 64 c_u8)),
     (''list'', c_struct list_head_members), (''dma_addr'', c_u64), (''mbuf_ref'', c_ptr)]"

text \<open>The bit fields: \<open>count\<close> takes bits of the byte after \<open>idx\<close>, and the four flags share one byte, \<open>bits\<close>.\<close>

definition ieee80211_tx_rate_members :: members where
  "ieee80211_tx_rate_members =
    [(''idx'', c_u8), (''count'', c_u8), (''flags'', c_u32)]"

definition tx_info_control :: members where
  "tx_info_control =
    [(''rates'', c_array 4 (c_struct ieee80211_tx_rate_members)), (''rts_cts_rate_idx'', c_u8), (''bits'', c_u8),
     (''vif'', c_ptr), (''hw_key'', c_ptr), (''sta'', c_ptr)]"

definition tx_info_status :: members where
  "tx_info_status =
    [(''rates'', c_array 4 (c_struct ieee80211_tx_rate_members)), (''ack_signal'', c_int), (''ampdu_ack_len'', c_u8),
     (''ampdu_len'', c_u8), (''antenna'', c_u8), (''tx_time'', c_u32), (''is_valid_ack_signal'', c_bool),
     (''status_driver_data'', aligned 8 (c_array 20 c_u8))]"

definition ieee80211_tx_info_members :: members where
  "ieee80211_tx_info_members =
    [(''flags'', c_u32), (''band'', c_u8), (''tx_time_est'', c_u8),
     (''u'', c_union [c_struct tx_info_control, c_struct tx_info_status, c_array 64 c_u8])]"

definition ieee80211_rx_status_members :: members where
  "ieee80211_rx_status_members =
    [(''mactime'', c_u64), (''device_timestamp'', c_u32), (''ampdu_reference'', c_u32), (''flag'', c_u32),
     (''freq'', c_u16), (''rate_idx'', c_u8), (''nss'', c_u8), (''vht_nss'', c_u8), (''rx_flags'', c_u8),
     (''band'', c_u8), (''encoding'', c_u8), (''bw'', c_u8), (''signal'', c_u8), (''chains'', c_u8),
     (''chain_signal'', c_array 4 c_u8), (''antenna'', c_u8), (''ampdu_delimiter_crc'', c_u8),
     (''zero_length_psdu_type'', c_bool)]"

subsection \<open>The hardware object\<close>

definition cfg80211_chan_def_members :: members where
  "cfg80211_chan_def_members =
    [(''chan'', c_ptr), (''width'', c_enum), (''center_freq1'', c_u32), (''center_freq2'', c_u32)]"

text \<open>There are three bands, and three extended features in a bitmap of bytes.\<close>

definition wiphy_members :: members where
  "wiphy_members =
    [(''_dev'', c_ptr), (''bands'', c_array 3 c_ptr), (''interface_modes'', c_u32), (''flags'', c_u32),
     (''features'', c_u32), (''available_antennas_tx'', c_u8), (''available_antennas_rx'', c_u8),
     (''max_scan_ssids'', c_u16), (''max_scan_ie_len'', c_u16), (''max_sched_scan_ssids'', c_u16),
     (''rts_threshold'', c_u32), (''iface_combinations'', c_ptr), (''n_iface_combinations'', c_u32),
     (''wowlan'', c_ptr), (''sar_capa'', c_ptr), (''perm_addr'', c_array 6 c_u8),
     (''regulatory_flags'', c_u32), (''reg_notifier'', c_ptr), (''ext_features'', c_array 1 c_u8)]"

definition hw_conf_members :: members where
  "hw_conf_members =
    [(''flags'', c_u32), (''power_level'', c_int), (''listen_interval'', c_u16),
     (''dynamic_ps_timeout'', c_int), (''chandef'', c_struct cfg80211_chan_def_members)]"

definition ieee80211_hw_members :: members where
  "ieee80211_hw_members =
    [(''priv'', c_ptr), (''wiphy'', c_ptr), (''ops'', c_ptr), (''wiphy_bands'', c_array 3 c_ptr),
     (''queues'', c_int), (''max_rates'', c_u16), (''max_rate_tries'', c_u16), (''extra_tx_headroom'', c_u16),
     (''flags'', c_u32), (''required_mask'', c_u32), (''txq_data_size'', c_u32), (''sta_data_size'', c_u32),
     (''vif_data_size'', c_u32), (''conf'', c_struct hw_conf_members), (''kext_hw'', c_ptr)]"

subsection \<open>Stations and interfaces, with their private data behind them\<close>

definition ht_mcs_members :: members where
  "ht_mcs_members =
    [(''rx_mask'', c_array 10 c_u8), (''rx_highest'', c_u16), (''tx_params'', c_u32)]"

definition ht_cap_members :: members where
  "ht_cap_members =
    [(''cap'', c_u16), (''ht_supported'', c_bool), (''ampdu_factor'', c_u8), (''ampdu_density'', c_u8),
     (''mcs'', c_struct ht_mcs_members)]"

definition vht_mcs_members :: members where
  "vht_mcs_members =
    [(''rx_mcs_map'', c_u32), (''rx_highest'', c_u16), (''tx_mcs_map'', c_u32), (''tx_highest'', c_u16)]"

definition vht_cap_members :: members where
  "vht_cap_members =
    [(''vht_supported'', c_bool), (''cap'', c_u32), (''vht_mcs'', c_struct vht_mcs_members)]"

definition sta_agg :: members where
  "sta_agg =
    [(''max_rc_amsdu_len'', c_u16)]"

definition sta_deflink :: members where
  "sta_deflink =
    [(''ht_cap'', c_struct ht_cap_members), (''vht_cap'', c_struct vht_cap_members), (''supp_rates'', c_array 3 c_u32),
     (''bandwidth'', c_enum), (''agg'', c_struct sta_agg)]"

definition ieee80211_sta_members :: members where
  "ieee80211_sta_members =
    [(''addr'', c_array 6 c_u8), (''aid'', c_u16), (''wme'', c_bool), (''mfp'', c_bool), (''tdls'', c_bool),
     (''max_rc_amsdu_len'', c_u16), (''txq'', c_array 17 c_ptr), (''deflink'', c_struct sta_deflink),
     (''drv_priv'', aligned 8 (c_array 0 c_u8))]"

definition mu_group_members :: members where
  "mu_group_members =
    [(''membership'', c_array 8 c_u8), (''position'', c_array 16 c_u8)]"

definition ieee80211_bss_conf_members :: members where
  "ieee80211_bss_conf_members =
    [(''bssid'', c_ptr), (''bssid_buf'', c_array 6 c_u8), (''assoc'', c_bool), (''ibss_joined'', c_bool),
     (''aid'', c_u16), (''use_cts_prot'', c_bool), (''use_short_preamble'', c_bool),
     (''use_short_slot'', c_bool), (''enable_beacon'', c_bool), (''dtim_period'', c_u8),
     (''beacon_int'', c_u16), (''assoc_capability'', c_u16), (''sync_tsf'', c_u64),
     (''sync_device_ts'', c_u32), (''sync_dtim_count'', c_u8), (''basic_rates'', c_u32),
     (''mcast_rate'', c_array 3 c_int), (''ht_operation_mode'', c_u16), (''cqm_rssi_thold'', c_int),
     (''cqm_rssi_hyst'', c_u32), (''cqm_rssi_low'', c_int), (''cqm_rssi_high'', c_int),
     (''chandef_chan'', c_ptr), (''chandef_width'', c_u8), (''qos'', c_bool), (''hidden_ssid'', c_bool),
     (''txpower'', c_int), (''p2p_noa_attr'', c_bool), (''p2p_oppps_ctwindow'', c_u8),
     (''mu_group'', c_struct mu_group_members)]"

definition vif_cfg_members :: members where
  "vif_cfg_members =
    [(''assoc'', c_bool), (''aid'', c_u16), (''ssid_len'', c_u16), (''ssid'', c_array 32 c_u8),
     (''ps'', c_bool)]"

definition ieee80211_vif_members :: members where
  "ieee80211_vif_members =
    [(''type'', c_enum), (''bss_conf'', c_struct ieee80211_bss_conf_members), (''cfg'', c_struct vif_cfg_members),
     (''txq'', c_ptr), (''addr'', c_array 6 c_u8), (''p2p'', c_bool), (''driver_flags'', c_u32),
     (''drv_priv'', aligned 8 (c_array 0 c_u8))]"

subsection \<open>Frames\<close>

definition hdr_members :: members where
  "hdr_members = packed
    [(''frame_control'', c_u16), (''duration_id'', c_u16), (''addr1'', c_array 6 c_u8),
     (''addr2'', c_array 6 c_u8), (''addr3'', c_array 6 c_u8), (''seq_ctrl'', c_u16),
     (''addr4'', c_array 6 c_u8)]"

definition hdr_3addr_members :: members where
  "hdr_3addr_members = packed
    [(''frame_control'', c_u16), (''duration_id'', c_u16), (''addr1'', c_array 6 c_u8),
     (''addr2'', c_array 6 c_u8), (''addr3'', c_array 6 c_u8), (''seq_ctrl'', c_u16)]"

definition mgmt_beacon :: members where
  "mgmt_beacon = packed
    [(''timestamp'', c_u64), (''beacon_int'', c_u16), (''capab_info'', c_u16), (''variable'', c_array 0 c_u8)]"

text \<open>\<open>beacon\<close> and \<open>probe_resp\<close> are the same; \<open>action\<close> is empty.\<close>

definition mgmt_members :: members where
  "mgmt_members = packed
    [(''frame_control'', c_u16), (''duration'', c_u16), (''da'', c_array 6 c_u8), (''sa'', c_array 6 c_u8),
     (''bssid'', c_array 6 c_u8), (''seq_ctrl'', c_u16),
     (''u'', c_union [c_struct mgmt_beacon, c_struct mgmt_beacon, c_array 0 c_u8])]"

subsection \<open>Memory, PCI and USB\<close>

definition firmware_members :: members where
  "firmware_members =
    [(''size'', c_u64), (''data'', c_ptr), (''_alloc_size'', c_u64)]"

definition page_members :: members where
  "page_members =
    [(''virt'', c_ptr), (''phys'', c_u64)]"

definition device_members :: members where
  "device_members =
    [(''name'', c_ptr), (''parent'', c_ptr), (''kext_dev'', c_ptr)]"

definition pci_dev_members :: members where
  "pci_dev_members =
    [(''vendor'', c_u16), (''device'', c_u16), (''subsystem_vendor'', c_u16), (''subsystem_device'', c_u16),
     (''revision'', c_u8), (''irq'', c_u8), (''class_val'', c_u32), (''resource'', c_array 6 c_u64),
     (''resource_len'', c_array 6 c_u64), (''driver_data'', c_ptr), (''dev'', c_struct device_members),
     (''kext_dev'', c_ptr)]"

definition urb_members :: members where
  "urb_members =
    [(''dev'', c_ptr), (''pipe'', c_u32), (''context'', c_ptr), (''complete'', c_ptr),
     (''transfer_buffer'', c_ptr), (''transfer_buffer_length'', c_u32), (''actual_length'', c_u32),
     (''status'', c_int), (''transfer_flags'', c_u32), (''start_frame'', c_int), (''error_count'', c_int)]"

text \<open>Descriptors and requests as they go over the bus.\<close>

definition usb_endpoint_descriptor_members :: members where
  "usb_endpoint_descriptor_members = packed
    [(''bLength'', c_u8), (''bDescriptorType'', c_u8), (''bEndpointAddress'', c_u8), (''bmAttributes'', c_u8),
     (''wMaxPacketSize'', c_u16), (''bInterval'', c_u8)]"

definition usb_interface_descriptor_members :: members where
  "usb_interface_descriptor_members = packed
    [(''bLength'', c_u8), (''bDescriptorType'', c_u8), (''bInterfaceNumber'', c_u8), (''bAlternateSetting'', c_u8),
     (''bNumEndpoints'', c_u8), (''bInterfaceClass'', c_u8), (''bInterfaceSubClass'', c_u8),
     (''bInterfaceProtocol'', c_u8), (''iInterface'', c_u8)]"

definition usb_ctrlrequest_members :: members where
  "usb_ctrlrequest_members = packed
    [(''bRequestType'', c_u8), (''bRequest'', c_u8), (''wValue'', c_u16), (''wIndex'', c_u16), (''wLength'', c_u16)]"

definition net_device_members :: members where
  "net_device_members =
    [(''name'', c_array 16 c_u8), (''dev_addr'', c_array 6 c_u8), (''mtu'', c_u32), (''ml_priv'', c_ptr)]"

definition kmem_cache_members :: members where
  "kmem_cache_members = [(''obj_size'', c_u64), (''name'', c_ptr)]"

subsection \<open>The door for user space, as the kernel and as the tool declare it\<close>

definition kernel_ConnectArgs :: members where
  "kernel_ConnectArgs =
    [(''ssid'', c_array 33 c_u8), (''password'', c_array 64 c_u8)]"

definition kernel_StateResult :: members where
  "kernel_StateResult =
    [(''state'', c_u32), (''bssid'', c_array 6 c_u8), (''ssid'', c_array 33 c_u8), (''rssi'', c_int),
     (''channel'', c_u32), (''mac_addr'', c_array 6 c_u8), (''fw_version'', c_u16), (''fw_sub_version'', c_u8),
     (''chip_name'', c_array 32 c_u8), (''rx_byte_count'', c_u32), (''tx_byte_count'', c_u32),
     (''scan_offload_supported'', c_u8), (''powered'', c_u8)]"

definition ctl_ConnectArgs :: members where
  "ctl_ConnectArgs =
    [(''ssid'', c_array 33 c_u8), (''password'', c_array 64 c_u8)]"

definition ctl_StateResult :: members where
  "ctl_StateResult =
    [(''state'', c_u32), (''bssid'', c_array 6 c_u8), (''ssid'', c_array 33 c_u8), (''rssi'', c_int),
     (''channel'', c_u32), (''mac_addr'', c_array 6 c_u8), (''fw_version'', c_u16), (''fw_sub_version'', c_u8),
     (''chip_name'', c_array 32 c_u8), (''rx_byte_count'', c_u32), (''tx_byte_count'', c_u32),
     (''scan_offload_supported'', c_u8), (''powered'', c_u8)]"


lemmas ctypes = c_u8_def c_u16_def c_u32_def c_u64_def c_ptr_def c_int_def c_bool_def

section \<open>The constants of the other theories\<close>

text \<open>The sizes and offsets that the model of the hardware object, of firmware, of pages, of transfers
  and of the user client uses are those of the declarations, and the tool declares the structures that cross
  the boundary between user and kernel as the kernel does.\<close>

theorem layouts_agree:
  "c_sizeof ieee80211_hw_members = sizeof_hw \<and> c_sizeof wiphy_members = sizeof_wiphy \<and>
   map (\<lambda>f. offsetof f ieee80211_hw_members) [''priv'', ''wiphy'', ''ops'', ''kext_hw''] =
     map Some [HW_PRIV, HW_WIPHY, HW_OPS, HW_KEXT_HW] \<and>
   offset_path [(''conf'', ieee80211_hw_members), (''chandef'', hw_conf_members), (''chan'', cfg80211_chan_def_members)] =
     Some HW_CHANDEF_CHAN \<and>
   offset_path [(''conf'', ieee80211_hw_members), (''chandef'', hw_conf_members), (''width'', cfg80211_chan_def_members)] =
     Some HW_CHANDEF_WIDTH \<and>
   offsetof ''_dev'' wiphy_members = Some WIPHY_DEV \<and>
   c_sizeof firmware_members = sizeof_firmware \<and> c_sizeof page_members = sizeof_page \<and>
   c_sizeof urb_members = unat sizeof_urb \<and>
   c_sizeof kernel_ConnectArgs = sizeof_ConnectArgs \<and> c_sizeof kernel_StateResult = sizeof_StateResult \<and>
   place 0 ctl_ConnectArgs = place 0 kernel_ConnectArgs \<and> place 0 ctl_StateResult = place 0 kernel_StateResult"
  by code_simp

text \<open>The headers of frames have the sizes and offsets that the data path and the management frames use.\<close>

lemma frame_layouts:
  "c_sizeof hdr_members = 30" "c_sizeof hdr_3addr_members = 24"
  "map (\<lambda>f. offsetof f hdr_3addr_members) [''frame_control'', ''addr1'', ''addr2'', ''addr3'', ''seq_ctrl''] =
    map Some [0, 4, 10, 16, 22]"
  "offsetof ''u'' mgmt_members = Some 24" "offsetof ''variable'' mgmt_beacon = Some 12"
  by code_simp+

text \<open>On the bus a descriptor has the length of the USB standard and no padding.\<close>

lemma usb_layouts:
  "c_sizeof usb_endpoint_descriptor_members = 7" "c_sizeof usb_interface_descriptor_members = 9"
  "c_sizeof usb_ctrlrequest_members = 8" "offsetof ''wMaxPacketSize'' usb_endpoint_descriptor_members = Some 4"
  "map (\<lambda>f. offsetof f usb_ctrlrequest_members) [''wValue'', ''wIndex'', ''wLength''] = map Some [2, 4, 6]"
  by code_simp+

text \<open>Private data that follows a structure is aligned like a pointer and begins at its end.\<close>

lemma private_data:
  "offsetof ''drv_priv'' ieee80211_sta_members = Some (c_sizeof ieee80211_sta_members)"
  "offsetof ''drv_priv'' ieee80211_vif_members = Some (c_sizeof ieee80211_vif_members)"
  "8 dvd c_sizeof ieee80211_sta_members" "8 dvd c_sizeof ieee80211_vif_members" "8 dvd c_sizeof ieee80211_hw_members"
  by code_simp+

section \<open>The control block is too small\<close>

definition IEEE80211_SKB_CB :: "nat \<Rightarrow> nat" where
  "IEEE80211_SKB_CB skb = skb + the (offsetof ''cb'' sk_buff_members)"

definition in_control :: "string \<Rightarrow> nat" where
  "in_control f = the (offset_path [(''u'', ieee80211_tx_info_members), (f, tx_info_control)])"

definition TX_CTL_FIRST_FRAGMENT :: u32 where "TX_CTL_FIRST_FRAGMENT = push_bit 4 1"
definition TX_CTL_AMPDU :: u32 where "TX_CTL_AMPDU = push_bit 6 1"

text \<open>The end of \<open>txDataFrame\<close>: the transmit information is written into the control block of the buffer.
  \<open>agg\<close>: a QoS frame and an agreement is up; \<open>five\<close>: the channel of the access point is above 14.\<close>

definition fill_tx_info :: "bool \<Rightarrow> bool \<Rightarrow> u64 \<Rightarrow> u64 \<Rightarrow> u64 option \<Rightarrow> nat \<Rightarrow> (nat \<Rightarrow> u8) \<Rightarrow> nat \<Rightarrow> u8" where
  "fill_tx_info agg five vif sta hw_key skb m =
    (let info = IEEE80211_SKB_CB skb;
         m = store info (replicate (c_sizeof ieee80211_tx_info_members) 0) m;
         m = store32 info (if agg then TX_CTL_FIRST_FRAGMENT OR TX_CTL_AMPDU else TX_CTL_FIRST_FRAGMENT) m;
         m = store (info + the (offsetof ''band'' ieee80211_tx_info_members)) [if five then 1 else 0] m;
         m = store64 (info + in_control ''vif'') vif m;
         m = store64 (info + in_control ''sta'') sta m
     in case hw_key of None \<Rightarrow> m | Some key \<Rightarrow> store64 (info + in_control ''hw_key'') key m)"

lemma tx_layout:
  "the (offsetof ''cb'' sk_buff_members) = 56" "offsetof ''list'' sk_buff_members = Some 120" "c_sizeof sk_buff_members = 152"
  "c_sizeof ieee80211_tx_info_members = 80" "the (offsetof ''band'' ieee80211_tx_info_members) = 4"
  "in_control ''vif'' = 48" "in_control ''hw_key'' = 56" "in_control ''sta'' = 64"
  "offset_path [(''u'', ieee80211_tx_info_members), (''status_driver_data'', tx_info_status)] = Some 56"
  "c_sizeof ieee80211_rx_status_members = 40" "c_sizeof list_head_members = 16"
  by code_simp+

lemma store_outside: "x < a \<or> a + length bs \<le> x \<Longrightarrow> store a bs m x = m x"
  by (auto simp: store_def)

lemma fill_tx_info_frame: "fill_tx_info agg five vif sta hw_key skb m x = m x \<or> skb + 56 \<le> x \<and> x < skb + 136"
  by (cases "x < skb + 56 \<or> skb + 136 \<le> x")
    (auto simp: fill_tx_info_def IEEE80211_SKB_CB_def tx_layout store32_def store64_def store_outside add.assoc Let_def
      split: option.splits)

text \<open>C16. The control block holds the receive status but not the transmit information: filling the latter
  in writes 16 bytes beyond it, which are the list node of the buffer.  The node of a data frame then
  consists of the station's address and a null pointer, and a driver that puts the frame on a queue replaces
  the station by a link.  No byte outside control block and node is written.\<close>

theorem tx_info_overruns_list:
  "let m' = fill_tx_info agg five vif sta hw_key skb m; node = skb + 120; info = IEEE80211_SKB_CB skb in
    offsetof ''list'' sk_buff_members = Some 120 \<and> c_sizeof ieee80211_rx_status_members \<le> 64 \<and>
    load64 node m' = sta \<and> load64 (node + 8) m' = 0 \<and>
    load64 (info + in_control ''vif'') m' = vif \<and> load64 (info + in_control ''hw_key'') m' = (case hw_key of None \<Rightarrow> 0 | Some k \<Rightarrow> k) \<and>
    load64 (info + in_control ''sta'') (store64 node next m') = next \<and>
    (\<forall>x. m' x = m x \<or> skb + 56 \<le> x \<and> x < node + 16)"
proof -
  have z: "load64 (skb + 56 + k) (store (skb + 56) (replicate 80 0) m) = 0" if "k + 8 \<le> 80" for k
  proof -
    have "load (skb + 56 + k) 8 (store (skb + 56) (replicate 80 0) m) = replicate 8 0"
      by (rule nth_equalityI) (use that in \<open>simp_all add: load_def store_def\<close>)
    moreover have "word_le (replicate 8 0) = 0" by code_simp
    ultimately show ?thesis by (simp add: load64_def)
  qed
  define m1 where "m1 = store (skb + 60) [if five then 1 else 0] (store32 (skb + 56)
    (if agg then TX_CTL_FIRST_FRAGMENT OR TX_CTL_AMPDU else TX_CTL_FIRST_FRAGMENT) (store (skb + 56) (replicate 80 0) m))"
  define m2 where "m2 = store64 (skb + 120) sta (store64 (skb + 104) vif m1)"
  have m': "fill_tx_info agg five vif sta hw_key skb m =
    (case hw_key of None \<Rightarrow> m2 | Some key \<Rightarrow> store64 (skb + 112) key m2)"
    by (simp add: fill_tx_info_def IEEE80211_SKB_CB_def tx_layout m1_def m2_def add.assoc Let_def split: option.splits)
  have 1: "load64 (skb + 112) m1 = 0" "load64 (skb + 128) m1 = 0"
    using z[of 56] z[of 72] by (simp_all add: m1_def store32_def load64_store add.commute[of skb])
  have 2: "load64 (skb + 120) m2 = sta" "load64 (skb + 104) m2 = vif" "load64 (skb + 112) m2 = 0" "load64 (skb + 128) m2 = 0"
    using 1 by (simp_all add: m2_def load64_store64_other)
  have "\<forall>x. fill_tx_info agg five vif sta hw_key skb m x = m x \<or> skb + 56 \<le> x \<and> x < skb + 136"
    using fill_tx_info_frame by blast
  then show ?thesis using 2
    by (simp add: m' IEEE80211_SKB_CB_def tx_layout add.assoc Let_def load64_store64_other split: option.splits)
qed

end
