(* ===== verification/Hostif.thy ===== *)
theory Hostif
  imports Pcidev Usb
begin

text \<open>
  What the network controllers owe the operating system besides packets: media and link status, filters,
  power and packet sizes of \<open>RTW88PCIDevice.cpp\<close> and \<open>RTW88USBDevice.cpp\<close>, the creation of user clients, and
  which resources the controller for PCI takes in \<open>init\<close> and \<open>start\<close> and gives back in \<open>teardown\<close> and \<open>free\<close>.
  The rules for resources are those of \<open>Owned\<close>.
\<close>

section \<open>Media and link status\<close>

text \<open>The types of media the controllers publish, named as in the code.\<close>

datatype medium_type = EthernetAuto | Ethernet10BaseT | Ethernet100BaseTX | Ethernet1000BaseT

type_synonym medium = "medium_type \<times> u64"

text \<open>\<open>md_dict\<close>: the property \<open>kIOMediumDictionary\<close>; \<open>md_link\<close>: the medium last reported with an active
  link.\<close>

record media =
  md_dict :: "medium_type \<rightharpoonup> medium"
  md_current :: "medium option"
  md_link :: "medium option option"

text \<open>\<open>alloc\<close>: is the medium object created.\<close>

definition addMedium :: "(medium_type \<Rightarrow> bool) \<Rightarrow> medium_type \<Rightarrow> u64 \<Rightarrow> (medium_type \<rightharpoonup> medium) \<Rightarrow> medium_type \<rightharpoonup> medium" where
  "addMedium alloc type speed mediums =
    (if alloc type then mediums(type \<mapsto> (type, speed * 1000000)) else mediums)"

definition pci_setupMediumDict :: "bool \<Rightarrow> (medium_type \<Rightarrow> bool) \<Rightarrow> media \<Rightarrow> bool \<times> media" where
  "pci_setupMediumDict dict_ok alloc s =
    (if \<not> dict_ok then (False, s)
     else let mediums = Map.empty;
              mediums = addMedium alloc EthernetAuto 0 mediums;
              mediums = addMedium alloc Ethernet10BaseT 10 mediums;
              mediums = addMedium alloc Ethernet100BaseTX 100 mediums;
              mediums = addMedium alloc Ethernet1000BaseT 1000 mediums;
              s = s\<lparr>md_dict := mediums\<rparr>;
              autoMedium = md_dict s EthernetAuto;
              s = s\<lparr>md_current := autoMedium\<rparr>
          in (True, s\<lparr>md_link := Some (md_dict s Ethernet1000BaseT)\<rparr>))"

definition usb_media_setup :: "bool \<Rightarrow> (medium_type \<Rightarrow> bool) \<Rightarrow> media \<Rightarrow> bool \<times> media" where
  "usb_media_setup dict_ok alloc s =
    (if \<not> dict_ok then (False, s)
     else let mediums = addMedium alloc Ethernet1000BaseT 1000 (addMedium alloc EthernetAuto 0 Map.empty);
              s = s\<lparr>md_dict := mediums\<rparr>;
              auto_m = md_dict s EthernetAuto
          in (True, s\<lparr>md_current := auto_m, md_link := Some auto_m\<rparr>))"

definition selectMedium :: "medium option \<Rightarrow> media \<Rightarrow> IOReturn \<times> media" where
  "selectMedium m s = (kIOReturnSuccess, s\<lparr>md_current := m\<rparr>)"

text \<open>The link is reported active when the controller starts, before any network is joined, and without a
  medium when that object could not be made.  The current medium is always one of the dictionary or none.\<close>

lemma media_published:
  "fst (pci_setupMediumDict good alloc s) = good" "fst (usb_media_setup good alloc s) = good"
  "good \<Longrightarrow> md_link (snd (pci_setupMediumDict good alloc s)) =
    Some (if alloc Ethernet1000BaseT then Some (Ethernet1000BaseT, 1000000000) else None)"
  "good \<Longrightarrow> md_link (snd (usb_media_setup good alloc s)) = Some (md_current (snd (usb_media_setup good alloc s)))"
  "good \<Longrightarrow> md_current (snd (pci_setupMediumDict good alloc s)) = (if alloc EthernetAuto then Some (EthernetAuto, 0) else None)"
  "good \<Longrightarrow> dom (md_dict (snd (pci_setupMediumDict good alloc s))) = {t. alloc t}"
  "good \<Longrightarrow> dom (md_dict (snd (usb_media_setup good alloc s))) = {t. alloc t \<and> t \<in> {EthernetAuto, Ethernet1000BaseT}}"
  by (auto simp: pci_setupMediumDict_def usb_media_setup_def addMedium_def Let_def split: if_splits)
    (metis medium_type.exhaust)+

section \<open>Requests that need nothing from the hardware\<close>

text \<open>Names of filter groups; what the superclass answers is an argument.\<close>

datatype filter_group = WakeOnLANFilterGroup | OtherFilterGroup

definition getPacketFilters :: "IOReturn \<times> u32 \<Rightarrow> filter_group \<Rightarrow> IOReturn \<times> u32" where
  "getPacketFilters super_answer grp = (if grp = WakeOnLANFilterGroup then (kIOReturnSuccess, 0) else super_answer)"

definition setMaxPacketSize :: "nat \<Rightarrow> pcidev \<Rightarrow> IOReturn \<times> pcidev" where
  "setMaxPacketSize maxSize d = (kIOReturnSuccess, d)"

definition setMulticastMode :: "bool \<Rightarrow> pcidev \<Rightarrow> IOReturn \<times> pcidev" where
  "setMulticastMode active d = (kIOReturnSuccess, d)"

definition setMulticastList :: "bytes list \<Rightarrow> pcidev \<Rightarrow> IOReturn \<times> pcidev" where
  "setMulticastList addrs d = (kIOReturnSuccess, d)"

definition setPromiscuousMode :: "bool \<Rightarrow> pcidev \<Rightarrow> IOReturn \<times> pcidev" where
  "setPromiscuousMode active d = (kIOReturnSuccess, d)"

text \<open>The computer is about to sleep or has woken up: the driver acknowledges and does nothing.\<close>

datatype pm_ack = IOPMAckImplied

definition powerStateWillChangeTo :: "nat \<Rightarrow> pcidev \<Rightarrow> pm_ack \<times> pcidev" where
  "powerStateWillChangeTo state d = (IOPMAckImplied, d)"

text \<open>\<open>stats\<close>: the interface has network data; its access is then for reading.\<close>

definition configureInterface :: "bool \<Rightarrow> bool \<Rightarrow> bool \<times> bool" where
  "configureInterface super_ok stats = (if \<not> super_ok then (False, False) else (True, stats))"

definition newVendorString :: string where "newVendorString = ''Realtek''"

definition newModelString :: "pcidev \<Rightarrow> string" where
  "newModelString d = chipDisplayName (map_option snd (pd_compatPciDev d))"

text \<open>\<open>mac\<close>: the address of the station.\<close>

definition usb_getHardwareAddress :: "bytes \<Rightarrow> usbdev \<Rightarrow> IOReturn \<times> bytes option" where
  "usb_getHardwareAddress mac d = (case ud_80211 d of None \<Rightarrow> (kIOReturnNotReady, None) | Some _ \<Rightarrow> (kIOReturnSuccess, Some mac))"

definition usb_getMaxPacketSize :: nat where "usb_getMaxPacketSize = 2346"

text \<open>A coherent buffer of the USB adapter: its kernel and its bus address.  It is never given back.\<close>

definition usb_allocCoherent :: "(nat \<Rightarrow> (nat \<times> nat) option) \<Rightarrow> nat \<Rightarrow> nat list \<Rightarrow> (nat \<times> nat) option \<times> nat list" where
  "usb_allocCoherent mk sz live = (case mk sz of None \<Rightarrow> (None, live) | Some (virt, phys) \<Rightarrow> (Some (virt, phys), virt # live))"

definition usb_freeCoherent :: "nat \<Rightarrow> nat \<Rightarrow> nat \<Rightarrow> nat list \<Rightarrow> nat list" where
  "usb_freeCoherent sz virt phys live = live"

section \<open>User clients\<close>

text \<open>A client is attached to the controller as an event source is to its loop; the controller is always
  there.\<close>

datatype uc_resource = Client | Controller

definition pd_newUserClient :: "bool \<Rightarrow> bool \<Rightarrow> bool \<Rightarrow> bool \<Rightarrow> nat \<Rightarrow> nat \<Rightarrow>
    IOReturn \<times> user_client option \<times> uc_resource life_event list" where
  "pd_newUserClient alloc_ok super_init attach_ok super_start self owningTask =
    (if \<not> alloc_ok then (kIOReturnNoMemory, None, [])
     else let client = \<lparr>uc_provider = None, uc_owningTask = None\<rparr>;
              es = [Acquire Client];
              (okay, client) = uc_initWithTask super_init owningTask client
     in if \<not> okay then (kIOReturnBadArgument, None, es @ [Release Client])
     else if \<not> attach_ok then (kIOReturnBadArgument, None, es @ [Release Client])
     else let es = es @ [AddSource Client Controller];
              (okay, client) = uc_start super_start (Some self) client
     in if \<not> okay then (kIOReturnBadArgument, None, es @ [RemoveSource Client Controller, Release Client])
     else (kIOReturnSuccess, Some client, es))"

text \<open>A client that cannot be had leaves nothing behind; one that is handed out is attached, with the
  controller as its provider and the task that asked.\<close>

lemma newUserClient_ok:
  "case pd_newUserClient alloc_ok super_init attach_ok super_start self task of (ret, handler, es) \<Rightarrow>
    (case handler of
       None \<Rightarrow> ret \<noteq> kIOReturnSuccess \<and> balanced_log (\<lambda>r. r = Controller) es
     | Some client \<Rightarrow> ret = kIOReturnSuccess \<and> client = \<lparr>uc_provider = Some self, uc_owningTask = Some task\<rparr> \<and>
         life_run (\<lambda>r. r = Controller) es ([], []) = Some ([Client], [(Client, Controller)]))"
  by (simp add: pd_newUserClient_def uc_initWithTask_def uc_start_def balanced_log_def Let_def)

section \<open>What the controller takes and gives back\<close>

datatype pd_resource = PDmaLock | PPendingLock | PPciDev | PMmioMap | PCompatPciDev | PWorkLoop | PCmdGate | PIntrSrc
  | PStation | PIface | PTxQueue | PDebugTimer

abbreviation pd_balanced :: "pd_resource life_event list \<Rightarrow> bool" where
  "pd_balanced \<equiv> balanced_log (\<lambda>_. False)"

text \<open>\<open>dma\<close>, \<open>pend\<close>: are the two locks there.  \<open>free\<close> is called also when \<open>init\<close> answers false.\<close>

definition pd_init :: "bool \<Rightarrow> bool \<Rightarrow> bool \<Rightarrow> bool \<times> pd_resource life_event list" where
  "pd_init super_ok dma pend =
    (if \<not> super_ok then (False, [])
     else (dma \<and> pend, (if dma then [Acquire PDmaLock] else []) @ (if pend then [Acquire PPendingLock] else [])))"

definition setupInterrupt :: "bool \<Rightarrow> bool \<times> pd_resource life_event list" where
  "setupInterrupt src = (if \<not> src then (False, []) else (True, [Acquire PIntrSrc, AddSource PIntrSrc PWorkLoop]))"

definition attach_log :: "start_answers \<Rightarrow> pd_resource life_event list" where
  "attach_log a =
    (if \<not> sa_attach a then []
     else [Acquire PIface] @ (if \<not> sa_medium a then [] else if sa_queue a then [Acquire PTxQueue] else []))"

text \<open>\<open>start\<close>, the resources only: what it has taken when it returns.\<close>

definition start_log :: "start_answers \<Rightarrow> pd_resource life_event list" where
  "start_log a =
    (if \<not> sa_super a \<or> \<not> sa_pci a then [] else [Acquire PPciDev] @
    (if \<not> sa_map a then [] else [Acquire PMmioMap] @
    (if \<not> sa_compat a then [] else [Acquire PCompatPciDev] @
    (if \<not> sa_workloop a then [] else [Acquire PWorkLoop] @
    (if \<not> sa_gate a then [] else [Acquire PCmdGate, AddSource PCmdGate PWorkLoop] @
    (let (okay, es) = setupInterrupt (sa_intr a) in es @
    (if \<not> okay \<or> \<not> sa_create a then [] else [Acquire PStation] @
    (if \<not> sa_chip a \<or> \<not> sa_probe a then [] else attach_log a @
    (if \<not> sa_attach a \<or> \<not> sa_medium a \<or> \<not> sa_timer a then []
     else [Acquire PDebugTimer, AddSource PDebugTimer PWorkLoop])))))))))"

definition give_back :: "bool \<Rightarrow> pd_resource life_event list \<Rightarrow> pd_resource life_event list" where
  "give_back b es = (if b then es else [])"

text \<open>\<open>teardown\<close> and \<open>free\<close> go by the fields of the object.\<close>

definition teardown_log :: "pcidev \<Rightarrow> pd_resource life_event list" where
  "teardown_log d =
    give_back (pd_mlme d \<noteq> None) [Release PStation] @
    give_back (pd_debugTimer d) [RemoveSource PDebugTimer PWorkLoop, Release PDebugTimer] @
    give_back (pd_intrSrc d) [RemoveSource PIntrSrc PWorkLoop, Release PIntrSrc] @
    give_back (pd_cmdGate d) [RemoveSource PCmdGate PWorkLoop, Release PCmdGate] @
    give_back (pd_txQueue d) [Release PTxQueue] @ give_back (pd_iface d) [Release PIface] @
    give_back (pd_workLoop d) [Release PWorkLoop] @ give_back (pd_mmio d) [Release PMmioMap] @
    give_back (pd_pciDev d) [Release PPciDev]"

definition free_log :: "pcidev \<Rightarrow> bool \<Rightarrow> bool \<Rightarrow> pd_resource life_event list" where
  "free_log d dma pend =
    give_back (pd_compatPciDev d \<noteq> None) [Release PCompatPciDev] @
    give_back pend [Release PPendingLock] @ give_back dma [Release PDmaLock]"


text \<open>How far \<open>start\<close> gets.\<close>

definition got_pci :: "start_answers \<Rightarrow> bool" where "got_pci a \<longleftrightarrow> sa_super a \<and> sa_pci a"
definition got_map :: "start_answers \<Rightarrow> bool" where "got_map a \<longleftrightarrow> got_pci a \<and> sa_map a"
definition got_compat :: "start_answers \<Rightarrow> bool" where "got_compat a \<longleftrightarrow> got_map a \<and> sa_compat a"
definition got_loop :: "start_answers \<Rightarrow> bool" where "got_loop a \<longleftrightarrow> got_compat a \<and> sa_workloop a"
definition got_gate :: "start_answers \<Rightarrow> bool" where "got_gate a \<longleftrightarrow> got_loop a \<and> sa_gate a"
definition got_intr :: "start_answers \<Rightarrow> bool" where "got_intr a \<longleftrightarrow> got_gate a \<and> sa_intr a"
definition got_station :: "start_answers \<Rightarrow> bool" where "got_station a \<longleftrightarrow> got_intr a \<and> sa_create a"
definition got_iface :: "start_answers \<Rightarrow> bool" where "got_iface a \<longleftrightarrow> got_station a \<and> sa_chip a \<and> sa_probe a \<and> sa_attach a"
definition got_all :: "start_answers \<Rightarrow> bool" where "got_all a \<longleftrightarrow> got_iface a \<and> sa_medium a"

lemmas got_defs = got_pci_def got_map_def got_compat_def got_loop_def got_gate_def got_intr_def got_station_def got_iface_def
  got_all_def

definition pd_fresh :: "pcidev \<Rightarrow> bool" where
  "pd_fresh d \<longleftrightarrow> pd_mlme d = None \<and> pd_compatPciDev d = None \<and> \<not> pd_enabled d \<and> \<not> pd_iface d \<and> \<not> pd_txQueue d \<and>
     \<not> pd_intrSrc d \<and> \<not> pd_debugTimer d \<and> \<not> pd_pciDev d \<and> \<not> pd_mmio d \<and> \<not> pd_workLoop d \<and> \<not> pd_cmdGate d"

lemma mlme_start_ret: "fst (mlme_start io chip probe mac m) = kIOReturnSuccess \<longleftrightarrow> chip \<and> probe"
  by (simp add: mlme_start_def Let_def)

lemma call_more [simp]:
  "pd_compatPciDev (call c d) = pd_compatPciDev d" "pd_iface (call c d) = pd_iface d" "pd_intrSrc (call c d) = pd_intrSrc d"
  "pd_debugTimer (call c d) = pd_debugTimer d" "pd_pciDev (call c d) = pd_pciDev d" "pd_mmio (call c d) = pd_mmio d"
  "pd_workLoop (call c d) = pd_workLoop d" "pd_cmdGate (call c d) = pd_cmdGate d"
  by (simp_all add: call_def)

lemma publish_keeps [simp]:
  "pd_compatPciDev (publishHardwareIdentity d) = pd_compatPciDev d" "pd_iface (publishHardwareIdentity d) = pd_iface d"
  "pd_intrSrc (publishHardwareIdentity d) = pd_intrSrc d" "pd_debugTimer (publishHardwareIdentity d) = pd_debugTimer d"
  "pd_pciDev (publishHardwareIdentity d) = pd_pciDev d" "pd_mmio (publishHardwareIdentity d) = pd_mmio d"
  "pd_workLoop (publishHardwareIdentity d) = pd_workLoop d" "pd_cmdGate (publishHardwareIdentity d) = pd_cmdGate d"
  "pd_mlme (publishHardwareIdentity d) = pd_mlme d" "pd_txQueue (publishHardwareIdentity d) = pd_txQueue d"
  by (simp_all add: publishHardwareIdentity_def Let_def split: option.splits)

lemma pd_start_fields:
  assumes "pd_fresh d" "pd_start io a d = (okay, d1)"
  shows "okay = got_all a" "pd_pciDev d1 = got_pci a" "pd_mmio d1 = got_map a" "(pd_compatPciDev d1 \<noteq> None) = got_compat a"
    "pd_workLoop d1 = got_loop a" "pd_cmdGate d1 = got_gate a" "pd_intrSrc d1 = got_intr a" "(pd_mlme d1 \<noteq> None) = got_station a"
    "pd_iface d1 = got_iface a" "pd_txQueue d1 = (got_all a \<and> sa_queue a)" "pd_debugTimer d1 = (got_all a \<and> sa_timer a)"
  using assms mlme_start_ret[of io "sa_chip a" "sa_probe a" "sa_mac a" mlme_init]
  by (auto simp: pd_start_def Let_def got_defs attachDevice_def pd_fresh_def split: if_splits prod.splits)

lemma teardown_compat: "pd_compatPciDev (teardown io d) = pd_compatPciDev d"
  by (simp add: teardown_def pd_disable_def Let_def)

text \<open>The whole life of a controller: \<open>init\<close> with both locks, \<open>start\<close>; then \<open>teardown\<close> only if \<open>start\<close> said
  yes, as \<open>stop\<close> is not called for one that never started; then \<open>free\<close>.\<close>

definition controller_log :: "hw_io \<Rightarrow> start_answers \<Rightarrow> pcidev \<Rightarrow> pd_resource life_event list" where
  "controller_log io a d =
    (let (okay, d1) = pd_start io a d
     in snd (pd_init True True True) @ start_log a @
        (if okay then teardown_log d1 @ free_log (teardown io d1) True True else free_log d1 True True))"

lemmas log_defs = pd_init_def start_log_def setupInterrupt_def attach_log_def teardown_log_def free_log_def give_back_def


text \<open>A controller as made, and a machine on which everything goes well.\<close>

definition pd_new :: pcidev where
  "pd_new = (pd_demo mlme_init)\<lparr>pd_mlme := None, pd_enabled := False, pd_initialized := False, pd_iface := False,
     pd_txQueue := False, pd_intrSrc := False, pd_instance := False, pd_resume_cb := False, pd_debugTimer := False,
     pd_pciDev := False, pd_mmio := False, pd_workLoop := False, pd_cmdGate := False, pd_ops := False, pd_compatPciDev := None\<rparr>"

definition all_there :: start_answers where
  "all_there = no_workloop\<lparr>sa_workloop := True\<rparr>"


end
