(* ===== verification/Skbheap.thy ===== *)
theory Skbheap
  imports Layout
begin

text \<open>
  A socket buffer as two blocks of the heap: \<open>alloc_skb\<close>, \<open>kfree_skb\<close> and the functions that only call them,
  of \<open>linux/skbuff.h\<close>.  \<open>Skb\<close> has the operations on the bytes inside.  Fields are at the offsets that
  \<open>Layout\<close> computes; address 0 is the null pointer, and an access outside the structure is \<open>None\<close>.
\<close>

definition skb_at :: "string \<Rightarrow> nat" where
  "skb_at f = the (offsetof f sk_buff_members)"

definition alloc_skb_heap :: "io_malloc \<Rightarrow> u32 \<Rightarrow> u32 \<Rightarrow> kheap \<Rightarrow> (nat \<times> kheap) option" where
  "alloc_skb_heap alloc req priority h =
    (let alloc_size = req + 64
     in case kmalloc alloc (ucast alloc_size) priority h of
          (None, h) \<Rightarrow> Some (0, h)
        | (Some data, h) \<Rightarrow>
            (case kzalloc alloc (word_of_nat (c_sizeof sk_buff_members)) priority h of
               (None, h) \<Rightarrow> do { h \<leftarrow> kfree data h; Some (0, h) }
             | (Some skb, h) \<Rightarrow> do {
                 h \<leftarrow> wr64 skb (skb_at ''head'') (word_of_nat data) h;
                 h \<leftarrow> wr64 skb (skb_at ''data'') (word_of_nat data) h;
                 h \<leftarrow> wr64 skb (skb_at ''tail'') (word_of_nat data) h;
                 h \<leftarrow> wr64 skb (skb_at ''end'') (word_of_nat data + ucast alloc_size) h;
                 h \<leftarrow> wr_obj skb (skb_at ''len'') (bytes_le 4 0) h;
                 h \<leftarrow> wr64 skb (skb_at ''list'') (word_of_nat (skb + skb_at ''list'')) h;
                 h \<leftarrow> wr64 skb (skb_at ''list'' + 8) (word_of_nat (skb + skb_at ''list'')) h;
                 Some (skb, h) }))"

definition dev_alloc_skb :: "io_malloc \<Rightarrow> u32 \<Rightarrow> kheap \<Rightarrow> (nat \<times> kheap) option" where
  "dev_alloc_skb alloc req h = alloc_skb_heap alloc req 0 h"

definition netdev_alloc_skb :: "io_malloc \<Rightarrow> u32 \<Rightarrow> kheap \<Rightarrow> (nat \<times> kheap) option" where
  "netdev_alloc_skb alloc req h = alloc_skb_heap alloc req 0 h"

definition kfree_skb :: "nat \<Rightarrow> kheap \<Rightarrow> kheap option" where
  "kfree_skb skb h =
    (if skb \<noteq> 0 then do {
       head \<leftarrow> rd64 skb (skb_at ''head'') h;
       h \<leftarrow> kfree (unat head) h;
       kfree skb h }
     else Some h)"

definition dev_kfree_skb :: "nat \<Rightarrow> kheap \<Rightarrow> kheap option" where "dev_kfree_skb skb h = kfree_skb skb h"
definition dev_kfree_skb_any :: "nat \<Rightarrow> kheap \<Rightarrow> kheap option" where "dev_kfree_skb_any skb h = kfree_skb skb h"
definition dev_kfree_skb_irq :: "nat \<Rightarrow> kheap \<Rightarrow> kheap option" where "dev_kfree_skb_irq skb h = kfree_skb skb h"
definition consume_skb :: "nat \<Rightarrow> kheap \<Rightarrow> kheap option" where "consume_skb skb h = kfree_skb skb h"

section \<open>Life of a buffer\<close>

lemma skb_offsets:
  "skb_at ''head'' = 0" "skb_at ''data'' = 8" "skb_at ''tail'' = 16" "skb_at ''end'' = 24" "skb_at ''len'' = 32"
  "skb_at ''list'' = 120" "c_sizeof sk_buff_members = 152"
  by code_simp+

text \<open>A buffer in the heap \<open>h\<close>: the structure, its data, and the blocks that are left when both are gone.\<close>

definition skb_in :: "kheap \<Rightarrow> nat \<Rightarrow> nat \<Rightarrow> nat \<Rightarrow> (nat \<rightharpoonup> nat) \<Rightarrow> bool" where
  "skb_in h skb data n blocks \<longleftrightarrow> heap_ok h \<and> obj h skb = Some 152 \<and> obj h data = Some n \<and> data \<noteq> skb \<and> data < 2 ^ 64 \<and>
     8 \<le> skb \<and> 8 \<le> data \<and> (kh_blocks h)(data - 8 := None, skb - 8 := None) = blocks"

lemma skb_in_write:
  assumes "skb_in h skb data n blocks" "off + length bs \<le> 152"
  shows "\<exists>h'. wr_obj skb off bs h = Some h' \<and> skb_in h' skb data n blocks \<and> kh_mem h' = store (skb + off) bs (kh_mem h)"
  using wr_obj_ok[of h skb 152 off bs] assms unfolding skb_in_def by auto

lemma skb_in_write64:
  assumes "skb_in h skb data n blocks" "off + 8 \<le> 152"
  shows "\<exists>h'. wr64 skb off v h = Some h' \<and> skb_in h' skb data n blocks \<and> kh_mem h' = store64 (skb + off) v (kh_mem h)"
  using skb_in_write[OF assms(1), of off "bytes_le 8 v"] assms(2) by (simp add: wr64_def store64_def)

lemma kfree_skb_ok:
  assumes "skb_in h skb data n blocks" "rd64 skb 0 h = Some (word_of_nat data)"
  shows "\<exists>h'. kfree_skb skb h = Some h' \<and> heap_ok h' \<and> kh_blocks h' = blocks"
proof -
  note a = assms(1)[unfolded skb_in_def]
  let ?h1 = "h\<lparr>kh_blocks := (kh_blocks h)(data - 8 := None)\<rparr>"
  have "kfree data h = Some ?h1" using kfree_obj a by blast
  moreover have "heap_ok ?h1" "obj ?h1 skb = Some 152" using a heap_ok_free obj_free[of data skb h] by auto
  ultimately show ?thesis using a assms(2) kfree_obj[of ?h1 skb 152] heap_ok_free[of ?h1 "skb - 8"]
    by (simp add: kfree_skb_def skb_offsets unat_addr)
qed

lemma obj_mem [simp]: "obj (h\<lparr>kh_mem := m\<rparr>) q = obj h q"
  by (simp add: obj_def)

text \<open>Whatever is written into the data, and into the structure behind its first field, across the borders
  of its parts too: the buffer can still be freed.\<close>

lemma scribble_store:
  assumes "\<forall>x. m x = m0 x \<or> p \<le> x \<and> x < p + k"
  shows "m = store p (load p k m) m0"
  using assms by (fastforce simp: fun_eq_iff store_def load_def)

definition behind_head :: "nat \<Rightarrow> nat \<Rightarrow> nat \<Rightarrow> nat \<Rightarrow> bool" where
  "behind_head skb data n x \<longleftrightarrow> skb + 8 \<le> x \<and> x < skb + 152 \<or> data \<le> x \<and> x < data + n"

lemma skb_in_scribble:
  assumes "skb_in h skb data n blocks" "\<forall>x. m x = kh_mem h x \<or> behind_head skb data n x"
  shows "skb_in (h\<lparr>kh_mem := m\<rparr>) skb data n blocks" "load64 skb m = load64 skb (kh_mem h)"
proof -
  define m1 where "m1 = (\<lambda>x. if skb + 8 \<le> x \<and> x < skb + 152 then m x else kh_mem h x)"
  have m1: "m1 = store (skb + 8) (load (skb + 8) 144 m1) (kh_mem h)"
    by (rule scribble_store) (simp add: m1_def)
  have m: "m = store data (load data n m) m1"
    by (rule scribble_store) (use assms(2) in \<open>auto simp: m1_def behind_head_def\<close>)
  note a = assms(1)[unfolded skb_in_def]
  have l: "length (load (skb + 8) 144 m1) = 144" "length (load data n m) = n" by (simp_all add: load_def)
  have "heap_ok (h\<lparr>kh_mem := m1\<rparr>)" using heap_ok_write[of h skb 152 8 "load (skb + 8) 144 m1"] a l m1[symmetric] by simp
  then have "heap_ok (h\<lparr>kh_mem := m\<rparr>)" "obj (h\<lparr>kh_mem := m1\<rparr>) data = Some n"
    using heap_ok_write[of "h\<lparr>kh_mem := m1\<rparr>" data n 0 "load data n m"] a l m[symmetric] by (auto simp: obj_def)
  then show "skb_in (h\<lparr>kh_mem := m\<rparr>) skb data n blocks" using a by (simp add: skb_in_def)
  have "load64 (skb + 0) (store (data + 0) (load data n m) m1) = load64 (skb + 0) m1"
    by (rule load64_objs[of h data n skb 152]) (use a l in auto)
  then have "load64 skb m = load64 skb m1" using m[symmetric] by simp
  also have "\<dots> = load64 skb (kh_mem h)" by (subst m1) (simp add: load64_store)
  finally show "load64 skb m = load64 skb (kh_mem h)" .
qed

lemma alloc_skb_cases:
  assumes "heap_ok h" "io_malloc_ok alloc" "req < - 64"
  obtains (failed) h1 where "alloc_skb_heap alloc req prio h = Some (0, h1)" "heap_ok h1" "kh_blocks h1 = kh_blocks h"
  | (done_) skb data h1 where "alloc_skb_heap alloc req prio h = Some (skb, h1)"
      "skb_in h1 skb data (unat req + 64) (kh_blocks h)"
      "map (\<lambda>f. load64 (skb + skb_at f) (kh_mem h1)) [''head'', ''data'', ''tail'', ''end''] =
        map word_of_nat [data, data, data, data + (unat req + 64)]"
      "load64 (skb + skb_at ''list'') (kh_mem h1) = word_of_nat (skb + skb_at ''list'')"
      "load64 (skb + skb_at ''list'' + 8) (kh_mem h1) = word_of_nat (skb + skb_at ''list'')"
proof -
  have n: "unat (req + 64) = unat req + 64"
  proof -
    have "unat (- 64 :: u32) = 2 ^ 32 - 64" by simp
    then have "unat req + 64 < 2 ^ 32" using assms(3) by (simp only: word_less_nat_alt)
    then show ?thesis by (simp add: unat_word_ariths)
  qed
  define sz :: u64 where "sz = ucast (req + 64)"
  have u: "unat sz = unat req + 64"
    using n unsigned_less[of "req + 64", where ?'a = nat] by (simp add: sz_def unat_ucast_mod)
  moreover have "unat (- 8 :: u64) = 2 ^ 64 - 8" by simp
  ultimately have sz: "unat sz = unat req + 64" "sz < - 8" "0 < unat sz"
    using unsigned_less[of req, where ?'a = nat] by (simp_all only: word_less_nat_alt) simp_all
  obtain r h1 where k: "kmalloc alloc sz prio h = (r, h1)" by fastforce
  show thesis
  proof (cases r)
    case None
    then show thesis using failed kmalloc_new[OF assms(1,2) sz(2,3) k] assms(1) k
      by (simp add: alloc_skb_heap_def sz_def)
  next
    case (Some data)
    then have d: "heap_ok h1" "obj h1 data = Some (unat req + 64)" "8 \<le> data" "data < 2 ^ 64"
      "kh_blocks h1 = (kh_blocks h)(data - 8 \<mapsto> unat req + 72)" "kh_blocks h (data - 8) = None"
      using kmalloc_new[OF assms(1,2) sz(2,3) k] by (auto simp: sz(1))
    obtain r2 h2 where z: "kzalloc alloc 152 prio h1 = (r2, h2)" by fastforce
    note z' = kzalloc_new[OF d(1) assms(2) _ _ z]
    show thesis
    proof (cases r2)
      case None
      then have "h2 = h1" using z' by (simp add: word_less_nat_alt)
      moreover have b: "(kh_blocks h1)(data - 8 := None) = kh_blocks h" by (simp add: d(5,6) fun_upd_idem)
      then have "kfree data h1 = Some (h1\<lparr>kh_blocks := kh_blocks h\<rparr>)" "heap_ok (h1\<lparr>kh_blocks := kh_blocks h\<rparr>)"
        using kfree_obj[OF d(1,2)] heap_ok_free[OF d(1), of "data - 8"] by simp_all
      ultimately show thesis
        using failed[of "h1\<lparr>kh_blocks := kh_blocks h\<rparr>"] k \<open>r = Some data\<close> z None
        by (simp add: alloc_skb_heap_def sz_def skb_offsets)
    next
      case (Some skb)
      then have s: "heap_ok h2" "obj h2 skb = Some 152" "8 \<le> skb" "kh_blocks h2 = (kh_blocks h1)(skb - 8 \<mapsto> 160)"
        "kh_blocks h1 (skb - 8) = None" "data \<noteq> skb" "obj h2 data = Some (unat req + 64)"
        using z' d(2) by (auto simp: word_less_nat_alt)
      have "kh_blocks h (skb - 8) = None" using s(5) d(5) by (auto split: if_splits)
      then have i: "skb_in h2 skb data (unat req + 64) (kh_blocks h)"
        unfolding skb_in_def using s d by (auto simp: fun_eq_iff)
      note w = skb_in_write64[where data = data and n = "unat req + 64" and blocks = "kh_blocks h"]
      let ?d = "word_of_nat data :: u64" and ?l = "word_of_nat (skb + 120) :: u64"
      obtain h3 where 3: "wr64 skb 0 ?d h2 = Some h3" "skb_in h3 skb data (unat req + 64) (kh_blocks h)"
        "kh_mem h3 = store64 skb ?d (kh_mem h2)" using w[OF i, of 0 ?d] by auto
      obtain h4 where 4: "wr64 skb 8 ?d h3 = Some h4" "skb_in h4 skb data (unat req + 64) (kh_blocks h)"
        "kh_mem h4 = store64 (skb + 8) ?d (kh_mem h3)" using w[OF 3(2), of 8 ?d] by auto
      obtain h5 where 5: "wr64 skb 16 ?d h4 = Some h5" "skb_in h5 skb data (unat req + 64) (kh_blocks h)"
        "kh_mem h5 = store64 (skb + 16) ?d (kh_mem h4)" using w[OF 4(2), of 16 ?d] by auto
      obtain h6 where 6: "wr64 skb 24 (?d + sz) h5 = Some h6" "skb_in h6 skb data (unat req + 64) (kh_blocks h)"
        "kh_mem h6 = store64 (skb + 24) (?d + sz) (kh_mem h5)" using w[OF 5(2), of 24 "?d + sz"] by auto
      obtain h7 where 7: "wr_obj skb 32 (bytes_le 4 0) h6 = Some h7" "skb_in h7 skb data (unat req + 64) (kh_blocks h)"
        "kh_mem h7 = store (skb + 32) (bytes_le 4 0) (kh_mem h6)"
        using skb_in_write[OF 6(2), of 32 "bytes_le 4 0"] by auto
      obtain h8 where 8: "wr64 skb 120 ?l h7 = Some h8" "skb_in h8 skb data (unat req + 64) (kh_blocks h)"
        "kh_mem h8 = store64 (skb + 120) ?l (kh_mem h7)" using w[OF 7(2), of 120 ?l] by auto
      obtain h9 where 9: "wr64 skb 128 ?l h8 = Some h9" "skb_in h9 skb data (unat req + 64) (kh_blocks h)"
        "kh_mem h9 = store64 (skb + 128) ?l (kh_mem h8)" using w[OF 8(2), of 128 ?l] by auto
      have "(word_of_nat (unat sz) :: u64) = sz" by simp
      then have e: "?d + sz = word_of_nat (data + (unat req + 64))" unfolding sz(1) of_nat_add by simp
      show thesis
      proof (rule done_)
        show "alloc_skb_heap alloc req prio h = Some (skb, h9)"
          using k \<open>r = Some data\<close> z Some 3(1) 4(1) 5(1) 6(1) 7(1) 8(1) 9(1)
          by (simp add: alloc_skb_heap_def sz_def skb_offsets del: of_nat_add)
      qed (simp_all add: 9(2) skb_offsets e 9(3) 8(3) 7(3) 6(3) 5(3) 4(3) 3(3) load64_store64_other load64_store add.assoc del: of_nat_add)
    qed
  qed
qed

lemma kfree_skb_scribbled:
  assumes "skb_in h skb data n blocks" "load64 skb (kh_mem h) = word_of_nat data"
    "\<forall>x. m x = kh_mem h x \<or> behind_head skb data n x"
  shows "\<exists>h'. kfree_skb skb (h\<lparr>kh_mem := m\<rparr>) = Some h' \<and> heap_ok h' \<and> kh_blocks h' = blocks"
proof (rule kfree_skb_ok[OF skb_in_scribble(1)[OF assms(1,3)]])
  have "obj (h\<lparr>kh_mem := m\<rparr>) skb = Some 152" using assms(1) by (simp add: skb_in_def)
  from rd64_obj[OF this, of 0] show "rd64 skb 0 (h\<lparr>kh_mem := m\<rparr>) = Some (word_of_nat data)"
    using skb_in_scribble(2)[OF assms(1,3)] assms(2) by simp
qed

text \<open>The memory of a buffer.  \<open>alloc_skb\<close> gives both blocks or leaves the heap's blocks as they were; the
  structure points to data that are 64 bytes longer than asked for, empty, and is linked to itself.
  Whatever is then written to the data and to the structure behind its first field, freeing it succeeds, with
  the sizes the blocks were allocated with, and the heap has the blocks it had before.\<close>

theorem skb_alloc_free:
  assumes "heap_ok h" "io_malloc_ok alloc" "req < - 64"
  shows "\<exists>skb h1. alloc_skb_heap alloc req prio h = Some (skb, h1) \<and>
    (skb = 0 \<longrightarrow> kh_blocks h1 = kh_blocks h \<and> kfree_skb skb h1 = Some h1) \<and>
    (skb \<noteq> 0 \<longrightarrow> (\<exists>data. obj h1 data = Some (unat req + 64) \<and>
      map (\<lambda>f. load64 (skb + skb_at f) (kh_mem h1)) [''head'', ''data'', ''tail'', ''end'', ''list''] =
        map word_of_nat [data, data, data, data + (unat req + 64), skb + skb_at ''list''] \<and>
      (\<forall>m. (\<forall>x. m x = kh_mem h1 x \<or> behind_head skb data (unat req + 64) x) \<longrightarrow>
        (\<exists>h2. kfree_skb skb (h1\<lparr>kh_mem := m\<rparr>) = Some h2 \<and> heap_ok h2 \<and> kh_blocks h2 = kh_blocks h))))"
  using assms
proof (cases rule: alloc_skb_cases[where prio = prio])
  case (failed h1)
  then show ?thesis by (simp add: kfree_skb_def)
next
  case (done_ skb data h1)
  have "load64 skb (kh_mem h1) = word_of_nat data" using done_(3) by (simp add: skb_offsets)
  from kfree_skb_scribbled[OF done_(2) this] done_ show ?thesis by (auto simp: skb_in_def)
qed

text \<open>So it can after \<open>txDataFrame\<close> has written more than the control block holds.\<close>

lemma sent_skb_freed:
  assumes "skb_in h skb data n blocks" "load64 skb (kh_mem h) = word_of_nat data"
  shows "\<exists>h'. kfree_skb skb (h\<lparr>kh_mem := fill_tx_info agg five vif sta hw_key skb (kh_mem h)\<rparr>) = Some h' \<and>
    heap_ok h' \<and> kh_blocks h' = blocks"
proof (rule kfree_skb_scribbled[OF assms], rule allI)
  fix x
  show "fill_tx_info agg five vif sta hw_key skb (kh_mem h) x = kh_mem h x \<or> behind_head skb data n x"
    using fill_tx_info_frame[of agg five vif sta hw_key skb "kh_mem h" x] by (auto simp: behind_head_def)
qed

text \<open>A request of almost 4 GB wraps around and gets a few bytes.\<close>

lemma alloc_skb_wraps: "- 64 \<le> req \<Longrightarrow> unat (req + 64 :: u32) < 64"
proof -
  assume "- 64 \<le> req"
  then have "unat (- 64 :: u32) \<le> unat req" by (simp only: word_le_nat_alt)
  then have "2 ^ 32 \<le> unat req + 64" by simp
  then show ?thesis using unsigned_less[of req, where ?'a = nat] by (simp add: unat_word_ariths le_mod_geq)
qed

lemma skb_alloc_free_witness:
  "let h = cg_heap compat_demo in
    \<exists>skb h1. alloc_skb_heap two_places 1500 0 h = Some (skb, h1) \<and>
    (skb = 0 \<longrightarrow> kh_blocks h1 = kh_blocks h \<and> kfree_skb skb h1 = Some h1) \<and>
    (skb \<noteq> 0 \<longrightarrow> (\<exists>data. obj h1 data = Some (unat (1500 :: u32) + 64) \<and>
      map (\<lambda>f. load64 (skb + skb_at f) (kh_mem h1)) [''head'', ''data'', ''tail'', ''end'', ''list''] =
        map word_of_nat [data, data, data, data + (unat (1500 :: u32) + 64), skb + skb_at ''list''] \<and>
      (\<forall>m. (\<forall>x. m x = kh_mem h1 x \<or> behind_head skb data (unat (1500 :: u32) + 64) x) \<longrightarrow>
        (\<exists>h2. kfree_skb skb (h1\<lparr>kh_mem := m\<rparr>) = Some h2 \<and> heap_ok h2 \<and> kh_blocks h2 = kh_blocks h))))"
  unfolding Let_def by (rule skb_alloc_free[OF compat_demo_ok two_places_ok]) (simp add: word_less_nat_alt)

end
