(* ===== verification/Shims.thy ===== *)
theory Shims
  imports Skbheap Kern Pcidev
begin

text \<open>
  The remaining helpers the hardware driver is given that compute something: arithmetic of
  \<open>linux/kernel.h\<close>, capability flags of the hardware object, network devices and object caches on the heap
  (\<open>netdevice.h\<close>, \<open>slab.h\<close>), DMA calls with and without the table of operations, queues without a lock, the
  waiting macros, SDIO and LEDs, and the functions of mac80211 that always give the same answer.
\<close>

section \<open>Arithmetic\<close>

text \<open>The macros that take a type are at \<open>u32\<close>.\<close>

text \<open>Dividing by 0, and the most negative number by -1, traps.\<close>

definition div_s64 :: "64 word \<Rightarrow> 32 word \<Rightarrow> 32 word option" where
  "div_s64 dividend divisor =
    (let n = sint dividend; d = sint divisor
     in if d = 0 \<or> (n = - (2 ^ 63) \<and> d = - 1) then None else Some (word_of_int (sgn n * sgn d * (\<bar>n\<bar> div \<bar>d\<bar>))))"

definition min_t :: "u32 \<Rightarrow> u32 \<Rightarrow> u32" where "min_t a b = (if a < b then a else b)"
definition max_t :: "u32 \<Rightarrow> u32 \<Rightarrow> u32" where "max_t a b = (if a > b then a else b)"
definition clamp_t :: "u32 \<Rightarrow> u32 \<Rightarrow> u32 \<Rightarrow> u32" where "clamp_t val lo hi = min_t (max_t val lo) hi"
definition DIV_ROUND_CLOSEST :: "u32 \<Rightarrow> u32 \<Rightarrow> u32" where "DIV_ROUND_CLOSEST n d = (n + d div 2) div d"
definition DIV_ROUND_DOWN :: "u32 \<Rightarrow> u32 \<Rightarrow> u32" where "DIV_ROUND_DOWN n d = n div d"
definition ilog2 :: "u32 \<Rightarrow> int" where "ilog2 n = int (fls32 n) - 1"

lemma div_nearest:
  assumes "0 < (d :: nat)"
  shows "2 * \<bar>int ((n + d div 2) div d) * int d - int n\<bar> \<le> int d"
proof -
  define q where "q = (n + d div 2) div d"
  have "q * d \<le> n + d div 2" "n + d div 2 < d + q * d"
    using dividend_less_div_times[OF assms] by (simp_all add: q_def)
  then have "2 * int (q * d) \<le> 2 * int n + int d" "2 * int n \<le> int d + 2 * int (q * d)" by linarith+
  then show ?thesis by (auto simp: q_def[symmetric] abs_if)
qed

text \<open>The result is a nearest integer, as long as the sum does not wrap.\<close>

lemma DIV_ROUND_CLOSEST_nearest:
  assumes "0 < d" "unat n + unat d div 2 < 2 ^ 32"
  shows "2 * \<bar>int (unat (DIV_ROUND_CLOSEST n d)) * int (unat d) - int (unat n)\<bar> \<le> int (unat d)"
proof -
  have "unat (DIV_ROUND_CLOSEST n d) = (unat n + unat d div 2) div unat d"
    using assms(2) by (simp add: DIV_ROUND_CLOSEST_def unat_div unat_word_ariths)
  moreover have "0 < unat d" using assms(1) by (simp only: word_less_nat_alt unat_0)
  ultimately show ?thesis using div_nearest by (simp only:)
qed

lemma DIV_ROUND_CLOSEST_wraps: "DIV_ROUND_CLOSEST 0xFFFFFFFF 2 = 0"
  by (simp add: DIV_ROUND_CLOSEST_def)

lemma clamp_t_between: "lo \<le> hi \<Longrightarrow> lo \<le> clamp_t val lo hi \<and> clamp_t val lo hi \<le> hi \<and> (lo \<le> val \<and> val \<le> hi \<longrightarrow> clamp_t val lo hi = val)"
  by (auto simp: clamp_t_def min_t_def max_t_def)

section \<open>Capability flags\<close>

datatype hw_flag = RX_INCLUDES_FCS | SIGNAL_DBM | SPECTRUM_MGMT | REPORTS_TX_ACK_STATUS | MFP_CAPABLE | SUPPORTS_PS
  | SUPPORTS_DYNAMIC_PS | AMPDU_AGGREGATION | SUPPORT_FAST_XMIT | SUPPORTS_AMSDU_IN_AMPDU | HAS_RATE_CONTROL | TX_AMSDU
  | SINGLE_SCAN_ON_ALL_BANDS | WANT_MONITOR_VIF | NO_AUTO_VIF | SW_CRYPTO_CONTROL

fun hw_flag_bit :: "hw_flag \<Rightarrow> nat" where
  "hw_flag_bit RX_INCLUDES_FCS = 0"
| "hw_flag_bit SIGNAL_DBM = 1"
| "hw_flag_bit SPECTRUM_MGMT = 2"
| "hw_flag_bit REPORTS_TX_ACK_STATUS = 3"
| "hw_flag_bit MFP_CAPABLE = 4"
| "hw_flag_bit SUPPORTS_PS = 5"
| "hw_flag_bit SUPPORTS_DYNAMIC_PS = 6"
| "hw_flag_bit AMPDU_AGGREGATION = 7"
| "hw_flag_bit SUPPORT_FAST_XMIT = 8"
| "hw_flag_bit SUPPORTS_AMSDU_IN_AMPDU = 9"
| "hw_flag_bit HAS_RATE_CONTROL = 10"
| "hw_flag_bit TX_AMSDU = 11"
| "hw_flag_bit SINGLE_SCAN_ON_ALL_BANDS = 12"
| "hw_flag_bit WANT_MONITOR_VIF = 13"
| "hw_flag_bit NO_AUTO_VIF = 14"
| "hw_flag_bit SW_CRYPTO_CONTROL = 15"

definition ieee80211_hw_set :: "u32 \<Rightarrow> hw_flag \<Rightarrow> u32" where
  "ieee80211_hw_set flags flg = flags OR push_bit (hw_flag_bit flg) 1"

definition ieee80211_hw_check :: "u32 \<Rightarrow> hw_flag \<Rightarrow> u32" where
  "ieee80211_hw_check flags flg = flags AND push_bit (hw_flag_bit flg) 1"

lemma hw_flag_bit_inj: "hw_flag_bit f = hw_flag_bit g \<longleftrightarrow> f = g"
  by (cases f; cases g) simp_all

lemma hw_flag_bit_less: "hw_flag_bit f < 32" by (cases f) simp_all

lemma hw_check_bit: "ieee80211_hw_check flags f \<noteq> 0 \<longleftrightarrow> bit flags (hw_flag_bit f)"
proof -
  have "ieee80211_hw_check flags f = (if bit flags (hw_flag_bit f) then push_bit (hw_flag_bit f) 1 else 0)"
    by (rule bit_word_eqI) (auto simp: ieee80211_hw_check_def bit_simps)
  moreover have "(push_bit (hw_flag_bit f) 1 :: u32) \<noteq> 0"
  proof
    assume "(push_bit (hw_flag_bit f) 1 :: u32) = 0"
    then show False using hw_flag_bit_less[of f] by simp
  qed
  ultimately show ?thesis by simp
qed

text \<open>A flag is found set exactly if it was set: the flags do not share bits.\<close>

lemma hw_check_set: "ieee80211_hw_check (ieee80211_hw_set flags f) g \<noteq> 0 \<longleftrightarrow> g = f \<or> ieee80211_hw_check flags g \<noteq> 0"
  using hw_flag_bit_less[of g] unfolding hw_check_bit
  by (auto simp: ieee80211_hw_set_def bit_simps hw_flag_bit_inj)

section \<open>Objects on the heap\<close>

definition kmem_cache_create :: "io_malloc \<Rightarrow> u64 \<Rightarrow> u64 \<Rightarrow> kheap \<Rightarrow> (nat \<times> kheap) option" where
  "kmem_cache_create alloc name obj_size h =
    (case kzalloc alloc (word_of_nat (c_sizeof kmem_cache_members)) 0 h of
       (None, h) \<Rightarrow> Some (0, h)
     | (Some c, h) \<Rightarrow> do { h \<leftarrow> wr64 c 0 obj_size h; h \<leftarrow> wr64 c 8 name h; Some (c, h) })"

definition kmem_cache_destroy :: "nat \<Rightarrow> kheap \<Rightarrow> kheap option" where "kmem_cache_destroy c h = kfree c h"

text \<open>The sum is taken after the signed argument is widened.\<close>

definition alloc_netdev :: "io_malloc \<Rightarrow> 32 word \<Rightarrow> kheap \<Rightarrow> nat option \<times> kheap" where
  "alloc_netdev alloc sizeof_priv h = kzalloc alloc (word_of_nat (c_sizeof net_device_members) + scast sizeof_priv) 0 h"

definition alloc_netdev_dummy :: "io_malloc \<Rightarrow> 32 word \<Rightarrow> kheap \<Rightarrow> nat option \<times> kheap" where
  "alloc_netdev_dummy alloc sizeof_priv h = kzalloc alloc (word_of_nat (c_sizeof net_device_members) + scast sizeof_priv) 0 h"

definition free_netdev :: "nat \<Rightarrow> kheap \<Rightarrow> kheap option" where "free_netdev dev h = kfree dev h"
definition netdev_priv :: "nat \<Rightarrow> nat" where "netdev_priv dev = dev + c_sizeof net_device_members"

text \<open>\<open>src\<close>: the bytes at the source, if it is not null.\<close>

definition devm_kmemdup_array :: "io_malloc \<Rightarrow> bytes option \<Rightarrow> u64 \<Rightarrow> u64 \<Rightarrow> kheap \<Rightarrow> nat option \<times> kheap" where
  "devm_kmemdup_array alloc src n sz h =
    (case kmalloc alloc (n * sz) 0 h of
       (None, h) \<Rightarrow> (None, h)
     | (Some p, h) \<Rightarrow>
         (Some p, case src of None \<Rightarrow> h | Some bs \<Rightarrow> h\<lparr>kh_mem := store p (take (unat (n * sz)) bs) (kh_mem h)\<rparr>))"

lemma netdev_layout: "c_sizeof net_device_members = 40" "c_sizeof kmem_cache_members = 16"
  by code_simp+

text \<open>The private area of a network device lies in the object, and freeing the device frees it.\<close>

lemma netdev_life:
  assumes "heap_ok h" "io_malloc_ok alloc" "unat n < 2 ^ 31" "alloc_netdev alloc n h = (Some dev, h1)"
  shows "obj h1 dev = Some (netdev_priv dev - dev + unat n) \<and> map_option kh_blocks (free_netdev dev h1) = Some (kh_blocks h)"
proof -
  have i: "int (unat n) = uint n" by simp
  have "uint n < 2 ^ 31" unfolding i[symmetric] using assms(3) by (simp only: of_nat_less_numeral_power_cancel_iff)
  then have "sint n = int (unat n)" unfolding i sint_uint by (intro signed_take_bit_int_eq_self) (simp_all add: order_trans[OF _ uint_ge_0])
  then have "(scast n :: u64) = word_of_nat (unat n)" by (metis of_int_of_nat_eq of_int_sint)
  then have e: "(word_of_nat (c_sizeof net_device_members) + scast n :: u64) = word_of_nat (40 + unat n)"
    by (simp add: netdev_layout)
  have u: "unat (word_of_nat (40 + unat n) :: u64) = 40 + unat n" using assms(3) by (intro unat_addr) simp
  have k: "kzalloc alloc (word_of_nat (40 + unat n)) 0 h = (Some dev, h1)"
    using assms(4) unfolding alloc_netdev_def e .
  have "(word_of_nat (40 + unat n) :: u64) < - 8"
    unfolding word_less_nat_alt u using assms(3) by simp
  from kzalloc_new[OF assms(1,2) this _ k] have d: "heap_ok h1" "obj h1 dev = Some (40 + unat n)"
    "kh_blocks h1 = (kh_blocks h)(dev - 8 \<mapsto> 40 + unat n + 8)" "kh_blocks h (dev - 8) = None"
    unfolding u by auto
  then show ?thesis using kfree_obj[OF d(1,2)]
    by (simp add: netdev_priv_def netdev_layout free_netdev_def fun_upd_idem)
qed

text \<open>A cache holds what it was created with, and destroying it frees it.\<close>

lemma kmem_cache_life:
  assumes "heap_ok h" "io_malloc_ok alloc" "kmem_cache_create alloc name n h = Some (c, h1)" "c \<noteq> 0"
  shows "load64 c (kh_mem h1) = n \<and> load64 (c + 8) (kh_mem h1) = name \<and>
    map_option kh_blocks (kmem_cache_destroy c h1) = Some (kh_blocks h)"
proof -
  obtain r h0 where k: "kzalloc alloc 16 0 h = (r, h0)" by fastforce
  moreover have "r = Some c" using assms(3,4) k by (auto simp: kmem_cache_create_def netdev_layout split: option.splits Option.bind_splits)
  ultimately have k: "kzalloc alloc 16 0 h = (Some c, h0)" by simp
  then have d: "heap_ok h0" "obj h0 c = Some 16" "kh_blocks h0 = (kh_blocks h)(c - 8 \<mapsto> 24)" "kh_blocks h (c - 8) = None"
    using kzalloc_new[OF assms(1,2) _ _ k] by (auto simp: word_less_nat_alt)
  obtain h2 where 2: "wr64 c 0 n h0 = Some h2" "heap_ok h2" "kh_blocks h2 = kh_blocks h0" "kh_mem h2 = store64 c n (kh_mem h0)"
    "obj h2 c = Some 16" using wr_obj_ok[OF d(1,2), of 0 "bytes_le 8 n"] d(2) by (auto simp: wr64_def store64_def)
  obtain h3 where 3: "wr64 c 8 name h2 = Some h3" "heap_ok h3" "kh_blocks h3 = kh_blocks h2"
    "kh_mem h3 = store64 (c + 8) name (kh_mem h2)" "obj h3 c = Some 16"
    using wr_obj_ok[OF 2(2,5), of 8 "bytes_le 8 name"] 2(5) by (auto simp: wr64_def store64_def)
  have "h3 = h1" using assms(3) k 2(1) 3(1) by (simp add: kmem_cache_create_def netdev_layout)
  then show ?thesis using kfree_obj[OF 3(2,5)] d(3,4) 2(3,4) 3(3,4)
    by (simp add: kmem_cache_destroy_def load64_store64_other fun_upd_idem)
qed

section \<open>DMA with and without operations\<close>

text \<open>\<open>ops\<close>: the table is installed; without it the memory goes back to the heap.\<close>

definition dma_free_coherent :: "bool \<Rightarrow> bool \<Rightarrow> bool \<Rightarrow> nat \<Rightarrow> dma \<times> kheap \<Rightarrow> (dma \<times> kheap) option" where
  "dma_free_coherent ops inst pe cpu_addr dh =
    (case dh of (d, h) \<Rightarrow>
       if ops then Some (compat_dma_free inst pe cpu_addr d, h) else do { h \<leftarrow> kfree cpu_addr h; Some (d, h) })"

definition dma_sync_single_for_device :: "bool \<Rightarrow> nat \<Rightarrow> nat \<Rightarrow> nat \<Rightarrow> dma \<Rightarrow> dma" where
  "dma_sync_single_for_device ops addr sz dir d = (if ops then compat_dma_sync_dev addr sz dir d else d)"

text \<open>Memory that was taken from the heap because there was no table is not given back if the table has
  been installed meanwhile: the operation looks for it among its own buffers.\<close>

lemma freed_by_the_other_one:
  assumes "\<forall>e \<in> set (dm_list d). de_virt e \<noteq> p"
  shows "dma_free_coherent True inst pe p (d, h) = Some (d, h)"
proof -
  have "unlink_first (\<lambda>e. de_virt e = p) es = (None, es)" if "\<forall>e \<in> set es. de_virt e \<noteq> p" for es :: "dma_entry list"
    using that by (induction es) auto
  with assms show ?thesis by (simp add: dma_free_coherent_def compat_dma_free_def freeCoherent_def dispose_def)
qed

section \<open>Queues without a lock\<close>

definition skb_queue_tail_unlocked :: "node \<Rightarrow> skb_queue \<Rightarrow> skb_queue option" where
  "skb_queue_tail_unlocked skb sq =
    (case sq of (s, q) \<Rightarrow> do {
       s \<leftarrow> list_add_tail skb (qh_list q) s; Some (s, q\<lparr>qh_qlen := qh_qlen q + 1\<rparr>) })"

definition skb_unlink_unlocked :: "node \<Rightarrow> skb_queue \<Rightarrow> skb_queue option" where
  "skb_unlink_unlocked skb sq =
    (case sq of (s, q) \<Rightarrow> do { s \<leftarrow> list_del skb s; Some (s, q\<lparr>qh_qlen := qh_qlen q - 1\<rparr>) })"

definition skb_tailroom_reserve :: "u32 \<Rightarrow> u32 \<Rightarrow> sk_buff \<Rightarrow> 32 word" where
  "skb_tailroom_reserve mtu needed_tailroom skb = skb_tailroom skb - needed_tailroom"

definition skb_clone :: "(nat \<Rightarrow> u8) \<Rightarrow> sk_buff \<Rightarrow> sk_buff option" where
  "skb_clone mem skb = skb_copy mem skb"

lemma unlocked: "skb_queue_tail_unlocked = skb_queue_tail" "skb_unlink_unlocked = skb_unlink"
  by (simp_all add: fun_eq_iff skb_queue_tail_unlocked_def skb_queue_tail_def skb_unlink_unlocked_def skb_unlink_def)

section \<open>Waiting that does not wait\<close>

text \<open>\<open>cond\<close>: the condition when it is evaluated, which is once.\<close>

definition wait_event_timeout :: "bool \<Rightarrow> u64 \<Rightarrow> int" where
  "wait_event_timeout cond to = (let _ = cond in 1)"

definition wait_event_interruptible :: "bool \<Rightarrow> int" where
  "wait_event_interruptible cond = (let _ = cond in 0)"

text \<open>What Linux promises of \<open>wait_event_timeout\<close>: the answer is positive only if the condition holds.
  Here it is positive also when it does not.\<close>

lemma wait_event_lies: "\<not> (\<forall>cond to. 0 < wait_event_timeout cond to \<longrightarrow> cond)"
  by (auto simp: wait_event_timeout_def)

section \<open>SDIO and LEDs\<close>

text \<open>\<open>c\<close>: the card, and its host with the capabilities: absent if the pointer is null.\<close>

definition MMC_CAP_UHS :: u32 where
  "MMC_CAP_UHS = push_bit 0 1 OR push_bit 1 1 OR push_bit 2 1 OR push_bit 3 1 OR push_bit 4 1"

definition mmc_card_uhs :: "u32 option option \<Rightarrow> bool" where
  "mmc_card_uhs c = (case c of Some (Some caps) \<Rightarrow> caps AND MMC_CAP_UHS \<noteq> 0 | _ \<Rightarrow> False)"

lemma mmc_card_uhs_iff: "mmc_card_uhs (Some (Some caps)) \<longleftrightarrow> (\<exists>n < 5. bit caps n)"
proof -
  have "MMC_CAP_UHS = mask 5" by code_simp
  then have "mmc_card_uhs (Some (Some caps)) \<longleftrightarrow> take_bit 5 caps \<noteq> 0"
    by (simp add: mmc_card_uhs_def take_bit_eq_mask)
  also have "\<dots> \<longleftrightarrow> (\<exists>n < 5. bit caps n)" by (force simp: bit_eq_iff bit_simps)
  finally show ?thesis .
qed

definition sdio_enable_func :: int where "sdio_enable_func = 0"
definition sdio_claim_irq :: int where "sdio_claim_irq = 0"

text \<open>The value read and the error that is stored, if there is a place for it.\<close>

definition sdio_readb :: "u32 \<Rightarrow> int option \<Rightarrow> u8 \<times> int option" where "sdio_readb a e = (0, map_option (\<lambda>_. - 5) e)"
definition sdio_readw :: "u32 \<Rightarrow> int option \<Rightarrow> u16 \<times> int option" where "sdio_readw a e = (0, map_option (\<lambda>_. - 5) e)"
definition sdio_readl :: "u32 \<Rightarrow> int option \<Rightarrow> u32 \<times> int option" where "sdio_readl a e = (0, map_option (\<lambda>_. - 5) e)"
definition sdio_writeb :: "u8 \<Rightarrow> u32 \<Rightarrow> int option \<Rightarrow> int option" where "sdio_writeb v a e = map_option (\<lambda>_. - 5) e"
definition sdio_writew :: "u16 \<Rightarrow> u32 \<Rightarrow> int option \<Rightarrow> int option" where "sdio_writew v a e = map_option (\<lambda>_. - 5) e"
definition sdio_writel :: "u32 \<Rightarrow> u32 \<Rightarrow> int option \<Rightarrow> int option" where "sdio_writel v a e = map_option (\<lambda>_. - 5) e"
definition sdio_memcpy_fromio :: "bytes \<Rightarrow> u32 \<Rightarrow> nat \<Rightarrow> int \<times> bytes" where "sdio_memcpy_fromio d a l = (- 5, d)"
definition sdio_memcpy_toio :: "u32 \<Rightarrow> bytes \<Rightarrow> nat \<Rightarrow> int" where "sdio_memcpy_toio a s l = - 5"
definition sdio_readsb :: "bytes \<Rightarrow> u32 \<Rightarrow> nat \<Rightarrow> int \<times> bytes" where "sdio_readsb d a l = (- 5, d)"

record led_classdev =
  ld_brightness :: int
  ld_brightness_set :: bool

text \<open>The calls of \<open>brightness_set\<close>.\<close>

definition led_set_brightness :: "led_classdev \<Rightarrow> int \<Rightarrow> int list \<times> led_classdev" where
  "led_set_brightness led b =
    (let led = led\<lparr>ld_brightness := b\<rparr> in (if ld_brightness_set led then [b] else [], led))"

section \<open>The same answer always\<close>

text \<open>Null pointers are \<open>None\<close>: there are no stations to find, no frames in the driver's queues, none to build.\<close>

definition ieee80211_find_sta :: "nat \<Rightarrow> bytes \<Rightarrow> nat option" where "ieee80211_find_sta vif addr = None"
definition ieee80211_find_sta_by_ifaddr :: "nat \<Rightarrow> bytes \<Rightarrow> bytes \<Rightarrow> nat option" where
  "ieee80211_find_sta_by_ifaddr hw addr localaddr = None"
definition ieee80211_tx_dequeue :: "nat \<Rightarrow> nat \<Rightarrow> nat option" where "ieee80211_tx_dequeue hw txq = None"
definition ieee80211_tx_dequeue_ni :: "nat \<Rightarrow> nat \<Rightarrow> nat option" where "ieee80211_tx_dequeue_ni hw txq = None"
definition ieee80211_txq_may_transmit :: "nat \<Rightarrow> nat \<Rightarrow> bool" where "ieee80211_txq_may_transmit hw txq = False"
definition ieee80211_txq_is_last :: "nat \<Rightarrow> nat \<Rightarrow> bool" where "ieee80211_txq_is_last hw txq = True"
definition ieee80211_beacon_get_tim :: "nat \<Rightarrow> nat \<Rightarrow> nat option" where "ieee80211_beacon_get_tim hw vif = None"
definition ieee80211_proberesp_get :: "nat \<Rightarrow> nat \<Rightarrow> nat option" where "ieee80211_proberesp_get hw vif = None"
definition ieee80211_probereq_get :: "nat \<Rightarrow> bytes \<Rightarrow> bytes \<Rightarrow> nat \<Rightarrow> nat option" where
  "ieee80211_probereq_get hw src_addr ssid tailroom = None"
definition ieee80211_start_tx_ba_session :: "nat \<Rightarrow> u16 \<Rightarrow> u16 \<Rightarrow> int" where
  "ieee80211_start_tx_ba_session sta tid timeout = - 95"
definition cfg80211_get_ies_channel_number :: "bytes \<Rightarrow> nat \<Rightarrow> int" where
  "cfg80211_get_ies_channel_number ie band = - 1"

text \<open>The interrupt is enabled again for the device that asked for interrupts, if any; the argument is
  \<open>exclude_rx\<close>.\<close>

datatype driver_call = RtwPciEnableInterrupt bool

definition rtw88_reenable_interrupt :: "irq \<Rightarrow> driver_call list" where
  "rtw88_reenable_interrupt q = (if g_irq_dev_id q then [RtwPciEnableInterrupt False] else [])"

lemma reenable_only_requested:
  "rtw88_reenable_interrupt (snd (rtw88_devm_request_threaded_irq a b True okay q)) = [RtwPciEnableInterrupt False]"
  "rtw88_reenable_interrupt (snd (rtw88_devm_free_irq q)) = []"
  by (simp_all add: rtw88_reenable_interrupt_def rtw88_devm_request_threaded_irq_def rtw88_devm_free_irq_def Let_def)

end
