(* ===== verification/Spec2Isabelle.thy ===== *)
theory Spec2Isabelle
  imports Prelude Bitops Reorder Sha1 Wpa Eapol Aes Keywrap Lists Skb Workqueue Timers Sync Frames
    Datapath Scan Mgmt Mlme MlmeInv MlmeProps Log Slab Dma Pci Pcidev User Ctl Fw Kern Owned
    Compat Drv Life Usb Pcimem Hexdump Shutdown Layout Hostif Skbheap Shims
begin

text \<open>
  The rtw88 wireless driver for macOS: a verified model.

  The program.  \<open>src/compat\<close> gives the vendored Linux driver rtw88 the kernel interfaces it expects, on top
  of IOKit: lists, socket buffers, work queues, timers, locks, memory, DMA, PCI and a small mac80211.
  \<open>src/kext\<close> is the kernel extension: \<open>RTW88PCIDevice\<close> is the network controller that owns the hardware,
  \<open>RTW88IEEE80211\<close> the 802.11 station (scanning, joining, WPA2, data, block acknowledgement), and
  \<open>RTW88UserClient\<close> the door for user space, which the tool in \<open>ctl\<close> uses.  A command of the tool goes through
  \<open>externalMethod\<close> to a command of the station; the station asks the hardware driver through callbacks and is
  told of received frames, timer events and finished scans; packets of the network stack enter at
  \<open>outputPacket\<close> and leave at \<open>injectRxFrame\<close>.

  How the code is modelled.  A C integer is a word of its width, a buffer is a list of bytes, and a copy or an
  access outside the object it belongs to makes the operation \<open>None\<close>, so that a theorem which says
  that an operation returns \<open>Some\<close> says that it is memory safe.  A structure is a record, an enumeration a
  datatype.  Linked structures whose aliasing matters (\<open>Lists\<close>, \<open>Skb\<close> queues, \<open>Workqueue\<close>) live in a store of
  pointers; the lists that only one function walks are lists.  State is passed explicitly.  What the hardware
  driver, IOKit, the allocator and the random source answer is an argument, for the station the record \<open>hw_io\<close>;
  what is asked of them is a list of calls in the state, in order.  Where threads meet, their steps are an
  inductive relation and the theorems are about every order of the steps.

  The theories.
  \<^item> \<open>Prelude\<close>: the types, slices and copies, checked reads and writes, and the lemmas on them.
  \<^item> \<open>Bitops\<close>: \<open>linux/bitops.h\<close>, \<open>bitfield.h\<close>, \<open>bcd.h\<close>, \<open>jiffies.h\<close>, \<open>asm/unaligned.h\<close>.  Word-wise
    searches against the bit they define.
  \<^item> \<open>Lists\<close>: \<open>list_head\<close> and \<open>hlist\<close> of \<open>linux/types.h\<close> on the pointer store; the locale \<open>fifo_queue\<close> is
    the contract of a queue built on them, which \<open>Skb\<close> discharges.
  \<^item> \<open>Skb\<close>: \<open>linux/skbuff.h\<close> and \<open>mbufToSkb\<close>.  The operations on headroom and tailroom refine
    operations on the payload.
  \<^item> \<open>Workqueue\<close>, \<open>Timers\<close>, \<open>Sync\<close>: the work queues, timers and delayed work of \<open>rtw88_compat.c\<close> and the locks of
    \<open>linux/completion.h\<close>, \<open>mutex.h\<close>, \<open>atomic.h\<close>, \<open>average.h\<close>.  Every queued item runs once; draining ends.
  \<^item> \<open>Slab\<close>: \<open>linux/slab.h\<close> on a store of bytes with the table of live blocks.
  \<^item> \<open>Log\<close>: the ring that \<open>printk\<close> writes and user space drains, a queue that keeps its newest bytes.
  \<^item> \<open>Kern\<close>: delays, polling, spin locks, tasklets and small helpers of \<open>linux/kernel.h\<close>, \<open>delay.h\<close>, \<open>iopoll.h\<close>,
    \<open>spinlock.h\<close>, \<open>interrupt.h\<close>, \<open>vmalloc.h\<close>.
  \<^item> \<open>Fw\<close>: \<open>rtw88_firmware.c\<close>; loading and releasing an image leaves the heap as it was.
  \<^item> \<open>Compat\<close>, \<open>Drv\<close>: the mac80211 side of \<open>rtw88_compat.c\<close> and \<open>net/mac80211.h\<close>: the hardware object on the
    heap of \<open>Slab\<close>, the callbacks through which frames reach the station, and the calls of the hardware driver for
    scanning and connecting, with the driver's mutex.
  \<^item> \<open>Sha1\<close>, \<open>Wpa\<close>, \<open>Eapol\<close>, \<open>Aes\<close>, \<open>Keywrap\<close>: the cryptography of \<open>RTW88IEEE80211.cpp\<close> against FIPS 180,
    RFC 2104, PBKDF2, the PRF of IEEE 802.11, FIPS 197 and RFC 3394, the selection of the RSN element, and the
    construction and check of EAPOL-Key frames.  \<open>keyed_mac\<close> and \<open>block_cipher\<close> are the interfaces the
    layers above rely on.
  \<^item> \<open>Frames\<close>, \<open>Datapath\<close>: 802.11 headers, encapsulation, delivery and de-aggregation.
  \<^item> \<open>Reorder\<close>: the receive window of block acknowledgement, against a window over sequence numbers.
  \<^item> \<open>Scan\<close>: beacons to the list of networks, its expiry, its encoding for user space and the decoder of \<open>ctl\<close>.
  \<^item> \<open>Mgmt\<close>: management frames, the choice of the channel width, the block-ack agreements.
  \<^item> \<open>Mlme\<close>, \<open>MlmeInv\<close>, \<open>MlmeProps\<close>: the station as a state machine: its operations, the step relation
    \<open>mlme_step\<close> with the states it reaches, the invariant of all of them, and what happens over several
    operations (joining, the handshake, timeouts, disconnecting).
  \<^item> \<open>Pci\<close>, \<open>Dma\<close>, \<open>Pcidev\<close>: \<open>RTW88PCIDevice.cpp\<close> with \<open>linux/pci.h\<close> and \<open>dma-mapping.h\<close>: configuration
    space, DMA and bounce buffers, the life cycle of the controller, flow control, interrupts and polling.
  \<^item> \<open>User\<close>, \<open>Ctl\<close>: \<open>RTW88UserClient.cpp\<close> and \<open>ctl/main.c\<close>.
  \<^item> \<open>Owned\<close>, \<open>Life\<close>: resources as a log of what is taken and given back; the creation, initialisation and
    release of the station object.
  \<^item> \<open>Usb\<close>, \<open>Pcimem\<close>: \<open>RTW88USBDevice.cpp\<close> with \<open>linux/usb.h\<close>; the device structure, register access and
    pages of \<open>linux/pci.h\<close>, \<open>device.h\<close> and \<open>dma-mapping.h\<close>.
  \<^item> \<open>Shutdown\<close>: \<open>rtw88_compat_exit\<close> with the queues it drains, and the module of \<open>kmod_info.c\<close>, which starts and
    ends the compatibility layer around the network controller, which does so too.
  \<^item> \<open>Hostif\<close>: what the controllers owe the operating system besides packets (media, filters, power, user
    clients), and the resources of the PCI controller from \<open>init\<close> to \<open>free\<close>.
  \<^item> \<open>Layout\<close>: the structures as the compiler lays them out on x86-64: the constants of the other theories are
    theirs, the kernel and the tool declare the same, and the control block of a buffer is too small.
  \<^item> \<open>Skbheap\<close>: a socket buffer as two blocks of the heap, from \<open>alloc_skb\<close> to \<open>kfree_skb\<close>.
  \<^item> \<open>Hexdump\<close>, \<open>Shims\<close>: \<open>rtw88_hex_dump\<close>, whose lines fit and can be read back; the remaining helpers that
    compute something, of \<open>linux/kernel.h\<close>, \<open>netdevice.h\<close>, \<open>slab.h\<close>, \<open>dma-mapping.h\<close>, \<open>sdio.h\<close>, \<open>leds.h\<close>,
    \<open>net/mac80211.h\<close> and \<open>rtw88_compat.c\<close>.

  What the theorems show.  Safety: parsers and copies stay inside their buffers for every input, calls from
  user space return for all arguments, every buffer handed out is released once, frames of the
  reorder buffer are delivered once and in order.  Equivalence: the hand-written cryptography computes the
  standards.  Round trips: what one side builds the other side reads back (EAPOL-Key frames, A-MSDUs, data
  frames, the list for user space, the connect request, key wrapping).  Liveness: a network that answers is
  joined, a handshake completes, a stalled queue is resumed, a silent peer is given up.  The
  properties of kind error prove behaviour that the code should not have, each on concrete inputs that show it.

  Bounds and fuel.  A loop that the code does not bound is a \<open>partial_function\<close>
  (\<open>cap_walk\<close>), and whether it returns is a theorem.  Walks of intrusive lists and the worker of a
  queue take a number of steps; the theorems show that the length of the list, and one more than the number of
  queued items, are enough.  All other loops
  are structural or have a measure.  Words keep the width of the code; times are in the units of the code.

  Not modelled.  The vendored driver and its firmware images are not part of the repository's own code and
  enter as answers of \<open>hw_io\<close>.  Registers are read and written by that driver only.  Printing to a
  terminal or to the system log is a list of lines.  zlib and the generated table of firmware images are arguments.
  Not definitions are functions of the compatibility layer with an empty body, shims that only redirect to IOKit,
  macros that only rename, and the types and constants that only the hardware driver uses.
\<close>

end
